(* ===== verification/Prelude.thy ===== *)
theory Prelude
  imports Main "HOL-Library.Word" "HOL-Library.AList" "HOL-Library.Multiset"
begin

text \<open>
  Shared vocabulary of the AtlasCache development: the machine types the Go code uses, and the
  facts about them and about association lists that several components need.

  \<^item> \<open>u64\<close> and \<open>u32\<close> are Go's \<open>uint64\<close> and \<open>uint32\<close>; their arithmetic wraps.
  \<^item> An \<open>int64\<close>, \<open>int\<close> or \<open>time.Duration\<close> is an \<open>int\<close>; where the code computes one that may
    overflow, the result is passed through \<open>i64\<close>, which wraps it to 64 bits.
  \<^item> Keys, values and wire data are byte strings: Isabelle's \<open>char\<close> is exactly one byte.
  \<^item> A Go map is an association list with distinct keys. The order of the list is never
    observable by itself: where the code ranges over a map, the order is an argument.
\<close>

unbundle bit_operations_syntax

type_synonym u64 = "64 word"
type_synonym u32 = "32 word"
type_synonym bytes = string

named_theorems acct_simps \<open>effect of an operation on the accounting\<close>
named_theorems inv_intros \<open>an operation preserves the invariant of its component\<close>

section \<open>Wrap-around of signed 64-bit integers\<close>

definition i64 :: "int \<Rightarrow> int" where
  "i64 x = (x + 2 ^ 63) mod 2 ^ 64 - 2 ^ 63"

abbreviation max_int64 :: int where "max_int64 \<equiv> 2 ^ 63 - 1"
abbreviation min_int64 :: int where "min_int64 \<equiv> - (2 ^ 63)"

lemma i64_id [simp]: "min_int64 \<le> x \<Longrightarrow> x \<le> max_int64 \<Longrightarrow> i64 x = x"
  by (simp add: i64_def)

lemma i64_range: "min_int64 \<le> i64 x \<and> i64 x \<le> max_int64"
proof -
  have "0 \<le> (x + 2 ^ 63) mod 2 ^ 64" "(x + 2 ^ 63) mod 2 ^ 64 < (2 ^ 64 :: int)"
    by simp_all
  then show ?thesis by (simp add: i64_def)
qed

lemma i64_over:
  assumes "max_int64 < x" and "x \<le> max_int64 + 2 ^ 64"
  shows "i64 x = x - 2 ^ 64"
proof -
  have "(x + 2 ^ 63) mod 2 ^ 64 = (x + 2 ^ 63 - 2 ^ 64) mod 2 ^ 64"
    by (rule minus_mod_self2 [symmetric])
  also have "\<dots> = x + 2 ^ 63 - 2 ^ 64"
    using assms by (intro mod_pos_pos_trivial) auto
  finally show ?thesis by (simp add: i64_def)
qed

section \<open>Words as numbers\<close>

lemma unat_u32_less: "unat (w :: u32) < 2 ^ 32"
  using unsigned_less [of w] by simp

lemma unat_u64_less: "unat (w :: u64) < 2 ^ 64"
  using unsigned_less [of w] by simp

lemma unat_ucast_u32 [simp]: "unat (ucast (w :: u32) :: u64) = unat w"
  by (simp add: unsigned_ucast_eq take_bit_nat_eq_self_iff less_trans [OF unat_u32_less])

lemma unat_plus_u64: "unat a + unat b < 2 ^ 64 \<Longrightarrow> unat (a + b :: u64) = unat a + unat b"
  by (simp add: unat_plus_if')

lemma unat_minus_u64: "b \<le> a \<Longrightarrow> unat (a - b :: u64) = unat a - unat b"
  by (simp add: unat_sub)

lemma unat_of_nat_u64 [simp]: "n < 2 ^ 64 \<Longrightarrow> unat (of_nat n :: u64) = n"
  by (simp add: unat_of_nat take_bit_nat_eq_self)

section \<open>Association lists with distinct keys\<close>

definition keys_distinct :: "('k \<times> 'v) list \<Rightarrow> bool" where
  "keys_distinct xs \<longleftrightarrow> distinct (map fst xs)"

lemma keys_distinct_Nil [simp]: "keys_distinct []"
  by (simp add: keys_distinct_def)

lemma keys_distinct_Cons [simp]:
  "keys_distinct ((k, v) # xs) \<longleftrightarrow> k \<notin> fst ` set xs \<and> keys_distinct xs"
  by (simp add: keys_distinct_def)

lemma keys_distinct_update [simp]: "keys_distinct xs \<Longrightarrow> keys_distinct (AList.update k v xs)"
  by (simp add: keys_distinct_def distinct_update)

lemma keys_distinct_delete [simp]: "keys_distinct xs \<Longrightarrow> keys_distinct (AList.delete k xs)"
  by (simp add: keys_distinct_def distinct_delete)

lemma map_of_update [simp]:
  "map_of (AList.update k v xs) k' = (if k' = k then Some v else map_of xs k')"
  by (simp add: update_conv')

lemma map_of_delete [simp]:
  "map_of (AList.delete k xs) k' = (if k' = k then None else map_of xs k')"
  by (simp add: delete_conv')

lemma map_of_None_fst: "map_of xs k = None \<longleftrightarrow> k \<notin> fst ` set xs"
  by (rule map_of_eq_None_iff)

text \<open>A quantity summed over the values of a map, and how the map operations change it.\<close>

definition vsum :: "('v \<Rightarrow> 'a::comm_monoid_add) \<Rightarrow> ('k \<times> 'v) list \<Rightarrow> 'a" where
  "vsum f xs = sum_list (map (\<lambda>kv. f (snd kv)) xs)"

lemma vsum_Nil [simp]: "vsum f [] = 0"
  by (simp add: vsum_def)

lemma vsum_Cons [simp]: "vsum f ((k, v) # xs) = f v + vsum f xs"
  by (simp add: vsum_def)

lemma delete_notin [simp]: "k \<notin> fst ` set xs \<Longrightarrow> AList.delete k xs = xs"
  by (induction xs) auto

lemma set_delete_subsetD: "x \<in> set (AList.delete k xs) \<Longrightarrow> x \<in> set xs"
  by (auto simp: AList.delete_eq)

lemma fst_set_delete: "fst ` set (AList.delete k xs) = fst ` set xs - {k}"
  by (auto simp: AList.delete_eq image_iff)

lemma fst_set_update: "fst ` set (AList.update k v xs) = insert k (fst ` set xs)"
  by (simp add: dom_map_of_conv_image_fst [symmetric] update_conv' dom_def set_eq_iff)

lemma set_update_distinct:
  "keys_distinct xs \<Longrightarrow> set (AList.update k v xs) = insert (k, v) {p \<in> set xs. fst p \<noteq> k}"
  by (induction xs) force+

lemma vsum_delete:
  "keys_distinct xs \<Longrightarrow> map_of xs k = Some v \<Longrightarrow> vsum f xs = f v + vsum f (AList.delete k xs)"
proof (induction xs)
  case (Cons a xs)
  then show ?case by (cases a) (auto simp: add.left_commute split: if_splits)
qed simp

lemma vsum_update_new:
  "map_of xs k = None \<Longrightarrow> vsum f (AList.update k v xs) = f v + vsum f xs"
  by (induction xs) (auto simp: ac_simps split: if_splits)

lemma vsum_update_old:
  "keys_distinct xs \<Longrightarrow> map_of xs k = Some w \<Longrightarrow>
     vsum f (AList.update k v xs) + f w = vsum f xs + f v"
proof (induction xs)
  case (Cons a xs)
  obtain k' v' where a: "a = (k', v')" by (cases a)
  show ?case
  proof (cases "k' = k")
    case True
    with Cons.prems a show ?thesis by (simp add: ac_simps)
  next
    case False
    with Cons a have "vsum f (AList.update k v xs) + f w = vsum f xs + f v" by simp
    then have "f v' + (vsum f (AList.update k v xs) + f w) = f v' + (vsum f xs + f v)"
      by simp
    with a False show ?thesis by (simp add: ac_simps)
  qed
qed simp

lemma vsum_delete_group:
  fixes f :: "'v \<Rightarrow> 'a::ab_group_add"
  shows "keys_distinct xs \<Longrightarrow> map_of xs k = Some v \<Longrightarrow> vsum f (AList.delete k xs) = vsum f xs - f v"
  by (simp add: vsum_delete)

lemma vsum_update_group:
  fixes f :: "'v \<Rightarrow> 'a::ab_group_add"
  shows "keys_distinct xs \<Longrightarrow> map_of xs k = Some w \<Longrightarrow>
     vsum f (AList.update k v xs) = vsum f xs - f w + f v"
  using vsum_update_old [of xs k w f v] by (simp add: eq_diff_eq diff_add_eq)

lemma vsum_update_same:
  "keys_distinct xs \<Longrightarrow> map_of xs k = Some w \<Longrightarrow> f v = f w \<Longrightarrow>
     vsum f (AList.update k v xs) = vsum f xs"
proof (induction xs)
  case (Cons a xs)
  then show ?case by (cases a) (auto split: if_splits)
qed simp

lemma vsum_member_le:
  fixes f :: "'v \<Rightarrow> nat"
  shows "map_of xs k = Some v \<Longrightarrow> f v \<le> vsum f xs"
  by (induction xs) (auto split: if_splits)

lemma vsum_nat_delete:
  fixes f :: "'v \<Rightarrow> nat"
  shows "keys_distinct xs \<Longrightarrow> map_of xs k = Some v \<Longrightarrow> vsum f (AList.delete k xs) = vsum f xs - f v"
  by (simp add: vsum_delete)

lemma vsum_nat_update:
  fixes f :: "'v \<Rightarrow> nat"
  shows "keys_distinct xs \<Longrightarrow> map_of xs k = Some w \<Longrightarrow>
     vsum f (AList.update k v xs) = vsum f xs - f w + f v"
  using vsum_update_old [of xs k w f v] vsum_member_le [of xs k w f] by simp

lemma vsum_filter_le:
  fixes f :: "'v \<Rightarrow> nat"
  shows "vsum f (filter P xs) \<le> vsum f xs"
  by (induction xs) (auto simp: trans_le_add2)

lemma find_SomeD: "find P xs = Some x \<Longrightarrow> x \<in> set xs \<and> P x"
  by (induction xs) (auto split: if_splits)

lemma find_None: "find P xs = None \<longleftrightarrow> (\<forall>x \<in> set xs. \<not> P x)"
  by (induction xs) auto

end
