(* ===== verification/Memory.thy ===== *)
theory Memory
  imports Prelude
begin

text \<open>
  \<open>internal/storage/memory.go\<close>: the engine-wide memory tracker. Every operation is one atomic
  access except \<open>Reserve\<close> and \<open>Sub\<close>, which are compare-and-swap loops. \<open>reserve\<close> and
  \<open>mem_sub\<close> are the iteration that succeeds; \<open>cas_step\<close> is the loops themselves, run by any
  number of threads in any interleaving.
\<close>

section \<open>State and operations\<close>

record mem_tracker =
  maxMemory :: u64
  usedMemory :: u64
  evictions :: u64
  oomRejected :: u64

definition new_memory_tracker :: "u64 \<Rightarrow> mem_tracker" where
  "new_memory_tracker m = \<lparr>maxMemory = m, usedMemory = 0, evictions = 0, oomRejected = 0\<rparr>"

definition set_max_memory :: "u64 \<Rightarrow> mem_tracker \<Rightarrow> mem_tracker" where
  "set_max_memory m t = t\<lparr>maxMemory := m\<rparr>"

definition mem_add :: "u64 \<Rightarrow> mem_tracker \<Rightarrow> mem_tracker" where
  "mem_add b t = t\<lparr>usedMemory := usedMemory t + b\<rparr>"

text \<open>The value one iteration of \<open>Reserve\<close> computes from what it loaded.\<close>

definition reserve_next :: "u64 \<Rightarrow> u64 \<Rightarrow> u64 \<Rightarrow> u64" where
  "reserve_next used sz credit = used - (if credit > used then used else credit) + sz"

definition reserve :: "u64 \<Rightarrow> u64 \<Rightarrow> mem_tracker \<Rightarrow> bool \<times> mem_tracker" where
  "reserve sz credit t =
     (let nxt = reserve_next (usedMemory t) sz credit
      in if maxMemory t \<noteq> 0 \<and> nxt > maxMemory t then (False, t)
         else (True, t\<lparr>usedMemory := nxt\<rparr>))"

text \<open>The value one iteration of \<open>Sub\<close> computes from what it loaded.\<close>

definition sub_next :: "u64 \<Rightarrow> u64 \<Rightarrow> u64" where
  "sub_next current b = (if b > current then 0 else current - b)"

definition mem_sub :: "u64 \<Rightarrow> mem_tracker \<Rightarrow> mem_tracker" where
  "mem_sub b t = t\<lparr>usedMemory := sub_next (usedMemory t) b\<rparr>"

definition mem_set :: "u64 \<Rightarrow> mem_tracker \<Rightarrow> mem_tracker" where
  "mem_set b t = t\<lparr>usedMemory := b\<rparr>"

definition is_over_limit :: "mem_tracker \<Rightarrow> bool" where
  "is_over_limit t = (if maxMemory t = 0 then False else usedMemory t \<ge> maxMemory t)"

definition available_memory :: "mem_tracker \<Rightarrow> u64" where
  "available_memory t =
     (if maxMemory t = 0 then NOT 0
      else if usedMemory t \<ge> maxMemory t then 0
      else maxMemory t - usedMemory t)"

definition record_eviction :: "mem_tracker \<Rightarrow> mem_tracker" where
  "record_eviction t = t\<lparr>evictions := evictions t + 1\<rparr>"

definition record_oom_rejection :: "mem_tracker \<Rightarrow> mem_tracker" where
  "record_oom_rejection t = t\<lparr>oomRejected := oomRejected t + 1\<rparr>"

record memory_stats =
  Used :: u64
  Max :: u64
  Available :: u64
  Evictions :: u64
  OOMRejected :: u64

definition mem_stats :: "mem_tracker \<Rightarrow> memory_stats" where
  "mem_stats t =
     \<lparr>Used = usedMemory t, Max = maxMemory t,
      Available = (if maxMemory t > 0 \<and> maxMemory t > usedMemory t then maxMemory t - usedMemory t
                   else if maxMemory t = 0 then NOT 0 else 0),
      Evictions = evictions t, OOMRejected = oomRejected t\<rparr>"

section \<open>What one operation does\<close>

lemma sub_next_le: "sub_next c b \<le> c"
proof (cases "b \<le> c")
  case True
  then have "unat (c - b) = unat c - unat b" by (rule unat_minus_u64)
  with True show ?thesis by (simp add: sub_next_def word_le_nat_alt)
qed (auto simp: sub_next_def)

lemma unat_sub_next: "b \<le> c \<Longrightarrow> unat (sub_next c b) = unat c - unat b"
  by (auto simp: sub_next_def unat_minus_u64)

lemma unat_reserve_next:
  assumes "credit \<le> used" and "unat used - unat credit + unat sz < 2 ^ 64"
  shows "unat (reserve_next used sz credit) = unat used - unat credit + unat sz"
proof -
  have "unat (used - credit) = unat used - unat credit"
    using assms(1) by (rule unat_minus_u64)
  with assms show ?thesis
    by (auto simp: reserve_next_def unat_plus_u64)
qed

lemma reserve_True:
  "reserve sz credit t = (True, t') \<Longrightarrow>
     t' = t\<lparr>usedMemory := reserve_next (usedMemory t) sz credit\<rparr>
     \<and> (maxMemory t = 0 \<or> usedMemory t' \<le> maxMemory t)"
  by (auto simp: reserve_def Let_def split: if_splits)

lemma reserve_False: "reserve sz credit t = (False, t') \<Longrightarrow> t' = t"
  by (auto simp: reserve_def Let_def split: if_splits)

lemma mem_ops_maxMemory [simp]:
  "maxMemory (mem_sub b t) = maxMemory t"
  "maxMemory (mem_add b t) = maxMemory t"
  "maxMemory (record_eviction t) = maxMemory t"
  "maxMemory (record_oom_rejection t) = maxMemory t"
  "maxMemory (snd (reserve s c t)) = maxMemory t"
  by (simp_all add: mem_sub_def mem_add_def record_eviction_def record_oom_rejection_def
      reserve_def Let_def)

lemma mem_ops_usedMemory [simp]:
  "usedMemory (mem_sub b t) = sub_next (usedMemory t) b"
  "usedMemory (record_eviction t) = usedMemory t"
  "usedMemory (record_oom_rejection t) = usedMemory t"
  "usedMemory (new_memory_tracker m) = 0"
  "maxMemory (new_memory_tracker m) = m"
  by (simp_all add: mem_sub_def record_eviction_def record_oom_rejection_def new_memory_tracker_def)

section \<open>The compare-and-swap loops under interleaving\<close>

text \<open>
  One \<open>cas_pc\<close> per goroutine inside \<open>Reserve\<close> or \<open>Sub\<close>. \<open>Reserve\<close> loads \<open>maxMemory\<close>
  once, then repeats [load \<open>usedMemory\<close>, compute, compare-and-swap]; a failed swap loads again.
\<close>

datatype cas_pc =
    Idle
  | ResStart u64 u64 u64
  | ResLoaded u64 u64 u64 u64
  | ResDone bool
  | SubStart u64
  | SubLoaded u64 u64
  | SubDone

type_synonym cas_state = "mem_tracker \<times> (nat \<Rightarrow> cas_pc)"

inductive cas_step :: "cas_state \<Rightarrow> cas_state \<Rightarrow> bool" where
  res_call: "pc i = Idle \<Longrightarrow>
    cas_step (t, pc) (t, pc(i := ResStart sz credit (maxMemory t)))"
| res_load: "pc i = ResStart sz credit m \<Longrightarrow>
    cas_step (t, pc) (t, pc(i := ResLoaded sz credit m (usedMemory t)))"
| res_refuse: "pc i = ResLoaded sz credit m used \<Longrightarrow>
    m \<noteq> 0 \<Longrightarrow> reserve_next used sz credit > m \<Longrightarrow>
    cas_step (t, pc) (t, pc(i := ResDone False))"
| res_swap: "pc i = ResLoaded sz credit m used \<Longrightarrow>
    m = 0 \<or> reserve_next used sz credit \<le> m \<Longrightarrow> usedMemory t = used \<Longrightarrow>
    cas_step (t, pc)
      (t\<lparr>usedMemory := reserve_next used sz credit\<rparr>, pc(i := ResDone True))"
| res_retry: "pc i = ResLoaded sz credit m used \<Longrightarrow>
    m = 0 \<or> reserve_next used sz credit \<le> m \<Longrightarrow> usedMemory t \<noteq> used \<Longrightarrow>
    cas_step (t, pc) (t, pc(i := ResStart sz credit m))"
| sub_call: "pc i = Idle \<Longrightarrow> cas_step (t, pc) (t, pc(i := SubStart b))"
| sub_load: "pc i = SubStart b \<Longrightarrow>
    cas_step (t, pc) (t, pc(i := SubLoaded b (usedMemory t)))"
| sub_swap: "pc i = SubLoaded b current \<Longrightarrow> usedMemory t = current \<Longrightarrow>
    cas_step (t, pc) (t\<lparr>usedMemory := sub_next current b\<rparr>, pc(i := SubDone))"
| sub_retry: "pc i = SubLoaded b current \<Longrightarrow> usedMemory t \<noteq> current \<Longrightarrow>
    cas_step (t, pc) (t, pc(i := SubStart b))"
| return: "pc i = ResDone r \<or> pc i = SubDone \<Longrightarrow> cas_step (t, pc) (t, pc(i := Idle))"

inductive cas_reach :: "u64 \<Rightarrow> cas_state \<Rightarrow> bool" for m where
  start: "cas_reach m (new_memory_tracker m, \<lambda>_. Idle)"
| step: "cas_reach m s \<Longrightarrow> cas_step s s' \<Longrightarrow> cas_reach m s'"

text \<open>
  The limit a thread loaded is the tracker's: that is what makes the bound inductive. The tracker
  stays under it because a swap succeeds only against the value the sum was computed from.
\<close>

definition cas_inv :: "u64 \<Rightarrow> cas_state \<Rightarrow> bool" where
  "cas_inv m s \<longleftrightarrow>
     (maxMemory (fst s) = m \<and> (m = 0 \<or> usedMemory (fst s) \<le> m) \<and>
      (\<forall>i. case snd s i of ResStart _ _ m' \<Rightarrow> m' = m | ResLoaded _ _ m' _ \<Rightarrow> m' = m | _ \<Rightarrow> True))"

lemma cas_inv_start: "cas_inv m (new_memory_tracker m, \<lambda>_. Idle)"
  by (simp add: cas_inv_def)

lemma cas_inv_step: "cas_step s s' \<Longrightarrow> cas_inv m s \<Longrightarrow> cas_inv m s'"
proof (induction rule: cas_step.induct)
  case (res_load pc i sz credit m' t)
  then show ?case by (auto simp: cas_inv_def dest: spec [of _ i])
next
  case (res_swap pc i sz credit m' used t)
  then have "m' = m" by (auto simp: cas_inv_def dest: spec [of _ i])
  with res_swap show ?case by (auto simp: cas_inv_def)
next
  case (res_retry pc i sz credit m' used t)
  then show ?case by (auto simp: cas_inv_def dest: spec [of _ i])
next
  case (sub_swap pc i b current t)
  then show ?case using sub_next_le [of current b] by (auto simp: cas_inv_def)
qed (auto simp: cas_inv_def)

lemma cas_reach_inv: "cas_reach m s \<Longrightarrow> cas_inv m s"
  by (induction rule: cas_reach.induct) (auto intro: cas_inv_start cas_inv_step)


definition cas_demo :: "nat \<Rightarrow> cas_pc" where
  "cas_demo = (\<lambda>_. Idle)(0 := ResLoaded 60 0 100 0, 1 := ResDone True)"

lemma cas_demo_reach:
  "cas_reach 100 (new_memory_tracker 100\<lparr>usedMemory := 70\<rparr>, cas_demo)"
proof -
  let ?t = "new_memory_tracker 100"
  let ?p1 = "(\<lambda>_. Idle)(0 := ResStart 60 0 100)"
  let ?p2 = "?p1(0 := ResLoaded 60 0 100 0)"
  let ?p3 = "?p2(1 := ResStart 70 0 100)"
  let ?p4 = "?p3(1 := ResLoaded 70 0 100 0)"
  have 1: "cas_reach 100 (?t, ?p1)"
    using cas_reach.step [OF cas_reach.start cas_step.res_call [of "\<lambda>_. Idle" 0 ?t 60 0]] by simp
  have 2: "cas_reach 100 (?t, ?p2)"
    using cas_reach.step [OF 1 cas_step.res_load [of ?p1 0 60 0 100 ?t]] by simp
  have 3: "cas_reach 100 (?t, ?p3)"
    using cas_reach.step [OF 2 cas_step.res_call [of ?p2 1 ?t 70 0]] by simp
  have 4: "cas_reach 100 (?t, ?p4)"
    using cas_reach.step [OF 3 cas_step.res_load [of ?p3 1 70 0 100 ?t]] by simp
  have "?p4(1 := ResDone True) = cas_demo"
    by (simp add: cas_demo_def fun_eq_iff)
  with cas_reach.step [OF 4 cas_step.res_swap [of ?p4 1 70 0 100 0 ?t]] show ?thesis
    by (simp add: reserve_next_def)
qed


end
