(* ===== verification/Entry.thy ===== *)
theory Entry
  imports Prelude
begin

text \<open>
  \<open>internal/storage/entry.go\<close> and the sentinel errors of \<open>errors.go\<close>. An entry is a record with
  the fields of the Go struct. Functions that read the clock take the reading as their first
  argument, in Unix nanoseconds; a function that reads it twice takes two.
\<close>

datatype storage_error =
    ErrKeyNotFound
  | ErrKeyExists
  | ErrValueTooLarge
  | ErrOutOfMemory
  | ErrEngineClosed
  | ErrInvalidTTL
  | ErrInvalidKey
  | ErrEvictionRequired

record entry =
  Key :: bytes
  Value :: bytes
  ExpireAt :: int
  LastAccess :: int
  AccessCnt :: u32
  CreatedAt :: int
  Size :: u32

definition EntryOverhead :: int where
  "EntryOverhead = 80"

definition max_uint32 :: int where
  "max_uint32 = 2 ^ 32 - 1"

definition calculate_size :: "bytes \<Rightarrow> bytes \<Rightarrow> u32" where
  "calculate_size key value =
     (let total = i64 (int (length key) + int (length value) + EntryOverhead)
      in if total < 0 \<or> total > max_uint32 then of_int max_uint32 else of_int total)"

definition new_entry :: "int \<Rightarrow> bytes \<Rightarrow> bytes \<Rightarrow> int \<Rightarrow> entry" where
  "new_entry now key value ttl =
     \<lparr>Key = key, Value = value,
      ExpireAt = (if ttl > 0 then i64 (now + ttl) else 0),
      LastAccess = now, AccessCnt = 1, CreatedAt = now,
      Size = calculate_size key value\<rparr>"

definition has_ttl :: "entry \<Rightarrow> bool" where
  "has_ttl e \<longleftrightarrow> ExpireAt e \<noteq> 0"

definition is_expired :: "int \<Rightarrow> entry \<Rightarrow> bool" where
  "is_expired now e = (if ExpireAt e = 0 then False else now > ExpireAt e)"

definition entry_ttl :: "int \<Rightarrow> entry \<Rightarrow> int" where
  "entry_ttl now e =
     (if ExpireAt e = 0 then -1
      else let remaining = i64 (ExpireAt e - now) in if remaining \<le> 0 then 0 else remaining)"

definition record_access :: "int \<Rightarrow> entry \<Rightarrow> entry" where
  "record_access now e = e\<lparr>LastAccess := now, AccessCnt := AccessCnt e + 1\<rparr>"

definition update_expiry :: "int \<Rightarrow> int \<Rightarrow> entry \<Rightarrow> entry" where
  "update_expiry now ttl e =
     (if ttl \<le> 0 then e\<lparr>ExpireAt := 0\<rparr> else e\<lparr>ExpireAt := i64 (now + ttl)\<rparr>)"

section \<open>Sizes\<close>

lemma unat_calculate_size:
  assumes "int (length k) + int (length v) + 80 \<le> max_int64"
  shows "unat (calculate_size k v) = min (length k + length v + 80) (2 ^ 32 - 1)"
proof -
  let ?t = "int (length k) + int (length v) + 80"
  have i: "i64 (int (length k) + int (length v) + EntryOverhead) = ?t"
    using assms by (simp add: EntryOverhead_def)
  show ?thesis
  proof (cases "?t > max_uint32")
    case True
    then have "length k + length v + 80 \<ge> 2 ^ 32 - 1" by (simp add: max_uint32_def)
    with True show ?thesis
      by (simp add: calculate_size_def i max_uint32_def Let_def min_def)
  next
    case False
    then have n: "length k + length v + 80 < 2 ^ 32" by (simp add: max_uint32_def)
    have "(of_int ?t :: u32) = of_nat (length k + length v + 80)" by simp
    then have "unat (of_int ?t :: u32) = length k + length v + 80"
      using n by (simp only: unat_of_nat) (simp add: take_bit_nat_eq_self)
    with False n i show ?thesis by (simp add: calculate_size_def max_uint32_def Let_def)
  qed
qed

lemma calculate_size_pos:
  assumes "int (length k) + int (length v) + 80 \<le> max_int64"
  shows "80 \<le> unat (calculate_size k v)"
  using unat_calculate_size [OF assms] by simp

section \<open>Projections of the operations\<close>

lemma new_entry_sel [simp]:
  "Key (new_entry now k v ttl) = k" "Value (new_entry now k v ttl) = v"
  "Size (new_entry now k v ttl) = calculate_size k v" "CreatedAt (new_entry now k v ttl) = now"
  "LastAccess (new_entry now k v ttl) = now" "AccessCnt (new_entry now k v ttl) = 1"
  by (simp_all add: new_entry_def)

lemma record_access_sel [simp]:
  "Key (record_access now e) = Key e" "Value (record_access now e) = Value e"
  "Size (record_access now e) = Size e" "ExpireAt (record_access now e) = ExpireAt e"
  "CreatedAt (record_access now e) = CreatedAt e" "LastAccess (record_access now e) = now"
  "has_ttl (record_access now e) = has_ttl e"
  "is_expired t (record_access now e) = is_expired t e"
  "entry_ttl t (record_access now e) = entry_ttl t e"
  by (simp_all add: record_access_def has_ttl_def is_expired_def entry_ttl_def)

lemma update_expiry_sel [simp]:
  "Key (update_expiry now ttl e) = Key e" "Value (update_expiry now ttl e) = Value e"
  "Size (update_expiry now ttl e) = Size e" "CreatedAt (update_expiry now ttl e) = CreatedAt e"
  by (simp_all add: update_expiry_def)

lemma no_ttl_never_expires [simp]: "ExpireAt e = 0 \<Longrightarrow> \<not> is_expired now e"
  by (simp add: is_expired_def)

lemma is_expired_mono: "is_expired t e \<Longrightarrow> t \<le> t' \<Longrightarrow> is_expired t' e"
  by (auto simp: is_expired_def split: if_splits)

lemma is_expired_has_ttl: "is_expired t e \<Longrightarrow> has_ttl e"
  by (auto simp: is_expired_def has_ttl_def split: if_splits)

text \<open>
  A deadline that fits in an \<open>int64\<close> is the one asked for; one that does not wraps below zero, and
  the entry is expired the moment it is stored.
\<close>

lemma deadline_exact:
  assumes "0 \<le> now" and "0 < ttl" and "now + ttl \<le> max_int64"
  shows "is_expired t (new_entry now k v ttl) \<longleftrightarrow> t > now + ttl"
  using assms by (simp add: is_expired_def new_entry_def)

lemma deadline_overflow:
  assumes "0 \<le> now" "now \<le> max_int64" and "0 < ttl" "ttl \<le> max_int64" and "now + ttl > max_int64"
  shows "is_expired now (new_entry now k v ttl)"
proof -
  have "i64 (now + ttl) = now + ttl - 2 ^ 64"
    using assms by (intro i64_over) auto
  with assms show ?thesis by (simp add: is_expired_def new_entry_def)
qed

end
