(* ===== verification/Glob.thy ===== *)
theory Glob
  imports Prelude "HOL-Library.Char_ord"
begin

text \<open>
  \<open>internal/storage/glob.go\<close>: the port of Redis's \<open>stringmatchlen\<close>. The Go code walks the pattern
  and the subject by index; here the index pair \<open>(pi, si)\<close> is the pair of remaining suffixes.
  The flag \<open>skipLongerMatches\<close>, shared through a pointer in Go, is passed in and returned.
\<close>

section \<open>The matcher\<close>

abbreviation (input) star :: char where "star \<equiv> CHR ''*''"
abbreviation (input) backslash :: char where "backslash \<equiv> CHR 0x5C"

definition MatchAllPattern :: bytes where
  "MatchAllPattern = ''*''"

definition matches_every_key :: "bytes \<Rightarrow> bool" where
  "matches_every_key pat \<longleftrightarrow> pat = MatchAllPattern"

text \<open>The loop of \<open>matchClass\<close>: what is left after the class, and whether \<open>c\<close> is in it.\<close>

function (sequential) class_loop :: "bytes \<Rightarrow> char \<Rightarrow> bool \<Rightarrow> bool \<Rightarrow> bytes \<times> bool" where
  "class_loop [] c negate matched = ([], matched \<noteq> negate)"
| "class_loop (x # xs) c negate matched =
     (if x = backslash \<and> xs \<noteq> [] then
        class_loop (tl xs) c negate (matched \<or> hd xs = c)
      else if x = CHR '']'' then (xs, matched \<noteq> negate)
      else if length xs \<ge> 2 \<and> hd xs = CHR ''-'' then
        (let low = min x (xs ! 1); high = max x (xs ! 1)
         in class_loop (drop 2 xs) c negate (matched \<or> (c \<ge> low \<and> c \<le> high)))
      else class_loop xs c negate (matched \<or> x = c))"
  by pat_completeness auto
termination by (relation "measure (\<lambda>(p, _). length p)") auto

text \<open>\<open>matchClass\<close> on the bytes behind the opening bracket.\<close>

definition match_class :: "bytes \<Rightarrow> char \<Rightarrow> bytes \<times> bool" where
  "match_class p c =
     (let negate = (p \<noteq> [] \<and> hd p = CHR ''^'')
      in class_loop (if negate then tl p else p) c negate False)"

text \<open>A run of stars is one star.\<close>

fun collapse_stars :: "bytes \<Rightarrow> bytes" where
  "collapse_stars (x # y # ys) = (if y = star then collapse_stars (y # ys) else x # y # ys)"
| "collapse_stars p = p"

lemma class_loop_shorter: "length (fst (class_loop p c n m)) \<le> length p"
proof (induction p arbitrary: m rule: measure_induct_rule [of length])
  case (less p)
  show ?case
  proof (cases p)
    case (Cons x xs)
    have "length (fst (class_loop q c n m')) \<le> length p" if "length q < length p" for q m'
      using less [OF that, of m'] that by simp
    then show ?thesis using Cons by (auto simp: Let_def)
  qed simp
qed

lemma match_class_shorter: "length (fst (match_class p c)) \<le> length p"
  using class_loop_shorter [of "tl p" c] class_loop_shorter [of p c]
  by (cases p) (auto simp: match_class_def Let_def intro: le_SucI)

lemma collapse_stars_shorter: "length (collapse_stars p) \<le> length p"
  by (induction p rule: collapse_stars.induct) auto

function (sequential) glob_match :: "bytes \<Rightarrow> bytes \<Rightarrow> bool \<Rightarrow> bool \<times> bool"
  and glob_after :: "bytes \<Rightarrow> bytes \<Rightarrow> bool \<Rightarrow> bool \<times> bool"
  and match_star :: "bytes \<Rightarrow> bytes \<Rightarrow> bool \<Rightarrow> bool \<times> bool"
  and star_try :: "bytes \<Rightarrow> bytes \<Rightarrow> bool \<Rightarrow> bool \<times> bool" where
  \<comment> \<open>the loop of \<open>globMatch\<close>\<close>
  "glob_match (p # ps) (c # cs) skip =
     (if p = star then match_star (p # ps) (c # cs) skip
      else if p = CHR ''?'' then glob_after ps cs skip
      else if p = CHR ''['' then
        (let (rest, matched) = match_class ps c
         in if \<not> matched then (False, skip) else glob_after rest cs skip)
      else
        (let q = (if p = backslash \<and> ps \<noteq> [] then ps else p # ps)
         in if hd q \<noteq> c then (False, skip) else glob_after (tl q) cs skip))"
| "glob_match p s skip = (p = [] \<and> s = [], skip)"
  \<comment> \<open>the end of one iteration: a spent subject leaves only trailing stars\<close>
| "glob_after p s skip =
     (if s = [] then (dropWhile (\<lambda>x. x = star) p = [], skip) else glob_match p s skip)"
| "match_star p s skip =
     (let q = collapse_stars p
      in if length q \<le> 1 then (True, skip) else star_try (tl q) s skip)"
| "star_try p [] skip = (False, True)"
| "star_try p (c # cs) skip =
     (case glob_match p (c # cs) skip of
        (True, skip') \<Rightarrow> (True, skip')
      | (False, skip') \<Rightarrow> if skip' then (False, skip') else star_try p cs skip')"
  by pat_completeness auto
termination
  apply (relation "measures [\<lambda>x. case x of Inl (Inl (p, s, _)) \<Rightarrow> length p + length s
       | Inl (Inr (p, s, _)) \<Rightarrow> length p + length s
       | Inr (Inl (p, s, _)) \<Rightarrow> length p + length s
       | Inr (Inr (p, s, _)) \<Rightarrow> length p + length s,
     \<lambda>x. case x of Inl (Inl _) \<Rightarrow> 1 | Inl (Inr _) \<Rightarrow> 2 | Inr (Inl _) \<Rightarrow> 0 | Inr (Inr _) \<Rightarrow> 2]")
  subgoal by simp
  subgoal by simp
  subgoal by simp
  subgoal for p ps c cs using match_class_shorter [of ps c]
    by (cases "match_class ps c") auto
  subgoal by (auto split: if_splits)
  subgoal by simp
  subgoal for p s using collapse_stars_shorter [of p] by (auto split: if_splits)
  subgoal by simp
  subgoal by simp
  done

text \<open>\<open>MatchGlob\<close>.\<close>

definition match_glob :: "bytes \<Rightarrow> bytes \<Rightarrow> bool" where
  "match_glob pat key = fst (glob_match pat key False)"

section \<open>What a pattern means\<close>

text \<open>
  The reference: a pattern is a list of tokens, each a star or a set of bytes, and it matches when
  the stars can be given lengths that make it fit. No flag and no search order.
\<close>

datatype glob_tok = Star | One "char \<Rightarrow> bool"

function (sequential) glob_tokens :: "bytes \<Rightarrow> glob_tok list" where
  "glob_tokens [] = []"
| "glob_tokens (x # xs) =
     (if x = star then Star # glob_tokens xs
      else if x = CHR ''?'' then One (\<lambda>_. True) # glob_tokens xs
      else if x = CHR ''['' then
        One (\<lambda>c. snd (match_class xs c)) # glob_tokens (fst (match_class xs CHR 0x00))
      else if x = backslash \<and> xs \<noteq> [] then One (\<lambda>c. hd xs = c) # glob_tokens (tl xs)
      else One (\<lambda>c. x = c) # glob_tokens xs)"
  by pat_completeness auto
termination
  by (relation "measure length") (auto simp: le_imp_less_Suc match_class_shorter)

fun glob_spec :: "glob_tok list \<Rightarrow> bytes \<Rightarrow> bool" where
  "glob_spec [] s \<longleftrightarrow> s = []"
| "glob_spec (One P # ts) [] \<longleftrightarrow> False"
| "glob_spec (One P # ts) (c # cs) \<longleftrightarrow> P c \<and> glob_spec ts cs"
| "glob_spec (Star # ts) [] \<longleftrightarrow> glob_spec ts []"
| "glob_spec (Star # ts) (c # cs) \<longleftrightarrow> glob_spec ts (c # cs) \<or> glob_spec (Star # ts) cs"

section \<open>The port agrees with the reference\<close>

lemma class_loop_rest: "fst (class_loop p c n m) = fst (class_loop p c' n' m')"
proof (induction p arbitrary: m m' rule: measure_induct_rule [of length])
  case (less p)
  show ?case
  proof (cases p)
    case (Cons x xs)
    have "fst (class_loop q c n k) = fst (class_loop q c' n' k')" if "length q < length p" for q k k'
      using less [OF that] .
    then show ?thesis using Cons by (auto simp: Let_def)
  qed simp
qed

lemma match_class_rest: "fst (match_class p c) = fst (match_class p CHR 0x00)"
  by (simp add: match_class_def Let_def class_loop_rest [of _ c _ _ "CHR 0x00"])

lemma glob_spec_Star: "glob_spec (Star # ts) s \<longleftrightarrow> (\<exists>i. glob_spec ts (drop i s))"
proof (induction s)
  case (Cons c cs)
  have "(\<exists>i. glob_spec ts (drop i (c # cs))) \<longleftrightarrow>
      glob_spec ts (c # cs) \<or> (\<exists>i. glob_spec ts (drop i cs))"
    by (metis drop0 drop_Suc_Cons not0_implies_Suc)
  with Cons show ?case by simp
qed simp

lemma glob_spec_Nil: "glob_spec ts [] \<longleftrightarrow> (\<forall>t \<in> set ts. t = Star)"
proof (induction ts)
  case (Cons t ts)
  then show ?case by (cases t) auto
qed simp

lemma tokens_all_Star:
  "(\<forall>t \<in> set (glob_tokens p). t = Star) \<longleftrightarrow> dropWhile (\<lambda>x. x = star) p = []"
  by (induction p) auto

lemma collapse_tokens:
  "p \<noteq> [] \<Longrightarrow> hd p = star \<Longrightarrow> glob_spec (glob_tokens (collapse_stars p)) s = glob_spec (glob_tokens p) s"
proof (induction p arbitrary: s rule: collapse_stars.induct)
  case (1 x y ys)
  show ?case
  proof (cases "y = star")
    case True
    then have "glob_spec (glob_tokens (collapse_stars (y # ys))) s =
        glob_spec (glob_tokens (y # ys)) s" for s
      using 1 by simp
    moreover have "glob_spec (Star # Star # ts) s = glob_spec (Star # ts) s" for ts
      unfolding glob_spec_Star by (auto simp: drop_drop) (metis add_0)
    ultimately show ?thesis using True 1 by simp
  qed simp
qed auto

lemma collapse_shape:
  "p \<noteq> [] \<Longrightarrow> hd p = star \<Longrightarrow>
     collapse_stars p = [star] \<or> (\<exists>q qs. collapse_stars p = star # q # qs \<and> q \<noteq> star)"
  by (induction p rule: collapse_stars.induct) auto

text \<open>
  \<open>dead p s\<close>: the pattern matches no suffix of the subject. It is what a set flag promises: the
  innermost star tried every position, and an earlier star can only make the rest start later.
\<close>

definition dead :: "bytes \<Rightarrow> bytes \<Rightarrow> bool" where
  "dead p s \<longleftrightarrow> (\<forall>i. \<not> glob_spec (glob_tokens p) (drop i s))"

definition agrees :: "bool \<times> bool \<Rightarrow> bytes \<Rightarrow> bytes \<Rightarrow> bool" where
  "agrees r p s \<longleftrightarrow>
     fst r = glob_spec (glob_tokens p) s \<and> (snd r \<longrightarrow> \<not> fst r \<longrightarrow> dead p s)"

lemma dead_One:
  assumes "glob_tokens p = One P # glob_tokens q" and "dead q cs"
  shows "dead p (c # cs)"
  unfolding dead_def
proof
  fix i
  show "\<not> glob_spec (glob_tokens p) (drop i (c # cs))"
  proof (cases "drop i (c # cs)")
    case (Cons x xs)
    then have "xs = drop i cs"
      by (metis drop_Suc_Cons list.sel(3) tl_drop drop_Suc)
    then show ?thesis using assms Cons by (simp add: dead_def)
  qed (simp add: assms)
qed

lemma agrees_One:
  assumes "glob_tokens p = One P # glob_tokens q" and "P c" and "agrees r q cs"
  shows "agrees r p (c # cs)"
  using assms dead_One [OF assms(1)] by (auto simp: agrees_def)

lemma agrees_One_miss:
  assumes "glob_tokens p = One P # glob_tokens q" and "\<not> P c"
  shows "agrees (False, False) p (c # cs)"
  using assms by (simp add: agrees_def)

lemma glob_agrees:
  "\<not> skip \<Longrightarrow> s \<noteq> [] \<Longrightarrow> agrees (glob_match p s skip) p s"
  "\<not> skip \<Longrightarrow> agrees (glob_after p s skip) p s"
  "\<not> skip \<Longrightarrow> s \<noteq> [] \<Longrightarrow> p \<noteq> [] \<Longrightarrow> hd p = star \<Longrightarrow> agrees (match_star p s skip) p s"
  "\<not> skip \<Longrightarrow> p \<noteq> [] \<Longrightarrow> hd p \<noteq> star \<Longrightarrow>
     fst (star_try p s skip) = (\<exists>i. glob_spec (glob_tokens p) (drop i s))"
proof (induction p s skip and p s skip and p s skip and p s skip
    rule: glob_match_glob_after_match_star_star_try.induct
      [case_names both spent_pat spent_subj after from_star no_tail tail])
  case (both p ps c cs skip)
  consider (star) "p = star" | (any) "p = CHR ''?''" | (cls) "p = CHR ''[''"
    | (lit) "p \<noteq> star" "p \<noteq> CHR ''?''" "p \<noteq> CHR ''[''" by blast
  then show ?case
  proof cases
    case star
    with both show ?thesis by simp
  next
    case any
    with both show ?thesis by (auto intro!: agrees_One [where P = "\<lambda>_. True" and q = ps])
  next
    case cls
    obtain rest m where mc: "match_class ps c = (rest, m)" by (cases "match_class ps c")
    have tok: "glob_tokens (p # ps) = One (\<lambda>c. snd (match_class ps c)) # glob_tokens rest"
      using cls mc match_class_rest [of ps c] by simp
    show ?thesis
    proof (cases m)
      case True
      with both cls mc have "agrees (glob_after rest cs skip) rest cs" by simp
      with True cls mc show ?thesis using agrees_One [OF tok, of c] by simp
    next
      case False
      with cls mc both.prems show ?thesis using agrees_One_miss [OF tok, of c] by simp
    qed
  next
    case lit
    define q where "q = (if p = backslash \<and> ps \<noteq> [] then ps else p # ps)"
    have tok: "glob_tokens (p # ps) = One (\<lambda>c. hd q = c) # glob_tokens (tl q)"
      using lit by (simp add: q_def)
    have eq: "glob_match (p # ps) (c # cs) skip =
        (if hd q \<noteq> c then (False, skip) else glob_after (tl q) cs skip)"
      using lit by (simp add: q_def)
    show ?thesis
    proof (cases "hd q = c")
      case True
      with both lit have "agrees (glob_after (tl q) cs skip) (tl q) cs" by (simp add: q_def)
      with True show ?thesis unfolding eq using agrees_One [OF tok, of c] by simp
    next
      case False
      with both.prems show ?thesis unfolding eq using agrees_One_miss [OF tok, of c] by simp
    qed
  qed
next
  case (spent_pat s skip)
  then show ?case by (cases s) (simp_all add: agrees_def)
next
  case (spent_subj p skip)
  then show ?case by simp
next
  case (after p s skip)
  then show ?case by (auto simp: agrees_def glob_spec_Nil tokens_all_Star)
next
  case (from_star p s skip)
  show ?case
  proof (cases "collapse_stars p = [star]")
    case True
    have "glob_spec (glob_tokens p) s"
      unfolding collapse_tokens [OF from_star(4,5), symmetric] True
      by (simp add: glob_spec_Star) (rule exI [of _ "length s"], simp)
    with True show ?thesis by (simp add: agrees_def)
  next
    case False
    then obtain q qs where q: "collapse_stars p = star # q # qs" "q \<noteq> star"
      using collapse_shape [OF from_star(4,5)] by blast
    have ih: "fst (star_try (q # qs) s skip) = (\<exists>i. glob_spec (glob_tokens (q # qs)) (drop i s))"
      using from_star q by simp
    have spec: "glob_spec (glob_tokens p) s' = (\<exists>i. glob_spec (glob_tokens (q # qs)) (drop i s'))"
      for s'
      using collapse_tokens [OF from_star(4,5), of s'] q by (simp add: glob_spec_Star)
    have "dead p s" if "\<not> (\<exists>i. glob_spec (glob_tokens (q # qs)) (drop i s))"
      using that by (auto simp: dead_def spec drop_drop)
    with ih q show ?thesis by (auto simp: agrees_def spec)
  qed
next
  case (no_tail p skip)
  have "\<not> glob_spec (glob_tokens p) []"
    using no_tail by (cases p) (auto simp: glob_spec_Nil)
  then show ?case by simp
next
  case (tail p c cs skip)
  have m: "agrees (glob_match p (c # cs) skip) p (c # cs)" using tail by simp
  have shift: "(\<exists>i. glob_spec (glob_tokens p) (drop i (c # cs))) \<longleftrightarrow>
      glob_spec (glob_tokens p) (c # cs) \<or> (\<exists>i. glob_spec (glob_tokens p) (drop i cs))"
    by (metis drop0 drop_Suc_Cons not0_implies_Suc)
  obtain r skip' where r: "glob_match p (c # cs) skip = (r, skip')"
    by (cases "glob_match p (c # cs) skip")
  show ?case
  proof (cases "r \<or> skip'")
    case True
    with m r show ?thesis unfolding shift
      by (auto simp: agrees_def dead_def dest: spec [of _ 0] spec [of _ "Suc _"] split: bool.splits)
  next
    case False
    with m r tail show ?thesis unfolding shift by (simp add: agrees_def)
  qed
qed


end
