(* ===== verification/Shard.thy ===== *)
theory Shard
  imports Memory Entry Glob
begin

text \<open>
  \<open>internal/storage/shard.go\<close>: one partition of the keyspace. A shard shares the engine's memory
  tracker through a pointer, so the operations that touch it take and return the pair
  \<open>(tracker, shard)\<close>. Each runs under one hold of the shard's lock, except \<open>Get\<close>, which looks the
  entry up under the read lock and reclaims it under the write lock.

  Go's \<open>range\<close> over a map visits the entries in an unspecified order. The functions that range
  take that order as \<open>ord\<close>, a permutation of the association list (\<open>range_order\<close>), and a loop
  that reads the clock per entry takes the readings as a function of the key.
\<close>

section \<open>State\<close>

record shard =
  data :: "(bytes \<times> entry) list"
  memoryUsed :: u64
  keysWithTTL :: int
  lazyExpiration :: bool
  gets :: u64
  sets :: u64
  deletes :: u64
  hits :: u64
  misses :: u64
  expirations :: u64

type_synonym mshard = "mem_tracker \<times> shard"

definition new_shard :: shard where
  "new_shard = \<lparr>data = [], memoryUsed = 0, keysWithTTL = 0, lazyExpiration = True,
     gets = 0, sets = 0, deletes = 0, hits = 0, misses = 0, expirations = 0\<rparr>"

definition set_lazy_expiration :: "bool \<Rightarrow> shard \<Rightarrow> shard" where
  "set_lazy_expiration enabled s = s\<lparr>lazyExpiration := enabled\<rparr>"

abbreviation shard_lookup :: "shard \<Rightarrow> bytes \<Rightarrow> entry option" where
  "shard_lookup s key \<equiv> map_of (data s) key"

section \<open>The accounting steps\<close>

definition shard_store :: "bytes \<Rightarrow> entry \<Rightarrow> shard \<Rightarrow> shard" where
  "shard_store key e s =
     s\<lparr>data := AList.update key e (data s),
       memoryUsed := memoryUsed s + ucast (Size e),
       keysWithTTL := keysWithTTL s + (if has_ttl e then 1 else 0)\<rparr>"

definition shard_release :: "entry \<Rightarrow> shard \<Rightarrow> shard" where
  "shard_release e s =
     s\<lparr>memoryUsed := memoryUsed s - ucast (Size e),
       keysWithTTL := keysWithTTL s + (if has_ttl e then - 1 else 0)\<rparr>"

definition remove_locked :: "bytes \<Rightarrow> entry \<Rightarrow> mshard \<Rightarrow> mshard" where
  "remove_locked key e = (\<lambda>(m, s).
     (mem_sub (ucast (Size e)) m, shard_release e (s\<lparr>data := AList.delete key (data s)\<rparr>)))"

section \<open>The operations\<close>

definition shard_expire :: "int \<Rightarrow> bytes \<Rightarrow> mshard \<Rightarrow> bool \<times> mshard" where
  "shard_expire now key = (\<lambda>(m, s).
     (case shard_lookup s key of
        None \<Rightarrow> (False, (m, s))
      | Some e \<Rightarrow>
          if \<not> is_expired now e then (False, (m, s))
          else let (m', s') = remove_locked key e (m, s)
               in (True, (m', s'\<lparr>expirations := expirations s' + 1\<rparr>))))"

text \<open>
  \<open>Get\<close> reads the clock up to three times: for the expiry check, for the re-check under the
  write lock, and for the access stamp.
\<close>

definition shard_get :: "int \<Rightarrow> int \<Rightarrow> int \<Rightarrow> bytes \<Rightarrow> mshard \<Rightarrow> entry option \<times> mshard" where
  "shard_get t_check t_lock t_access key = (\<lambda>(m, s0).
     (let s = s0\<lparr>gets := gets s0 + 1\<rparr>
      in case shard_lookup s0 key of
           None \<Rightarrow> (None, (m, s\<lparr>misses := misses s + 1\<rparr>))
         | Some e \<Rightarrow>
             if is_expired t_check e then
               (let (m', s') = (if lazyExpiration s then snd (shard_expire t_lock key (m, s)) else (m, s))
                in (None, (m', s'\<lparr>misses := misses s' + 1\<rparr>)))
             else
               (let e' = record_access t_access e
                in (Some e', (m, s\<lparr>data := AList.update key e' (data s), hits := hits s + 1\<rparr>)))))"

text \<open>
  \<open>put\<close>: the one write path. The reservation, the release of the displaced entry and the store
  happen in one hold of the write lock.
\<close>

definition shard_put ::
    "int \<Rightarrow> bytes \<Rightarrow> entry \<Rightarrow> bool \<Rightarrow> mshard \<Rightarrow> (bool \<times> storage_error option) \<times> mshard" where
  "shard_put now key e onlyIfAbsent = (\<lambda>(m, s).
     (case shard_lookup s key of
        Some old \<Rightarrow>
          if onlyIfAbsent \<and> \<not> is_expired now old then ((False, None), (m, s))
          else (case reserve (ucast (Size e)) (ucast (Size old)) m of
                  (False, m') \<Rightarrow> ((False, Some ErrOutOfMemory), (m', s))
                | (True, m') \<Rightarrow>
                    (let s' = shard_store key e (shard_release old s)
                     in ((True, None), (m', s'\<lparr>sets := sets s' + 1\<rparr>))))
      | None \<Rightarrow>
          (case reserve (ucast (Size e)) 0 m of
             (False, m') \<Rightarrow> ((False, Some ErrOutOfMemory), (m', s))
           | (True, m') \<Rightarrow>
               (let s' = shard_store key e s
                in ((True, None), (m', s'\<lparr>sets := sets s' + 1\<rparr>))))))"

definition shard_set :: "int \<Rightarrow> bytes \<Rightarrow> entry \<Rightarrow> mshard \<Rightarrow> storage_error option \<times> mshard" where
  "shard_set now key e ms =
     (case shard_put now key e False ms of ((_, err), ms') \<Rightarrow> (err, ms'))"

definition shard_setnx ::
    "int \<Rightarrow> bytes \<Rightarrow> entry \<Rightarrow> mshard \<Rightarrow> (bool \<times> storage_error option) \<times> mshard" where
  "shard_setnx now key e ms = shard_put now key e True ms"

definition shard_set_ttl :: "int \<Rightarrow> int \<Rightarrow> bytes \<Rightarrow> int \<Rightarrow> shard \<Rightarrow> bool \<times> shard" where
  "shard_set_ttl t_check t_update key ttl s =
     (case shard_lookup s key of
        None \<Rightarrow> (False, s)
      | Some e \<Rightarrow>
          if is_expired t_check e then (False, s)
          else (let e' = update_expiry t_update ttl e
                in (True, s\<lparr>data := AList.update key e' (data s),
                            keysWithTTL := keysWithTTL s +
                              (if \<not> has_ttl e \<and> has_ttl e' then 1
                               else if has_ttl e \<and> \<not> has_ttl e' then - 1 else 0)\<rparr>)))"

definition shard_delete :: "bytes \<Rightarrow> mshard \<Rightarrow> entry option \<times> mshard" where
  "shard_delete key = (\<lambda>(m, s).
     (case shard_lookup s key of
        None \<Rightarrow> (None, (m, s))
      | Some e \<Rightarrow> (let (m', s') = remove_locked key e (m, s)
                   in (Some e, (m', s'\<lparr>deletes := deletes s' + 1\<rparr>)))))"

definition shard_evict :: "bytes \<Rightarrow> mshard \<Rightarrow> bool \<times> mshard" where
  "shard_evict key = (\<lambda>(m, s).
     (case shard_lookup s key of
        None \<Rightarrow> (False, (m, s))
      | Some e \<Rightarrow> (let (m', s') = remove_locked key e (m, s)
                   in (True, (record_eviction m', s')))))"

definition shard_clear :: "mshard \<Rightarrow> mshard" where
  "shard_clear = (\<lambda>(m, s).
     (mem_sub (memoryUsed s) m, s\<lparr>data := [], memoryUsed := 0, keysWithTTL := 0\<rparr>))"

section \<open>The reads\<close>

definition expiry_of :: "bytes \<Rightarrow> shard \<Rightarrow> int \<times> bool" where
  "expiry_of key s =
     (case shard_lookup s key of None \<Rightarrow> (0, False) | Some e \<Rightarrow> (ExpireAt e, True))"

definition resident_size :: "bytes \<Rightarrow> shard \<Rightarrow> u64" where
  "resident_size key s =
     (case shard_lookup s key of None \<Rightarrow> 0 | Some e \<Rightarrow> ucast (Size e))"

definition shard_exists :: "int \<Rightarrow> bytes \<Rightarrow> shard \<Rightarrow> bool" where
  "shard_exists now key s =
     (case shard_lookup s key of None \<Rightarrow> False | Some e \<Rightarrow> \<not> is_expired now e)"

definition shard_get_entry :: "int \<Rightarrow> bytes \<Rightarrow> shard \<Rightarrow> entry option" where
  "shard_get_entry now key s =
     (case shard_lookup s key of
        None \<Rightarrow> None
      | Some e \<Rightarrow> if is_expired now e then None else Some e)"

definition shard_len :: "shard \<Rightarrow> nat" where
  "shard_len s = length (data s)"

type_synonym range_ord = "(bytes \<times> entry) list \<Rightarrow> (bytes \<times> entry) list"

definition range_order :: "range_ord \<Rightarrow> bool" where
  "range_order ord \<longleftrightarrow> (\<forall>xs. mset (ord xs) = mset xs)"

definition shard_keys :: "range_ord \<Rightarrow> (bytes \<Rightarrow> int) \<Rightarrow> shard \<Rightarrow> bytes list" where
  "shard_keys ord now s =
     map fst (filter (\<lambda>(k, e). \<not> is_expired (now k) e) (ord (data s)))"

definition all_keys :: "range_ord \<Rightarrow> shard \<Rightarrow> bytes list" where
  "all_keys ord s = map fst (ord (data s))"

text \<open>\<open>liveKeys\<close>: the read-time filter of a scan page. An empty \<open>match\<close> keeps everything.\<close>

fun live_keys ::
    "(bytes \<Rightarrow> int) \<Rightarrow> shard \<Rightarrow> bytes list \<Rightarrow> bytes \<Rightarrow> bytes list \<Rightarrow> bytes list" where
  "live_keys now s [] pat dst = dst"
| "live_keys now s (key # candidates) pat dst =
     (case shard_lookup s key of
        None \<Rightarrow> live_keys now s candidates pat dst
      | Some e \<Rightarrow>
          if is_expired (now key) e then live_keys now s candidates pat dst
          else if pat \<noteq> [] \<and> \<not> match_glob pat key then live_keys now s candidates pat dst
          else live_keys now s candidates pat (dst @ [key]))"

text \<open>\<open>Sample\<close>: the first \<open>cnt\<close> unexpired entries of the range, and at least one.\<close>

fun sample_loop :: "(bytes \<Rightarrow> int) \<Rightarrow> int \<Rightarrow> entry list \<Rightarrow> (bytes \<times> entry) list \<Rightarrow> entry list" where
  "sample_loop now cnt samples [] = samples"
| "sample_loop now cnt samples ((k, e) # kvs) =
     (if is_expired (now k) e then sample_loop now cnt samples kvs
      else (let samples' = samples @ [e]
            in if int (length samples') \<ge> cnt then samples'
               else sample_loop now cnt samples' kvs))"

definition shard_sample :: "range_ord \<Rightarrow> (bytes \<Rightarrow> int) \<Rightarrow> int \<Rightarrow> shard \<Rightarrow> entry list" where
  "shard_sample ord now cnt s = sample_loop now cnt [] (ord (data s))"

text \<open>\<open>ForEach\<close>: the callback is a state transformer that says whether to go on.\<close>

fun for_each_loop ::
    "(bytes \<Rightarrow> int) \<Rightarrow> (bytes \<Rightarrow> entry \<Rightarrow> 'c \<Rightarrow> bool \<times> 'c) \<Rightarrow> (bytes \<times> entry) list \<Rightarrow> 'c \<Rightarrow> 'c" where
  "for_each_loop now fn [] c = c"
| "for_each_loop now fn ((k, e) # kvs) c =
     (if is_expired (now k) e then for_each_loop now fn kvs c
      else (case fn k e c of (go, c') \<Rightarrow> if go then for_each_loop now fn kvs c' else c'))"

definition for_each ::
    "range_ord \<Rightarrow> (bytes \<Rightarrow> int) \<Rightarrow> (bytes \<Rightarrow> entry \<Rightarrow> 'c \<Rightarrow> bool \<times> 'c) \<Rightarrow> shard \<Rightarrow> 'c \<Rightarrow> 'c" where
  "for_each ord now fn s c = for_each_loop now fn (ord (data s)) c"

record shard_stats =
  st_Keys :: nat
  st_KeysWithTTL :: int
  st_MemoryUsed :: u64
  st_Gets :: u64
  st_Sets :: u64
  st_Deletes :: u64
  st_Hits :: u64
  st_Misses :: u64
  st_Expirations :: u64

definition shard_stats_of :: "shard \<Rightarrow> shard_stats" where
  "shard_stats_of s =
     \<lparr>st_Keys = shard_len s, st_KeysWithTTL = keysWithTTL s, st_MemoryUsed = memoryUsed s,
      st_Gets = gets s, st_Sets = sets s, st_Deletes = deletes s, st_Hits = hits s,
      st_Misses = misses s, st_Expirations = expirations s\<rparr>"

end
