(* ===== verification/Shard_Inv.thy ===== *)
theory Shard_Inv
  imports Shard
begin

text \<open>
  The invariant of a shard and its conservation law. \<open>shard_inv\<close> ties the counters to the map;
  \<open>accounted rest\<close> says that the engine-wide tracker holds exactly the bytes of this shard's
  entries on top of \<open>rest\<close>, those of every other shard. Every operation keeps both, so the shard
  counter and the global one move by the same amount or not at all.
\<close>

definition ttl_flag :: "entry \<Rightarrow> int" where
  "ttl_flag e = (if has_ttl e then 1 else 0)"

definition size64 :: "entry \<Rightarrow> u64" where
  "size64 e = ucast (Size e)"

definition sizen :: "entry \<Rightarrow> nat" where
  "sizen e = unat (Size e)"

definition shard_bytes :: "shard \<Rightarrow> nat" where
  "shard_bytes s = vsum sizen (data s)"

text \<open>Every entry is filed under its own key.\<close>

definition keyed :: "(bytes \<times> entry) list \<Rightarrow> bool" where
  "keyed xs \<longleftrightarrow> (\<forall>(k, e) \<in> set xs. Key e = k)"

definition shard_inv :: "shard \<Rightarrow> bool" where
  "shard_inv s \<longleftrightarrow>
     keys_distinct (data s) \<and>
     keyed (data s) \<and>
     memoryUsed s = vsum size64 (data s) \<and>
     keysWithTTL s = vsum ttl_flag (data s) \<and>
     gets s = hits s + misses s"

definition accounted :: "nat \<Rightarrow> mshard \<Rightarrow> bool" where
  "accounted rest = (\<lambda>(m, s). unat (usedMemory m) = rest + shard_bytes s)"

text \<open>Room for one more entry below \<open>2 ^ 64\<close>: the memory of a real machine never gets near it.\<close>

definition headroom :: "mem_tracker \<Rightarrow> bool" where
  "headroom m \<longleftrightarrow> unat (usedMemory m) + 2 ^ 32 \<le> 2 ^ 64"

lemma shard_invD:
  assumes "shard_inv s"
  shows "keys_distinct (data s)" "memoryUsed s = vsum size64 (data s)"
    "keysWithTTL s = vsum ttl_flag (data s)" "gets s = hits s + misses s"
  using assms by (simp_all add: shard_inv_def)

lemma shard_inv_key: "shard_inv s \<Longrightarrow> shard_lookup s k = Some e \<Longrightarrow> Key e = k"
  by (auto simp: shard_inv_def keyed_def dest: map_of_SomeD)

lemma keyed_Nil [simp]: "keyed []"
  by (simp add: keyed_def)

lemma keyed_update [simp]: "keyed xs \<Longrightarrow> Key e = k \<Longrightarrow> keyed (AList.update k e xs)"
  unfolding keyed_def by (induction xs) auto

lemma keyed_delete [simp]: "keyed xs \<Longrightarrow> keyed (AList.delete k xs)"
  unfolding keyed_def by (auto dest: set_delete_subsetD)

lemma shard_inv_new [simp]: "shard_inv new_shard"
  by (simp add: shard_inv_def new_shard_def)

lemma shard_bytes_new [simp]: "shard_bytes new_shard = 0"
  by (simp add: shard_bytes_def new_shard_def)

lemma vsum_size64: "vsum size64 xs = of_nat (vsum sizen xs)"
proof (induction xs)
  case (Cons a xs)
  have "size64 e = of_nat (sizen e)" for e
    by (simp add: size64_def sizen_def)
  with Cons show ?case by (cases a) simp
qed simp

text \<open>The shard's own counter is exact as long as the tracker is.\<close>

lemma unat_memoryUsed:
  assumes "shard_inv s" and "accounted rest (m, s)"
  shows "unat (memoryUsed s) = shard_bytes s"
proof -
  have "shard_bytes s < 2 ^ 64"
    using assms(2) unat_u64_less [of "usedMemory m"] by (simp add: accounted_def)
  then show ?thesis
    using shard_invD(2) [OF assms(1)] by (simp add: vsum_size64 shard_bytes_def)
qed

lemma entry_within:
  assumes "shard_lookup s k = Some e"
  shows "sizen e \<le> shard_bytes s"
  unfolding shard_bytes_def using assms by (rule vsum_member_le)

section \<open>Removal\<close>

lemma remove_locked_inv [inv_intros]:
  assumes "shard_inv s" and "shard_lookup s k = Some e"
  shows "shard_inv (snd (remove_locked k e (m, s)))"
  using assms
  by (simp add: shard_inv_def remove_locked_def shard_release_def vsum_delete_group
      size64_def ttl_flag_def)

lemma remove_locked_accounted [inv_intros]:
  assumes "shard_inv s" and "accounted rest (m, s)" and "shard_lookup s k = Some e"
  shows "accounted rest (remove_locked k e (m, s))"
proof -
  have d: "keys_distinct (data s)" using assms(1) by (rule shard_invD)
  have split: "shard_bytes s = sizen e + vsum sizen (AList.delete k (data s))"
    unfolding shard_bytes_def using d assms(3) by (rule vsum_delete)
  have le: "ucast (Size e) \<le> usedMemory m"
    using assms(2) split by (simp add: word_le_nat_alt accounted_def sizen_def)
  show ?thesis
    using assms(2) split unat_sub_next [OF le]
    by (simp add: accounted_def remove_locked_def shard_release_def shard_bytes_def sizen_def)
qed

lemma remove_locked_sel [simp]:
  "data (snd (remove_locked k e (m, s))) = AList.delete k (data s)"
  "gets (snd (remove_locked k e (m, s))) = gets s"
  "hits (snd (remove_locked k e (m, s))) = hits s"
  "misses (snd (remove_locked k e (m, s))) = misses s"
  "lazyExpiration (snd (remove_locked k e (m, s))) = lazyExpiration s"
  "maxMemory (fst (remove_locked k e (m, s))) = maxMemory m"
  by (simp_all add: remove_locked_def shard_release_def)

text \<open>Counters outside the accounting do not matter to the invariant.\<close>

lemma shard_inv_counters [simp]:
  "shard_inv (s\<lparr>expirations := x\<rparr>) = shard_inv s"
  "shard_inv (s\<lparr>deletes := x\<rparr>) = shard_inv s"
  "shard_inv (s\<lparr>sets := x\<rparr>) = shard_inv s"
  "shard_inv (s\<lparr>lazyExpiration := b\<rparr>) = shard_inv s"
  by (simp_all add: shard_inv_def)

lemma shard_bytes_counters [simp]:
  "shard_bytes (s\<lparr>expirations := x\<rparr>) = shard_bytes s"
  "shard_bytes (s\<lparr>deletes := x\<rparr>) = shard_bytes s"
  "shard_bytes (s\<lparr>sets := x\<rparr>) = shard_bytes s"
  "shard_bytes (s\<lparr>gets := x\<rparr>) = shard_bytes s"
  "shard_bytes (s\<lparr>hits := x\<rparr>) = shard_bytes s"
  "shard_bytes (s\<lparr>misses := x\<rparr>) = shard_bytes s"
  "shard_bytes (s\<lparr>lazyExpiration := b\<rparr>) = shard_bytes s"
  by (simp_all add: shard_bytes_def)

lemma accounted_pair: "accounted rest (m, s) \<longleftrightarrow> unat (usedMemory m) = rest + shard_bytes s"
  by (simp add: accounted_def)

lemma accounted_split: "accounted rest ms \<longleftrightarrow> unat (usedMemory (fst ms)) = rest + shard_bytes (snd ms)"
  by (cases ms) (simp add: accounted_def)

section \<open>Expiry\<close>

lemma shard_expire_unfold:
  "shard_expire now k (m, s) =
     (case shard_lookup s k of
        Some e \<Rightarrow>
          if is_expired now e then
            (True, fst (remove_locked k e (m, s)),
             (snd (remove_locked k e (m, s)))\<lparr>expirations := expirations (snd (remove_locked k e (m, s))) + 1\<rparr>)
          else (False, m, s)
      | None \<Rightarrow> (False, m, s))"
  by (auto simp: shard_expire_def split: option.splits prod.splits)

lemma shard_expire_inv [inv_intros]:
  "shard_inv s \<Longrightarrow> shard_inv (snd (snd (shard_expire now k (m, s))))"
  using remove_locked_inv [of s k _ m]
  by (simp add: shard_expire_unfold split: option.split)

lemma shard_expire_accounted [inv_intros]:
  "shard_inv s \<Longrightarrow> accounted rest (m, s) \<Longrightarrow> accounted rest (snd (shard_expire now k (m, s)))"
  using remove_locked_accounted [of s rest m k]
  by (simp add: shard_expire_unfold accounted_split split: option.split)

lemma shard_expire_data:
  "data (snd (snd (shard_expire now k (m, s)))) =
     (if fst (shard_expire now k (m, s)) then AList.delete k (data s) else data s)"
  by (simp add: shard_expire_unfold split: option.split)

lemma shard_expire_True:
  "fst (shard_expire now k (m, s)) \<longleftrightarrow> (\<exists>e. shard_lookup s k = Some e \<and> is_expired now e)"
  by (simp add: shard_expire_unfold split: option.split)

lemma shard_expire_sel [simp]:
  "gets (snd (snd (shard_expire now k (m, s)))) = gets s"
  "hits (snd (snd (shard_expire now k (m, s)))) = hits s"
  "misses (snd (snd (shard_expire now k (m, s)))) = misses s"
  "maxMemory (fst (snd (shard_expire now k (m, s)))) = maxMemory m"
  by (simp_all add: shard_expire_unfold split: option.split)

lemma shard_expire_gets:
  "shard_expire now k (m, s\<lparr>gets := x\<rparr>) =
     (let (r, m', s') = shard_expire now k (m, s) in (r, m', s'\<lparr>gets := x\<rparr>))"
  by (simp add: shard_expire_unfold remove_locked_def shard_release_def split: option.split)

section \<open>Get\<close>

text \<open>The three outcomes of \<open>Get\<close>.\<close>

lemma shard_get_unfold:
  "shard_get t1 t2 t3 k (m, s) =
     (case shard_lookup s k of
        None \<Rightarrow> (None, m, s\<lparr>gets := gets s + 1, misses := misses s + 1\<rparr>)
      | Some e \<Rightarrow>
          if is_expired t1 e then
            (let (m', s') = (if lazyExpiration s then snd (shard_expire t2 k (m, s)) else (m, s))
             in (None, m', s'\<lparr>gets := gets s + 1, misses := misses s + 1\<rparr>))
          else
            (Some (record_access t3 e), m,
             s\<lparr>gets := gets s + 1, data := AList.update k (record_access t3 e) (data s),
               hits := hits s + 1\<rparr>))"
proof (cases "shard_expire t2 k (m, s)")
  case (fields r m' s')
  then have "misses s' = misses s"
    using shard_expire_sel(3) [of t2 k m s] by simp
  with fields show ?thesis
    by (simp add: shard_get_def Let_def shard_expire_gets split: option.split)
qed

lemma shard_inv_miss: "shard_inv s \<Longrightarrow> gets s = g \<Longrightarrow> misses s = n \<Longrightarrow>
    shard_inv (s\<lparr>gets := g + 1, misses := n + 1\<rparr>)"
  by (simp add: shard_inv_def)

lemma shard_inv_touch:
  assumes "shard_inv s" and "shard_lookup s k = Some e"
  shows "shard_inv (s\<lparr>gets := gets s + 1, data := AList.update k (record_access t e) (data s),
      hits := hits s + 1\<rparr>)"
  using assms shard_inv_key [OF assms]
  by (simp add: shard_inv_def size64_def ttl_flag_def vsum_update_same)

lemma shard_bytes_update_same:
  assumes "shard_inv s" and "shard_lookup s k = Some e" and "Size e' = Size e"
  shows "vsum sizen (AList.update k e' (data s)) = shard_bytes s"
  using assms shard_invD(1) [OF assms(1)]
  by (simp add: shard_bytes_def vsum_update_same sizen_def)

lemma shard_get_inv [inv_intros]:
  assumes "shard_inv s"
  shows "shard_inv (snd (snd (shard_get t1 t2 t3 k (m, s))))"
  using shard_inv_touch [OF assms] shard_inv_miss [OF assms]
    shard_inv_miss [OF shard_expire_inv [OF assms, of t2 k m]]
  by (simp add: shard_get_unfold split_beta Let_def split: option.split)

lemma shard_get_accounted [inv_intros]:
  assumes "shard_inv s" and "accounted rest (m, s)"
  shows "accounted rest (snd (shard_get t1 t2 t3 k (m, s)))"
proof -
  have "shard_bytes (s\<lparr>gets := g, data := AList.update k (record_access t3 e) (data s), hits := h\<rparr>)
      = shard_bytes s" if "shard_lookup s k = Some e" for g h e
    using shard_bytes_update_same [OF assms(1) that, of "record_access t3 e"]
    by (simp add: shard_bytes_def)
  then show ?thesis
    using assms(2) shard_expire_accounted [OF assms, of t2 k]
    by (simp add: shard_get_unfold accounted_split split_beta Let_def split: option.split)
qed

lemma shard_get_maxMemory [simp]:
  "maxMemory (fst (snd (shard_get t1 t2 t3 k (m, s)))) = maxMemory m"
  by (simp add: shard_get_unfold split_beta Let_def split: option.split)

section \<open>Put\<close>

text \<open>The shard after an admitted store, whatever it displaces.\<close>

definition put_shard :: "bytes \<Rightarrow> entry \<Rightarrow> shard \<Rightarrow> shard" where
  "put_shard k e s =
     (let s' = shard_store k e (case shard_lookup s k of None \<Rightarrow> s | Some old \<Rightarrow> shard_release old s)
      in s'\<lparr>sets := sets s' + 1\<rparr>)"

definition put_blocked :: "int \<Rightarrow> bytes \<Rightarrow> bool \<Rightarrow> shard \<Rightarrow> bool" where
  "put_blocked now k nx s \<longleftrightarrow> nx \<and> shard_exists now k s"

lemma shard_put_unfold:
  "shard_put now k e nx (m, s) =
     (if put_blocked now k nx s then ((False, None), m, s)
      else case reserve (ucast (Size e)) (resident_size k s) m of
             (False, m') \<Rightarrow> ((False, Some ErrOutOfMemory), m', s)
           | (True, m') \<Rightarrow> ((True, None), m', put_shard k e s))"
  by (auto simp: shard_put_def put_blocked_def shard_exists_def resident_size_def put_shard_def Let_def
      split: option.splits bool.splits prod.splits)

lemma put_shard_data [simp]: "data (put_shard k e s) = AList.update k e (data s)"
  by (simp add: put_shard_def Let_def shard_store_def shard_release_def split: option.split)

lemma put_shard_inv [inv_intros]:
  assumes "shard_inv s" and "Key e = k"
  shows "shard_inv (put_shard k e s)"
  using assms
  by (auto simp: shard_inv_def put_shard_def Let_def shard_store_def shard_release_def size64_def
      ttl_flag_def vsum_update_new vsum_update_group split: option.split)

lemma put_shard_bytes:
  assumes "shard_inv s"
  shows "shard_bytes (put_shard k e s) + unat (resident_size k s) = shard_bytes s + sizen e"
  using shard_invD(1) [OF assms] vsum_update_old [of "data s" k _ sizen e]
  by (auto simp: shard_bytes_def resident_size_def vsum_update_new sizen_def split: option.split)

lemma resident_size_le:
  "accounted rest (m, s) \<Longrightarrow> resident_size k s \<le> usedMemory m"
  using entry_within [of s k]
  by (fastforce simp: resident_size_def word_le_nat_alt accounted_def sizen_def split: option.split)

lemma unat_reserved:
  assumes "accounted rest (m, s)" and "headroom m"
  shows "unat (reserve_next (usedMemory m) (ucast (Size e)) (resident_size k s)) =
           unat (usedMemory m) - unat (resident_size k s) + sizen e"
  using assms(2) unat_u32_less [of "Size e"] resident_size_le [OF assms(1), of k]
  by (subst unat_reserve_next) (auto simp: headroom_def sizen_def)

lemma shard_put_inv [inv_intros]:
  assumes "shard_inv s" and "Key e = k"
  shows "shard_inv (snd (snd (shard_put now k e nx (m, s))))"
  using put_shard_inv [OF assms] assms(1)
  by (simp add: shard_put_unfold split: prod.split bool.split)

lemma shard_put_accounted [inv_intros]:
  assumes "shard_inv s" and "accounted rest (m, s)" and "headroom m"
  shows "accounted rest (snd (shard_put now k e nx (m, s)))"
proof (cases "put_blocked now k nx s")
  case True
  with assms(2) show ?thesis by (simp add: shard_put_unfold)
next
  case False
  obtain r m' where r: "reserve (ucast (Size e)) (resident_size k s) m = (r, m')"
    by (cases "reserve (ucast (Size e)) (resident_size k s) m")
  show ?thesis
  proof (cases r)
    case True
    with r have "usedMemory m' = reserve_next (usedMemory m) (ucast (Size e)) (resident_size k s)"
      using reserve_True [of "ucast (Size e)" "resident_size k s" m m'] by simp
    then show ?thesis
      using True r \<open>\<not> put_blocked now k nx s\<close> unat_reserved [OF assms(2,3), of e k]
        put_shard_bytes [OF assms(1), of k e] resident_size_le [OF assms(2), of k] assms(2)
      by (simp add: shard_put_unfold accounted_pair word_le_nat_alt)
  next
    case False
    with r have "m' = m" by (simp add: reserve_False)
    with False r \<open>\<not> put_blocked now k nx s\<close> assms(2) show ?thesis
      by (simp add: shard_put_unfold)
  qed
qed

lemma shard_put_maxMemory [simp]:
  "maxMemory (fst (snd (shard_put now k e nx (m, s)))) = maxMemory m"
  by (auto simp: shard_put_unfold reserve_def Let_def split: prod.split bool.split)

section \<open>Delete, evict, clear and the expiry update\<close>

lemma shard_delete_unfold:
  "shard_delete k (m, s) =
     (case shard_lookup s k of
        None \<Rightarrow> (None, m, s)
      | Some e \<Rightarrow> (Some e, fst (remove_locked k e (m, s)),
          (snd (remove_locked k e (m, s)))\<lparr>deletes := deletes (snd (remove_locked k e (m, s))) + 1\<rparr>))"
  by (auto simp: shard_delete_def split: option.splits prod.splits)

lemma shard_evict_unfold:
  "shard_evict k (m, s) =
     (case shard_lookup s k of
        None \<Rightarrow> (False, m, s)
      | Some e \<Rightarrow> (True, record_eviction (fst (remove_locked k e (m, s))), snd (remove_locked k e (m, s))))"
  by (auto simp: shard_evict_def split: option.splits prod.splits)

lemma shard_delete_inv [inv_intros]:
  "shard_inv s \<Longrightarrow> shard_inv (snd (snd (shard_delete k (m, s))))"
  using remove_locked_inv [of s k _ m] by (simp add: shard_delete_unfold split: option.split)

lemma shard_delete_accounted [inv_intros]:
  "shard_inv s \<Longrightarrow> accounted rest (m, s) \<Longrightarrow> accounted rest (snd (shard_delete k (m, s)))"
  using remove_locked_accounted [of s rest m k]
  by (simp add: shard_delete_unfold accounted_split split: option.split)

lemma shard_evict_inv [inv_intros]:
  "shard_inv s \<Longrightarrow> shard_inv (snd (snd (shard_evict k (m, s))))"
  using remove_locked_inv [of s k _ m] by (simp add: shard_evict_unfold split: option.split)

lemma shard_evict_accounted [inv_intros]:
  "shard_inv s \<Longrightarrow> accounted rest (m, s) \<Longrightarrow> accounted rest (snd (shard_evict k (m, s)))"
  using remove_locked_accounted [of s rest m k]
  by (simp add: shard_evict_unfold accounted_split split: option.split)

lemma shard_removal_maxMemory [simp]:
  "maxMemory (fst (snd (shard_delete k (m, s)))) = maxMemory m"
  "maxMemory (fst (snd (shard_evict k (m, s)))) = maxMemory m"
  "maxMemory (fst (shard_clear (m, s))) = maxMemory m"
  by (simp_all add: shard_delete_unfold shard_evict_unfold shard_clear_def split: option.split)

lemma shard_removal_data:
  "data (snd (snd (shard_delete k (m, s)))) = AList.delete k (data s)"
  "data (snd (snd (shard_evict k (m, s)))) = AList.delete k (data s)"
  "data (snd (shard_clear (m, s))) = []"
  by (auto simp: shard_delete_unfold shard_evict_unfold shard_clear_def map_of_None_fst
      split: option.split)

lemma shard_clear_inv [inv_intros]: "shard_inv s \<Longrightarrow> shard_inv (snd (shard_clear (m, s)))"
  by (simp add: shard_clear_def shard_inv_def)

lemma shard_clear_accounted [inv_intros]:
  assumes "shard_inv s" and "accounted rest (m, s)"
  shows "accounted rest (shard_clear (m, s))"
proof -
  have "memoryUsed s \<le> usedMemory m"
    using assms(2) unat_memoryUsed [OF assms] by (simp add: word_le_nat_alt accounted_def)
  then show ?thesis
    using assms(2) unat_memoryUsed [OF assms]
    by (simp add: shard_clear_def accounted_def unat_sub_next shard_bytes_def)
qed

lemma shard_set_ttl_inv [inv_intros]:
  assumes "shard_inv s"
  shows "shard_inv (snd (shard_set_ttl t1 t2 k ttl s))"
  using assms shard_inv_key [OF assms]
  by (auto simp: shard_set_ttl_def shard_inv_def size64_def ttl_flag_def vsum_update_same
      vsum_update_group Let_def split: option.split)

lemma shard_set_ttl_bytes [simp]:
  assumes "shard_inv s"
  shows "shard_bytes (snd (shard_set_ttl t1 t2 k ttl s)) = shard_bytes s"
  using shard_bytes_update_same [OF assms]
  by (auto simp: shard_set_ttl_def shard_bytes_def Let_def split: option.split)

section \<open>Every reachable shard\<close>

text \<open>
  One step is one operation of the shard with any arguments, as the engine and the expiry manager
  call it. An entry is always stored under its own key, and while there is headroom.
\<close>

inductive shard_step :: "mshard \<Rightarrow> mshard \<Rightarrow> bool" where
  s_get: "shard_step (m, s) (snd (shard_get t1 t2 t3 k (m, s)))"
| s_put: "Key e = k \<Longrightarrow> headroom m \<Longrightarrow> shard_step (m, s) (snd (shard_put now k e nx (m, s)))"
| s_ttl: "shard_step (m, s) (m, snd (shard_set_ttl t1 t2 k ttl s))"
| s_delete: "shard_step (m, s) (snd (shard_delete k (m, s)))"
| s_expire: "shard_step (m, s) (snd (shard_expire now k (m, s)))"
| s_evict: "shard_step (m, s) (snd (shard_evict k (m, s)))"
| s_clear: "shard_step (m, s) (shard_clear (m, s))"
| s_lazy: "shard_step (m, s) (m, set_lazy_expiration b s)"

inductive_cases shard_stepE: "shard_step ms ms'"

inductive shard_reach :: "mem_tracker \<Rightarrow> mshard \<Rightarrow> bool" for m0 where
  sr_new: "shard_reach m0 (m0, new_shard)"
| sr_step: "shard_reach m0 ms \<Longrightarrow> shard_step ms ms' \<Longrightarrow> shard_reach m0 ms'"

lemma shard_step_inv: "shard_step ms ms' \<Longrightarrow> shard_inv (snd ms) \<Longrightarrow> shard_inv (snd ms')"
  by (erule shard_stepE) (auto intro: inv_intros simp: set_lazy_expiration_def)

lemma shard_step_accounted:
  "shard_step ms ms' \<Longrightarrow> shard_inv (snd ms) \<Longrightarrow> accounted rest ms \<Longrightarrow> accounted rest ms'"
  by (erule shard_stepE)
    (auto intro: inv_intros simp: set_lazy_expiration_def accounted_pair)

definition within_limit :: "mem_tracker \<Rightarrow> bool" where
  "within_limit m \<longleftrightarrow> maxMemory m = 0 \<or> usedMemory m \<le> maxMemory m"

lemma within_limit_sub [intro]: "within_limit m \<Longrightarrow> within_limit (mem_sub b m)"
  using sub_next_le [of "usedMemory m" b] by (auto simp: within_limit_def)

lemma within_limit_record [simp]: "within_limit (record_eviction m) = within_limit m"
  by (simp add: within_limit_def)

lemma within_limit_reserve: "within_limit m \<Longrightarrow> within_limit (snd (reserve sz credit m))"
  by (auto simp: within_limit_def reserve_def Let_def not_less)

lemma within_limit_remove: "within_limit m \<Longrightarrow> within_limit (fst (remove_locked k e (m, s)))"
  by (auto simp: remove_locked_def)

lemma within_limit_ops [inv_intros]:
  assumes "within_limit m"
  shows "within_limit (fst (snd (shard_get t1 t2 t3 k (m, s))))"
    and "within_limit (fst (snd (shard_put now k e nx (m, s))))"
    and "within_limit (fst (snd (shard_delete k (m, s))))"
    and "within_limit (fst (snd (shard_expire now k (m, s))))"
    and "within_limit (fst (snd (shard_evict k (m, s))))"
    and "within_limit (fst (shard_clear (m, s)))"
proof -
  note rm = within_limit_remove [OF assms]
  show ex: "within_limit (fst (snd (shard_expire now k (m, s))))" for now
    using assms rm by (simp add: shard_expire_unfold split: option.split)
  show "within_limit (fst (snd (shard_get t1 t2 t3 k (m, s))))"
    using assms ex by (simp add: shard_get_unfold split_beta Let_def split: option.split)
  show "within_limit (fst (snd (shard_put now k e nx (m, s))))"
    using assms within_limit_reserve [OF assms, of "ucast (Size e)" "resident_size k s"]
    by (auto simp: shard_put_unfold split: prod.splits bool.splits)
  show "within_limit (fst (snd (shard_delete k (m, s))))"
    using assms rm by (simp add: shard_delete_unfold split: option.split)
  show "within_limit (fst (snd (shard_evict k (m, s))))"
    using assms rm by (simp add: shard_evict_unfold split: option.split)
  show "within_limit (fst (shard_clear (m, s)))"
    using assms by (auto simp: shard_clear_def)
qed

lemma shard_step_limit: "shard_step ms ms' \<Longrightarrow> within_limit (fst ms) \<Longrightarrow> within_limit (fst ms')"
  by (erule shard_stepE) (auto intro: inv_intros)

lemma shard_reach_all:
  assumes "shard_reach m0 ms"
  shows "shard_inv (snd ms) \<and> accounted (unat (usedMemory m0)) ms \<and>
    (within_limit m0 \<longrightarrow> within_limit (fst ms))"
  using assms
proof (induction rule: shard_reach.induct)
  case sr_new
  then show ?case by (simp add: accounted_def)
next
  case (sr_step ms ms')
  then show ?case using shard_step_inv shard_step_accounted shard_step_limit by blast
qed

lemma vsum_sizen: "vsum sizen xs = (\<Sum>(k, e) \<leftarrow> xs. unat (Size e))"
  by (induction xs) (auto simp: sizen_def)

lemma vsum_ttl_flag: "vsum ttl_flag xs = int (length (filter (\<lambda>(k, e). has_ttl e) xs))"
  by (induction xs) (auto simp: ttl_flag_def)

text \<open>
  In every reachable shard the map's keys are unique, the shard's byte counter is exactly the
  sum of its entries' sizes, the engine-wide tracker holds exactly that much on top of what it held
  for the rest of the engine, the expiry counter is the number of resident entries with an expiry,
  and every get is a hit or a miss.
\<close>

lemma shard_accounting:
  assumes "shard_reach m0 (m, s)"
  shows "distinct (map fst (data s))
    \<and> unat (memoryUsed s) = (\<Sum>(k, e) \<leftarrow> data s. unat (Size e))
    \<and> unat (usedMemory m) = unat (usedMemory m0) + unat (memoryUsed s)
    \<and> keysWithTTL s = int (length (filter (\<lambda>(k, e). has_ttl e) (data s)))
    \<and> gets s = hits s + misses s"
proof -
  have inv: "shard_inv s" and acc: "accounted (unat (usedMemory m0)) (m, s)"
    using shard_reach_all [OF assms] by simp_all
  show ?thesis
    using shard_invD [OF inv] unat_memoryUsed [OF inv acc] acc
    by (simp add: accounted_def keys_distinct_def shard_bytes_def vsum_sizen vsum_ttl_flag)
qed

text \<open>A run with a store, a hit, an overwrite that drops the expiry, a miss and an eviction.\<close>

definition demo_entry :: "int \<Rightarrow> entry" where
  "demo_entry ttl = new_entry 10 ''k'' ''v'' ttl"

lemma demo_size [simp]: "Size (demo_entry ttl) = 82"
  by (simp add: demo_entry_def calculate_size_def EntryOverhead_def max_uint32_def)

lemma demo_key [simp]: "Key (demo_entry ttl) = ''k''"
  by (simp add: demo_entry_def)

definition demo_shard :: mshard where
  "demo_shard = snd (shard_get 12 12 12 ''k''
     (snd (shard_put 11 ''k'' (demo_entry 5) False (new_memory_tracker 100, new_shard))))"

lemma demo_reach: "shard_reach (new_memory_tracker 100) demo_shard"
proof -
  let ?m = "new_memory_tracker 100"
  have "shard_step (?m, new_shard) (snd (shard_put 11 ''k'' (demo_entry 5) False (?m, new_shard)))"
    by (rule s_put) (simp_all add: headroom_def)
  from shard_reach.sr_step [OF shard_reach.sr_new this] show ?thesis
    unfolding demo_shard_def
    by (rule shard_reach.sr_step) (metis s_get prod.collapse)
qed

lemma demo_shard_eval:
  "demo_shard = (new_memory_tracker 100\<lparr>usedMemory := 82\<rparr>,
     new_shard\<lparr>data := [(''k'', record_access 12 (demo_entry 5))], memoryUsed := 82,
       keysWithTTL := 1, gets := 1, sets := 1, hits := 1\<rparr>)"
  by (simp add: demo_shard_def shard_put_unfold shard_get_unfold put_blocked_def resident_size_def
      new_shard_def new_memory_tracker_def reserve_def reserve_next_def put_shard_def shard_store_def
      Let_def has_ttl_def is_expired_def demo_entry_def new_entry_def calculate_size_def
      EntryOverhead_def max_uint32_def record_access_def)

lemma shard_accounting_witness:
  "unat (memoryUsed (snd demo_shard)) = 82 \<and> keysWithTTL (snd demo_shard) = 1"
proof -
  have "shard_reach (new_memory_tracker 100) (fst demo_shard, snd demo_shard)"
    using demo_reach by simp
  from shard_accounting [OF this] show ?thesis
    by (simp add: demo_shard_eval demo_entry_def new_entry_def has_ttl_def record_access_def
        calculate_size_def EntryOverhead_def max_uint32_def)
qed

end
