(* ===== verification/Expiring_Map.thy ===== *)
theory Expiring_Map
  imports Entry
begin

text \<open>
  The contract a store with expiry offers its caller, stated over the view a client can observe:
  \<open>view t s k\<close> is the value and the deadline (0 for none) of \<open>k\<close> when it is live at instant \<open>t\<close>.
  The shard and the sharded engine both provide it (\<open>Shard_Spec\<close>, \<open>Engine_Spec\<close>).
\<close>

type_synonym view = "bytes \<Rightarrow> (bytes \<times> int) option"

definition live_at :: "int \<Rightarrow> int \<Rightarrow> bool" where
  "live_at t d \<longleftrightarrow> d = 0 \<or> t \<le> d"

definition deadline :: "int \<Rightarrow> int \<Rightarrow> int" where
  "deadline now ttl = (if ttl > 0 then i64 (now + ttl) else 0)"

definition age_to :: "int \<Rightarrow> (bytes \<times> int) option \<Rightarrow> (bytes \<times> int) option" where
  "age_to t x = (case x of None \<Rightarrow> None | Some (v, d) \<Rightarrow> if live_at t d then Some (v, d) else None)"

text \<open>
  What happens to a store between two operations of one client: other clients read, and the
  expiry machinery reclaims. The instants are the clock readings of each.
\<close>

datatype background = Read int int int bytes | Reap int bytes

fun bg_within :: "int \<Rightarrow> background \<Rightarrow> bool" where
  "bg_within t (Read t1 t2 t3 k) \<longleftrightarrow> t1 \<le> t2 \<and> t2 \<le> t"
| "bg_within t (Reap now k) \<longleftrightarrow> now \<le> t"

locale expiring_map =
  fixes inv :: "'s \<Rightarrow> bool"
    and view :: "int \<Rightarrow> 's \<Rightarrow> view"
    and get :: "int \<Rightarrow> int \<Rightarrow> int \<Rightarrow> bytes \<Rightarrow> 's \<Rightarrow> bytes option \<times> 's"
    and put :: "int \<Rightarrow> bytes \<Rightarrow> bytes \<Rightarrow> int \<Rightarrow> bool \<Rightarrow> 's \<Rightarrow> bool \<times> 's"
    and reap :: "int \<Rightarrow> bytes \<Rightarrow> 's \<Rightarrow> 's"
    and delete :: "bytes \<Rightarrow> 's \<Rightarrow> bool \<times> 's"
  assumes view_age: "t \<le> t' \<Longrightarrow> view t' s k = age_to t' (view t s k)"
    and get_value: "inv s \<Longrightarrow> fst (get t1 t2 t3 k s) = map_option fst (view t1 s k)"
    and get_view: "inv s \<Longrightarrow> t1 \<le> t2 \<Longrightarrow> t2 \<le> t \<Longrightarrow> view t (snd (get t1 t2 t3 k s)) = view t s"
    and get_inv: "inv s \<Longrightarrow> inv (snd (get t1 t2 t3 k s))"
    and reap_view: "inv s \<Longrightarrow> now \<le> t \<Longrightarrow> view t (reap now k s) = view t s"
    and reap_inv: "inv s \<Longrightarrow> inv (reap now k s)"
    and put_view: "inv s \<Longrightarrow> put now k v ttl nx s = (True, s') \<Longrightarrow>
          view t s' k = age_to t (Some (v, deadline now ttl))"
    and put_inv: "inv s \<Longrightarrow> put now k v ttl nx s = (r, s') \<Longrightarrow> inv s'"
    and put_others: "inv s \<Longrightarrow> put now k v ttl nx s = (r, s') \<Longrightarrow> k' \<noteq> k \<Longrightarrow>
          view t s' k' = view t s k' \<or> view t s' k' = None"
    and put_blocked_live: "inv s \<Longrightarrow> view now s k \<noteq> None \<Longrightarrow> put now k v ttl True s = (False, s)"
    and delete_view: "inv s \<Longrightarrow> view t (snd (delete k s)) = (view t s)(k := None)"
    and delete_inv: "inv s \<Longrightarrow> inv (snd (delete k s))"
begin

fun bg_step :: "background \<Rightarrow> 's \<Rightarrow> 's" where
  "bg_step (Read t1 t2 t3 k) s = snd (get t1 t2 t3 k s)"
| "bg_step (Reap now k) s = reap now k s"

fun bg_run :: "background list \<Rightarrow> 's \<Rightarrow> 's" where
  "bg_run [] s = s"
| "bg_run (e # es) s = bg_run es (bg_step e s)"

lemma bg_step_inv: "inv s \<Longrightarrow> inv (bg_step e s)"
  by (cases e) (auto intro: get_inv reap_inv)

lemma bg_step_view: "inv s \<Longrightarrow> bg_within t e \<Longrightarrow> view t (bg_step e s) = view t s"
  by (cases e) (auto simp: get_view reap_view)

lemma bg_run_inv: "inv s \<Longrightarrow> inv (bg_run es s)"
  by (induction es arbitrary: s) (auto intro: bg_step_inv)

text \<open>Reads and reclamation up to an instant are invisible from that instant on.\<close>

lemma bg_run_view:
  "inv s \<Longrightarrow> \<forall>e \<in> set es. bg_within t e \<Longrightarrow> view t (bg_run es s) = view t s"
  by (induction es arbitrary: s) (auto simp: bg_step_view bg_step_inv)

lemma read_your_write:
  assumes "inv s" and "put now k v ttl nx s = (True, s')" and "\<forall>e \<in> set es. bg_within t e"
  shows "fst (get t t2 t3 k (bg_run es s')) = (if live_at t (deadline now ttl) then Some v else None)"
proof -
  have i: "inv s'" using assms(1,2) by (rule put_inv)
  have "view t (bg_run es s') k = age_to t (Some (v, deadline now ttl))"
    using bg_run_view [OF i assms(3)] put_view [OF assms(1,2)] by simp
  then show ?thesis
    using get_value [OF bg_run_inv [OF i]] by (simp add: age_to_def)
qed

lemma deleted_stays_deleted:
  assumes "inv s" and "\<forall>e \<in> set es. bg_within t e"
  shows "fst (get t t2 t3 k (bg_run es (snd (delete k s)))) = None"
  using bg_run_view [OF delete_inv [OF assms(1)] assms(2)]
    get_value [OF bg_run_inv [OF delete_inv [OF assms(1)]]]
  by (simp add: delete_view [OF assms(1)])

end

lemma deadline_none [simp]: "ttl \<le> 0 \<Longrightarrow> deadline now ttl = 0"
  by (simp add: deadline_def)

lemma live_at_expired: "live_at t (ExpireAt e) \<longleftrightarrow> \<not> is_expired t e"
  by (auto simp: live_at_def is_expired_def)

lemma live_at_mono: "live_at t' d \<Longrightarrow> t \<le> t' \<Longrightarrow> live_at t d"
  by (auto simp: live_at_def)

lemma new_entry_ExpireAt: "ExpireAt (new_entry now k v ttl) = deadline now ttl"
  by (simp add: new_entry_def deadline_def)

end
