(* ===== verification/Shard_Spec.thy ===== *)
theory Shard_Spec
  imports Shard_Inv Expiring_Map
begin

text \<open>
  What a shard looks like to its caller. \<open>live_view\<close> abstracts the map, its entries' metadata and
  the expired entries still resident; each operation is then an operation on the view, and
  reclaiming an expired entry, lazily or actively, is no change at all.
\<close>

definition entry_view :: "entry \<Rightarrow> bytes \<times> int" where
  "entry_view e = (Value e, ExpireAt e)"

definition live_view :: "int \<Rightarrow> shard \<Rightarrow> view" where
  "live_view t s k =
     (case shard_lookup s k of
        None \<Rightarrow> None
      | Some e \<Rightarrow> if is_expired t e then None else Some (entry_view e))"

lemma live_view_cong: "data s = data s' \<Longrightarrow> live_view t s = live_view t s'"
  by (simp add: live_view_def fun_eq_iff)

lemma live_view_delete:
  "data s' = AList.delete k (data s) \<Longrightarrow> live_view t s' = (live_view t s)(k := None)"
  by (auto simp: live_view_def fun_eq_iff)

lemma live_view_update:
  "data s' = AList.update k e (data s) \<Longrightarrow>
     live_view t s' = (live_view t s)(k := if is_expired t e then None else Some (entry_view e))"
  by (auto simp: live_view_def fun_eq_iff)

lemma live_view_touch:
  "shard_lookup s k = Some e \<Longrightarrow> data s' = AList.update k (record_access u e) (data s) \<Longrightarrow>
     live_view t s' = live_view t s"
  by (auto simp: live_view_def fun_eq_iff entry_view_def)

lemma live_view_age: "t \<le> t' \<Longrightarrow> live_view t' s k = age_to t' (live_view t s k)"
  by (auto simp: live_view_def age_to_def entry_view_def live_at_expired
      dest: is_expired_mono split: option.splits)

lemma shard_exists_view: "shard_exists t k s \<longleftrightarrow> live_view t s k \<noteq> None"
  by (simp add: shard_exists_def live_view_def split: option.splits)

lemma get_entry_view: "map_option entry_view (shard_get_entry t k s) = live_view t s k"
  by (simp add: shard_get_entry_def live_view_def split: option.splits)

section \<open>Each operation on the view\<close>

text \<open>Reclaiming what has expired by \<open>now\<close> changes nothing anyone can see from \<open>now\<close> on.\<close>

lemma shard_expire_view:
  assumes "now \<le> t"
  shows "live_view t (snd (snd (shard_expire now k (m, s)))) = live_view t s"
proof (cases "fst (shard_expire now k (m, s))")
  case True
  then obtain e where e: "shard_lookup s k = Some e" "is_expired now e"
    by (auto simp: shard_expire_True)
  have "live_view t (snd (snd (shard_expire now k (m, s)))) = (live_view t s)(k := None)"
    using True by (intro live_view_delete) (simp add: shard_expire_data)
  also have "\<dots> = live_view t s"
    using e is_expired_mono [OF e(2) assms] by (auto simp: live_view_def fun_eq_iff)
  finally show ?thesis .
next
  case False
  then show ?thesis by (intro live_view_cong) (simp add: shard_expire_data)
qed

lemma shard_get_value:
  "map_option entry_view (fst (shard_get t1 t2 t3 k (m, s))) = live_view t1 s k"
  by (simp add: shard_get_unfold live_view_def entry_view_def split_beta Let_def split: option.split)

lemma shard_get_view:
  assumes "t1 \<le> t2" and "t2 \<le> t"
  shows "live_view t (snd (snd (shard_get t1 t2 t3 k (m, s)))) = live_view t s"
proof (cases "shard_lookup s k")
  case None
  then show ?thesis by (intro live_view_cong) (simp add: shard_get_unfold)
next
  case (Some e)
  show ?thesis
  proof (cases "is_expired t1 e")
    case True
    have "live_view t (snd (snd (shard_get t1 t2 t3 k (m, s)))) =
        live_view t (if lazyExpiration s then snd (snd (shard_expire t2 k (m, s))) else s)"
      using True Some by (intro live_view_cong) (simp add: shard_get_unfold split_beta Let_def)
    then show ?thesis using shard_expire_view [OF assms(2)] by simp
  next
    case False
    with Some show ?thesis
      by (intro live_view_touch [where u = t3]) (auto simp: shard_get_unfold)
  qed
qed

lemma shard_put_cases:
  obtains (blocked) "put_blocked now k nx s" "shard_put now k e nx (m, s) = ((False, None), m, s)"
  | (full) "\<not> put_blocked now k nx s"
      "shard_put now k e nx (m, s) = ((False, Some ErrOutOfMemory), m, s)"
  | (stored) m' where "\<not> put_blocked now k nx s"
      "shard_put now k e nx (m, s) = ((True, None), m', put_shard k e s)"
proof (cases "put_blocked now k nx s")
  case True
  then show ?thesis by (intro blocked) (simp_all add: shard_put_unfold)
next
  case False
  obtain r m' where r: "reserve (ucast (Size e)) (resident_size k s) m = (r, m')"
    by (cases "reserve (ucast (Size e)) (resident_size k s) m")
  show ?thesis
  proof (cases r)
    case True
    with False r show ?thesis by (intro stored [of m']) (simp_all add: shard_put_unfold)
  next
    case r': False
    with r have "m' = m" by (simp add: reserve_False)
    with False r r' show ?thesis by (intro full) (simp_all add: shard_put_unfold)
  qed
qed

lemma put_shard_view:
  "live_view t (put_shard k e s) =
     (live_view t s)(k := if is_expired t e then None else Some (entry_view e))"
  by (rule live_view_update) simp

section \<open>The shard provides the contract\<close>

definition shard_get_bytes ::
    "int \<Rightarrow> int \<Rightarrow> int \<Rightarrow> bytes \<Rightarrow> mshard \<Rightarrow> bytes option \<times> mshard" where
  "shard_get_bytes t1 t2 t3 k ms =
     (case shard_get t1 t2 t3 k ms of (r, ms') \<Rightarrow> (map_option Value r, ms'))"

definition shard_put_bytes ::
    "int \<Rightarrow> bytes \<Rightarrow> bytes \<Rightarrow> int \<Rightarrow> bool \<Rightarrow> mshard \<Rightarrow> bool \<times> mshard" where
  "shard_put_bytes now k v ttl nx ms =
     (case shard_put now k (new_entry now k v ttl) nx ms of ((stored, _), ms') \<Rightarrow> (stored, ms'))"

interpretation shard_map: expiring_map
  where inv = "\<lambda>ms. shard_inv (snd ms)"
    and view = "\<lambda>t ms. live_view t (snd ms)"
    and get = shard_get_bytes
    and put = shard_put_bytes
    and reap = "\<lambda>now k ms. snd (shard_expire now k ms)"
    and delete = "\<lambda>k ms. (case shard_delete k ms of (r, ms') \<Rightarrow> (r \<noteq> None, ms'))"
proof (unfold_locales, goal_cases)
  case (1 t t' s k)
  then show ?case by (rule live_view_age)
next
  case (2 s t1 t2 t3 k)
  have "fst (shard_get_bytes t1 t2 t3 k s) = map_option Value (fst (shard_get t1 t2 t3 k s))"
    by (simp add: shard_get_bytes_def split_beta)
  also have "\<dots> = map_option fst (map_option entry_view (fst (shard_get t1 t2 t3 k s)))"
    by (simp add: option.map_comp comp_def entry_view_def)
  finally show ?case using shard_get_value [of t1 t2 t3 k "fst s" "snd s"] by simp
next
  case (3 s t1 t2 t t3 k)
  then show ?case
    using shard_get_view [of t1 t2 t t3 k "fst s" "snd s"] by (simp add: shard_get_bytes_def split_beta)
next
  case (4 s t1 t2 t3 k)
  then show ?case
    using shard_get_inv [of "snd s" t1 t2 t3 k "fst s"] by (simp add: shard_get_bytes_def split_beta)
next
  case (5 s now t k)
  then show ?case using shard_expire_view [of now t k "fst s" "snd s"] by simp
next
  case (6 s now k)
  then show ?case using shard_expire_inv [of "snd s" now k "fst s"] by simp
next
  case (7 s now k v ttl nx s' t)
  then show ?case
    by (cases rule: shard_put_cases [of now k nx "snd s" "new_entry now k v ttl" "fst s"])
      (auto simp: shard_put_bytes_def put_shard_view age_to_def live_at_expired [symmetric]
        new_entry_ExpireAt entry_view_def)
next
  case (8 s now k v ttl nx r s')
  then show ?case
    using shard_put_inv [of "snd s" "new_entry now k v ttl" k now nx "fst s"]
    by (auto simp: shard_put_bytes_def split_beta)
next
  case (9 s now k v ttl nx r s' k' t)
  then show ?case
    by (cases rule: shard_put_cases [of now k nx "snd s" "new_entry now k v ttl" "fst s"])
      (auto simp: shard_put_bytes_def put_shard_view)
next
  case (10 s now k v ttl)
  then show ?case
    by (cases rule: shard_put_cases [of now k True "snd s" "new_entry now k v ttl" "fst s"])
      (auto simp: shard_put_bytes_def put_blocked_def shard_exists_view)
next
  case (11 s t k)
  then show ?case
    by (cases s) (auto simp: split_beta shard_removal_data intro!: live_view_delete)
next
  case (12 s k)
  then show ?case
    using shard_delete_inv [of "snd s" k "fst s"] by (simp add: split_beta)
qed

end
