(* ===== verification/Go_Lib.thy ===== *)
theory Go_Lib
  imports Prelude "HOL-Library.Char_ord"
begin

text \<open>
  What the code uses of Go's \<open>strconv\<close> and \<open>strings\<close>: decimal rendering and parsing, splitting on
  white space, trimming, ASCII case. \<open>strings.ToUpper\<close> of a string with bytes above 0x7f goes
  through Go's Unicode tables; those are an argument of \<open>to_upper\<close> and \<open>to_lower\<close>. White space is
  Unicode's: its runes are written out as the UTF-8 sequences they are.
\<close>

section \<open>Decimal text\<close>

definition digit_char :: "nat \<Rightarrow> char" where
  "digit_char d = char_of (48 + d)"

definition is_digit :: "char \<Rightarrow> bool" where
  "is_digit c \<longleftrightarrow> 48 \<le> (of_char c :: nat) \<and> (of_char c :: nat) \<le> 57"

definition digit_val :: "char \<Rightarrow> nat" where
  "digit_val c = of_char c - 48"

fun format_nat :: "nat \<Rightarrow> bytes" where
  "format_nat n = (if n < 10 then [digit_char n] else format_nat (n div 10) @ [digit_char (n mod 10)])"

declare format_nat.simps [simp del]

definition format_int :: "int \<Rightarrow> bytes" where
  "format_int i = (if i < 0 then CHR ''-'' # format_nat (nat (- i)) else format_nat (nat i))"

definition digits_val :: "nat \<Rightarrow> bytes \<Rightarrow> nat" where
  "digits_val acc s = foldl (\<lambda>n c. 10 * n + digit_val c) acc s"

definition parse_digits :: "bytes \<Rightarrow> nat option" where
  "parse_digits s = (if s \<noteq> [] \<and> list_all is_digit s then Some (digits_val 0 s) else None)"

text \<open>\<open>strconv.ParseUint(s, 10, 64)\<close>: no sign, and in range.\<close>

definition parse_uint :: "bytes \<Rightarrow> nat option" where
  "parse_uint s =
     (case parse_digits s of Some n \<Rightarrow> if n < 2 ^ 64 then Some n else None | None \<Rightarrow> None)"

text \<open>\<open>strconv.ParseInt(s, 10, 64)\<close>, and \<open>strconv.Atoi\<close> on a 64-bit machine: an optional sign of
  either kind, then digits.\<close>

definition parse_int :: "bytes \<Rightarrow> int option" where
  "parse_int s =
     (case s of
        [] \<Rightarrow> None
      | c # cs \<Rightarrow>
          (let neg = (c = CHR ''-''); ds = (if c = CHR ''+'' \<or> c = CHR ''-'' then cs else s)
           in case parse_digits ds of
                None \<Rightarrow> None
              | Some n \<Rightarrow>
                  if neg then (if n \<le> 2 ^ 63 then Some (- int n) else None)
                  else (if n < 2 ^ 63 then Some (int n) else None)))"

abbreviation atoi :: "bytes \<Rightarrow> int option" where "atoi \<equiv> parse_int"

lemma of_char_digit: "d < 10 \<Longrightarrow> (of_char (digit_char d) :: nat) = 48 + d"
  by (simp add: digit_char_def)

lemma digit_char_props [simp]:
  assumes "d < 10"
  shows "is_digit (digit_char d)" "digit_val (digit_char d) = d"
  using assms by (simp_all add: is_digit_def digit_val_def of_char_digit)

lemma not_digit_chars [simp]:
  "\<not> is_digit (CHR ''+'')" "\<not> is_digit (CHR ''-'')" "\<not> is_digit (CHR 0x0A)" "\<not> is_digit (CHR 0x0D)"
  by (simp_all add: is_digit_def)

lemma digits_val_append [simp]:
  "digits_val acc (s @ [c]) = 10 * digits_val acc s + digit_val c"
  by (simp add: digits_val_def)

lemma format_nat_not_Nil [simp]: "format_nat n \<noteq> []"
  by (subst format_nat.simps) simp

lemma format_nat_digits: "list_all is_digit (format_nat n)"
proof (induction n rule: format_nat.induct)
  case (1 n)
  then show ?case by (subst format_nat.simps) simp
qed

lemma digits_val_format: "digits_val 0 (format_nat n) = n"
proof (induction n rule: format_nat.induct)
  case (1 n)
  show ?case
  proof (cases "n < 10")
    case True
    then show ?thesis by (simp add: format_nat.simps [of n] digits_val_def)
  next
    case False
    with 1 have "digits_val 0 (format_nat (n div 10)) = n div 10" by simp
    with False show ?thesis by (simp add: format_nat.simps [of n])
  qed
qed

lemma parse_digits_format [simp]: "parse_digits (format_nat n) = Some n"
  by (simp add: parse_digits_def format_nat_digits digits_val_format)

lemma parse_uint_format: "n < 2 ^ 64 \<Longrightarrow> parse_uint (format_nat n) = Some n"
  by (simp add: parse_uint_def)

lemma format_nat_Cons: "\<exists>c cs. format_nat n = c # cs \<and> is_digit c"
  using format_nat_digits [of n] by (cases "format_nat n") auto

lemma parse_int_format_nat: "n < 2 ^ 63 \<Longrightarrow> parse_int (format_nat n) = Some (int n)"
proof -
  assume n: "n < 2 ^ 63"
  obtain c cs where c: "format_nat n = c # cs" "is_digit c" using format_nat_Cons by blast
  then have "c \<noteq> CHR ''+''" "c \<noteq> CHR ''-''" using not_digit_chars by metis+
  with c n show ?thesis
    using parse_digits_format [of n] by (simp add: parse_int_def)
qed

lemma parse_int_format: "min_int64 \<le> i \<Longrightarrow> i \<le> max_int64 \<Longrightarrow> parse_int (format_int i) = Some i"
proof (cases "i < 0")
  case True
  assume "min_int64 \<le> i"
  with True show ?thesis by (simp add: format_int_def parse_int_def nat_le_iff)
next
  case False
  assume "i \<le> max_int64"
  with False have "nat i < 2 ^ 63" by (simp add: nat_less_iff)
  then show ?thesis using parse_int_format_nat [of "nat i"] False by (simp add: format_int_def)
qed

lemma parse_int_range: "parse_int s = Some i \<Longrightarrow> min_int64 \<le> i \<and> i \<le> max_int64"
  by (fastforce simp: parse_int_def Let_def split: list.splits option.splits if_splits)

lemma parse_uint_range: "parse_uint s = Some n \<Longrightarrow> n < 2 ^ 64"
  by (auto simp: parse_uint_def split: option.splits if_splits)

section \<open>Case\<close>

definition is_ascii :: "bytes \<Rightarrow> bool" where
  "is_ascii s \<longleftrightarrow> list_all (\<lambda>c. (of_char c :: nat) < 128) s"

definition upper_char :: "char \<Rightarrow> char" where
  "upper_char c = (if 97 \<le> (of_char c :: nat) \<and> (of_char c :: nat) \<le> 122
     then char_of ((of_char c :: nat) - 32) else c)"

definition lower_char :: "char \<Rightarrow> char" where
  "lower_char c = (if 65 \<le> (of_char c :: nat) \<and> (of_char c :: nat) \<le> 90
     then char_of ((of_char c :: nat) + 32) else c)"

definition to_upper :: "(bytes \<Rightarrow> bytes) \<Rightarrow> bytes \<Rightarrow> bytes" where
  "to_upper unicode s = (if is_ascii s then map upper_char s else unicode s)"

definition to_lower :: "(bytes \<Rightarrow> bytes) \<Rightarrow> bytes \<Rightarrow> bytes" where
  "to_lower unicode s = (if is_ascii s then map lower_char s else unicode s)"

section \<open>White space\<close>

text \<open>The length in bytes of the white-space rune a string starts with, 0 when there is none.\<close>

definition space_len :: "bytes \<Rightarrow> nat" where
  "space_len s =
     (let b = (\<lambda>i. if i < length s then (of_char (s ! i) :: nat) else 0)
      in if s = [] then 0
         else if b 0 \<in> {9, 10, 11, 12, 13, 32} then 1
         else if b 0 = 0xC2 \<and> b 1 \<in> {0x85, 0xA0} then 2
         else if b 0 = 0xE1 \<and> b 1 = 0x9A \<and> b 2 = 0x80 then 3
         else if b 0 = 0xE2 \<and> b 1 = 0x80 \<and> (0x80 \<le> b 2 \<and> b 2 \<le> 0x8A \<or> b 2 \<in> {0xA8, 0xA9, 0xAF}) then 3
         else if b 0 = 0xE2 \<and> b 1 = 0x81 \<and> b 2 = 0x9F then 3
         else if b 0 = 0xE3 \<and> b 1 = 0x80 \<and> b 2 = 0x80 then 3
         else 0)"

text \<open>\<open>strings.Fields\<close>: the maximal runs of bytes outside white space.\<close>

function (sequential) fields_loop :: "bytes \<Rightarrow> bytes \<Rightarrow> bytes list" where
  "fields_loop cur [] = (if cur = [] then [] else [cur])"
| "fields_loop cur (c # cs) =
     (let n = space_len (c # cs)
      in if n = 0 then fields_loop (cur @ [c]) cs
         else if cur = [] then fields_loop [] (drop (n - 1) cs)
         else cur # fields_loop [] (drop (n - 1) cs))"
  by pat_completeness auto
termination by (relation "measure (\<lambda>(_, s). length s)") auto

definition split_fields :: "bytes \<Rightarrow> bytes list" where
  "split_fields s = fields_loop [] s"

text \<open>\<open>strings.TrimSpace\<close>: leading, then trailing white-space runes.\<close>

function trim_left :: "bytes \<Rightarrow> bytes" where
  "trim_left s = (if space_len s = 0 then s else trim_left (drop (space_len s) s))"
  by pat_completeness auto
termination
  by (relation "measure length") (auto simp: space_len_def Let_def split: if_splits)

declare trim_left.simps [simp del]

definition space_suffix :: "bytes \<Rightarrow> nat" where
  "space_suffix s =
     (if length s \<ge> 1 \<and> space_len (drop (length s - 1) s) = 1 then 1
      else if length s \<ge> 2 \<and> space_len (drop (length s - 2) s) = 2 then 2
      else if length s \<ge> 3 \<and> space_len (drop (length s - 3) s) = 3 then 3
      else 0)"

function trim_right :: "bytes \<Rightarrow> bytes" where
  "trim_right s = (if space_suffix s = 0 then s else trim_right (take (length s - space_suffix s) s))"
  by pat_completeness auto
termination
  by (relation "measure length") (auto simp: space_suffix_def split: if_splits)

declare trim_right.simps [simp del]

definition trim_space :: "bytes \<Rightarrow> bytes" where
  "trim_space s = trim_right (trim_left s)"

text \<open>A string that holds a plain ASCII byte outside white space has a field.\<close>

definition ascii_nonspace :: "char \<Rightarrow> bool" where
  "ascii_nonspace c \<longleftrightarrow> (of_char c :: nat) < 128 \<and> (of_char c :: nat) \<notin> {9, 10, 11, 12, 13, 32}"

lemma fields_loop_cur: "cur \<noteq> [] \<Longrightarrow> fields_loop cur s \<noteq> []"
  by (induction cur s rule: fields_loop.induct) (auto simp: Let_def)

lemma space_len_skips:
  assumes "ascii_nonspace x" and "x \<in> set (c # cs)" and "space_len (c # cs) \<noteq> 0"
  shows "x \<in> set (drop (space_len (c # cs) - 1) cs)"
proof (rule ccontr)
  let ?n = "space_len (c # cs)"
  assume "x \<notin> set (drop (?n - 1) cs)"
  moreover have "set (c # cs) = set (take ?n (c # cs)) \<union> set (drop ?n (c # cs))"
    by (metis append_take_drop_id set_append)
  moreover have "drop ?n (c # cs) = drop (?n - 1) cs"
    using assms(3) by (cases ?n) auto
  ultimately have "x \<in> set (take ?n (c # cs))" using assms(2) by auto
  then obtain i where i: "i < ?n" "i < length (c # cs)" "(c # cs) ! i = x"
    by (auto simp: in_set_conv_nth)
  have "?n \<le> 3" by (simp add: space_len_def Let_def)
  with i(1) have "i = 0 \<or> i = 1 \<or> i = 2" by linarith
  with i assms(1) show False
    by (auto simp: space_len_def Let_def ascii_nonspace_def split: if_splits)
qed

lemma fields_not_Nil:
  "x \<in> set s \<Longrightarrow> ascii_nonspace x \<Longrightarrow> fields_loop cur s \<noteq> []"
proof (induction cur s rule: fields_loop.induct)
  case (2 cur c cs)
  show ?case
  proof (cases "space_len (c # cs) = 0")
    case True
    then show ?thesis by (simp add: fields_loop_cur)
  next
    case False
    then have "x \<in> set (drop (space_len (c # cs) - 1) cs)"
      using space_len_skips "2.prems" by blast
    with 2 False show ?thesis by (auto simp: Let_def)
  qed
qed simp

end
