(* ===== verification/Scan.thy ===== *)
theory Scan
  imports Shard Go_Lib
begin

text \<open>
  \<open>internal/storage/scan.go\<close>: the registry of scan cursors. Go's cursor pointers are the cursor
  ids: a registry operation that holds a pointer here holds the id and writes the cursor back into
  the map. The registry's lock is held for a whole page, so a page is one step. The list \<open>lru\<close> has
  the most recently used cursor first.

  \<open>newID k\<close> is the answer of the \<open>k\<close>-th call of the id generator, \<open>None\<close> when it fails. A page
  reads the clock for the sweep, for the touch of its cursor, and once per entry of a snapshot
  (\<open>snap_now\<close>) or of a batch (\<open>live_now\<close>); \<open>ord i\<close> is the range order of shard \<open>i\<close>.
\<close>

type_synonym scan_owner = u64

datatype scan_error =
    ErrScanCursorUnknown
  | ErrTooManyScanCursors
  | ErrScanMemoryExhausted
  | ErrCursorIDUnavailable
  | ErrRandom
  | ErrScanEngineClosed

definition ScanCursorStart :: bytes where "ScanCursorStart = ''0''"
definition DefaultScanIdleTimeout :: int where "DefaultScanIdleTimeout = 60 * 10 ^ 9"
definition DefaultMaxScanCursorsPerConn :: int where "DefaultMaxScanCursorsPerConn = 16"
definition DefaultMaxScanSnapshotBytes :: u64 where "DefaultMaxScanSnapshotBytes = 64 * 2 ^ 20"
definition defaultScanCount :: int where "defaultScanCount = 10"
definition maxScanCount :: int where "maxScanCount = 10000"
definition scanCursorOverhead :: u64 where "scanCursorOverhead = 128"
definition scanKeyOverhead :: u64 where "scanKeyOverhead = 16"
definition cursorIDAttempts :: nat where "cursorIDAttempts = 4"

section \<open>State\<close>

record scan_cursor =
  c_id :: bytes
  c_owner :: scan_owner
  c_shard :: int
  c_keys :: "bytes list"
  c_pos :: nat
  c_bytes :: u64
  c_lastUsed :: int

record scan_registry =
  idleTimeout :: int
  maxPerOwner :: int
  maxBytes :: u64
  cursors :: "(bytes \<times> scan_cursor) list"
  perConn :: "(scan_owner \<times> int) list"
  lru :: "bytes list"
  snapBytes :: u64

definition new_scan_registry :: "int \<Rightarrow> int \<Rightarrow> u64 \<Rightarrow> scan_registry" where
  "new_scan_registry idle per_conn max_bytes =
     \<lparr>idleTimeout = (if idle \<le> 0 then DefaultScanIdleTimeout else idle),
      maxPerOwner = (if per_conn \<le> 0 then DefaultMaxScanCursorsPerConn else per_conn),
      maxBytes = (if max_bytes = 0 then DefaultMaxScanSnapshotBytes else max_bytes),
      cursors = [], perConn = [], lru = [], snapBytes = 0\<rparr>"

text \<open>\<open>randomCursorID\<close>: the decimal text of eight random bytes, never that of zero.\<close>

definition random_cursor_id :: "bytes option \<Rightarrow> bytes option" where
  "random_cursor_id rnd =
     (case rnd of
        None \<Rightarrow> None
      | Some buf \<Rightarrow>
          (let n = foldl (\<lambda>acc c. acc * 256 + (of_char c :: nat)) 0 (take 8 buf)
           in Some (format_nat (if n = 0 then 1 else n))))"

record scan_stats =
  ss_Cursors :: nat
  ss_Bytes :: u64

definition scan_stats_of :: "scan_registry \<Rightarrow> scan_stats" where
  "scan_stats_of r = \<lparr>ss_Cursors = length (cursors r), ss_Bytes = snapBytes r\<rparr>"

section \<open>The registry's steps\<close>

abbreviation conn_count :: "scan_registry \<Rightarrow> scan_owner \<Rightarrow> int" where
  "conn_count r owner \<equiv> (case map_of (perConn r) owner of None \<Rightarrow> 0 | Some n \<Rightarrow> n)"

definition write_cursor :: "scan_cursor \<Rightarrow> scan_registry \<Rightarrow> scan_registry" where
  "write_cursor c r = r\<lparr>cursors := AList.update (c_id c) c (cursors r)\<rparr>"

definition drop_locked :: "bytes \<Rightarrow> scan_registry \<Rightarrow> scan_registry" where
  "drop_locked i r =
     (case map_of (cursors r) i of
        None \<Rightarrow> r\<lparr>lru := removeAll i (lru r)\<rparr>
      | Some c \<Rightarrow>
          (let remaining = conn_count r (c_owner c) - 1
           in r\<lparr>cursors := AList.delete i (cursors r),
                lru := removeAll i (lru r),
                snapBytes := snapBytes r - c_bytes c,
                perConn := (if remaining > 0 then AList.update (c_owner c) remaining (perConn r)
                            else AList.delete (c_owner c) (perConn r))\<rparr>))"

definition touch_locked :: "int \<Rightarrow> scan_cursor \<Rightarrow> scan_registry \<Rightarrow> scan_registry" where
  "touch_locked now c r =
     write_cursor (c\<lparr>c_lastUsed := now\<rparr>) (r\<lparr>lru := c_id c # removeAll (c_id c) (lru r)\<rparr>)"

text \<open>\<open>sweepLocked\<close> walks the list from the back and stops at the first cursor within the timeout.\<close>

fun sweep_loop :: "int \<Rightarrow> bytes list \<Rightarrow> scan_registry \<Rightarrow> scan_registry" where
  "sweep_loop deadline_at [] r = r"
| "sweep_loop deadline_at (i # ids) r =
     (case map_of (cursors r) i of
        None \<Rightarrow> r
      | Some c \<Rightarrow>
          if c_lastUsed c > deadline_at then r
          else sweep_loop deadline_at ids (drop_locked i r))"

definition sweep_locked :: "int \<Rightarrow> scan_registry \<Rightarrow> scan_registry" where
  "sweep_locked now r = sweep_loop (now - idleTimeout r) (rev (lru r)) r"

definition oldest_locked :: "bytes option \<Rightarrow> scan_registry \<Rightarrow> bytes option" where
  "oldest_locked keep r = find (\<lambda>i. Some i \<noteq> keep) (rev (lru r))"

lemma drop_locked_lru [simp]: "lru (drop_locked i r) = removeAll i (lru r)"
  by (simp add: drop_locked_def Let_def split: option.split)

lemma oldest_locked_in: "oldest_locked keep r = Some i \<Longrightarrow> i \<in> set (lru r) \<and> Some i \<noteq> keep"
  unfolding oldest_locked_def by (drule find_SomeD) simp

function make_room_locked :: "bytes option \<Rightarrow> u64 \<Rightarrow> scan_registry \<Rightarrow> bool \<times> scan_registry" where
  "make_room_locked keep want r =
     (if snapBytes r + want > maxBytes r then
        (case oldest_locked keep r of
           None \<Rightarrow> (False, r)
         | Some victim \<Rightarrow> make_room_locked keep want (drop_locked victim r))
      else (True, r))"
  by pat_completeness auto
termination
  by (relation "measure (\<lambda>(_, _, r). length (lru r))")
    (auto dest!: oldest_locked_in intro: length_removeAll_less)

declare make_room_locked.simps [simp del]

fun fresh_id_loop :: "(nat \<Rightarrow> bytes option) \<Rightarrow> nat \<Rightarrow> nat \<Rightarrow> scan_registry \<Rightarrow> scan_error + bytes" where
  "fresh_id_loop newID 0 k r = Inl ErrCursorIDUnavailable"
| "fresh_id_loop newID (Suc left) k r =
     (case newID k of
        None \<Rightarrow> Inl ErrRandom
      | Some i \<Rightarrow> if map_of (cursors r) i = None then Inr i else fresh_id_loop newID left (k + 1) r)"

definition fresh_id_locked :: "(nat \<Rightarrow> bytes option) \<Rightarrow> scan_registry \<Rightarrow> scan_error + bytes" where
  "fresh_id_locked newID r = fresh_id_loop newID cursorIDAttempts 0 r"

definition open_locked ::
    "(nat \<Rightarrow> bytes option) \<Rightarrow> int \<Rightarrow> scan_owner \<Rightarrow> scan_registry \<Rightarrow>
     (scan_error + scan_cursor) \<times> scan_registry" where
  "open_locked newID now owner r =
     (if conn_count r owner \<ge> maxPerOwner r then (Inl ErrTooManyScanCursors, r)
      else case fresh_id_locked newID r of
             Inl err \<Rightarrow> (Inl err, r)
           | Inr i \<Rightarrow>
               (case make_room_locked None scanCursorOverhead r of
                  (False, r') \<Rightarrow> (Inl ErrScanMemoryExhausted, r')
                | (True, r') \<Rightarrow>
                    (let c = \<lparr>c_id = i, c_owner = owner, c_shard = - 1, c_keys = [], c_pos = 0,
                              c_bytes = scanCursorOverhead, c_lastUsed = now\<rparr>
                     in (Inr c,
                         r'\<lparr>lru := i # lru r',
                            cursors := AList.update i c (cursors r'),
                            perConn := AList.update owner (conn_count r' owner + 1) (perConn r'),
                            snapBytes := snapBytes r' + scanCursorOverhead\<rparr>))))"

definition resolve_locked ::
    "(nat \<Rightarrow> bytes option) \<Rightarrow> int \<Rightarrow> scan_owner \<Rightarrow> bytes \<Rightarrow> scan_registry \<Rightarrow>
     (scan_error + scan_cursor) \<times> scan_registry" where
  "resolve_locked newID now owner i r =
     (if i = ScanCursorStart then open_locked newID now owner r
      else case map_of (cursors r) i of
             None \<Rightarrow> (Inl ErrScanCursorUnknown, r)
           | Some c \<Rightarrow>
               if c_owner c \<noteq> owner then (Inl ErrScanCursorUnknown, r)
               else (Inr (c\<lparr>c_lastUsed := now\<rparr>), touch_locked now c r))"

fun key_bytes :: "bytes list \<Rightarrow> u64" where
  "key_bytes [] = 0"
| "key_bytes (k # ks) = of_nat (length k) + key_bytes ks"

definition snapshot_bytes :: "bytes list \<Rightarrow> u64" where
  "snapshot_bytes keys = of_nat (length keys) * scanKeyOverhead + key_bytes keys"

text \<open>
  \<open>advanceLocked\<close> answers whether it found another shard; the cursor is returned as it then is.
\<close>

definition advance_locked ::
    "(nat \<Rightarrow> range_ord) \<Rightarrow> (bytes \<Rightarrow> int) \<Rightarrow> shard list \<Rightarrow> scan_cursor \<Rightarrow> scan_registry \<Rightarrow>
     (scan_error + bool) \<times> scan_cursor \<times> scan_registry" where
  "advance_locked ord snap_now shs c r =
     (let nxt = c_shard c + 1
      in if nxt \<ge> int (length shs) then (Inr False, c, r)
         else
           (let keys = shard_keys (ord (nat nxt)) snap_now (shs ! nat nxt);
                c1 = c\<lparr>c_bytes := 0, c_keys := []\<rparr>;
                r1 = write_cursor c1 (r\<lparr>snapBytes := snapBytes r - c_bytes c\<rparr>);
                need = scanCursorOverhead + snapshot_bytes keys
            in case make_room_locked (Some (c_id c)) need r1 of
                 (False, r2) \<Rightarrow> (Inl ErrScanMemoryExhausted, c1, drop_locked (c_id c) r2)
               | (True, r2) \<Rightarrow>
                   (let c2 = c1\<lparr>c_shard := nxt, c_keys := keys, c_pos := 0, c_bytes := need\<rparr>
                    in (Inr True, c2, write_cursor c2 (r2\<lparr>snapBytes := snapBytes r2 + need\<rparr>)))))"

lemma advance_locked_shard:
  "advance_locked ord snap_now shs c r = (Inr True, c', r') \<Longrightarrow>
     c_shard c' = c_shard c + 1 \<and> c_shard c + 1 < int (length shs)"
  by (auto simp: advance_locked_def Let_def split: if_splits prod.splits bool.splits)

text \<open>The loop of \<open>page\<close>: \<open>left\<close> is \<open>count - examined\<close>.\<close>

function (sequential) page_loop ::
    "(nat \<Rightarrow> range_ord) \<Rightarrow> (bytes \<Rightarrow> int) \<Rightarrow> (bytes \<Rightarrow> int) \<Rightarrow> shard list \<Rightarrow> bytes \<Rightarrow>
     nat \<Rightarrow> bytes list \<Rightarrow> scan_cursor \<Rightarrow> scan_registry \<Rightarrow>
     (scan_error + bytes list \<times> bytes) \<times> scan_registry" where
  "page_loop ord snap_now live_now shs pat left keys c r =
     (if left = 0 then (Inr (keys, c_id c), r)
      else if c_pos c \<ge> length (c_keys c) then
        (case advance_locked ord snap_now shs c r of
           (Inl err, c', r') \<Rightarrow> (Inl err, r')
         | (Inr False, c', r') \<Rightarrow> (Inr (keys, ScanCursorStart), drop_locked (c_id c') r')
         | (Inr True, c', r') \<Rightarrow> page_loop ord snap_now live_now shs pat left keys c' r')
      else
        (let tk = min left (length (c_keys c) - c_pos c);
             batch = take tk (drop (c_pos c) (c_keys c));
             c' = c\<lparr>c_pos := c_pos c + tk\<rparr>
         in page_loop ord snap_now live_now shs pat (left - tk)
              (live_keys live_now (shs ! nat (c_shard c)) batch pat keys) c' (write_cursor c' r)))"
  by pat_completeness auto
termination
  by (relation "measure (\<lambda>(_, _, _, shs, _, left, _, c, _). left + nat (int (length shs) - c_shard c))")
    (auto dest: advance_locked_shard [OF sym])

declare page_loop.simps [simp del]

definition page ::
    "(nat \<Rightarrow> bytes option) \<Rightarrow> (nat \<Rightarrow> range_ord) \<Rightarrow> int \<Rightarrow> int \<Rightarrow> (bytes \<Rightarrow> int) \<Rightarrow> (bytes \<Rightarrow> int) \<Rightarrow>
     shard list \<Rightarrow> scan_owner \<Rightarrow> bytes \<Rightarrow> nat \<Rightarrow> bytes \<Rightarrow> scan_registry \<Rightarrow>
     (scan_error + bytes list \<times> bytes) \<times> scan_registry" where
  "page newID ord t_sweep t_use snap_now live_now shs owner i cnt pat r =
     (let r1 = sweep_locked t_sweep r
      in case resolve_locked newID t_use owner i r1 of
           (Inl err, r2) \<Rightarrow> (Inl err, r2)
         | (Inr c, r2) \<Rightarrow> page_loop ord snap_now live_now shs pat cnt [] c r2)"

text \<open>\<open>release\<close> and \<open>closeAll\<close> range over the map while they delete from it; \<open>ord\<close> is the order.\<close>

type_synonym cursor_ord = "(bytes \<times> scan_cursor) list \<Rightarrow> (bytes \<times> scan_cursor) list"

definition cursor_order :: "cursor_ord \<Rightarrow> bool" where
  "cursor_order ord \<longleftrightarrow> (\<forall>xs. mset (ord xs) = mset xs)"

definition release_scans :: "cursor_ord \<Rightarrow> scan_owner \<Rightarrow> scan_registry \<Rightarrow> scan_registry" where
  "release_scans ord owner r =
     fold (\<lambda>(i, c) r. if c_owner c = owner then drop_locked i r else r) (ord (cursors r)) r"

definition close_all_scans :: "cursor_ord \<Rightarrow> scan_registry \<Rightarrow> scan_registry" where
  "close_all_scans ord r = fold (\<lambda>(i, c) r. drop_locked i r) (ord (cursors r)) r"

end
