(* ===== verification/Engine.thy ===== *)
theory Engine
  imports Shard_Spec Scan
begin

text \<open>
  \<open>internal/storage/engine.go\<close>: the sharded engine. The collaborators it holds are parameters:
  \<open>hash\<close> is \<open>xxhash.Sum64\<close>; the eviction controller is a function of the call (the attempt of the
  write, and how many victims the pass has taken so far), the shard and the bytes needed; the expiry
  scheduler is the list of the hints it has been handed. One operation is one step: the model is the
  engine as one goroutine drives it, and \<open>Memory\<close> treats the counter that concurrent writers share.
\<close>

type_synonym hint = "nat \<times> bytes \<times> int"
type_synonym evict_fn = "nat \<Rightarrow> nat \<Rightarrow> shard \<Rightarrow> u64 \<Rightarrow> bytes list"

definition maxEvictionsPerWrite :: nat where "maxEvictionsPerWrite = 64"
definition admitAttempts :: nat where "admitAttempts = 4"

section \<open>State\<close>

record engine_config =
  ShardCount :: int
  MaxMemory :: u64
  MaxValueSize :: u64
  DisableLazyExpiration :: bool
  ScanIdleTimeout :: int
  MaxScanCursorsPerConn :: int
  MaxScanSnapshotBytes :: u64

record engine =
  shards :: "shard list"
  shardCount :: u64
  shardMask :: u64
  maxValueSize :: u64
  memory :: mem_tracker
  scans :: scan_registry
  eviction :: "evict_fn option"
  scheduler :: "hint list option"
  closed :: bool

definition default_engine_config :: engine_config where
  "default_engine_config =
     \<lparr>ShardCount = 64, MaxMemory = 0, MaxValueSize = 1 * 1024 * 1024, DisableLazyExpiration = False,
      ScanIdleTimeout = 0, MaxScanCursorsPerConn = 0, MaxScanSnapshotBytes = 0\<rparr>"

definition next_power_of_two :: "int \<Rightarrow> int" where
  "next_power_of_two n0 =
     (if n0 \<le> 0 then 1
      else let n = n0 - 1;
               n = n OR drop_bit 1 n;
               n = n OR drop_bit 2 n;
               n = n OR drop_bit 4 n;
               n = n OR drop_bit 8 n;
               n = n OR drop_bit 16 n
           in i64 (n + 1))"

definition new_sharded_engine :: "engine_config \<Rightarrow> engine" where
  "new_sharded_engine cfg =
     (let cnt = next_power_of_two (if ShardCount cfg \<le> 0 then 64 else ShardCount cfg)
      in \<lparr>shards = replicate (nat cnt) (set_lazy_expiration (\<not> DisableLazyExpiration cfg) new_shard),
          shardCount = of_int cnt,
          shardMask = of_int (cnt - 1),
          maxValueSize = MaxValueSize cfg,
          memory = new_memory_tracker (MaxMemory cfg),
          scans = new_scan_registry (ScanIdleTimeout cfg) (MaxScanCursorsPerConn cfg)
                    (MaxScanSnapshotBytes cfg),
          eviction = None, scheduler = None, closed = False\<rparr>)"

definition set_eviction_controller :: "evict_fn option \<Rightarrow> engine \<Rightarrow> engine" where
  "set_eviction_controller ctl e = e\<lparr>eviction := ctl\<rparr>"

definition set_expiry_scheduler :: "bool \<Rightarrow> engine \<Rightarrow> engine" where
  "set_expiry_scheduler present e = e\<lparr>scheduler := (if present then Some [] else None)\<rparr>"

definition schedule :: "nat \<Rightarrow> bytes \<Rightarrow> int \<Rightarrow> engine \<Rightarrow> engine" where
  "schedule i key expireAt e =
     (if expireAt = 0 then e
      else case scheduler e of
             None \<Rightarrow> e
           | Some out \<Rightarrow> e\<lparr>scheduler := Some (out @ [(i, key, expireAt)])\<rparr>)"

definition shard_for :: "(bytes \<Rightarrow> u64) \<Rightarrow> bytes \<Rightarrow> engine \<Rightarrow> nat" where
  "shard_for hash key e = unat (hash key AND shardMask e)"

definition shard_at :: "int \<Rightarrow> engine \<Rightarrow> shard option" where
  "shard_at i e = (if i < 0 \<or> i \<ge> int (length (shards e)) then None else Some (shards e ! nat i))"

text \<open>A shard is a pointer in Go: the pair an operation works on, and its write-back.\<close>

definition at_shard :: "nat \<Rightarrow> engine \<Rightarrow> mshard" where
  "at_shard i e = (memory e, shards e ! i)"

definition put_back :: "nat \<Rightarrow> mshard \<Rightarrow> engine \<Rightarrow> engine" where
  "put_back i ms e = e\<lparr>memory := fst ms, shards := (shards e)[i := snd ms]\<rparr>"

section \<open>Reads\<close>

definition engine_get ::
    "(bytes \<Rightarrow> u64) \<Rightarrow> int \<Rightarrow> int \<Rightarrow> int \<Rightarrow> int \<Rightarrow> bytes \<Rightarrow> engine \<Rightarrow> (bytes \<times> int) option \<times> engine" where
  "engine_get hash t_check t_lock t_access t_ttl key e =
     (if closed e then (None, e)
      else let i = shard_for hash key e
           in case shard_get t_check t_lock t_access key (at_shard i e) of
                (None, ms) \<Rightarrow> (None, put_back i ms e)
              | (Some entry, ms) \<Rightarrow> (Some (Value entry, entry_ttl t_ttl entry), put_back i ms e))"

definition engine_exists :: "(bytes \<Rightarrow> u64) \<Rightarrow> int \<Rightarrow> bytes \<Rightarrow> engine \<Rightarrow> bool" where
  "engine_exists hash now key e =
     (if closed e then False else shard_exists now key (shards e ! shard_for hash key e))"

definition engine_get_entry :: "(bytes \<Rightarrow> u64) \<Rightarrow> int \<Rightarrow> bytes \<Rightarrow> engine \<Rightarrow> entry option" where
  "engine_get_entry hash now key e =
     (if closed e then None else shard_get_entry now key (shards e ! shard_for hash key e))"

definition engine_get_ttl :: "(bytes \<Rightarrow> u64) \<Rightarrow> int \<Rightarrow> int \<Rightarrow> bytes \<Rightarrow> engine \<Rightarrow> int option" where
  "engine_get_ttl hash t_check t_ttl key e =
     (if closed e then None
      else map_option (entry_ttl t_ttl) (shard_get_entry t_check key (shards e ! shard_for hash key e)))"

definition engine_keys ::
    "(nat \<Rightarrow> range_ord) \<Rightarrow> (bytes \<Rightarrow> int) \<Rightarrow> bytes \<Rightarrow> engine \<Rightarrow> bytes list" where
  "engine_keys ord now pattern e =
     (if closed e then []
      else let matchAll = matches_every_key pattern
           in concat (map (\<lambda>i. filter (\<lambda>key. matchAll \<or> match_glob pattern key)
                (shard_keys (ord i) now (shards e ! i))) [0..<length (shards e)]))"

definition engine_scan ::
    "(nat \<Rightarrow> bytes option) \<Rightarrow> (nat \<Rightarrow> range_ord) \<Rightarrow> int \<Rightarrow> int \<Rightarrow> (bytes \<Rightarrow> int) \<Rightarrow> (bytes \<Rightarrow> int) \<Rightarrow>
     scan_owner \<Rightarrow> bytes \<Rightarrow> int \<Rightarrow> bytes \<Rightarrow> engine \<Rightarrow>
     (scan_error + bytes list \<times> bytes) \<times> engine" where
  "engine_scan rnd ord t_sweep t_use snap_now live_now owner cursor cnt pat e =
     (if closed e then (Inl ErrScanEngineClosed, e)
      else let n = (if cnt \<le> 0 then defaultScanCount
                    else if cnt > maxScanCount then maxScanCount else cnt);
               filt = (if matches_every_key pat then [] else pat)
           in case page (\<lambda>k. random_cursor_id (rnd k)) ord t_sweep t_use snap_now live_now
                     (shards e) owner cursor (nat n) filt (scans e) of
                (res, r) \<Rightarrow> (res, e\<lparr>scans := r\<rparr>))"

definition engine_release_scans :: "cursor_ord \<Rightarrow> scan_owner \<Rightarrow> engine \<Rightarrow> engine" where
  "engine_release_scans ord owner e = e\<lparr>scans := release_scans ord owner (scans e)\<rparr>"

section \<open>Admission\<close>

definition validate_write ::
    "int \<Rightarrow> bytes \<Rightarrow> bytes \<Rightarrow> int \<Rightarrow> engine \<Rightarrow> storage_error + entry" where
  "validate_write now key value ttl e =
     (if closed e then Inl ErrEngineClosed
      else if of_nat (length value) > maxValueSize e then Inl ErrValueTooLarge
      else if ttl < 0 then Inl ErrInvalidTTL
      else Inr (new_entry now key value ttl))"

fun evict_victims :: "nat \<Rightarrow> bytes list \<Rightarrow> mshard \<Rightarrow> nat \<times> mshard" where
  "evict_victims evicted [] ms = (evicted, ms)"
| "evict_victims evicted (v # vs) ms =
     (let ms' = snd (shard_evict v ms); evicted' = evicted + 1
      in if evicted' \<ge> maxEvictionsPerWrite then (evicted', ms') else evict_victims evicted' vs ms')"

lemma evict_victims_ge: "evicted \<le> fst (evict_victims evicted vs ms)"
proof (induction vs arbitrary: evicted ms)
  case (Cons v vs)
  have "evicted \<le> fst (evict_victims (evicted + 1) vs ms')" for ms'
    using Cons.IH [of "evicted + 1" ms'] by simp
  then show ?case by (simp add: Let_def)
qed simp

lemma evict_victims_grows: "vs \<noteq> [] \<Longrightarrow> evicted < fst (evict_victims evicted vs ms)"
  using evict_victims_ge [of "Suc evicted"] by (cases vs) (auto simp: Let_def less_eq_Suc_le)

function admit_loop ::
    "(nat \<Rightarrow> shard \<Rightarrow> u64 \<Rightarrow> bytes list) \<Rightarrow> bytes \<Rightarrow> u64 \<Rightarrow> u64 \<Rightarrow> nat \<Rightarrow> mshard \<Rightarrow>
     storage_error option \<times> mshard" where
  "admit_loop select key sz maxMem evicted ms =
     (let used = usedMemory (fst ms);
          credit = resident_size key (snd ms)
      in if used + sz \<le> maxMem + credit then (None, ms)
         else if evicted \<ge> maxEvictionsPerWrite then (Some ErrOutOfMemory, ms)
         else let victims = select evicted (snd ms) (used + sz - credit - maxMem)
              in if victims = [] then (Some ErrOutOfMemory, ms)
                 else case evict_victims evicted victims ms of
                        (evicted', ms') \<Rightarrow> admit_loop select key sz maxMem evicted' ms')"
  by pat_completeness auto
termination
proof (relation "measure (\<lambda>(_, _, _, _, evicted, _). maxEvictionsPerWrite - evicted)", goal_cases)
  case (2 select key sz maxMem evicted ms used credit victims evicted' ms')
  then have "evicted < evicted'"
    using evict_victims_grows [of victims evicted ms] by (metis fst_conv)
  with 2(4) show ?case by simp
qed simp

declare admit_loop.simps [simp del]

definition admit ::
    "(nat \<Rightarrow> shard \<Rightarrow> u64 \<Rightarrow> bytes list) option \<Rightarrow> entry \<Rightarrow> mshard \<Rightarrow> storage_error option \<times> mshard" where
  "admit ctl entry ms =
     (let maxMem = maxMemory (fst ms); sz = ucast (Size entry)
      in if maxMem = 0 then (None, ms)
         else if sz > maxMem then (Some ErrOutOfMemory, ms)
         else case ctl of
                None \<Rightarrow> (Some ErrOutOfMemory, ms)
              | Some select \<Rightarrow> admit_loop select (Key entry) sz maxMem 0 ms)"

definition reject_oom :: "mshard \<Rightarrow> (bool \<times> storage_error option) \<times> mshard" where
  "reject_oom ms = ((False, Some ErrOutOfMemory), (record_oom_rejection (fst ms), snd ms))"

fun store_attempts ::
    "evict_fn option \<Rightarrow> (nat \<Rightarrow> int) \<Rightarrow> bytes \<Rightarrow> entry \<Rightarrow> bool \<Rightarrow> nat \<Rightarrow> nat \<Rightarrow> mshard \<Rightarrow>
     (bool \<times> storage_error option) \<times> mshard" where
  "store_attempts ctl now key entry nx 0 attempt ms = reject_oom ms"
| "store_attempts ctl now key entry nx (Suc left) attempt ms =
     (case shard_put (now attempt) key entry nx ms of
        ((stored, err), ms') \<Rightarrow>
          if err \<noteq> Some ErrOutOfMemory then ((stored, err), ms')
          else case admit (map_option (\<lambda>f. f attempt) ctl) entry ms' of
                 (Some _, ms'') \<Rightarrow> reject_oom ms''
               | (None, ms'') \<Rightarrow> store_attempts ctl now key entry nx left (attempt + 1) ms'')"

definition admit_and_store ::
    "evict_fn option \<Rightarrow> (nat \<Rightarrow> int) \<Rightarrow> bytes \<Rightarrow> entry \<Rightarrow> bool \<Rightarrow> mshard \<Rightarrow>
     (bool \<times> storage_error option) \<times> mshard" where
  "admit_and_store ctl now key entry nx ms = store_attempts ctl now key entry nx admitAttempts 0 ms"

section \<open>Writes\<close>

text \<open>The clock is read when the entry is built, then once per attempt to store it.\<close>

definition engine_set ::
    "(bytes \<Rightarrow> u64) \<Rightarrow> int \<Rightarrow> (nat \<Rightarrow> int) \<Rightarrow> bytes \<Rightarrow> bytes \<Rightarrow> int \<Rightarrow> engine \<Rightarrow>
     storage_error option \<times> engine" where
  "engine_set hash t_new now key value ttl e =
     (case validate_write t_new key value ttl e of
        Inl err \<Rightarrow> (Some err, e)
      | Inr entry \<Rightarrow>
          (let i = shard_for hash key e
           in case admit_and_store (eviction e) now key entry False (at_shard i e) of
                ((_, Some err), ms) \<Rightarrow> (Some err, put_back i ms e)
              | ((_, None), ms) \<Rightarrow> (None, schedule i key (ExpireAt entry) (put_back i ms e))))"

definition engine_setnx ::
    "(bytes \<Rightarrow> u64) \<Rightarrow> int \<Rightarrow> (nat \<Rightarrow> int) \<Rightarrow> bytes \<Rightarrow> bytes \<Rightarrow> int \<Rightarrow> engine \<Rightarrow>
     (bool \<times> storage_error option) \<times> engine" where
  "engine_setnx hash t_new now key value ttl e =
     (case validate_write t_new key value ttl e of
        Inl err \<Rightarrow> ((False, Some err), e)
      | Inr entry \<Rightarrow>
          (let i = shard_for hash key e
           in case admit_and_store (eviction e) now key entry True (at_shard i e) of
                ((stored, err), ms) \<Rightarrow>
                  if err \<noteq> None \<or> \<not> stored then ((False, err), put_back i ms e)
                  else ((True, None), schedule i key (ExpireAt entry) (put_back i ms e))))"

definition engine_delete :: "(bytes \<Rightarrow> u64) \<Rightarrow> bytes \<Rightarrow> engine \<Rightarrow> bool \<times> engine" where
  "engine_delete hash key e =
     (if closed e then (False, e)
      else let i = shard_for hash key e
           in case shard_delete key (at_shard i e) of (r, ms) \<Rightarrow> (r \<noteq> None, put_back i ms e))"

definition engine_set_ttl ::
    "(bytes \<Rightarrow> u64) \<Rightarrow> int \<Rightarrow> int \<Rightarrow> bytes \<Rightarrow> int \<Rightarrow> engine \<Rightarrow> bool \<times> engine" where
  "engine_set_ttl hash t_check t_update key ttl e =
     (if closed e then (False, e)
      else let i = shard_for hash key e
           in case shard_set_ttl t_check t_update key ttl (shards e ! i) of
                (False, s) \<Rightarrow> (False, put_back i (memory e, s) e)
              | (True, s) \<Rightarrow>
                  (let e' = put_back i (memory e, s) e
                   in case expiry_of key s of
                        (expireAt, present) \<Rightarrow>
                          (True, if present then schedule i key expireAt e' else e')))"

section \<open>Expiry, statistics, lifecycle\<close>

definition expire_key :: "int \<Rightarrow> nat \<Rightarrow> bytes \<Rightarrow> engine \<Rightarrow> bool \<times> engine" where
  "expire_key now i key e =
     (if closed e then (False, e)
      else case shard_expire now key (at_shard i e) of (r, ms) \<Rightarrow> (r, put_back i ms e))"

definition engine_expiry_of :: "int \<Rightarrow> bytes \<Rightarrow> engine \<Rightarrow> int \<times> bool" where
  "engine_expiry_of i key e =
     (if closed e then (0, False)
      else case shard_at i e of None \<Rightarrow> (0, False) | Some s \<Rightarrow> expiry_of key s)"

definition engine_expire :: "int \<Rightarrow> int \<Rightarrow> bytes \<Rightarrow> engine \<Rightarrow> bool \<times> engine" where
  "engine_expire now i key e =
     (case shard_at i e of None \<Rightarrow> (False, e) | Some s \<Rightarrow> expire_key now (nat i) key e)"

definition engine_delete_expired :: "(bytes \<Rightarrow> u64) \<Rightarrow> int \<Rightarrow> bytes \<Rightarrow> engine \<Rightarrow> bool \<times> engine" where
  "engine_delete_expired hash now key e = expire_key now (shard_for hash key e) key e"

definition engine_set_max_memory :: "u64 \<Rightarrow> engine \<Rightarrow> engine" where
  "engine_set_max_memory m e = e\<lparr>memory := set_max_memory m (memory e)\<rparr>"

definition engine_record_eviction :: "engine \<Rightarrow> engine" where
  "engine_record_eviction e = e\<lparr>memory := record_eviction (memory e)\<rparr>"

record stats =
  s_Keys :: u64
  s_KeysWithTTL :: u64
  s_MemoryUsed :: u64
  s_MemoryMax :: u64
  s_Gets :: u64
  s_Sets :: u64
  s_Deletes :: u64
  s_Hits :: u64
  s_Misses :: u64
  s_Evictions :: u64
  s_Expirations :: u64
  s_OOMRejected :: u64
  s_ScanCursors :: u64
  s_ScanSnapshotBytes :: u64

definition add_shard_stats :: "shard \<Rightarrow> stats \<Rightarrow> stats" where
  "add_shard_stats s st =
     (let ss = shard_stats_of s
      in st\<lparr>s_Keys := s_Keys st + of_nat (st_Keys ss),
            s_KeysWithTTL := (if st_KeysWithTTL ss > 0 then s_KeysWithTTL st + of_int (st_KeysWithTTL ss)
                              else s_KeysWithTTL st),
            s_Gets := s_Gets st + st_Gets ss, s_Sets := s_Sets st + st_Sets ss,
            s_Deletes := s_Deletes st + st_Deletes ss, s_Hits := s_Hits st + st_Hits ss,
            s_Misses := s_Misses st + st_Misses ss,
            s_Expirations := s_Expirations st + st_Expirations ss\<rparr>)"

definition engine_stats :: "engine \<Rightarrow> stats" where
  "engine_stats e =
     (let m = mem_stats (memory e); sc = scan_stats_of (scans e)
      in fold add_shard_stats (shards e)
           \<lparr>s_Keys = 0, s_KeysWithTTL = 0, s_MemoryUsed = Used m, s_MemoryMax = Max m, s_Gets = 0,
            s_Sets = 0, s_Deletes = 0, s_Hits = 0, s_Misses = 0, s_Evictions = Evictions m,
            s_Expirations = 0, s_OOMRejected = OOMRejected m,
            s_ScanCursors = of_nat (ss_Cursors sc), s_ScanSnapshotBytes = ss_Bytes sc\<rparr>)"

fun clear_shards :: "mem_tracker \<Rightarrow> shard list \<Rightarrow> mem_tracker \<times> shard list" where
  "clear_shards m [] = (m, [])"
| "clear_shards m (s # ss) =
     (let (m', s') = shard_clear (m, s); (m'', ss') = clear_shards m' ss in (m'', s' # ss'))"

definition engine_close :: "cursor_ord \<Rightarrow> engine \<Rightarrow> storage_error option \<times> engine" where
  "engine_close ord e =
     (if closed e then (Some ErrEngineClosed, e)
      else let (m, ss) = clear_shards (memory e) (shards e)
           in (None, e\<lparr>closed := True, memory := m, shards := ss, scans := close_all_scans ord (scans e)\<rparr>))"

end
