(* ===== verification/Scan_Inv.thy ===== *)
theory Scan_Inv
  imports Scan
begin

text \<open>
  The invariant of the scan registry: the cursor map, the use order, the per-connection counts and
  the byte counter describe the same set of cursors, and the three bounds (bytes, cursors per
  connection, and through the overhead of a cursor the number of cursors) hold. Every step of a page
  keeps it, including the ones in the middle of which a cursor is charged nothing.
\<close>

definition owns :: "scan_owner \<Rightarrow> scan_cursor \<Rightarrow> int" where
  "owns ow c = (if c_owner c = ow then 1 else 0)"

definition owned :: "scan_registry \<Rightarrow> scan_owner \<Rightarrow> int" where
  "owned r ow = vsum (owns ow) (cursors r)"

definition charge :: "scan_cursor \<Rightarrow> nat" where
  "charge c = unat (c_bytes c)"

definition cursor_ok :: "bytes \<times> scan_cursor \<Rightarrow> bool" where
  "cursor_ok = (\<lambda>(i, c). c_id c = i \<and> - 1 \<le> c_shard c)"

definition reg_inv :: "scan_registry \<Rightarrow> bool" where
  "reg_inv r \<longleftrightarrow>
     keys_distinct (cursors r) \<and> (\<forall>p \<in> set (cursors r). cursor_ok p) \<and>
     distinct (lru r) \<and> set (lru r) = fst ` set (cursors r) \<and>
     snapBytes r = vsum c_bytes (cursors r) \<and>
     vsum charge (cursors r) \<le> unat (maxBytes r) \<and>
     keys_distinct (perConn r) \<and>
     (\<forall>ow. conn_count r ow = owned r ow) \<and>
     (\<forall>ow. owned r ow \<le> max 0 (maxPerOwner r))"

text \<open>Every cursor but the one being moved is charged its overhead.\<close>

definition charged :: "bytes option \<Rightarrow> scan_registry \<Rightarrow> bool" where
  "charged k r \<longleftrightarrow> (\<forall>(i, c) \<in> set (cursors r). Some i = k \<or> 128 \<le> charge c)"

lemma reg_invD:
  assumes "reg_inv r"
  shows "keys_distinct (cursors r)" "distinct (lru r)" "set (lru r) = fst ` set (cursors r)"
    "snapBytes r = vsum c_bytes (cursors r)" "vsum charge (cursors r) \<le> unat (maxBytes r)"
    "keys_distinct (perConn r)" "conn_count r ow = owned r ow" "owned r ow \<le> max 0 (maxPerOwner r)"
  using assms by (simp_all add: reg_inv_def)

lemma reg_inv_id: "reg_inv r \<Longrightarrow> map_of (cursors r) i = Some c \<Longrightarrow> c_id c = i"
  by (auto simp: reg_inv_def cursor_ok_def dest: map_of_SomeD)

lemma reg_inv_shard: "reg_inv r \<Longrightarrow> map_of (cursors r) i = Some c \<Longrightarrow> - 1 \<le> c_shard c"
  by (auto simp: reg_inv_def cursor_ok_def dest: map_of_SomeD)

lemma reg_inv_new: "reg_inv (new_scan_registry idle pc mb)"
  by (simp add: reg_inv_def new_scan_registry_def owned_def)

lemma charged_new: "charged k (new_scan_registry idle pc mb)"
  by (simp add: charged_def new_scan_registry_def)

lemma vsum_c_bytes: "vsum c_bytes xs = of_nat (vsum charge xs)"
  by (induction xs) (auto simp: charge_def)

lemma unat_snapBytes: "reg_inv r \<Longrightarrow> unat (snapBytes r) = vsum charge (cursors r)"
  using reg_invD(5) [of r] unat_u64_less [of "maxBytes r"]
  by (simp add: reg_invD(4) [of r] vsum_c_bytes)

lemma owned_nonneg: "0 \<le> owned r ow"
proof -
  have "0 \<le> vsum (owns ow) xs" for xs :: "(bytes \<times> scan_cursor) list"
    by (induction xs) (auto simp: owns_def)
  then show ?thesis by (simp add: owned_def)
qed

section \<open>Dropping\<close>

lemma drop_locked_sel [simp]:
  "maxBytes (drop_locked i r) = maxBytes r"
  "maxPerOwner (drop_locked i r) = maxPerOwner r"
  "idleTimeout (drop_locked i r) = idleTimeout r"
  "map_of (cursors (drop_locked i r)) j = (if j = i then None else map_of (cursors r) j)"
  by (simp_all add: drop_locked_def Let_def split: option.split)

lemma drop_locked_cursors: "cursors (drop_locked i r) = AList.delete i (cursors r)"
  by (auto simp: drop_locked_def Let_def map_of_None_fst split: option.split)

lemma owned_drop:
  assumes "reg_inv r" and "map_of (cursors r) i = Some c"
  shows "owned (drop_locked i r) ow = owned r ow - owns ow c"
  using vsum_delete_group [OF reg_invD(1) [OF assms(1)] assms(2), of "owns ow"]
  by (simp add: owned_def drop_locked_cursors)

lemma owned_drop_le: "reg_inv r \<Longrightarrow> owned (drop_locked i r) ow \<le> owned r ow"
  by (cases "map_of (cursors r) i")
    (simp_all add: owned_drop owns_def, simp add: owned_def drop_locked_cursors map_of_None_fst)

lemma drop_locked_inv:
  assumes inv: "reg_inv r"
  shows "reg_inv (drop_locked i r)"
proof (cases "map_of (cursors r) i")
  case None
  then have "i \<notin> set (lru r)" using reg_invD(3) [OF inv] by (simp add: map_of_None_fst)
  then have "drop_locked i r = r" using None by (simp add: drop_locked_def)
  with inv show ?thesis by simp
next
  case (Some c)
  have d: "keys_distinct (cursors r)" using inv by (rule reg_invD)
  have c1: "\<forall>p \<in> set (cursors (drop_locked i r)). cursor_ok p"
    using inv by (auto simp: drop_locked_cursors reg_inv_def dest: set_delete_subsetD)
  have c2: "set (lru (drop_locked i r)) = fst ` set (cursors (drop_locked i r))"
    using reg_invD(3) [OF inv] by (simp add: drop_locked_cursors fst_set_delete)
  have c3: "snapBytes (drop_locked i r) = vsum c_bytes (cursors (drop_locked i r))"
    using reg_invD(4) [OF inv] vsum_delete_group [OF d Some, of c_bytes] Some
    by (simp add: drop_locked_cursors) (simp add: drop_locked_def Let_def)
  have c4: "vsum charge (cursors (drop_locked i r)) \<le> unat (maxBytes r)"
    using reg_invD(5) [OF inv] vsum_delete [OF d Some, of charge]
    by (simp add: drop_locked_cursors)
  have c5: "keys_distinct (perConn (drop_locked i r))"
    using reg_invD(6) [OF inv] Some by (simp add: drop_locked_def Let_def)
  have c6: "conn_count (drop_locked i r) ow = owned (drop_locked i r) ow" for ow
  proof -
    have "conn_count (drop_locked i r) ow =
        (if ow = c_owner c then max 0 (conn_count r ow - 1) else conn_count r ow)"
      using Some by (simp add: drop_locked_def Let_def)
    then show ?thesis
      using owned_drop [OF inv Some, of ow] reg_invD(7) [OF inv] owned_nonneg [of "drop_locked i r" ow]
      by (auto simp: owns_def)
  qed
  have c7: "owned (drop_locked i r) ow \<le> max 0 (maxPerOwner r)" for ow
    using owned_drop_le [OF inv, of i ow] reg_invD(8) [OF inv, of ow] by linarith
  show ?thesis
    using c1 c2 c3 c4 c5 c6 c7 d reg_invD(2) [OF inv]
    by (simp add: reg_inv_def drop_locked_cursors distinct_removeAll)
qed

lemma charged_drop: "charged k r \<Longrightarrow> charged k (drop_locked i r)"
  by (auto simp: charged_def drop_locked_cursors dest!: set_delete_subsetD)

lemma charged_drop_moving:
  assumes "charged (Some i) r" and "keys_distinct (cursors r)"
  shows "charged None (drop_locked i r)"
  using assms by (auto simp: charged_def drop_locked_cursors AList.delete_eq)

section \<open>Writing a cursor back\<close>

lemma write_cursor_sel [simp]:
  "maxBytes (write_cursor c r) = maxBytes r" "maxPerOwner (write_cursor c r) = maxPerOwner r"
  "lru (write_cursor c r) = lru r" "snapBytes (write_cursor c r) = snapBytes r"
  "perConn (write_cursor c r) = perConn r" "idleTimeout (write_cursor c r) = idleTimeout r"
  "cursors (write_cursor c r) = AList.update (c_id c) c (cursors r)"
  by (simp_all add: write_cursor_def)

text \<open>A new state of a registered cursor, and the change of its charge in the counter.\<close>

lemma write_charge_inv:
  assumes inv: "reg_inv r" and old: "map_of (cursors r) (c_id c) = Some old"
    and ow: "c_owner c = c_owner old" and sh: "- 1 \<le> c_shard c"
    and b: "b = snapBytes r - c_bytes old + c_bytes c"
    and fits: "vsum charge (cursors r) - charge old + charge c \<le> unat (maxBytes r)"
  shows "reg_inv (write_cursor c (r\<lparr>snapBytes := b\<rparr>))"
proof -
  let ?r = "write_cursor c (r\<lparr>snapBytes := b\<rparr>)"
  have d: "keys_distinct (cursors r)" using inv by (rule reg_invD)
  have ok: "\<forall>p \<in> set (cursors ?r). cursor_ok p"
    using inv d sh
    by (auto simp: reg_inv_def cursor_ok_def set_update_distinct)
  have ow': "owned ?r o' = owned r o'" for o'
    using vsum_update_same [OF d old, of "owns o'" c] ow by (simp add: owned_def owns_def)
  have "c_id c \<in> fst ` set (cursors r)"
    using old map_of_SomeD [OF old] by (force simp: image_iff)
  then have l: "set (lru r) = fst ` set (cursors ?r)"
    using reg_invD(3) [OF inv] by (auto simp: fst_set_update)
  have "snapBytes ?r = vsum c_bytes (cursors ?r)"
    using vsum_update_group [OF d old, of c_bytes c] reg_invD(4) [OF inv] by (simp add: b)
  moreover have "vsum charge (cursors ?r) \<le> unat (maxBytes r)"
    using vsum_nat_update [OF d old, of charge c] fits by simp
  ultimately show ?thesis
    using d ok l ow' reg_invD [OF inv] by (simp add: reg_inv_def)
qed

lemma write_cursor_inv:
  assumes "reg_inv r" and "map_of (cursors r) (c_id c) = Some old"
    and "c_owner c = c_owner old" and "c_shard c = c_shard old" and "c_bytes c = c_bytes old"
  shows "reg_inv (write_cursor c r)"
  using write_charge_inv [OF assms(1-3), of "snapBytes r"] assms(4,5) reg_inv_shard [OF assms(1,2)] reg_invD(5) [OF assms(1)]
    vsum_member_le [OF assms(2), of charge]
  by (simp add: charge_def)

lemma charged_write:
  assumes "charged k r" and "keys_distinct (cursors r)" and "k = Some (c_id c) \<or> 128 \<le> charge c"
  shows "charged k (write_cursor c (r\<lparr>snapBytes := b\<rparr>))"
  using assms by (auto simp: charged_def set_update_distinct)

lemma charged_written:
  assumes "charged (Some (c_id c)) r" and "keys_distinct (cursors r)" and "128 \<le> charge c"
  shows "charged None (write_cursor c (r\<lparr>snapBytes := b\<rparr>))"
  using assms by (auto simp: charged_def set_update_distinct)

section \<open>Making room\<close>

text \<open>What dropping cursors other than \<open>keep\<close> can do to the registry.\<close>

definition shrunk :: "bytes option \<Rightarrow> scan_registry \<Rightarrow> scan_registry \<Rightarrow> bool" where
  "shrunk keep r r' \<longleftrightarrow>
     reg_inv r' \<and> (\<forall>k. charged k r \<longrightarrow> charged k r') \<and>
     (\<forall>i. keep = Some i \<longrightarrow> map_of (cursors r') i = map_of (cursors r) i) \<and>
     (\<forall>i c. map_of (cursors r') i = Some c \<longrightarrow> map_of (cursors r) i = Some c) \<and>
     (\<forall>ow. owned r' ow \<le> owned r ow) \<and>
     maxBytes r' = maxBytes r \<and> maxPerOwner r' = maxPerOwner r"

lemma shrunk_refl: "reg_inv r \<Longrightarrow> shrunk keep r r"
  by (simp add: shrunk_def)

lemma shrunk_drop: "reg_inv r \<Longrightarrow> keep \<noteq> Some v \<Longrightarrow> shrunk keep r (drop_locked v r)"
  by (auto simp: shrunk_def drop_locked_inv charged_drop owned_drop_le)

lemma shrunkD:
  assumes "shrunk keep r r'"
  shows "reg_inv r'" "charged k r \<Longrightarrow> charged k r'" "maxBytes r' = maxBytes r"
    "maxPerOwner r' = maxPerOwner r" "owned r' ow \<le> owned r ow"
    "keep = Some i \<Longrightarrow> map_of (cursors r') i = map_of (cursors r) i"
    "map_of (cursors r') i = Some c \<Longrightarrow> map_of (cursors r) i = Some c"
  using assms unfolding shrunk_def by blast+

lemma shrunk_trans:
  assumes "shrunk keep r r'" and "shrunk keep r' r''"
  shows "shrunk keep r r''"
proof -
  have "map_of (cursors r'') i = map_of (cursors r) i" if "keep = Some i" for i
    using shrunkD(6) [OF assms(1) that] shrunkD(6) [OF assms(2) that] by (rule trans [rotated])
  moreover have "owned r'' ow \<le> owned r ow" for ow
    using shrunkD(5) [OF assms(2)] shrunkD(5) [OF assms(1)] by (rule order_trans)
  moreover have "map_of (cursors r) i = Some c" if "map_of (cursors r'') i = Some c" for i c
    using shrunkD(7) [OF assms(1) shrunkD(7) [OF assms(2) that]] .
  moreover have "maxBytes r'' = maxBytes r" "maxPerOwner r'' = maxPerOwner r"
    using shrunkD(3,4) [OF assms(1)] shrunkD(3,4) [OF assms(2)] by simp_all
  moreover have "charged k r''" if "charged k r" for k
    using shrunkD(2) [OF assms(2) shrunkD(2) [OF assms(1) that]] .
  ultimately show ?thesis
    using shrunkD(1) [OF assms(2)] unfolding shrunk_def by blast
qed

lemma make_room_shrunk: "reg_inv r \<Longrightarrow> shrunk keep r (snd (make_room_locked keep want r))"
proof (induction keep want r rule: make_room_locked.induct)
  case (1 keep want r)
  show ?case
  proof (cases "snapBytes r + want > maxBytes r")
    case False
    then have "make_room_locked keep want r = (True, r)"
      by (subst make_room_locked.simps) simp
    then show ?thesis by (simp add: shrunk_refl [OF 1(2)])
  next
    case over: True
    show ?thesis
    proof (cases "oldest_locked keep r")
      case None
      then have "make_room_locked keep want r = (False, r)"
        using over by (subst make_room_locked.simps) simp
      then show ?thesis by (simp add: shrunk_refl [OF 1(2)])
    next
      case (Some v)
      have eq: "make_room_locked keep want r = make_room_locked keep want (drop_locked v r)"
        using over Some by (subst make_room_locked.simps) simp
      have "keep \<noteq> Some v" using oldest_locked_in [OF Some] by blast
      then show ?thesis
        unfolding eq using 1(1) [OF over Some drop_locked_inv [OF 1(2)]]
        by (rule shrunk_trans [OF shrunk_drop [OF 1(2)]])
    qed
  qed
qed

lemma make_room_ok:
  "make_room_locked keep want r = (True, r') \<Longrightarrow> \<not> snapBytes r' + want > maxBytes r'"
proof (induction keep want r rule: make_room_locked.induct)
  case (1 keep want r)
  from 1(2) show ?case
    by (subst (asm) make_room_locked.simps) (auto split: if_splits option.splits dest: 1(1))
qed

lemma sweep_loop_shrunk: "reg_inv r \<Longrightarrow> shrunk None r (sweep_loop d ids r)"
proof (induction ids arbitrary: r)
  case Nil
  then show ?case by (simp add: shrunk_refl)
next
  case (Cons i ids)
  show ?case
    using Cons.IH [OF drop_locked_inv [OF Cons.prems]] Cons.prems
      shrunk_trans [OF shrunk_drop [OF Cons.prems]]
    by (auto simp: shrunk_refl split: option.split)
qed

lemma sweep_shrunk: "reg_inv r \<Longrightarrow> shrunk None r (sweep_locked now r)"
  by (simp add: sweep_locked_def sweep_loop_shrunk)

lemma release_shrunk: "reg_inv r \<Longrightarrow> shrunk None r (release_scans ord ow r)"
proof -
  have "reg_inv r \<Longrightarrow> shrunk None r (fold (\<lambda>(i, c) r. if c_owner c = ow then drop_locked i r else r) xs r)" for xs
  proof (induction xs arbitrary: r)
    case (Cons p xs)
    obtain i c where "p = (i, c)" by (cases p)
    then show ?case
      using Cons.IH [OF drop_locked_inv [OF Cons.prems, of i]] Cons.IH [OF Cons.prems]
        shrunk_trans [OF shrunk_drop [OF Cons.prems, of None i]]
      by simp
  qed (simp add: shrunk_refl)
  then show "reg_inv r \<Longrightarrow> shrunk None r (release_scans ord ow r)" by (simp add: release_scans_def)
qed

lemma close_all_shrunk: "reg_inv r \<Longrightarrow> shrunk None r (close_all_scans ord r)"
proof -
  have "reg_inv r \<Longrightarrow> shrunk None r (fold (\<lambda>(i, c) r. drop_locked i r) xs r)" for xs :: "(bytes \<times> scan_cursor) list"
  proof (induction xs arbitrary: r)
    case (Cons p xs)
    obtain i c where "p = (i, c)" by (cases p)
    then show ?case
      using Cons.IH [OF drop_locked_inv [OF Cons.prems, of i]]
        shrunk_trans [OF shrunk_drop [OF Cons.prems, of None i]]
      by simp
  qed (simp add: shrunk_refl)
  then show "reg_inv r \<Longrightarrow> shrunk None r (close_all_scans ord r)" by (simp add: close_all_scans_def)
qed

text \<open>\<open>want\<close> more bytes fit once there is room, as numbers.\<close>

lemma room_fits:
  assumes "reg_inv r" and "\<not> snapBytes r + want > maxBytes r"
    and "unat (maxBytes r) + unat want < 2 ^ 64"
  shows "vsum charge (cursors r) + unat want \<le> unat (maxBytes r)"
proof -
  have "unat (snapBytes r) + unat want < 2 ^ 64"
    using assms(3) unat_snapBytes [OF assms(1)] reg_invD(5) [OF assms(1)] by linarith
  then have "unat (snapBytes r + want) = unat (snapBytes r) + unat want" by (rule unat_plus_u64)
  then show ?thesis using assms(2) unat_snapBytes [OF assms(1)] by (simp add: word_less_nat_alt)
qed

section \<open>Snapshots\<close>

definition snap_size :: "bytes list \<Rightarrow> nat" where
  "snap_size keys = (\<Sum>k\<leftarrow>keys. 16 + length k)"

lemma snapshot_bytes_nat: "snapshot_bytes keys = of_nat (snap_size keys)"
proof -
  have "of_nat (length keys) * 16 + key_bytes keys = (of_nat (snap_size keys) :: u64)"
    by (induction keys) (auto simp: snap_size_def algebra_simps)
  then show ?thesis by (simp add: snapshot_bytes_def scanKeyOverhead_def)
qed

lemma unat_need:
  assumes "128 + snap_size keys < 2 ^ 64"
  shows "unat (scanCursorOverhead + snapshot_bytes keys) = 128 + snap_size keys"
proof -
  have "scanCursorOverhead + snapshot_bytes keys = of_nat (128 + snap_size keys)"
    by (simp add: scanCursorOverhead_def snapshot_bytes_nat)
  then show ?thesis using assms by (simp only: unat_of_nat_u64)
qed

text \<open>
  A snapshot of any shard on top of the cap stays below \<open>2 ^ 64\<close>, which the memory of a machine
  guarantees.
\<close>

definition shard_snap :: "shard \<Rightarrow> nat" where
  "shard_snap s = (\<Sum>(k, e)\<leftarrow>data s. 16 + length k)"

definition snap_fits :: "u64 \<Rightarrow> shard list \<Rightarrow> bool" where
  "snap_fits mb shs \<longleftrightarrow>
     unat mb + 128 < 2 ^ 64 \<and> (\<forall>s \<in> set shs. unat mb + (128 + shard_snap s) < 2 ^ 64)"

lemma snap_size_filter: "snap_size (map fst (filter P xs)) \<le> (\<Sum>(k, e)\<leftarrow>xs. 16 + length k)"
  by (induction xs) (auto simp: snap_size_def)

lemma snap_size_keys:
  assumes "range_order ord"
  shows "snap_size (shard_keys ord now s) \<le> shard_snap s"
proof -
  have "mset (ord (data s)) = mset (data s)" using assms by (simp add: range_order_def)
  then have "sum_mset (image_mset (\<lambda>(k, e). 16 + length k) (mset (ord (data s)))) =
      sum_mset (image_mset (\<lambda>(k, e). 16 + length k) (mset (data s)))"
    by simp
  then have "(\<Sum>(k, e)\<leftarrow>ord (data s). 16 + length k) = shard_snap s"
    by (simp only: shard_snap_def sum_mset_sum_list [symmetric] mset_map)
  then show ?thesis using snap_size_filter unfolding shard_keys_def by metis
qed

section \<open>Opening, resolving, advancing\<close>

lemma fresh_id_loop_new: "fresh_id_loop newID n k r = Inr i \<Longrightarrow>
    map_of (cursors r) i = None \<and> (\<exists>j. newID j = Some i)"
  by (induction newID n k r rule: fresh_id_loop.induct) (auto split: option.splits if_splits)

lemma fresh_id_new: "fresh_id_locked newID r = Inr i \<Longrightarrow>
    map_of (cursors r) i = None \<and> (\<exists>j. newID j = Some i)"
  unfolding fresh_id_locked_def by (rule fresh_id_loop_new)

definition fresh_cursor :: "bytes \<Rightarrow> scan_owner \<Rightarrow> int \<Rightarrow> scan_cursor" where
  "fresh_cursor i owner now = \<lparr>c_id = i, c_owner = owner, c_shard = - 1, c_keys = [], c_pos = 0,
     c_bytes = scanCursorOverhead, c_lastUsed = now\<rparr>"

text \<open>A new cursor, room for it having been made.\<close>

lemma register_inv:
  fixes r i owner now
  defines "r' \<equiv> r\<lparr>lru := i # lru r,
      cursors := AList.update i (fresh_cursor i owner now) (cursors r),
      perConn := AList.update owner (conn_count r owner + 1) (perConn r),
      snapBytes := snapBytes r + scanCursorOverhead\<rparr>"
  assumes inv: "reg_inv r" and new: "map_of (cursors r) i = None"
    and fits: "vsum charge (cursors r) + 128 \<le> unat (maxBytes r)"
    and slot: "conn_count r owner < maxPerOwner r"
  shows "reg_inv r'"
proof -
  let ?c = "fresh_cursor i owner now"
  have fields: "c_id ?c = i" "c_shard ?c = - 1" "c_owner ?c = owner" "c_bytes ?c = 128" "charge ?c = 128"
    by (simp_all add: fresh_cursor_def charge_def scanCursorOverhead_def)
  have notin: "i \<notin> set (lru r)" using new reg_invD(3) [OF inv] by (simp add: map_of_None_fst)
  have "\<forall>p \<in> set (cursors r'). cursor_ok p"
    using inv fields(1,2) reg_invD(1) [OF inv]
    by (auto simp: r'_def reg_inv_def cursor_ok_def set_update_distinct)
  moreover have ow: "owned r' o' = owned r o' + owns o' ?c" for o'
    using vsum_update_new [OF new, of "owns o'" ?c] by (simp add: owned_def r'_def)
  moreover have "conn_count r' o' = owned r' o'" for o'
    using ow reg_invD(7) [OF inv] by (simp add: r'_def owns_def fields)
  moreover have "owned r' o' \<le> max 0 (maxPerOwner r)" for o'
    using ow [of o'] reg_invD(7) [OF inv, of o'] reg_invD(8) [OF inv, of o'] slot
    by (cases "owner = o'") (auto simp: owns_def fields)
  moreover have "snapBytes r' = vsum c_bytes (cursors r')"
    using vsum_update_new [OF new, of c_bytes ?c] reg_invD(4) [OF inv] fields
    by (simp add: r'_def scanCursorOverhead_def add.commute)
  moreover have "vsum charge (cursors r') \<le> unat (maxBytes r)"
    using vsum_update_new [OF new, of charge ?c] fits fields by (simp add: r'_def)
  ultimately show ?thesis
    using reg_invD(1-3,6) [OF inv] notin
    by (simp add: reg_inv_def r'_def fst_set_update)
qed

lemma open_locked_inv:
  assumes inv: "reg_inv r" and ch: "charged None r" and mb: "unat (maxBytes r) + 128 < 2 ^ 64"
    and res: "open_locked newID now owner r = (res, r')"
  shows "reg_inv r' \<and> charged None r' \<and> maxBytes r' = maxBytes r \<and> maxPerOwner r' = maxPerOwner r
    \<and> (\<forall>c. res = Inr c \<longrightarrow> map_of (cursors r') (c_id c) = Some c \<and> c = fresh_cursor (c_id c) owner now
           \<and> (\<exists>j. newID j = Some (c_id c)))"
proof (cases "conn_count r owner \<ge> maxPerOwner r \<or> (\<exists>err. fresh_id_locked newID r = Inl err)")
  case True
  then have "r' = r" "\<exists>err. res = Inl err" using res by (auto simp: open_locked_def split: if_splits)
  then show ?thesis using inv ch by auto
next
  case False
  then obtain i where i: "fresh_id_locked newID r = Inr i" and slot: "conn_count r owner < maxPerOwner r"
    by (cases "fresh_id_locked newID r") auto
  obtain ok r1 where mr: "make_room_locked None scanCursorOverhead r = (ok, r1)"
    by (cases "make_room_locked None scanCursorOverhead r")
  have sh: "shrunk None r r1" using make_room_shrunk [OF inv] mr by (metis snd_conv)
  note s = shrunkD [OF sh]
  show ?thesis
  proof (cases ok)
    case False
    with res i slot mr s(1-4) ch show ?thesis by (auto simp: open_locked_def)
  next
    case True
    have new: "map_of (cursors r1) i = None"
      using s(7) [of i] fresh_id_new [OF i] by (cases "map_of (cursors r1) i") auto
    have fits: "vsum charge (cursors r1) + 128 \<le> unat (maxBytes r1)"
      using room_fits [OF s(1) make_room_ok [of None scanCursorOverhead r r1]] mr True mb s(3)
      by (simp add: scanCursorOverhead_def)
    have slot1: "conn_count r1 owner < maxPerOwner r1"
      using slot s(4) s(5) [of owner] reg_invD(7) [OF s(1)] reg_invD(7) [OF inv] by simp
    have r': "res = Inr (fresh_cursor i owner now)"
      "r' = r1\<lparr>lru := i # lru r1, cursors := AList.update i (fresh_cursor i owner now) (cursors r1),
        perConn := AList.update owner (conn_count r1 owner + 1) (perConn r1),
        snapBytes := snapBytes r1 + scanCursorOverhead\<rparr>"
      using res i slot mr True by (simp_all add: open_locked_def fresh_cursor_def Let_def)
    have "charged None r'"
      using s(2) [OF ch] reg_invD(1) [OF s(1)]
      by (auto simp: charged_def r' set_update_distinct fresh_cursor_def charge_def scanCursorOverhead_def)
    then show ?thesis
      using register_inv [OF s(1) new fits slot1, of now] r' s(3,4) fresh_id_new [OF i]
      by (simp add: fresh_cursor_def)
  qed
qed

text \<open>A cursor in use: registered as it is, in a registry that keeps its bounds.\<close>

definition in_use :: "scan_cursor \<Rightarrow> scan_registry \<Rightarrow> bool" where
  "in_use c r \<longleftrightarrow> reg_inv r \<and> charged None r \<and> map_of (cursors r) (c_id c) = Some c"

lemma touch_locked_use:
  assumes "reg_inv r" and "charged None r" and "map_of (cursors r) i = Some c"
  shows "in_use (c\<lparr>c_lastUsed := now\<rparr>) (touch_locked now c r)"
proof -
  have id: "c_id c = i" by (rule reg_inv_id [OF assms(1,3)])
  have "i \<in> set (lru r)"
    using assms(3) reg_invD(3) [OF assms(1)] by (force dest: map_of_SomeD)
  then have "reg_inv (r\<lparr>lru := i # removeAll i (lru r)\<rparr>)"
    using assms(1) by (auto simp: reg_inv_def owned_def distinct_removeAll)
  moreover have "charge (c\<lparr>c_lastUsed := now\<rparr>) = charge c" by (simp add: charge_def)
  moreover have "128 \<le> charge c"
    using assms(2,3) by (auto simp: charged_def dest!: map_of_SomeD)
  ultimately show ?thesis
    using write_cursor_inv [of "r\<lparr>lru := i # removeAll i (lru r)\<rparr>" "c\<lparr>c_lastUsed := now\<rparr>" c] assms id
      reg_invD(1) [OF assms(1)]
    by (auto simp: in_use_def touch_locked_def charged_def set_update_distinct)
qed

lemma resolve_locked_use:
  assumes "reg_inv r" and "charged None r" and "unat (maxBytes r) + 128 < 2 ^ 64"
    and res: "resolve_locked newID now owner i r = (res, r')"
  shows "reg_inv r' \<and> charged None r' \<and> maxBytes r' = maxBytes r \<and> maxPerOwner r' = maxPerOwner r
    \<and> (\<forall>c. res = Inr c \<longrightarrow> in_use c r')"
proof (cases "i = ScanCursorStart")
  case True
  then have "open_locked newID now owner r = (res, r')" using res by (simp add: resolve_locked_def)
  from open_locked_inv [OF assms(1-3) this] show ?thesis by (auto simp: in_use_def)
next
  case False
  show ?thesis
  proof (cases "\<exists>c. map_of (cursors r) i = Some c \<and> c_owner c = owner")
    case True
    then obtain c where c: "map_of (cursors r) i = Some c" "c_owner c = owner" by auto
    have "res = Inr (c\<lparr>c_lastUsed := now\<rparr>)" "r' = touch_locked now c r"
      using res \<open>i \<noteq> ScanCursorStart\<close> c by (simp_all add: resolve_locked_def)
    then show ?thesis
      using touch_locked_use [OF assms(1,2) c(1), of now]
      by (auto simp: in_use_def touch_locked_def)
  next
    case None: False
    then have "r' = r" "res = Inl ErrScanCursorUnknown"
      using res False by (auto simp: resolve_locked_def split: option.splits if_splits)
    with assms(1,2) show ?thesis by simp
  qed
qed

lemma advance_locked_use:
  assumes use: "in_use c r" and fits: "snap_fits (maxBytes r) shs" and ord: "\<forall>i. range_order (ord i)"
    and res: "advance_locked ord now shs c r = (res, c', r')"
  shows "reg_inv r' \<and> charged None r' \<and> maxBytes r' = maxBytes r \<and> maxPerOwner r' = maxPerOwner r
    \<and> (\<forall>b. res = Inr b \<longrightarrow> in_use c' r' \<and> c_id c' = c_id c \<and> c_owner c' = c_owner c)
    \<and> (res = Inr True \<longrightarrow> c_shard c' = c_shard c + 1 \<and> c_pos c' = 0
         \<and> c_keys c' = shard_keys (ord (nat (c_shard c'))) now (shs ! nat (c_shard c')))"
proof (cases "c_shard c + 1 \<ge> int (length shs)")
  case True
  then have "res = Inr False" "c' = c" "r' = r" using res by (auto simp: advance_locked_def)
  with use show ?thesis by (simp add: in_use_def)
next
  case False
  note inv = use [unfolded in_use_def]
  have sh0: "- 1 \<le> c_shard c" using inv reg_inv_shard by blast
  define n where "n = nat (c_shard c + 1)"
  define keys where "keys = shard_keys (ord n) now (shs ! n)"
  define c1 where "c1 = c\<lparr>c_bytes := 0, c_keys := []\<rparr>"
  define r1 where "r1 = write_cursor c1 (r\<lparr>snapBytes := snapBytes r - c_bytes c\<rparr>)"
  define need where "need = scanCursorOverhead + snapshot_bytes keys"
  obtain ok r2 where mr: "make_room_locked (Some (c_id c)) need r1 = (ok, r2)"
    by (cases "make_room_locked (Some (c_id c)) need r1")
  have c1: "c_id c1 = c_id c" "c_owner c1 = c_owner c" "c_bytes c1 = 0" "charge c1 = 0"
    "c_shard c1 = c_shard c"
    by (simp_all add: c1_def charge_def)
  have inv1: "reg_inv r1"
    unfolding r1_def
    by (rule write_charge_inv [where old = c]) (use inv c1 sh0 reg_invD(5) [of r] in auto)
  have ch1: "charged (Some (c_id c)) r1"
    unfolding r1_def
    by (rule charged_write) (use inv c1 reg_invD(1) [of r] in \<open>auto simp: charged_def\<close>)
  have at1: "map_of (cursors r1) (c_id c) = Some c1" by (simp add: r1_def c1)
  have mb1: "maxBytes r1 = maxBytes r" "maxPerOwner r1 = maxPerOwner r" by (simp_all add: r1_def)
  have sh: "shrunk (Some (c_id c)) r1 r2" using make_room_shrunk [OF inv1] mr by (metis snd_conv)
  note s = shrunkD [OF sh]
  have at2: "map_of (cursors r2) (c_id c) = Some c1" using s(6) at1 by simp
  have eq: "advance_locked ord now shs c r =
      (if ok then let c2 = c1\<lparr>c_shard := c_shard c + 1, c_keys := keys, c_pos := 0, c_bytes := need\<rparr>
                  in (Inr True, c2, write_cursor c2 (r2\<lparr>snapBytes := snapBytes r2 + need\<rparr>))
       else (Inl ErrScanMemoryExhausted, c1, drop_locked (c_id c) r2))"
    using False mr by (simp add: advance_locked_def Let_def c1_def r1_def need_def keys_def n_def split: bool.split)
  show ?thesis
  proof (cases ok)
    case no: False
    then show ?thesis
      using res eq drop_locked_inv [OF s(1)] charged_drop_moving [OF s(2) [OF ch1] reg_invD(1) [OF s(1)]]
        s(3,4) mb1
      by auto
  next
    case True
    have "n < length shs" using False sh0 by (auto simp: n_def)
    then have "shs ! n \<in> set shs" by (rule nth_mem)
    then have small: "unat (maxBytes r) + (128 + snap_size keys) < 2 ^ 64"
      using fits snap_size_keys [of "ord n" now "shs ! n"] ord
      by (fastforce simp: snap_fits_def keys_def intro: le_less_trans [rotated])
    then have need: "unat need = 128 + snap_size keys"
      unfolding need_def by (intro unat_need) simp
    define c2 where "c2 = c1\<lparr>c_shard := c_shard c + 1, c_keys := keys, c_pos := 0, c_bytes := need\<rparr>"
    have c2: "c_id c2 = c_id c" "c_owner c2 = c_owner c" "c_bytes c2 = need" "charge c2 = unat need"
      "c_shard c2 = c_shard c + 1" "c_pos c2 = 0" "c_keys c2 = keys"
      by (simp_all add: c2_def c1 charge_def)
    have room: "vsum charge (cursors r2) + unat need \<le> unat (maxBytes r2)"
      using room_fits [OF s(1) make_room_ok [of "Some (c_id c)" need r1 r2]] mr True small need s(3) mb1 by simp
    have rr: "res = Inr True" "c' = c2" "r' = write_cursor c2 (r2\<lparr>snapBytes := snapBytes r2 + need\<rparr>)"
      using res eq True by (auto simp: Let_def c2_def)
    have "reg_inv r'"
      unfolding rr by (rule write_charge_inv [where old = c1]) (use c2 at2 s(1) room c1 sh0 in auto)
    moreover have "charged None r'"
      unfolding rr by (rule charged_written) (use c2 s(2) [OF ch1] reg_invD(1) [OF s(1)] need in auto)
    ultimately show ?thesis
      using rr(1) c2 s(3,4) mb1 by (simp add: rr(2,3) in_use_def keys_def n_def)
  qed
qed

lemma page_loop_inv:
  assumes "in_use c r" and "snap_fits (maxBytes r) shs" and "\<forall>i. range_order (ord i)"
    and "page_loop ord snap_now live_now shs pat left keys c r = (res, r')"
  shows "reg_inv r' \<and> charged None r' \<and> maxBytes r' = maxBytes r \<and> maxPerOwner r' = maxPerOwner r"
  using assms
proof (induction ord snap_now live_now shs pat left keys c r rule: page_loop.induct)
  case (1 ord snap_now live_now shs pat left keys c r)
  show ?case
  proof (cases "left = 0")
    case True
    with 1(3-) show ?thesis by (subst (asm) page_loop.simps) (auto simp: in_use_def)
  next
    case l: False
    show ?thesis
    proof (cases "c_pos c \<ge> length (c_keys c)")
      case True
      obtain ares c' r1 where adv: "advance_locked ord snap_now shs c r = (ares, c', r1)"
        by (cases "advance_locked ord snap_now shs c r")
      note a = advance_locked_use [OF 1(3,4,5) adv]
      show ?thesis
      proof (cases ares)
        case (Inl err)
        with l True adv 1(6) have "r' = r1" by (subst (asm) page_loop.simps) simp
        with a show ?thesis by simp
      next
        case (Inr b)
        show ?thesis
        proof (cases b)
          case False
          with l True adv 1(6) Inr have "r' = drop_locked (c_id c') r1"
            by (subst (asm) page_loop.simps) simp
          with a show ?thesis by (simp add: drop_locked_inv charged_drop)
        next
          case b: True
          have "page_loop ord snap_now live_now shs pat left keys c' r1 = (res, r')"
            using l True adv 1(6) Inr b by (subst (asm) page_loop.simps) simp
          moreover have "advance_locked ord snap_now shs c r = (Inr True, c', r1)"
            using adv Inr b by simp
          ultimately show ?thesis using 1(1) [OF l True _ _ _ refl] a 1(4,5) Inr b by simp
        qed
      qed
    next
      case False
      define tk where "tk = min left (length (c_keys c) - c_pos c)"
      define c' where "c' = c\<lparr>c_pos := c_pos c + tk\<rparr>"
      have use: "in_use c' (write_cursor c' r)"
        using 1(3) write_cursor_inv [of r c' c] charged_write [of None r c' "snapBytes r"]
          reg_invD(1) [of r]
        by (auto simp: in_use_def c'_def charged_def charge_def dest!: map_of_SomeD)
      have "page_loop ord snap_now live_now shs pat (left - tk)
          (live_keys live_now (shs ! nat (c_shard c)) (take tk (drop (c_pos c) (c_keys c))) pat keys)
          c' (write_cursor c' r) = (res, r')"
        using l False 1(6) by (subst (asm) page_loop.simps) (simp add: Let_def tk_def c'_def)
      then show ?thesis
        using 1(2) [OF l False tk_def refl c'_def use] 1(4,5) by simp
    qed
  qed
qed

lemma page_inv:
  assumes inv: "reg_inv r" "charged None r" and fits: "snap_fits (maxBytes r) shs"
    and ord: "\<forall>i. range_order (ord i)"
    and res: "page newID ord t1 t2 sn ln shs owner i cnt pat r = (res, r')"
  shows "reg_inv r' \<and> charged None r' \<and> maxBytes r' = maxBytes r \<and> maxPerOwner r' = maxPerOwner r"
proof -
  define r1 where "r1 = sweep_locked t1 r"
  have sh: "shrunk None r r1" unfolding r1_def by (rule sweep_shrunk [OF inv(1)])
  note s = shrunkD [OF sh]
  obtain cres r2 where rs: "resolve_locked newID t2 owner i r1 = (cres, r2)"
    by (cases "resolve_locked newID t2 owner i r1")
  have "unat (maxBytes r1) + 128 < 2 ^ 64" using fits s(3) by (simp add: snap_fits_def)
  note u = resolve_locked_use [OF s(1) s(2) [OF inv(2)] this rs]
  show ?thesis
  proof (cases cres)
    case (Inl err)
    then have "r' = r2" using res rs by (simp add: page_def r1_def [symmetric])
    with u s(3,4) show ?thesis by simp
  next
    case (Inr c)
    then have "page_loop ord sn ln shs pat cnt [] c r2 = (res, r')"
      using res rs by (simp add: page_def r1_def [symmetric])
    moreover have "in_use c r2" "maxBytes r2 = maxBytes r" using u Inr s(3) by simp_all
    ultimately show ?thesis using page_loop_inv [of c r2 shs ord sn ln pat cnt "[]" res r'] fits ord u s(4) by simp
  qed
qed

section \<open>Every reachable registry\<close>

text \<open>One step is a page, a connection going away, or the shutdown, with any arguments.\<close>

inductive scan_step :: "scan_registry \<Rightarrow> scan_registry \<Rightarrow> bool" where
  sc_page: "snap_fits (maxBytes r) shs \<Longrightarrow> \<forall>i. range_order (ord i) \<Longrightarrow>
    scan_step r (snd (page newID ord t1 t2 sn ln shs owner i cnt pat r))"
| sc_release: "scan_step r (release_scans cord owner r)"
| sc_close: "scan_step r (close_all_scans cord r)"

inductive scan_reach :: "int \<Rightarrow> int \<Rightarrow> u64 \<Rightarrow> scan_registry \<Rightarrow> bool" for idle pc mb where
  scr_new: "scan_reach idle pc mb (new_scan_registry idle pc mb)"
| scr_step: "scan_reach idle pc mb r \<Longrightarrow> scan_step r r' \<Longrightarrow> scan_reach idle pc mb r'"

lemma scan_step_inv:
  assumes "scan_step r r'" and "reg_inv r" and "charged None r"
  shows "reg_inv r' \<and> charged None r' \<and> maxBytes r' = maxBytes r \<and> maxPerOwner r' = maxPerOwner r"
  using assms
proof (induction rule: scan_step.induct)
  case (sc_page r shs ord newID t1 t2 sn ln owner i cnt pat)
  show ?case
    using page_inv [OF sc_page(3,4,1,2), of newID t1 t2 sn ln owner i cnt pat] by (metis prod.collapse)
next
  case (sc_release r cord owner)
  then show ?case using shrunkD(1-4) [OF release_shrunk] by blast
next
  case (sc_close r cord)
  then show ?case using shrunkD(1-4) [OF close_all_shrunk] by blast
qed

lemma scan_reach_inv:
  "scan_reach idle pc mb r \<Longrightarrow> reg_inv r \<and> charged None r
     \<and> maxBytes r = (if mb = 0 then DefaultMaxScanSnapshotBytes else mb)
     \<and> maxPerOwner r = (if pc \<le> 0 then DefaultMaxScanCursorsPerConn else pc)"
proof (induction rule: scan_reach.induct)
  case scr_new
  then show ?case by (simp add: reg_inv_new charged_new) (simp add: new_scan_registry_def)
next
  case (scr_step r r')
  then show ?case using scan_step_inv [of r r'] by simp
qed

lemma vsum_owns: "vsum (owns ow) xs = int (length (filter (\<lambda>(i, c). c_owner c = ow) xs))"
  by (induction xs) (auto simp: owns_def)

lemma vsum_charge: "vsum charge xs = (\<Sum>(i, c)\<leftarrow>xs. unat (c_bytes c))"
  by (induction xs) (auto simp: charge_def)

lemma charged_count: "charged None r \<Longrightarrow> 128 * length (cursors r) \<le> vsum charge (cursors r)"
proof -
  have "\<forall>(i, c) \<in> set xs. 128 \<le> charge c \<Longrightarrow> 128 * length xs \<le> vsum charge xs"
    for xs :: "(bytes \<times> scan_cursor) list"
    by (induction xs) auto
  then show "charged None r \<Longrightarrow> 128 * length (cursors r) \<le> vsum charge (cursors r)"
    by (simp add: charged_def)
qed

text \<open>
  C24. However scans are opened, paged, abandoned and released, the registry stays within its three
  bounds: the snapshot bytes it reports are the sum over its cursors and never exceed the cap, no
  connection holds more cursors than its limit, and the cap bounds the number of cursors at 128 bytes
  each. The use order lists exactly the live cursors, once each.
\<close>

theorem scan_registry_bounds:
  assumes "scan_reach idle pc mb r"
  shows "unat (snapBytes r) = (\<Sum>(i, c)\<leftarrow>cursors r. unat (c_bytes c))
    \<and> snapBytes r \<le> (if mb = 0 then DefaultMaxScanSnapshotBytes else mb)
    \<and> 128 * length (cursors r) \<le> unat (snapBytes r)
    \<and> int (length (filter (\<lambda>(i, c). c_owner c = ow) (cursors r)))
        \<le> (if pc \<le> 0 then DefaultMaxScanCursorsPerConn else pc)
    \<and> distinct (lru r) \<and> set (lru r) = fst ` set (cursors r)"
proof -
  note all = scan_reach_inv [OF assms]
  then have inv: "reg_inv r" by simp
  have "0 < maxPerOwner r" using all by (simp add: DefaultMaxScanCursorsPerConn_def)
  then show ?thesis
    using all reg_invD(2,3,5) [OF inv] reg_invD(8) [OF inv, of ow] unat_snapBytes [OF inv]
      charged_count [of r]
    by (simp add: owned_def vsum_owns vsum_charge word_le_nat_alt split: if_splits)
qed

text \<open>
  A cursor is bound to the connection that opened it. Presenting one that another connection
  holds gets the same answer, and leaves the same registry, as presenting one that does not exist.
\<close>

lemma scan_cursor_isolation:
  assumes "i \<noteq> ScanCursorStart"
    and "\<forall>c. map_of (cursors r) i = Some c \<longrightarrow> c_owner c \<noteq> owner"
  shows "page newID ord t1 t2 sn ln shs owner i cnt pat r = (Inl ErrScanCursorUnknown, sweep_locked t1 r)"
proof -
  have "map_of (cursors (sweep_loop d ids r)) i = Some c \<Longrightarrow> map_of (cursors r) i = Some c" for d ids r c
  proof (induction ids arbitrary: r)
    case (Cons j ids)
    show ?case using Cons.prems
      by (auto split: option.splits if_splits dest!: Cons.IH)
  qed simp
  from this [of "t1 - idleTimeout r" "rev (lru r)" r]
  have "map_of (cursors (sweep_locked t1 r)) i = Some c \<Longrightarrow> c_owner c \<noteq> owner" for c
    using assms(2) unfolding sweep_locked_def by blast
  then have "resolve_locked newID t2 owner i (sweep_locked t1 r) = (Inl ErrScanCursorUnknown, sweep_locked t1 r)"
    using assms(1)
    by (cases "map_of (cursors (sweep_locked t1 r)) i") (simp_all add: resolve_locked_def)
  then show ?thesis by (simp add: page_def)
qed

theorem scan_registry_bounds_witness:
  "int (length (filter (\<lambda>(i, c). c_owner c = 1) (cursors (release_scans id 1 (new_scan_registry 0 2 500))))) \<le> 2"
proof -
  have "scan_reach 0 2 500 (release_scans id 1 (new_scan_registry 0 2 500))"
    by (rule scr_step [OF scr_new sc_release])
  from scan_registry_bounds [OF this, of 1] show ?thesis by simp
qed

lemma scan_cursor_isolation_witness:
  "page (\<lambda>_. None) (\<lambda>_ xs. xs) 5 5 (\<lambda>_. 5) (\<lambda>_. 5) [] 1 ''42'' 10 []
     ((new_scan_registry 0 0 0)\<lparr>cursors := [(''42'', fresh_cursor ''42'' 2 3)], lru := [''42'']\<rparr>) =
   (Inl ErrScanCursorUnknown, sweep_locked 5
     ((new_scan_registry 0 0 0)\<lparr>cursors := [(''42'', fresh_cursor ''42'' 2 3)], lru := [''42'']\<rparr>))"
  by (rule scan_cursor_isolation) (simp_all add: ScanCursorStart_def fresh_cursor_def)

text \<open>A generated id is never the start sentinel, whatever the random source answers.\<close>

lemma format_nat_zero: "format_nat n = ''0'' \<Longrightarrow> n = 0"
  using parse_digits_format [of n] by (simp add: parse_digits_def digits_val_def is_digit_def digit_val_def)

lemma random_cursor_id_not_start: "random_cursor_id rnd \<noteq> Some ScanCursorStart"
  by (auto simp: random_cursor_id_def ScanCursorStart_def Let_def dest!: format_nat_zero
      split: option.splits if_splits)

end
