(* ===== verification/Engine_Inv.thy ===== *)
theory Engine_Inv
  imports Engine Scan_Inv
begin

text \<open>
  The invariant of the engine and its conservation law: every key lives in the shard its hash names,
  the tracker's counter is the sum over all shards, and it never exceeds the limit. \<open>books\<close> says
  whether the accounting is part of what is tracked: without it the invariant needs no bound on the
  counter, which is all the view of the store rests on.
\<close>

definition keyset :: "shard \<Rightarrow> bytes set" where
  "keyset s = fst ` set (data s)"

definition sound :: "bool \<Rightarrow> nat \<Rightarrow> mshard \<Rightarrow> bool" where
  "sound books rest ms \<longleftrightarrow> shard_inv (snd ms) \<and> (books \<longrightarrow> accounted rest ms \<and> within_limit (fst ms))"

definition roomy :: "bool \<Rightarrow> nat \<Rightarrow> mshard \<Rightarrow> bool" where
  "roomy books rest ms \<longleftrightarrow> sound books rest ms \<and> (books \<longrightarrow> headroom (fst ms))"

lemma roomy_sound: "roomy books rest ms \<Longrightarrow> sound books rest ms"
  by (simp add: roomy_def)

section \<open>Admission keeps it\<close>

lemma keyset_lookup: "k \<in> keyset s \<longleftrightarrow> shard_lookup s k \<noteq> None"
  by (simp add: keyset_def map_of_None_fst)

lemma shard_evict_sel:
  "maxMemory (fst (snd (shard_evict v (m, s)))) = maxMemory m"
  "usedMemory (fst (snd (shard_evict v (m, s)))) \<le> usedMemory m"
  "keyset (snd (snd (shard_evict v (m, s)))) = keyset s - {v}"
  "data (snd (snd (shard_evict v (m, s)))) = AList.delete v (data s)"
  by (auto simp: shard_evict_unfold remove_locked_def shard_release_def keyset_def fst_set_delete
      map_of_None_fst sub_next_le split: option.split)

lemma headroom_less: "headroom m \<Longrightarrow> usedMemory m' \<le> usedMemory m \<Longrightarrow> headroom m'"
  by (simp add: headroom_def word_le_nat_alt)

lemma shard_evict_roomy:
  assumes "roomy books rest ms"
  shows "roomy books rest (snd (shard_evict v ms))"
proof -
  obtain m s where ms: "ms = (m, s)" by (cases ms)
  have inv: "shard_inv s" using assms by (simp add: roomy_def sound_def ms)
  show ?thesis
    using assms shard_evict_inv [OF inv, of v m] shard_evict_accounted [OF inv, of rest m v]
      within_limit_ops(5) [of m v s] headroom_less [OF _ shard_evict_sel(2), of m v s]
    by (auto simp: roomy_def sound_def ms)
qed

lemma evict_victims_roomy:
  "roomy books rest ms \<Longrightarrow> roomy books rest (snd (evict_victims n vs ms))"
  by (induction vs arbitrary: n ms) (auto simp: Let_def shard_evict_roomy)

lemma evict_victims_sel:
  "maxMemory (fst (snd (evict_victims n vs ms))) = maxMemory (fst ms) \<and>
   keyset (snd (snd (evict_victims n vs ms))) \<subseteq> keyset (snd ms)"
proof (induction vs arbitrary: n ms)
  case (Cons v vs)
  obtain m s where ms: "ms = (m, s)" by (cases ms)
  show ?case
    using Cons.IH [of "n + 1" "snd (shard_evict v ms)"] shard_evict_sel(1,3) [of v m s]
    by (auto simp: Let_def ms)
qed simp

text \<open>What one pass of \<open>admit\<close> keeps.\<close>

definition admitted_from :: "bool \<Rightarrow> nat \<Rightarrow> mshard \<Rightarrow> mshard \<Rightarrow> bool" where
  "admitted_from books rest ms ms' \<longleftrightarrow>
     roomy books rest ms' \<and> maxMemory (fst ms') = maxMemory (fst ms) \<and>
     keyset (snd ms') \<subseteq> keyset (snd ms)"

lemma admit_loop_keeps:
  "roomy books rest ms \<Longrightarrow> admitted_from books rest ms (snd (admit_loop select key sz mx n ms))"
proof (induction select key sz mx n ms rule: admit_loop.induct)
  case (1 select key sz mx n ms)
  let ?vs = "select n (snd ms) (usedMemory (fst ms) + sz - resident_size key (snd ms) - mx)"
  let ?stop = "usedMemory (fst ms) + sz \<le> mx + resident_size key (snd ms) \<or>
    maxEvictionsPerWrite \<le> n \<or> ?vs = []"
  show ?case
  proof (cases ?stop)
    case True
    then have "snd (admit_loop select key sz mx n ms) = ms"
      by (subst admit_loop.simps) (auto simp: Let_def)
    then show ?thesis using "1.prems" by (simp add: admitted_from_def)
  next
    case False
    obtain n' ms' where ev: "evict_victims n ?vs ms = (n', ms')" by (cases "evict_victims n ?vs ms")
    have eq: "admit_loop select key sz mx n ms = admit_loop select key sz mx n' ms'"
      using False ev by (subst admit_loop.simps) (simp add: Let_def)
    have "roomy books rest ms'" using evict_victims_roomy [OF "1.prems", of n ?vs] ev by simp
    then have "admitted_from books rest ms' (snd (admit_loop select key sz mx n' ms'))"
      using "1.IH" [OF refl refl _ _ refl _ ev [symmetric]] False by simp
    then show ?thesis
      unfolding eq using evict_victims_sel [of n ?vs ms] ev by (auto simp: admitted_from_def)
  qed
qed

lemma admit_keeps: "roomy books rest ms \<Longrightarrow> admitted_from books rest ms (snd (admit ctl entry ms))"
  using admit_loop_keeps by (auto simp: admit_def Let_def admitted_from_def split: option.split)

lemma reject_oom_sel:
  "fst (reject_oom ms) = (False, Some ErrOutOfMemory)"
  "snd (snd (reject_oom ms)) = snd ms"
  "sound books rest (snd (reject_oom ms)) = sound books rest ms"
  by (cases ms; simp add: reject_oom_def sound_def accounted_def within_limit_def record_oom_rejection_def)+

lemma shard_put_sound:
  assumes "roomy books rest ms" and "Key entry = key"
  shows "sound books rest (snd (shard_put now key entry nx ms)) \<and>
    keyset (snd (snd (shard_put now key entry nx ms))) \<subseteq> insert key (keyset (snd ms))"
proof -
  obtain m s where ms: "ms = (m, s)" by (cases ms)
  have inv: "shard_inv s" using assms by (simp add: roomy_def sound_def ms)
  have "keyset (snd (snd (shard_put now key entry nx (m, s)))) \<subseteq> insert key (keyset s)"
    by (cases rule: shard_put_cases [of now key nx s entry m]) (auto simp: keyset_def fst_set_update)
  moreover have "sound books rest (snd (shard_put now key entry nx (m, s)))"
    using assms(1) shard_put_inv [OF inv assms(2), of now nx m]
      shard_put_accounted [OF inv, of rest m now key entry nx] within_limit_ops(2) [of m now key entry nx s]
    by (auto simp: roomy_def sound_def ms)
  ultimately show ?thesis by (simp add: ms)
qed

lemma shard_put_failed:
  assumes "shard_put now key entry nx ms = ((stored, Some ErrOutOfMemory), ms')"
  shows "ms' = ms"
  using assms by (cases ms) (cases rule: shard_put_cases [of now key nx "snd ms" entry "fst ms"], auto)

lemma store_attempts_sound:
  assumes "roomy books rest ms" and "Key entry = key"
  shows "sound books rest (snd (store_attempts ctl now key entry nx left att ms)) \<and>
    keyset (snd (snd (store_attempts ctl now key entry nx left att ms))) \<subseteq> insert key (keyset (snd ms))"
  using assms(1)
proof (induction left arbitrary: att ms)
  case 0
  then show ?case by (auto simp: reject_oom_sel roomy_sound)
next
  case (Suc left)
  obtain stored err ms1 where p: "shard_put (now att) key entry nx ms = ((stored, err), ms1)"
    by (metis prod.collapse)
  show ?case
  proof (cases "err = Some ErrOutOfMemory")
    case False
    then show ?thesis
      using p shard_put_sound [OF Suc.prems assms(2), of "now att" nx] by simp
  next
    case True
    then have ms1: "ms1 = ms" using p shard_put_failed by blast
    obtain err2 ms2 where ad: "admit (map_option (\<lambda>f. f att) ctl) entry ms = (err2, ms2)"
      by (cases "admit (map_option (\<lambda>f. f att) ctl) entry ms")
    have k: "admitted_from books rest ms ms2"
      using admit_keeps [OF Suc.prems, of "map_option (\<lambda>f. f att) ctl" entry] ad by simp
    then have r: "roomy books rest ms2" and sub: "keyset (snd ms2) \<subseteq> keyset (snd ms)"
      by (simp_all add: admitted_from_def)
    show ?thesis
    proof (cases err2)
      case None
      then show ?thesis using p True ms1 ad Suc.IH [OF r, of "att + 1"] sub by auto
    next
      case (Some x)
      then show ?thesis using p True ms1 ad roomy_sound [OF r] sub by (auto simp: reject_oom_sel)
    qed
  qed
qed

lemmas admit_and_store_sound =
  store_attempts_sound [where left = admitAttempts and att = 0, folded admit_and_store_def]

section \<open>The engine's invariant\<close>

definition eng_bytes :: "engine \<Rightarrow> nat" where
  "eng_bytes e = sum_list (map shard_bytes (shards e))"

definition eng_inv :: "bool \<Rightarrow> (bytes \<Rightarrow> u64) \<Rightarrow> engine \<Rightarrow> bool" where
  "eng_inv books hash e \<longleftrightarrow>
     (\<forall>k. shard_for hash k e < length (shards e)) \<and>
     (\<forall>i < length (shards e). shard_inv (shards e ! i) \<and>
        (\<forall>k \<in> keyset (shards e ! i). shard_for hash k e = i)) \<and>
     (books \<longrightarrow> unat (usedMemory (memory e)) = eng_bytes e \<and> within_limit (memory e))"

definition rest_bytes :: "nat \<Rightarrow> engine \<Rightarrow> nat" where
  "rest_bytes i e = eng_bytes e - shard_bytes (shards e ! i)"

lemma eng_invD:
  assumes "eng_inv books hash e"
  shows "shard_for hash k e < length (shards e)"
    "i < length (shards e) \<Longrightarrow> shard_inv (shards e ! i)"
    "i < length (shards e) \<Longrightarrow> k \<in> keyset (shards e ! i) \<Longrightarrow> shard_for hash k e = i"
  using assms by (simp_all add: eng_inv_def)

lemma shard_bytes_le: "i < length (shards e) \<Longrightarrow> shard_bytes (shards e ! i) \<le> eng_bytes e"
  unfolding eng_bytes_def by (rule member_le_sum_list) auto

lemma at_shard_sound:
  assumes "eng_inv books hash e" and "i < length (shards e)"
  shows "sound books (rest_bytes i e) (at_shard i e)"
  using assms shard_bytes_le [OF assms(2)]
  by (auto simp: sound_def at_shard_def eng_inv_def rest_bytes_def accounted_def)

lemma put_back_sel [simp]:
  "memory (put_back i ms e) = fst ms" "shards (put_back i ms e) = (shards e)[i := snd ms]"
  "shard_for hash k (put_back i ms e) = shard_for hash k e" "closed (put_back i ms e) = closed e"
  "scans (put_back i ms e) = scans e" "eviction (put_back i ms e) = eviction e"
  "maxValueSize (put_back i ms e) = maxValueSize e" "scheduler (put_back i ms e) = scheduler e"
  by (simp_all add: put_back_def shard_for_def)

lemma schedule_sel [simp]:
  "memory (schedule i k d e) = memory e" "shards (schedule i k d e) = shards e"
  "shard_for hash k' (schedule i k d e) = shard_for hash k' e" "closed (schedule i k d e) = closed e"
  "scans (schedule i k d e) = scans e" "maxValueSize (schedule i k d e) = maxValueSize e"
  by (simp_all add: schedule_def shard_for_def split: option.split)

lemma eng_inv_schedule [simp]: "eng_inv books hash (schedule i k d e) = eng_inv books hash e"
  by (simp add: eng_inv_def eng_bytes_def)

lemma put_back_inv:
  assumes inv: "eng_inv books hash e" and i: "i < length (shards e)"
    and snd: "sound books (rest_bytes i e) ms"
    and keys: "\<And>k. k \<in> keyset (snd ms) \<Longrightarrow> k \<in> keyset (shards e ! i) \<or> shard_for hash k e = i"
  shows "eng_inv books hash (put_back i ms e)"
proof -
  have b: "eng_bytes (put_back i ms e) = rest_bytes i e + shard_bytes (snd ms)"
    using shard_bytes_le [OF i] i
    by (simp add: eng_bytes_def rest_bytes_def map_update sum_list_update)
  show ?thesis
    unfolding eng_inv_def
  proof (intro conjI allI impI ballI)
    show "shard_for hash k (put_back i ms e) < length (shards (put_back i ms e))" for k
      using eng_invD(1) [OF inv] by simp
  next
    fix j assume j: "j < length (shards (put_back i ms e))"
    show "shard_inv (shards (put_back i ms e) ! j)"
      using j eng_invD(2) [OF inv, of j] snd i by (cases "j = i") (auto simp: sound_def)
    fix k assume "k \<in> keyset (shards (put_back i ms e) ! j)"
    then show "shard_for hash k (put_back i ms e) = j"
      using j i keys [of k] eng_invD(3) [OF inv, of j k] eng_invD(3) [OF inv i, of k]
      by (cases "j = i") auto
  next
    assume books
    then show "unat (usedMemory (memory (put_back i ms e))) = eng_bytes (put_back i ms e)"
      using snd unfolding b by (cases ms) (simp add: sound_def accounted_def)
    from \<open>books\<close> show "within_limit (memory (put_back i ms e))" using snd by (simp add: sound_def)
  qed
qed

text \<open>The shape every operation on one key has: the shard of the key's hash, and nothing new in it.\<close>

lemma put_back_key_inv:
  assumes "eng_inv books hash e" and "sound books (rest_bytes (shard_for hash key e) e) ms"
    and "keyset (snd ms) \<subseteq> insert key (keyset (shards e ! shard_for hash key e))"
  shows "eng_inv books hash (put_back (shard_for hash key e) ms e)"
  using assms eng_invD(1) [OF assms(1)] by (intro put_back_inv) auto

section \<open>The operations as a result and a write-back\<close>

lemma engine_get_unfold:
  "engine_get hash t1 t2 t3 t4 k e =
     (if closed e then (None, e)
      else let r = shard_get t1 t2 t3 k (at_shard (shard_for hash k e) e)
           in (map_option (\<lambda>x. (Value x, entry_ttl t4 x)) (fst r), put_back (shard_for hash k e) (snd r) e))"
  by (auto simp: engine_get_def Let_def split: prod.split option.split)

lemma expire_key_unfold:
  "expire_key now i k e =
     (if closed e then (False, e)
      else let r = shard_expire now k (at_shard i e) in (fst r, put_back i (snd r) e))"
  by (simp add: expire_key_def Let_def split_beta)

lemma engine_delete_unfold:
  "engine_delete hash k e =
     (if closed e then (False, e)
      else let r = shard_delete k (at_shard (shard_for hash k e) e)
           in (fst r \<noteq> None, put_back (shard_for hash k e) (snd r) e))"
  by (simp add: engine_delete_def Let_def split_beta)

text \<open>Where an operation may only have handed out a hint besides.\<close>

definition up_to_hints :: "engine \<Rightarrow> engine \<Rightarrow> bool" where
  "up_to_hints e e' \<longleftrightarrow> e\<lparr>scheduler := None\<rparr> = e'\<lparr>scheduler := None\<rparr>"

lemma up_to_hints_refl [simp]: "up_to_hints e e"
  by (simp add: up_to_hints_def)

lemma up_to_hints_schedule [simp]: "up_to_hints (schedule i k d e) e"
  by (simp add: up_to_hints_def schedule_def split: option.split)

lemma up_to_hints_sel:
  assumes "up_to_hints e e'"
  shows "memory e = memory e'" "shards e = shards e'" "closed e = closed e'" "scans e = scans e'"
    "shardMask e = shardMask e'" "shard_for hash k e = shard_for hash k e'"
proof -
  have eq: "e\<lparr>scheduler := None\<rparr> = e'\<lparr>scheduler := None\<rparr>" using assms by (simp add: up_to_hints_def)
  show "memory e = memory e'" using arg_cong [OF eq, of memory] by simp
  show "shards e = shards e'" using arg_cong [OF eq, of shards] by simp
  show "closed e = closed e'" using arg_cong [OF eq, of closed] by simp
  show "scans e = scans e'" using arg_cong [OF eq, of scans] by simp
  show m: "shardMask e = shardMask e'" using arg_cong [OF eq, of shardMask] by simp
  show "shard_for hash k e = shard_for hash k e'" by (simp add: shard_for_def m)
qed

lemma eng_inv_hints: "up_to_hints e e' \<Longrightarrow> eng_inv books hash e = eng_inv books hash e'"
  by (simp add: eng_inv_def eng_bytes_def up_to_hints_sel [of e e'])

lemma engine_set_ttl_unfold:
  "closed e \<Longrightarrow> engine_set_ttl hash t1 t2 k ttl e = (False, e)"
  "\<not> closed e \<Longrightarrow> fst (engine_set_ttl hash t1 t2 k ttl e) =
     fst (shard_set_ttl t1 t2 k ttl (shards e ! shard_for hash k e))"
  "\<not> closed e \<Longrightarrow> up_to_hints (snd (engine_set_ttl hash t1 t2 k ttl e))
     (put_back (shard_for hash k e)
        (memory e, snd (shard_set_ttl t1 t2 k ttl (shards e ! shard_for hash k e))) e)"
  by (auto simp: engine_set_ttl_def Let_def split: prod.split bool.split)

lemma engine_set_unfold:
  "validate_write t key v ttl e = Inl err \<Longrightarrow> engine_set hash t now key v ttl e = (Some err, e)"
  "validate_write t key v ttl e = Inr x \<Longrightarrow> fst (engine_set hash t now key v ttl e) =
     snd (fst (admit_and_store (eviction e) now key x False (at_shard (shard_for hash key e) e)))"
  "validate_write t key v ttl e = Inr x \<Longrightarrow> up_to_hints (snd (engine_set hash t now key v ttl e))
     (put_back (shard_for hash key e)
       (snd (admit_and_store (eviction e) now key x False (at_shard (shard_for hash key e) e))) e)"
  by (auto simp: engine_set_def Let_def split: prod.split option.split)

lemma validate_write_Inr:
  "validate_write t key v ttl e = Inr x \<longleftrightarrow>
     x = new_entry t key v ttl \<and> \<not> closed e \<and> of_nat (length v) \<le> maxValueSize e \<and> 0 \<le> ttl"
  by (auto simp: validate_write_def not_less)

section \<open>Every operation keeps it\<close>

lemma keyset_get: "keyset (snd (snd (shard_get t1 t2 t3 k (m, s)))) \<subseteq> keyset s"
proof (cases "shard_lookup s k")
  case None
  then show ?thesis by (simp add: shard_get_unfold keyset_def)
next
  case (Some x)
  have "keyset (snd (snd (shard_expire t2 k (m, s)))) \<subseteq> keyset s"
    by (auto simp: keyset_def shard_expire_data fst_set_delete)
  moreover have "k \<in> keyset s" using Some by (simp add: keyset_lookup)
  ultimately show ?thesis
    using Some by (simp add: shard_get_unfold split_beta Let_def keyset_def fst_set_update)
qed

lemma shard_get_sound:
  assumes "sound books rest (m, s)"
  shows "sound books rest (snd (shard_get t1 t2 t3 k (m, s)))"
  using assms shard_get_inv [of s t1 t2 t3 k m] shard_get_accounted [of s rest m t1 t2 t3 k]
    within_limit_ops(1) [of m t1 t2 t3 k s]
  by (simp add: sound_def)

lemma shard_expire_sound:
  assumes "sound books rest (m, s)"
  shows "sound books rest (snd (shard_expire now k (m, s)))"
    and "keyset (snd (snd (shard_expire now k (m, s)))) \<subseteq> keyset s"
  using assms shard_expire_inv [of s now k m] shard_expire_accounted [of s rest m now k]
    within_limit_ops(4) [of m now k s]
  by (auto simp: sound_def keyset_def shard_expire_data fst_set_delete)

lemma shard_delete_sound:
  assumes "sound books rest (m, s)"
  shows "sound books rest (snd (shard_delete k (m, s)))"
    and "keyset (snd (snd (shard_delete k (m, s)))) = keyset s - {k}"
  using assms shard_delete_inv [of s k m] shard_delete_accounted [of s rest m k]
    within_limit_ops(3) [of m k s]
  by (auto simp: sound_def keyset_def shard_removal_data fst_set_delete)

lemma shard_set_ttl_sound:
  assumes "sound books rest (m, s)"
  shows "sound books rest (m, snd (shard_set_ttl t1 t2 k ttl s))"
    and "keyset (snd (shard_set_ttl t1 t2 k ttl s)) \<subseteq> keyset s"
proof -
  have inv: "shard_inv s" using assms by (simp add: sound_def)
  show "sound books rest (m, snd (shard_set_ttl t1 t2 k ttl s))"
    using assms shard_set_ttl_inv [OF inv, of t1 t2 k ttl] inv
    by (simp add: sound_def accounted_pair)
  show "keyset (snd (shard_set_ttl t1 t2 k ttl s)) \<subseteq> keyset s"
    using keyset_lookup [of k s]
    by (auto simp: shard_set_ttl_def keyset_def fst_set_update Let_def split: option.split)
qed

lemma at_shard_sound': "eng_inv books hash e \<Longrightarrow> i < length (shards e) \<Longrightarrow>
    sound books (rest_bytes i e) (memory e, shards e ! i)"
  using at_shard_sound [of books hash e i] by (simp add: at_shard_def)

lemma engine_get_inv:
  assumes "eng_inv books hash e"
  shows "eng_inv books hash (snd (engine_get hash t1 t2 t3 t4 k e))"
proof -
  note s = shard_get_sound [OF at_shard_sound' [OF assms eng_invD(1) [OF assms, of k]], of t1 t2 t3 k]
  have "eng_inv books hash
      (put_back (shard_for hash k e) (snd (shard_get t1 t2 t3 k (memory e, shards e ! shard_for hash k e))) e)"
    using keyset_get by (intro put_back_key_inv [OF assms s]) blast
  with assms show ?thesis by (simp add: engine_get_unfold Let_def at_shard_def)
qed

lemma expire_key_inv:
  assumes "eng_inv books hash e" and "i < length (shards e)"
  shows "eng_inv books hash (snd (expire_key now i k e))"
proof -
  note s = shard_expire_sound [OF at_shard_sound' [OF assms], of now k]
  have "eng_inv books hash (put_back i (snd (shard_expire now k (memory e, shards e ! i))) e)"
    using s(2) by (intro put_back_inv [OF assms s(1)]) blast
  with assms(1) show ?thesis by (simp add: expire_key_unfold Let_def at_shard_def)
qed

lemma engine_expire_inv:
  "eng_inv books hash e \<Longrightarrow> eng_inv books hash (snd (engine_expire now i k e))"
  using expire_key_inv [of books hash e "nat i" now k]
  by (auto simp: engine_expire_def shard_at_def)

lemma engine_delete_expired_inv:
  "eng_inv books hash e \<Longrightarrow> eng_inv books hash (snd (engine_delete_expired hash now k e))"
  by (simp add: engine_delete_expired_def expire_key_inv eng_invD(1))

lemma engine_delete_inv:
  assumes "eng_inv books hash e"
  shows "eng_inv books hash (snd (engine_delete hash k e))"
proof -
  note s = shard_delete_sound [OF at_shard_sound' [OF assms eng_invD(1) [OF assms, of k]], of k]
  have "eng_inv books hash
      (put_back (shard_for hash k e) (snd (shard_delete k (memory e, shards e ! shard_for hash k e))) e)"
    using s(2) by (intro put_back_key_inv [OF assms s(1)]) blast
  with assms show ?thesis by (simp add: engine_delete_unfold Let_def at_shard_def)
qed

lemma engine_set_ttl_inv:
  assumes "eng_inv books hash e"
  shows "eng_inv books hash (snd (engine_set_ttl hash t1 t2 k ttl e))"
proof (cases "closed e")
  case False
  note s = shard_set_ttl_sound [OF at_shard_sound' [OF assms eng_invD(1) [OF assms, of k]], of t1 t2 k ttl]
  have "eng_inv books hash (put_back (shard_for hash k e)
      (memory e, snd (shard_set_ttl t1 t2 k ttl (shards e ! shard_for hash k e))) e)"
    using s(2) by (intro put_back_key_inv [OF assms s(1)]) auto
  then show ?thesis
    using eng_inv_hints [OF engine_set_ttl_unfold(3) [OF False, of hash t1 t2 k ttl]] by simp
qed (simp add: engine_set_ttl_unfold(1) assms)

lemma at_shard_roomy:
  assumes "eng_inv books hash e" and "i < length (shards e)" and "books \<longrightarrow> headroom (memory e)"
  shows "roomy books (rest_bytes i e) (at_shard i e)"
  using at_shard_sound [OF assms(1,2)] assms(3) by (simp add: roomy_def at_shard_def)

lemma engine_set_inv:
  assumes "eng_inv books hash e" and "books \<longrightarrow> headroom (memory e)"
  shows "eng_inv books hash (snd (engine_set hash t now key v ttl e))"
proof (cases "validate_write t key v ttl e")
  case (Inl err)
  with assms(1) show ?thesis by (simp add: engine_set_unfold(1))
next
  case (Inr x)
  then have "Key x = key" by (simp add: validate_write_Inr)
  note s = admit_and_store_sound [OF at_shard_roomy [OF assms(1) eng_invD(1) [OF assms(1)] assms(2)] this,
      where ctl = "eviction e" and now = now and nx = False]
  have "eng_inv books hash (put_back (shard_for hash key e)
      (snd (admit_and_store (eviction e) now key x False (at_shard (shard_for hash key e) e))) e)"
    using s by (intro put_back_key_inv [OF assms(1)]) (auto simp: at_shard_def)
  then show ?thesis using eng_inv_hints [OF engine_set_unfold(3) [OF Inr, of hash now]] by simp
qed

lemma engine_setnx_unfold:
  "validate_write t key v ttl e = Inl err \<Longrightarrow> engine_setnx hash t now key v ttl e = ((False, Some err), e)"
  "validate_write t key v ttl e = Inr x \<Longrightarrow> fst (engine_setnx hash t now key v ttl e) =
     (let r = fst (admit_and_store (eviction e) now key x True (at_shard (shard_for hash key e) e))
      in (snd r = None \<and> fst r, snd r))"
  "validate_write t key v ttl e = Inr x \<Longrightarrow> up_to_hints (snd (engine_setnx hash t now key v ttl e))
     (put_back (shard_for hash key e)
       (snd (admit_and_store (eviction e) now key x True (at_shard (shard_for hash key e) e))) e)"
  by (simp_all add: engine_setnx_def Let_def split_beta)

lemma engine_setnx_inv:
  assumes "eng_inv books hash e" and "books \<longrightarrow> headroom (memory e)"
  shows "eng_inv books hash (snd (engine_setnx hash t now key v ttl e))"
proof (cases "validate_write t key v ttl e")
  case (Inl err)
  with assms(1) show ?thesis by (simp add: engine_setnx_unfold(1))
next
  case (Inr x)
  then have "Key x = key" by (simp add: validate_write_Inr)
  note s = admit_and_store_sound [OF at_shard_roomy [OF assms(1) eng_invD(1) [OF assms(1)] assms(2)] this,
      where ctl = "eviction e" and now = now and nx = True]
  have "eng_inv books hash (put_back (shard_for hash key e)
      (snd (admit_and_store (eviction e) now key x True (at_shard (shard_for hash key e) e))) e)"
    using s by (intro put_back_key_inv [OF assms(1)]) (auto simp: at_shard_def)
  then show ?thesis using eng_inv_hints [OF engine_setnx_unfold(3) [OF Inr, of hash now]] by simp
qed

lemma eng_inv_scans [simp]: "eng_inv books hash (e\<lparr>scans := r\<rparr>) = eng_inv books hash e"
  by (simp add: eng_inv_def eng_bytes_def shard_for_def)

lemma engine_scan_inv: "eng_inv books hash e \<Longrightarrow>
    eng_inv books hash (snd (engine_scan rnd ord t1 t2 sn ln owner i cnt pat e))"
  by (simp add: engine_scan_def Let_def split: prod.split)

text \<open>\<open>Close\<close> gives back exactly the bytes of every shard: the counter ends at zero by itself.\<close>

lemma clear_shards_Cons:
  "clear_shards m (s # ss) =
     (let c = shard_clear (m, s); r = clear_shards (fst c) ss in (fst r, snd c # snd r))"
  by (simp add: split_beta Let_def)

lemma clear_shards_props:
  assumes "\<forall>s \<in> set ss. shard_inv s" and "unat (usedMemory m) = rest + sum_list (map shard_bytes ss)"
  shows "unat (usedMemory (fst (clear_shards m ss))) = rest
    \<and> maxMemory (fst (clear_shards m ss)) = maxMemory m"
  using assms
proof (induction ss arbitrary: m)
  case (Cons s ss)
  obtain m' s' where c: "shard_clear (m, s) = (m', s')" by (cases "shard_clear (m, s)")
  have inv: "shard_inv s" using Cons(2) by simp
  have "accounted (rest + sum_list (map shard_bytes ss)) (m, s)"
    using Cons(3) by (simp add: accounted_def)
  then have "accounted (rest + sum_list (map shard_bytes ss)) (m', s')"
    using shard_clear_accounted [OF inv, of _ m] c by simp
  moreover have s': "shard_bytes s' = 0" "maxMemory m' = maxMemory m"
    using c by (auto simp: shard_clear_def shard_bytes_def)
  ultimately have "unat (usedMemory m') = rest + sum_list (map shard_bytes ss)"
    by (simp add: accounted_def)
  then show ?case using Cons(1) [of m'] Cons(2) c s'
    by (simp add: clear_shards_Cons Let_def del: clear_shards.simps(2))
qed simp

lemma clear_shards_snd:
  "snd (clear_shards m ss) = map (\<lambda>s. s\<lparr>data := [], memoryUsed := 0, keysWithTTL := 0\<rparr>) ss"
  by (induction ss arbitrary: m) (simp_all add: split_beta shard_clear_def)

lemma clear_shards_shape:
  assumes "\<forall>s \<in> set ss. shard_inv s"
  shows "\<forall>s \<in> set (snd (clear_shards m ss)). shard_inv s \<and> data s = []"
  using assms shard_clear_inv by (auto simp: clear_shards_snd shard_clear_def)

lemma engine_close_inv:
  assumes "eng_inv books hash e"
  shows "eng_inv books hash (snd (engine_close ord e))"
proof (cases "closed e")
  case False
  let ?c = "clear_shards (memory e) (shards e)"
  have ss: "\<forall>s \<in> set (shards e). shard_inv s"
    using eng_invD(2) [OF assms] by (auto simp: in_set_conv_nth)
  have len: "length (snd ?c) = length (shards e)" by (simp add: clear_shards_snd)
  have cleared: "shard_inv s" "data s = []" if "s \<in> set (snd ?c)" for s
    using clear_shards_shape [OF ss] that by simp_all
  have "unat (usedMemory (fst ?c)) = eng_bytes (e\<lparr>shards := snd ?c\<rparr>) \<and> within_limit (fst ?c)" if books
  proof -
    have "unat (usedMemory (memory e)) = 0 + sum_list (map shard_bytes (shards e))"
      using assms that by (simp add: eng_inv_def eng_bytes_def)
    note p = clear_shards_props [OF ss this]
    have "sum_list (map shard_bytes (snd ?c)) = 0"
      using cleared(2) by (simp add: sum_list_nonneg_eq_0_iff shard_bytes_def)
    then show ?thesis using p by (simp add: eng_bytes_def within_limit_def word_le_nat_alt)
  qed
  moreover have "snd (engine_close ord e) = e\<lparr>closed := True, memory := fst ?c, shards := snd ?c,
      scans := close_all_scans ord (scans e)\<rparr>"
    using False by (simp add: engine_close_def split_beta Let_def)
  ultimately show ?thesis
    using eng_invD(1) [OF assms] len cleared
    by (simp add: eng_inv_def eng_bytes_def shard_for_def keyset_def)
qed (simp add: engine_close_def assms)

section \<open>A new engine\<close>

text \<open>Smearing the bits of a positive number below \<open>2 ^ 32\<close> downwards.\<close>

lemma smear_step:
  assumes "\<And>i. bit x i \<longleftrightarrow> (\<exists>j < t. bit m (i + j))"
  shows "bit (x OR drop_bit t x) i \<longleftrightarrow> (\<exists>j < 2 * t. bit (m :: int) (i + j))"
proof -
  have "(\<exists>j < 2 * t. bit m (i + j)) \<longleftrightarrow> (\<exists>j < t. bit m (i + j)) \<or> (\<exists>j < t. bit m (t + i + j))"
  proof
    assume "\<exists>j < 2 * t. bit m (i + j)"
    then obtain j where j: "j < 2 * t" "bit m (i + j)" by auto
    then show "(\<exists>j < t. bit m (i + j)) \<or> (\<exists>j < t. bit m (t + i + j))"
    proof (cases "j < t")
      case False
      with j show ?thesis by (intro disjI2 exI [of _ "j - t"]) (auto simp: ac_simps)
    qed auto
  next
    assume "(\<exists>j < t. bit m (i + j)) \<or> (\<exists>j < t. bit m (t + i + j))"
    then show "\<exists>j < 2 * t. bit m (i + j)"
    proof
      assume "\<exists>j < t. bit m (t + i + j)"
      then obtain j where "j < t" "bit m (t + i + j)" by auto
      then show ?thesis by (intro exI [of _ "t + j"]) (auto simp: ac_simps)
    qed (metis less_le_trans le_add1 mult_2)
  qed
  then show ?thesis by (simp add: bit_or_iff bit_drop_bit_eq assms add.commute)
qed

definition smear :: "int \<Rightarrow> int" where
  "smear m = (let n = m OR drop_bit 1 m; n = n OR drop_bit 2 n; n = n OR drop_bit 4 n;
     n = n OR drop_bit 8 n in n OR drop_bit 16 n)"

lemma bit_smear: "bit (smear m) i \<longleftrightarrow> (\<exists>j < 32. bit m (i + j))"
proof -
  have 1: "bit m i \<longleftrightarrow> (\<exists>j < (1 :: nat). bit m (i + j))" for i by simp
  note 2 = smear_step [OF 1, simplified]
  note 4 = smear_step [OF 2, simplified]
  note 8 = smear_step [OF 4, simplified]
  note 16 = smear_step [OF 8, simplified]
  show ?thesis using smear_step [OF 16, of i] by (simp add: smear_def Let_def)
qed

lemma smear_mask:
  assumes "0 < m" and "m < 2 ^ 32"
  obtains h where "h < 32" and "smear m = mask (Suc h)" and "bit m h" and "m < 2 ^ Suc h"
proof -
  have top: "\<not> bit m i" if "32 \<le> i" for i
  proof -
    have "m < 2 ^ i" using assms(2) that power_increasing [of 32 i "2 :: int"] by simp
    then show ?thesis using assms(1) by (simp add: bit_iff_odd)
  qed
  have "m = 0" if "\<forall>h. \<not> bit m h" using that by (intro bit_eqI) simp
  then obtain k where k: "bit m k" using assms(1) by auto
  define h where "h = linorder_class.Max {i. bit m i}"
  have fin: "finite {i. bit m i}"
    by (rule finite_subset [of _ "{..<32}"]) (use top in \<open>auto simp: not_le [symmetric]\<close>)
  have h: "bit m h" "\<forall>i. bit m i \<longrightarrow> i \<le> h"
    using Max_in [OF fin] Max_ge [OF fin] k by (auto simp: h_def)
  have h32: "h < 32" using h(1) top by (meson not_le)
  have "bit (smear m) i \<longleftrightarrow> bit (mask (Suc h) :: int) i" for i
  proof -
    have "(\<exists>j < 32. bit m (i + j)) \<longleftrightarrow> i \<le> h"
      using h h32 by (auto intro!: exI [of _ "h - i"])
    then show ?thesis by (simp add: bit_smear bit_mask_iff less_Suc_eq_le)
  qed
  then have eq: "smear m = mask (Suc h)" by (rule bit_eqI)
  have "take_bit (Suc h) m = m"
    by (rule bit_eqI) (auto simp: bit_take_bit_iff less_Suc_eq_le h(2))
  then have "m < 2 ^ Suc h" by (metis take_bit_int_less_exp)
  with eq h32 h(1) that show ?thesis by blast
qed

lemma next_power_of_two_smear:
  "0 < n \<Longrightarrow> next_power_of_two n = i64 (smear (n - 1) + 1)"
  by (simp add: next_power_of_two_def smear_def Let_def)

lemma next_power_of_two_cases:
  assumes "n \<le> 2 ^ 32"
  shows "\<exists>k. k \<le> 32 \<and> next_power_of_two n = 2 ^ k \<and> n \<le> 2 ^ k \<and> (0 < n \<longrightarrow> 2 ^ k < 2 * n)"
proof (cases "n \<le> 1")
  case True
  then have "next_power_of_two n = 1"
    by (cases "n = 1") (simp_all add: next_power_of_two_def Let_def)
  with True show ?thesis by (intro exI [of _ 0]) auto
next
  case False
  obtain h where h: "h < 32" "smear (n - 1) = mask (Suc h)" "bit (n - 1) h" "n - 1 < 2 ^ Suc h"
    using smear_mask [of "n - 1"] False assms by auto
  have pw: "(2 :: int) ^ Suc h \<le> 2 ^ 32" using h(1) by (intro power_increasing) auto
  have "next_power_of_two n = i64 (2 ^ Suc h)"
    using False h(2) by (simp add: next_power_of_two_smear mask_eq_exp_minus_1)
  also have "\<dots> = 2 ^ Suc h"
  proof (rule i64_id)
    have "(0 :: int) \<le> 2 ^ Suc h" by simp
    then show "min_int64 \<le> 2 ^ Suc h" by (rule order_trans [rotated]) simp
  qed (use pw in simp)
  finally have eq: "next_power_of_two n = 2 ^ Suc h" .
  have "2 ^ h \<le> n - 1"
  proof (rule ccontr)
    assume "\<not> 2 ^ h \<le> n - 1"
    then have "(n - 1) div 2 ^ h = 0" using False by (simp add: div_pos_pos_trivial)
    with h(3) show False by (simp add: bit_iff_odd)
  qed
  with eq h show ?thesis by (intro exI [of _ "Suc h"]) auto
qed

text \<open>
  \<open>nextPowerOfTwo\<close> is the least power of two that is at least its argument, for every argument up
  to \<open>2 ^ 32\<close>: five shifts smear 32 bits, which the configured shard counts stay well within.
\<close>

lemma next_power_of_two_least:
  assumes "n \<le> 2 ^ 32"
  shows "\<exists>k. next_power_of_two n = 2 ^ k \<and> n \<le> 2 ^ k \<and> (\<forall>j. n \<le> 2 ^ j \<longrightarrow> (2 :: int) ^ k \<le> 2 ^ j)"
proof -
  obtain k where k: "k \<le> 32" "next_power_of_two n = 2 ^ k" "n \<le> 2 ^ k" "0 < n \<longrightarrow> 2 ^ k < 2 * n"
    using next_power_of_two_cases [OF assms] by auto
  have "(2 :: int) ^ k \<le> 2 ^ j" if "n \<le> 2 ^ j" for j
  proof (cases "0 < n")
    case True
    then have "(2 :: int) ^ k < 2 ^ Suc j" using k(4) that by simp
    then have "k < Suc j" by (rule power_less_imp_less_exp [rotated]) simp
    then show ?thesis by (intro power_increasing) auto
  next
    case False
    then have "next_power_of_two n = 1" by (simp add: next_power_of_two_def)
    with k(2) show ?thesis by simp
  qed
  with k show ?thesis by blast
qed

lemma next_power_of_two_least_witness: "\<exists>k. next_power_of_two 65 = 2 ^ k \<and> 65 \<le> (2 :: int) ^ k"
  using next_power_of_two_least [of 65] by auto

lemma shard_for_mod:
  assumes "shardMask e = of_int (2 ^ k - 1)" and "k < 64"
  shows "shard_for hash key e = unat (hash key) mod 2 ^ k"
proof -
  have "shardMask e = mask k" using assms(1) by (simp add: mask_eq_exp_minus_1)
  then have "hash key AND shardMask e = take_bit k (hash key)" by (simp add: take_bit_eq_mask)
  then have "shard_for hash key e = take_bit k (unat (hash key))"
    by (simp only: shard_for_def unsigned_take_bit_eq)
  then show ?thesis by (simp only: take_bit_eq_mod)
qed

lemma new_engine_sel:
  "memory (new_sharded_engine cfg) = new_memory_tracker (MaxMemory cfg)"
  "closed (new_sharded_engine cfg) = False" "scheduler (new_sharded_engine cfg) = None"
  "scans (new_sharded_engine cfg) =
     new_scan_registry (ScanIdleTimeout cfg) (MaxScanCursorsPerConn cfg) (MaxScanSnapshotBytes cfg)"
  "shardMask (new_sharded_engine cfg) =
     of_int (next_power_of_two (if ShardCount cfg \<le> 0 then 64 else ShardCount cfg) - 1)"
  "shards (new_sharded_engine cfg) =
     replicate (nat (next_power_of_two (if ShardCount cfg \<le> 0 then 64 else ShardCount cfg)))
       (set_lazy_expiration (\<not> DisableLazyExpiration cfg) new_shard)"
  by (simp_all add: new_sharded_engine_def Let_def)

lemma new_engine_inv:
  assumes "ShardCount cfg \<le> 2 ^ 32"
  shows "eng_inv books hash (new_sharded_engine cfg)"
proof -
  let ?e = "new_sharded_engine cfg" and ?n = "if ShardCount cfg \<le> 0 then 64 else ShardCount cfg"
  let ?s = "set_lazy_expiration (\<not> DisableLazyExpiration cfg) new_shard"
  have "?n \<le> 2 ^ 32" using assms by simp
  then obtain k where k: "k \<le> 32" "next_power_of_two ?n = 2 ^ k"
    using next_power_of_two_cases [of ?n] by blast
  have len: "length (shards ?e) = 2 ^ k" using k by (simp add: new_engine_sel nat_power_eq)
  have all: "s = ?s" if "s \<in> set (shards ?e)" for s
    using that by (simp add: new_engine_sel split: if_splits)
  have sf: "shard_for hash key ?e < 2 ^ k" for key
    using shard_for_mod [of ?e k hash key] k by (simp add: new_engine_sel)
  have inv: "shard_inv ?s" "data ?s = []" "shard_bytes ?s = 0"
    by (simp_all add: set_lazy_expiration_def) (simp add: new_shard_def)
  have "eng_bytes ?e = 0"
    using all inv(3) by (auto simp: eng_bytes_def sum_list_nonneg_eq_0_iff)
  moreover have "shards ?e ! i = ?s" if "i < 2 ^ k" for i
    using all nth_mem [of i "shards ?e"] that len by simp
  ultimately show ?thesis
    unfolding eng_inv_def len using sf inv by (simp add: keyset_def within_limit_def new_engine_sel(1))
qed

section \<open>Every reachable engine\<close>

text \<open>
  A step is one operation of the engine with any arguments and any answers of its collaborators. A
  write needs headroom below \<open>2 ^ 64\<close>; lowering \<open>max_memory\<close> below what is in use is left out, since
  it makes the limit false until writes and evictions catch up.
\<close>

inductive eng_step :: "(bytes \<Rightarrow> u64) \<Rightarrow> engine \<Rightarrow> engine \<Rightarrow> bool" for hash where
  e_get: "eng_step hash e (snd (engine_get hash t1 t2 t3 t4 k e))"
| e_set: "headroom (memory e) \<Longrightarrow> eng_step hash e (snd (engine_set hash t now k v ttl e))"
| e_setnx: "headroom (memory e) \<Longrightarrow> eng_step hash e (snd (engine_setnx hash t now k v ttl e))"
| e_delete: "eng_step hash e (snd (engine_delete hash k e))"
| e_ttl: "eng_step hash e (snd (engine_set_ttl hash t1 t2 k ttl e))"
| e_expire: "eng_step hash e (snd (engine_expire now i k e))"
| e_delexp: "eng_step hash e (snd (engine_delete_expired hash now k e))"
| e_scan: "eng_step hash e (snd (engine_scan rnd ord t1 t2 sn ln owner c cnt pat e))"
| e_release: "eng_step hash e (engine_release_scans cord owner e)"
| e_max: "m = 0 \<or> usedMemory (memory e) \<le> m \<Longrightarrow> eng_step hash e (engine_set_max_memory m e)"
| e_record: "eng_step hash e (engine_record_eviction e)"
| e_ctl: "eng_step hash e (set_eviction_controller ctl e)"
| e_sched: "eng_step hash e (set_expiry_scheduler b e)"
| e_close: "eng_step hash e (snd (engine_close cord e))"

inductive eng_reach :: "(bytes \<Rightarrow> u64) \<Rightarrow> engine_config \<Rightarrow> engine \<Rightarrow> bool" for hash cfg where
  er_new: "eng_reach hash cfg (new_sharded_engine cfg)"
| er_step: "eng_reach hash cfg e \<Longrightarrow> eng_step hash e e' \<Longrightarrow> eng_reach hash cfg e'"

lemma eng_inv_fields [simp]:
  "eng_inv books hash (e\<lparr>eviction := x\<rparr>) = eng_inv books hash e"
  "eng_inv books hash (e\<lparr>scheduler := y\<rparr>) = eng_inv books hash e"
  by (simp_all add: eng_inv_def eng_bytes_def shard_for_def)

lemma eng_inv_memory:
  "eng_inv True hash e \<Longrightarrow> usedMemory m = usedMemory (memory e) \<Longrightarrow> within_limit m \<Longrightarrow>
     eng_inv True hash (e\<lparr>memory := m\<rparr>)"
  by (simp add: eng_inv_def eng_bytes_def shard_for_def)

lemma eng_step_inv: "eng_step hash e e' \<Longrightarrow> eng_inv True hash e \<Longrightarrow> eng_inv True hash e'"
proof (induction rule: eng_step.induct)
  case (e_max m e)
  then show ?case
    unfolding engine_set_max_memory_def
    by (intro eng_inv_memory) (auto simp: set_max_memory_def within_limit_def)
next
  case (e_record e)
  then show ?case
    unfolding engine_record_eviction_def
    by (intro eng_inv_memory) (auto simp: eng_inv_def)
qed (simp_all add: engine_get_inv engine_set_inv engine_setnx_inv engine_delete_inv engine_set_ttl_inv
    engine_expire_inv engine_delete_expired_inv engine_scan_inv engine_release_scans_def
    set_eviction_controller_def set_expiry_scheduler_def engine_close_inv)

lemma eng_reach_inv: "eng_reach hash cfg e \<Longrightarrow> ShardCount cfg \<le> 2 ^ 32 \<Longrightarrow> eng_inv True hash e"
proof (induction rule: eng_reach.induct)
  case er_new
  then show ?case by (rule new_engine_inv)
next
  case (er_step e e')
  then show ?case using eng_step_inv by blast
qed

lemma eng_bytes_sum: "eng_bytes e = (\<Sum>s\<leftarrow>shards e. \<Sum>(k, x)\<leftarrow>data s. unat (Size x))"
proof -
  have "shard_bytes = (\<lambda>s. \<Sum>(k, x)\<leftarrow>data s. unat (Size x))"
    by (rule ext) (simp add: shard_bytes_def vsum_sizen)
  then show ?thesis by (simp add: eng_bytes_def)
qed


end
