(* ===== verification/Eviction.thy ===== *)
theory Eviction
  imports Shard_Inv Go_Lib
begin

text \<open>
  \<open>internal/eviction/eviction.go\<close>: victim selection. A policy is a named score, \<open>None\<close> for the
  policy that evicts nothing; selection samples a shard, ranks the sample by score and takes the
  cheapest prefix that frees enough. \<open>sort.Slice\<close> is not stable: the order it leaves ties in is
  the argument \<open>tie\<close>, a permutation of the list.
\<close>

section \<open>Policies\<close>

datatype evict_error = ErrUnknownPolicy bytes

record policy =
  pol_name :: bytes
  pol_score :: "(entry \<Rightarrow> int \<Rightarrow> int) option"

record controller =
  sampleSize :: int
  halfLife :: int
  active_policy :: policy

record evict_config =
  cfg_Policy :: bytes
  cfg_SampleSize :: int
  cfg_LFUHalfLife :: int

definition DefaultSampleSize :: int where "DefaultSampleSize = 5"
definition MaxSampleSize :: int where "MaxSampleSize = 100"
definition DefaultLFUHalfLife :: int where "DefaultLFUHalfLife = 60 * 10 ^ 9"
definition maxHalvings :: int where "maxHalvings = 62"

definition score_lru :: "entry \<Rightarrow> int \<Rightarrow> int" where
  "score_lru e now = LastAccess e"

definition score_fifo :: "entry \<Rightarrow> int \<Rightarrow> int" where
  "score_fifo e now = CreatedAt e"

definition score_lfu :: "int \<Rightarrow> entry \<Rightarrow> int \<Rightarrow> int" where
  "score_lfu half e now =
     (let cnt = int (unat (AccessCnt e));
          idle = i64 (now - LastAccess e)
      in if idle \<le> 0 then cnt
         else let halvings = idle div half
              in if halvings > maxHalvings then 0 else cnt div 2 ^ nat halvings)"

definition policy_for :: "(bytes \<Rightarrow> bytes) \<Rightarrow> int \<Rightarrow> bytes \<Rightarrow> evict_error + policy" where
  "policy_for unicode half name =
     (let n = to_lower unicode (trim_space name)
      in if n = '''' \<or> n = ''lru'' then Inr \<lparr>pol_name = ''lru'', pol_score = Some score_lru\<rparr>
         else if n = ''lfu'' then Inr \<lparr>pol_name = ''lfu'', pol_score = Some (score_lfu half)\<rparr>
         else if n = ''fifo'' then Inr \<lparr>pol_name = ''fifo'', pol_score = Some score_fifo\<rparr>
         else if n = ''none'' then Inr \<lparr>pol_name = ''none'', pol_score = None\<rparr>
         else Inl (ErrUnknownPolicy name))"

definition set_policy ::
    "(bytes \<Rightarrow> bytes) \<Rightarrow> bytes \<Rightarrow> controller \<Rightarrow> evict_error option \<times> controller" where
  "set_policy unicode name c =
     (case policy_for unicode (halfLife c) name of
        Inl err \<Rightarrow> (Some err, c)
      | Inr p \<Rightarrow> (None, c\<lparr>active_policy := p\<rparr>))"

text \<open>A fresh Go struct holds no policy; the one it starts with here is overwritten or dropped.\<close>

definition new_controller :: "(bytes \<Rightarrow> bytes) \<Rightarrow> evict_config \<Rightarrow> evict_error + controller" where
  "new_controller unicode cfg =
     (let ss = (if cfg_SampleSize cfg \<le> 0 then DefaultSampleSize
                else if cfg_SampleSize cfg > MaxSampleSize then MaxSampleSize
                else cfg_SampleSize cfg);
          hl = (if cfg_LFUHalfLife cfg \<le> 0 then DefaultLFUHalfLife else cfg_LFUHalfLife cfg);
          c = \<lparr>sampleSize = ss, halfLife = hl, active_policy = \<lparr>pol_name = '''', pol_score = None\<rparr>\<rparr>
      in case set_policy unicode (cfg_Policy cfg) c of
           (Some err, _) \<Rightarrow> Inl err
         | (None, c') \<Rightarrow> Inr c')"

definition controller_policy :: "controller \<Rightarrow> bytes" where
  "controller_policy c = pol_name (active_policy c)"

section \<open>Selection\<close>

record candidate =
  cand_key :: bytes
  cand_size :: u64
  cand_score :: int

type_synonym tie_order = "candidate list \<Rightarrow> candidate list"

definition tie_perm :: "tie_order \<Rightarrow> bool" where
  "tie_perm tie \<longleftrightarrow> (\<forall>xs. mset (tie xs) = mset xs)"

definition rank :: "tie_order \<Rightarrow> candidate list \<Rightarrow> candidate list" where
  "rank tie cands = sort_key cand_score (tie cands)"

definition candidate_of :: "(entry \<Rightarrow> int \<Rightarrow> int) \<Rightarrow> int \<Rightarrow> entry \<Rightarrow> candidate" where
  "candidate_of score now e =
     \<lparr>cand_key = Key e, cand_size = ucast (Size e), cand_score = score e now\<rparr>"

fun take_victims :: "u64 \<Rightarrow> u64 \<Rightarrow> candidate list \<Rightarrow> bytes list" where
  "take_victims needed freed [] = []"
| "take_victims needed freed (c # cs) =
     (let freed' = freed + cand_size c
      in cand_key c # (if freed' \<ge> needed then [] else take_victims needed freed' cs))"

definition select_victims ::
    "range_ord \<Rightarrow> (bytes \<Rightarrow> int) \<Rightarrow> tie_order \<Rightarrow> int \<Rightarrow> controller \<Rightarrow>
     shard option \<Rightarrow> u64 \<Rightarrow> bytes list" where
  "select_victims ord now_k tie now c sh needed =
     (case (sh, pol_score (active_policy c)) of
        (Some s, Some score) \<Rightarrow>
          if needed = 0 then []
          else (let samples = shard_sample ord now_k (sampleSize c) s
                in if samples = [] then []
                   else take_victims needed 0 (rank tie (map (candidate_of score now) samples)))
      | _ \<Rightarrow> [])"

section \<open>The scores\<close>

text \<open>The least-frequently-used score never exceeds the counter and only falls while the entry idles.\<close>

lemma half_antimono:
  assumes "m \<le> n"
  shows "(a :: int) \<ge> 0 \<Longrightarrow> a div 2 ^ n \<le> a div 2 ^ m"
  using assms by (simp add: zdiv_mono2)

lemma score_lfu_bounds:
  assumes "0 < half"
  shows "0 \<le> score_lfu half e now \<and> score_lfu half e now \<le> int (unat (AccessCnt e))"
proof -
  have "a div 2 ^ n \<le> a" "0 \<le> a div 2 ^ n" if "0 \<le> a" for a :: int and n
    using half_antimono [of 0 n a] that by (simp_all add: pos_imp_zdiv_nonneg_iff)
  then show ?thesis by (simp add: score_lfu_def Let_def)
qed

lemma score_lfu_antimono:
  assumes "0 < half" and "0 \<le> LastAccess e" "LastAccess e \<le> max_int64"
    and "0 \<le> now" "now \<le> now'" "now' \<le> max_int64"
  shows "score_lfu half e now' \<le> score_lfu half e now"
proof -
  have r: "i64 (t - LastAccess e) = t - LastAccess e" if "0 \<le> t" "t \<le> now'" for t
    using that assms by (intro i64_id) auto
  show ?thesis
  proof (cases "LastAccess e < now'")
    case True
    have q: "(now - LastAccess e) div half \<le> (now' - LastAccess e) div half"
      using assms by (simp add: zdiv_mono1)
    then have "nat ((now - LastAccess e) div half) \<le> nat ((now' - LastAccess e) div half)"
      by (rule nat_mono)
    from half_antimono [OF this, of "int (unat (AccessCnt e))"] q
    show ?thesis
      using r assms score_lfu_bounds [OF assms(1), of e now'] score_lfu_bounds [OF assms(1), of e now]
      by (auto simp: score_lfu_def Let_def split: if_splits)
  next
    case False
    with r assms show ?thesis by (simp add: score_lfu_def Let_def)
  qed
qed

section \<open>What is selected\<close>

lemma sample_loop_prefix:
  "\<exists>n. sample_loop now cnt acc kvs =
     acc @ take n (map snd (filter (\<lambda>(k, e). \<not> is_expired (now k) e) kvs))"
proof (induction now cnt acc kvs rule: sample_loop.induct)
  case (1 now cnt acc)
  then show ?case by simp
next
  case (2 now cnt acc k e kvs)
  show ?case
  proof (cases "is_expired (now k) e")
    case True
    with 2(1) show ?thesis by simp
  next
    case False
    show ?thesis
    proof (cases "int (length (acc @ [e])) \<ge> cnt")
      case True
      with False show ?thesis by (intro exI [of _ 1]) simp
    next
      case g: False
      then obtain n where "sample_loop now cnt (acc @ [e]) kvs =
          (acc @ [e]) @ take n (map snd (filter (\<lambda>(k, e). \<not> is_expired (now k) e) kvs))"
        using 2(2) [OF False refl] by auto
      with False g show ?thesis by (intro exI [of _ "Suc n"]) (simp add: Let_def)
    qed
  qed
qed

lemma sample_loop_length:
  "0 < cnt \<Longrightarrow> int (length acc) < cnt \<Longrightarrow> int (length (sample_loop now cnt acc kvs)) \<le> cnt"
  by (induction now cnt acc kvs rule: sample_loop.induct) (auto simp: Let_def)

lemma sample_loop_Nil:
  "sample_loop now cnt [] kvs = [] \<longleftrightarrow> (\<forall>(k, e) \<in> set kvs. is_expired (now k) e)"
proof (induction kvs)
  case (Cons a kvs)
  obtain k e where a: "a = (k, e)" by (cases a)
  obtain n where "sample_loop now cnt [e] kvs =
      [e] @ take n (map snd (filter (\<lambda>(k, e). \<not> is_expired (now k) e) kvs))"
    using sample_loop_prefix [of now cnt "[e]" kvs] by auto
  with Cons a show ?case by (auto simp: Let_def)
qed simp

text \<open>The victims are the keys of a prefix of the ranking.\<close>

lemma take_victims_prefix:
  "\<exists>n \<le> length cs. take_victims needed freed cs = map cand_key (take n cs)
     \<and> (cs \<noteq> [] \<longrightarrow> 0 < n)
     \<and> (n < length cs \<longrightarrow> needed \<le> freed + sum_list (map cand_size (take n cs)))
     \<and> (\<forall>m. 0 < m \<and> m < n \<longrightarrow> \<not> needed \<le> freed + sum_list (map cand_size (take m cs)))"
proof (induction needed freed cs rule: take_victims.induct)
  case (1 needed freed)
  then show ?case by simp
next
  case (2 needed freed c cs)
  show ?case
  proof (cases "freed + cand_size c \<ge> needed")
    case True
    then show ?thesis by (intro exI [of _ 1]) (auto simp: Let_def)
  next
    case False
    from 2 [OF refl False] obtain n where n: "n \<le> length cs"
      "take_victims needed (freed + cand_size c) cs = map cand_key (take n cs)"
      "n < length cs \<longrightarrow> needed \<le> freed + cand_size c + sum_list (map cand_size (take n cs))"
      "\<forall>m. 0 < m \<and> m < n \<longrightarrow> \<not> needed \<le> freed + cand_size c + sum_list (map cand_size (take m cs))"
      by auto
    have "\<not> needed \<le> freed + sum_list (map cand_size (take m (c # cs)))" if "0 < m" "m < Suc n" for m
      using that n(4) False by (cases m; cases "m = 1") (auto simp: add.assoc)
    with n False show ?thesis
      by (intro exI [of _ "Suc n"]) (auto simp: Let_def add.assoc)
  qed
qed

text \<open>The bounds \<open>New\<close> establishes, which a policy switch keeps.\<close>

definition controller_ok :: "controller \<Rightarrow> bool" where
  "controller_ok c \<longleftrightarrow> 0 < sampleSize c \<and> sampleSize c \<le> MaxSampleSize \<and> 0 < halfLife c"

lemma new_controller_ok: "new_controller unicode cfg = Inr c \<Longrightarrow> controller_ok c"
  by (auto simp: new_controller_def set_policy_def controller_ok_def DefaultSampleSize_def
      MaxSampleSize_def DefaultLFUHalfLife_def Let_def split: sum.splits prod.splits option.splits
      if_splits)

lemma set_policy_ok: "controller_ok c \<Longrightarrow> controller_ok (snd (set_policy unicode name c))"
  by (simp add: set_policy_def controller_ok_def split: sum.split)

lemma candidate_of_sel [simp]:
  "cand_key (candidate_of score now e) = Key e"
  "cand_size (candidate_of score now e) = ucast (Size e)"
  "cand_score (candidate_of score now e) = score e now"
  by (simp_all add: candidate_of_def)

lemma sample_members:
  assumes "shard_inv s" and "range_order ord" and "e \<in> set (shard_sample ord now_k cnt s)"
  shows "shard_lookup s (Key e) = Some e \<and> \<not> is_expired (now_k (Key e)) e"
proof -
  obtain n where "shard_sample ord now_k cnt s =
      take n (map snd (filter (\<lambda>(k, e). \<not> is_expired (now_k k) e) (ord (data s))))"
    using sample_loop_prefix [of now_k cnt "[]" "ord (data s)"] by (auto simp: shard_sample_def)
  moreover have "set (ord (data s)) = set (data s)"
    using assms(2) by (metis range_order_def set_mset_mset)
  ultimately obtain k where k: "(k, e) \<in> set (data s)" "\<not> is_expired (now_k k) e"
    using assms(3) by (auto dest!: in_set_takeD)
  moreover from k(1) assms(1) have "shard_lookup s k = Some e"
    by (simp add: shard_inv_def keys_distinct_def)
  ultimately show ?thesis using shard_inv_key [OF assms(1)] by auto
qed

lemma sample_distinct:
  assumes "shard_inv s" and "range_order ord"
  shows "distinct (map Key (shard_sample ord now_k cnt s))"
proof -
  let ?xs = "filter (\<lambda>(k, e). \<not> is_expired (now_k k) e) (ord (data s))"
  obtain n where n: "shard_sample ord now_k cnt s = take n (map snd ?xs)"
    using sample_loop_prefix [of now_k cnt "[]" "ord (data s)"] by (auto simp: shard_sample_def)
  have m: "mset (ord (data s)) = mset (data s)" using assms(2) by (simp add: range_order_def)
  have "distinct (map fst (ord (data s)))"
    using shard_invD(1) [OF assms(1)] m
    by (metis keys_distinct_def mset_eq_imp_distinct_iff mset_map)
  then have "distinct (map fst ?xs)" by (rule distinct_map_filter)
  moreover have "map Key (map snd ?xs) = map fst ?xs"
    using assms(1) mset_eq_setD [OF m] by (auto simp: shard_inv_def keyed_def)
  ultimately show ?thesis
    unfolding n by (metis distinct_take take_map)
qed

lemma sample_Nil:
  assumes "range_order ord"
  shows "shard_sample ord now_k cnt s = [] \<longleftrightarrow> (\<forall>(k, e) \<in> set (data s). is_expired (now_k k) e)"
proof -
  have "mset (ord (data s)) = mset (data s)" using assms by (simp add: range_order_def)
  then have "set (ord (data s)) = set (data s)" by (rule mset_eq_setD)
  then show ?thesis by (simp add: shard_sample_def sample_loop_Nil)
qed

lemma rank_props:
  assumes "tie_perm tie"
  shows "mset (rank tie cs) = mset cs" and "sorted (map cand_score (rank tie cs))"
  using assms by (simp_all add: rank_def tie_perm_def)

lemma sum_list_bound:
  "(\<And>x. f x \<le> b) \<Longrightarrow> (\<Sum>x\<leftarrow>xs. f x) \<le> length xs * (b :: nat)"
  by (induction xs) (auto intro: add_mono)

lemma unat_sum_list_le: "unat (sum_list (map f xs) :: u64) \<le> sum_list (map (\<lambda>x. unat (f x)) xs)"
proof (induction xs)
  case (Cons a xs)
  have "unat (f a + sum_list (map f xs)) \<le> unat (f a) + unat (sum_list (map f xs))"
    by (simp add: unat_plus_if')
  with Cons show ?case by simp
qed simp

lemma unat_sum_list:
  "sum_list (map (\<lambda>x. unat (f x)) xs) < 2 ^ 64 \<Longrightarrow>
     unat (sum_list (map f xs) :: u64) = sum_list (map (\<lambda>x. unat (f x)) xs)"
  by (induction xs) (auto simp: unat_plus_u64)

lemma select_victims_ranked:
  assumes "pol_score (active_policy c) = Some score" and "needed \<noteq> 0"
    and "shard_sample ord now_k (sampleSize c) s \<noteq> []"
  shows "select_victims ord now_k tie now c (Some s) needed =
     take_victims needed 0
       (rank tie (map (candidate_of score now) (shard_sample ord now_k (sampleSize c) s)))"
  using assms by (simp add: select_victims_def)

text \<open>A prefix of a ranked sample: distinct keys, best first, enough and no more than enough.\<close>

lemma take_ranked:
  assumes R: "mset R = mset (map (candidate_of score now) S)" and d: "distinct (map Key S)"
    and srt: "sorted (map cand_score R)" and len: "length S \<le> 100" and n: "n \<le> length R"
    and enough: "n < length R \<longrightarrow> needed \<le> sum_list (map cand_size (take n R))"
    and least: "\<forall>m. 0 < m \<and> m < n \<longrightarrow> \<not> needed \<le> sum_list (map cand_size (take m R))"
    and ne: "needed \<noteq> 0"
    and es: "map (candidate_of score now) es = take n R" "set es \<subseteq> set S"
  shows "distinct (map Key es)"
    and "\<forall>v \<in> set es. \<forall>e \<in> set S. Key e \<notin> Key ` set es \<longrightarrow> score v now \<le> score e now"
    and "Key ` set es = Key ` set S \<or> unat needed \<le> (\<Sum>e\<leftarrow>es. unat (Size e))"
    and "(\<Sum>e\<leftarrow>butlast es. unat (Size e)) < unat needed"
proof -
  have "mset (map cand_key R) = mset (map Key S)"
    using R by (metis (no_types, lifting) candidate_of_sel(1) comp_apply map_eq_conv map_map mset_map)
  then have dR: "distinct (map cand_key R)" using d mset_eq_imp_distinct_iff by blast
  have keys: "map Key es = map cand_key (take n R)" by (simp add: es(1) [symmetric] comp_def)
  show "distinct (map Key es)" using distinct_take [OF dR, of n] by (simp only: keys take_map)
  have setR: "set R = candidate_of score now ` set S" using mset_eq_setD [OF R] by simp
  show "\<forall>v \<in> set es. \<forall>e \<in> set S. Key e \<notin> Key ` set es \<longrightarrow> score v now \<le> score e now"
  proof (intro ballI impI)
    fix v e assume v: "v \<in> set es" and e: "e \<in> set S" "Key e \<notin> Key ` set es"
    have "candidate_of score now v \<in> set (take n R)"
      using v es(1) by (metis imageI set_map)
    moreover have "candidate_of score now e \<in> set (drop n R)"
    proof -
      have "candidate_of score now e \<notin> set (take n R)"
        using e(2) keys by (metis candidate_of_sel(1) image_eqI list.set_map)
      then show ?thesis
        using e(1) setR by (metis UnE append_take_drop_id imageI set_append)
    qed
    moreover have "sorted (map cand_score (take n R) @ map cand_score (drop n R))"
      using srt by (simp add: map_append [symmetric] del: map_append)
    ultimately show "score v now \<le> score e now"
      by (fastforce simp: sorted_append)
  qed
  have sizes: "map (\<lambda>x. unat (cand_size x)) (take k (take n R)) = map (\<lambda>e. unat (Size e)) (take k es)" for k
    by (simp add: es(1) [symmetric] take_map comp_def)
  show "Key ` set es = Key ` set S \<or> unat needed \<le> (\<Sum>e\<leftarrow>es. unat (Size e))"
  proof (cases "n < length R")
    case True
    then have "unat needed \<le> unat (sum_list (map cand_size (take n R)))"
      using enough by (simp add: word_le_nat_alt)
    also have "\<dots> \<le> (\<Sum>e\<leftarrow>es. unat (Size e))"
      using unat_sum_list_le [of cand_size "take n R"] sizes [of n] es(1)
      by (metis length_map take_all_iff order_refl length_take min.cobounded2)
    finally show ?thesis by simp
  next
    case False
    with n have "map cand_key R = map Key es" by (simp add: keys)
    then have "Key ` set es = cand_key ` set R" by (metis list.set_map)
    then show ?thesis by (simp add: setR image_image)
  qed
  have lenR: "length R = length S" using R by (metis length_map mset_eq_length)
  have les: "length es = n" using es(1) n by (metis length_map length_take min.absorb2)
  show "(\<Sum>e\<leftarrow>butlast es. unat (Size e)) < unat needed"
  proof (cases "n \<le> 1")
    case True
    then have "butlast es = []" using les by (cases es) auto
    with ne show ?thesis by (simp add: unat_gt_0)
  next
    case False
    have bl: "butlast es = take (n - 1) es" using les by (simp add: butlast_conv_take)
    have "(\<Sum>e\<leftarrow>take (n - 1) es. unat (Size e)) \<le> length (take (n - 1) es) * 2 ^ 32"
      by (rule sum_list_bound) (metis less_imp_le unat_u32_less)
    also have "\<dots> \<le> 100 * 2 ^ 32" using len lenR n les by simp
    finally have small: "(\<Sum>e\<leftarrow>take (n - 1) es. unat (Size e)) < 2 ^ 64" by simp
    have tk: "take (n - 1) (take n R) = take (n - 1) R" using False by simp
    have "unat (sum_list (map cand_size (take (n - 1) R))) = (\<Sum>e\<leftarrow>take (n - 1) es. unat (Size e))"
      using unat_sum_list [of cand_size "take (n - 1) R"] small sizes [of "n - 1"] unfolding tk by simp
    moreover have "\<not> needed \<le> sum_list (map cand_size (take (n - 1) R))"
      using least False by simp
    ultimately show ?thesis by (simp add: bl word_le_nat_alt)
  qed
qed

lemma select_victims_all:
  fixes ord now_k tie now c s needed
  defines "vs \<equiv> select_victims ord now_k tie now c (Some s) needed"
    and "S \<equiv> shard_sample ord now_k (sampleSize c) s"
  assumes "shard_inv s" and "range_order ord" and "tie_perm tie" and "controller_ok c"
  shows "distinct vs \<and> int (length vs) \<le> sampleSize c
    \<and> (\<forall>k \<in> set vs. \<exists>e. shard_lookup s k = Some e \<and> \<not> is_expired (now_k k) e)
    \<and> (vs = [] \<longleftrightarrow> pol_score (active_policy c) = None \<or> needed = 0
         \<or> (\<forall>(k, e) \<in> set (data s). is_expired (now_k k) e))
    \<and> (vs \<noteq> [] \<longrightarrow>
         (\<forall>v \<in> set S. \<forall>e \<in> set S. Key v \<in> set vs \<and> Key e \<notin> set vs \<longrightarrow>
            the (pol_score (active_policy c)) v now \<le> the (pol_score (active_policy c)) e now)
         \<and> (set vs = Key ` set S \<or> unat needed \<le> (\<Sum>k\<leftarrow>vs. unat (resident_size k s)))
         \<and> (\<Sum>k\<leftarrow>butlast vs. unat (resident_size k s)) < unat needed)"
proof (cases "\<exists>score. pol_score (active_policy c) = Some score \<and> needed \<noteq> 0 \<and> S \<noteq> []")
  case False
  then have e: "vs = []"
    by (auto simp: vs_def S_def select_victims_def split: option.split)
  have "S = [] \<longleftrightarrow> (\<forall>(k, e) \<in> set (data s). is_expired (now_k k) e)"
    using sample_Nil [OF assms(4)] by (simp add: S_def)
  with False e assms(6) show ?thesis by (auto simp: controller_ok_def)
next
  case True
  then obtain score where score: "pol_score (active_policy c) = Some score"
    and ne: "needed \<noteq> 0" and S: "S \<noteq> []" by auto
  define R where "R = rank tie (map (candidate_of score now) S)"
  have R: "mset R = mset (map (candidate_of score now) S)" "sorted (map cand_score R)"
    using rank_props [OF assms(5)] by (simp_all add: R_def)
  have lenR: "length R = length S" using R(1) by (metis length_map mset_eq_length)
  have lenS: "int (length S) \<le> sampleSize c"
    using sample_loop_length [of "sampleSize c" "[]"] assms(6)
    by (simp add: S_def shard_sample_def controller_ok_def)
  obtain n where n: "n \<le> length R" "vs = map cand_key (take n R)" "0 < n"
    "n < length R \<longrightarrow> needed \<le> sum_list (map cand_size (take n R))"
    "\<forall>m. 0 < m \<and> m < n \<longrightarrow> \<not> needed \<le> sum_list (map cand_size (take m R))"
    using take_victims_prefix [of R needed 0] S lenR
      select_victims_ranked [OF score ne, of ord now_k s tie now]
    by (auto simp: vs_def R_def S_def)
  have "take n R \<in> lists (candidate_of score now ` set S)"
    using mset_eq_setD [OF R(1)] by (auto dest: in_set_takeD)
  then obtain es where es0: "take n R = map (candidate_of score now) es" "es \<in> lists (set S)"
    unfolding lists_image by (rule imageE)
  have es: "map (candidate_of score now) es = take n R" "set es \<subseteq> set S"
    using es0 by (simp, simp add: lists_eq_set)
  have vs: "vs = map Key es" by (simp add: n(2) es(1) [symmetric] comp_def)
  have dS: "distinct (map Key S)"
    unfolding S_def by (rule sample_distinct [OF assms(3,4)])
  have "length S \<le> 100" using lenS assms(6) by (simp add: controller_ok_def MaxSampleSize_def)
  note facts = take_ranked [OF R(1) dS R(2) this n(1,4,5) ne es]
  have mem: "shard_lookup s (Key e) = Some e \<and> \<not> is_expired (now_k (Key e)) e" if "e \<in> set S" for e
    using sample_members [OF assms(3,4)] that by (auto simp: S_def)
  then have live: "\<exists>e. shard_lookup s k = Some e \<and> \<not> is_expired (now_k k) e" if "k \<in> set vs" for k
    using that es(2) by (auto simp: vs)
  have sz: "(\<Sum>k\<leftarrow>map Key xs. unat (resident_size k s)) = (\<Sum>e\<leftarrow>xs. unat (Size e))" if "set xs \<subseteq> set S" for xs
    using that mem by (induction xs) (auto simp: resident_size_def)
  have inj: "v \<in> set es" if "v \<in> set S" "Key v \<in> set vs" for v
    using that es(2) dS by (auto simp: vs distinct_map dest!: inj_onD)
  have vne: "vs \<noteq> []" using n(1,3) vs es(1) lenR S by auto
  have "(\<forall>(k, e) \<in> set (data s). is_expired (now_k k) e) \<longleftrightarrow> S = []"
    using sample_Nil [OF assms(4)] by (simp add: S_def)
  then have empty: "vs = [] \<longleftrightarrow> pol_score (active_policy c) = None \<or> needed = 0
      \<or> (\<forall>(k, e) \<in> set (data s). is_expired (now_k k) e)"
    using vne S score ne by simp
  have len: "int (length vs) \<le> sampleSize c"
    using n(1) lenR lenS es(1) by (simp add: n(2))
  have "set (butlast es) \<subseteq> set S" using es(2) by (auto dest: in_set_butlastD)
  from sz [OF this] have all_but: "(\<Sum>k\<leftarrow>butlast vs. unat (resident_size k s)) < unat needed"
    using facts(4) by (simp add: vs map_butlast)
  have enough: "set vs = Key ` set S \<or> unat needed \<le> (\<Sum>k\<leftarrow>vs. unat (resident_size k s))"
    using facts(3) sz [OF es(2)] by (simp add: vs)
  have best: "\<forall>v \<in> set S. \<forall>e \<in> set S. Key v \<in> set vs \<and> Key e \<notin> set vs \<longrightarrow>
      the (pol_score (active_policy c)) v now \<le> the (pol_score (active_policy c)) e now"
    using facts(2) inj score by (simp add: vs)
  show ?thesis
    using facts(1) len live empty best enough all_but by (simp only: vs) blast
qed

lemmas select_victims_facts = select_victims_all [THEN conjunct1]
  select_victims_all [THEN conjunct2, THEN conjunct1]
  select_victims_all [THEN conjunct2, THEN conjunct2, THEN conjunct1]
  select_victims_all [THEN conjunct2, THEN conjunct2, THEN conjunct2, THEN conjunct1]

text \<open>
  C23. The victims of one selection are distinct keys of live entries of the shard, at most a sample's
  worth. They are the lowest scored of the sample, they free what was needed or are the whole sample,
  and all but the last of them would not have been enough. There is none exactly when the policy is
  \<open>none\<close>, nothing was needed, or nothing in the shard was live.
\<close>

theorem select_victims_correct:
  fixes ord now_k tie now c s needed
  defines "vs \<equiv> select_victims ord now_k tie now c (Some s) needed"
    and "S \<equiv> shard_sample ord now_k (sampleSize c) s"
  assumes "shard_inv s" and "range_order ord" and "tie_perm tie" and "controller_ok c"
  shows "distinct vs \<and> int (length vs) \<le> sampleSize c
    \<and> (\<forall>k \<in> set vs. \<exists>e. shard_lookup s k = Some e \<and> \<not> is_expired (now_k k) e)
    \<and> (vs = [] \<longleftrightarrow> pol_score (active_policy c) = None \<or> needed = 0
         \<or> (\<forall>(k, e) \<in> set (data s). is_expired (now_k k) e))
    \<and> (vs \<noteq> [] \<longrightarrow>
         (\<forall>v \<in> set S. \<forall>e \<in> set S. Key v \<in> set vs \<and> Key e \<notin> set vs \<longrightarrow>
            the (pol_score (active_policy c)) v now \<le> the (pol_score (active_policy c)) e now)
         \<and> (set vs = Key ` set S \<or> unat needed \<le> (\<Sum>k\<leftarrow>vs. unat (resident_size k s)))
         \<and> (\<Sum>k\<leftarrow>butlast vs. unat (resident_size k s)) < unat needed)"
  using select_victims_all [OF assms(3-6)] unfolding vs_def S_def .

text \<open>Two entries of 82 bytes; the least recently read one makes room for 50.\<close>

definition old_new_shard :: shard where
  "old_new_shard = snd (snd (shard_put 20 ''b'' (new_entry 20 ''b'' ''v'' 0) False
     (snd (shard_put 10 ''a'' (new_entry 10 ''a'' ''v'' 0) False (new_memory_tracker 0, new_shard)))))"

lemma old_new_shard_inv: "shard_inv old_new_shard"
  unfolding old_new_shard_def
  by (metis new_entry_sel(1) prod.collapse shard_inv_new shard_put_inv snd_conv)

lemma old_new_shard_data:
  "data old_new_shard = [(''a'', new_entry 10 ''a'' ''v'' 0), (''b'', new_entry 20 ''b'' ''v'' 0)]"
  by (simp add: old_new_shard_def shard_put_unfold put_blocked_def reserve_def new_memory_tracker_def
      new_shard_def Let_def)

definition lru_controller :: controller where
  "lru_controller = \<lparr>sampleSize = 5, halfLife = 60,
     active_policy = \<lparr>pol_name = ''lru'', pol_score = Some score_lru\<rparr>\<rparr>"

lemma select_old:
  "select_victims id (\<lambda>_. 30) id 30 lru_controller (Some old_new_shard) 50 = [''a'']"
  by (simp add: select_victims_def lru_controller_def shard_sample_def old_new_shard_data is_expired_def
      new_entry_def rank_def candidate_of_def score_lru_def calculate_size_def EntryOverhead_def
      max_uint32_def Let_def)

theorem select_victims_correct_witness:
  "\<exists>e. shard_lookup old_new_shard ''a'' = Some e \<and> \<not> is_expired 30 e"
proof -
  have "controller_ok lru_controller"
    by (simp add: controller_ok_def lru_controller_def MaxSampleSize_def)
  from select_victims_correct [of old_new_shard id id lru_controller "\<lambda>_. 30" 30 50,
      OF old_new_shard_inv _ _ this]
  show ?thesis by (auto simp: range_order_def tie_perm_def select_old)
qed

end
