(* ===== verification/Engine_Spec.thy ===== *)
theory Engine_Spec
  imports Engine_Inv Eviction
begin

text \<open>
  What the engine looks like to its caller. \<open>engine_view\<close> is the union of the shards' live views;
  the engine provides the same contract as one shard (\<open>expiring_map\<close>), over any number of shards,
  with any eviction policy. The second half is admission: when a write finds or makes room.
\<close>

definition engine_view :: "(bytes \<Rightarrow> u64) \<Rightarrow> int \<Rightarrow> engine \<Rightarrow> view" where
  "engine_view hash t e k =
     (if closed e then None else live_view t (shards e ! shard_for hash k e) k)"

lemma engine_view_hints: "up_to_hints e e' \<Longrightarrow> engine_view hash t e = engine_view hash t e'"
  by (simp add: engine_view_def fun_eq_iff up_to_hints_sel [of e e'])

text \<open>One shard replaced: keys elsewhere see no difference.\<close>

lemma engine_view_put_back:
  assumes "eng_inv books hash e" and "i < length (shards e)"
  shows "engine_view hash t (put_back i ms e) k =
    (if closed e then None
     else if shard_for hash k e = i then live_view t (snd ms) k else engine_view hash t e k)"
  using assms by (auto simp: engine_view_def)

lemma engine_view_same:
  assumes "eng_inv books hash e" and "i < length (shards e)"
    and "live_view t (snd ms) = live_view t (shards e ! i)"
  shows "engine_view hash t (put_back i ms e) = engine_view hash t e"
  using assms by (auto simp: fun_eq_iff engine_view_put_back) (simp_all add: engine_view_def)

section \<open>A store, with whatever it evicts\<close>

definition thinned :: "int \<Rightarrow> shard \<Rightarrow> shard \<Rightarrow> bool" where
  "thinned t s s' \<longleftrightarrow> (\<forall>k. live_view t s' k = live_view t s k \<or> live_view t s' k = None)"

lemma thinned_refl [simp]: "thinned t s s"
  by (simp add: thinned_def)

lemma thinned_trans: "thinned t s s' \<Longrightarrow> thinned t s' s'' \<Longrightarrow> thinned t s s''"
  unfolding thinned_def by metis

lemma thinned_evict: "thinned t (snd ms) (snd (snd (shard_evict v ms)))"
proof -
  have "live_view t (snd (snd (shard_evict v (fst ms, snd ms)))) = (live_view t (snd ms))(v := None)"
    by (intro live_view_delete) (simp only: shard_evict_sel)
  then show ?thesis by (simp add: thinned_def)
qed

lemma thinned_victims: "thinned t (snd ms) (snd (snd (evict_victims n vs ms)))"
proof (induction vs arbitrary: n ms)
  case (Cons v vs)
  show ?case
    using thinned_evict [of t ms v] thinned_trans [OF thinned_evict Cons.IH [of "snd (shard_evict v ms)"]]
    by (simp add: Let_def)
qed simp

lemma thinned_admit_loop: "thinned t (snd ms) (snd (snd (admit_loop select key sz mx n ms)))"
proof (induction select key sz mx n ms rule: admit_loop.induct)
  case (1 select key sz mx n ms)
  let ?vs = "select n (snd ms) (usedMemory (fst ms) + sz - resident_size key (snd ms) - mx)"
  show ?case
  proof (cases "usedMemory (fst ms) + sz \<le> mx + resident_size key (snd ms) \<or>
      maxEvictionsPerWrite \<le> n \<or> ?vs = []")
    case True
    then have "snd (admit_loop select key sz mx n ms) = ms"
      by (subst admit_loop.simps) (auto simp: Let_def)
    then show ?thesis by simp
  next
    case False
    obtain n' ms' where ev: "evict_victims n ?vs ms = (n', ms')" by (cases "evict_victims n ?vs ms")
    have eq: "admit_loop select key sz mx n ms = admit_loop select key sz mx n' ms'"
      using False ev by (subst admit_loop.simps) (simp add: Let_def)
    show ?thesis
      unfolding eq
      using thinned_victims [of t ms n ?vs] "1.IH" [OF refl refl _ _ refl _ ev [symmetric]] False ev
      by (auto intro: thinned_trans)
  qed
qed

lemma thinned_admit: "thinned t (snd ms) (snd (snd (admit ctl x ms)))"
  by (simp add: admit_def Let_def thinned_admit_loop split: option.split)

text \<open>Every store attempt ends as one of: blocked or refused, or a store after some eviction.\<close>

lemma store_attempts_view:
  "case store_attempts ctl now key x nx left att ms of
     ((stored, err), ms') \<Rightarrow>
       (stored \<longrightarrow> err = None \<and> (\<exists>s. thinned t (snd ms) s \<and> snd ms' = put_shard key x s)) \<and>
       (\<not> stored \<longrightarrow> thinned t (snd ms) (snd ms'))"
proof (induction left arbitrary: att ms)
  case 0
  then show ?case by (simp add: reject_oom_def)
next
  case (Suc left)
  show ?case
  proof (cases rule: shard_put_cases [of "now att" key nx "snd ms" x "fst ms"])
    case blocked
    then show ?thesis by (cases ms) simp
  next
    case (stored m')
    then show ?thesis by (cases ms) (auto intro: exI [of _ "snd ms"])
  next
    case full
    obtain err2 ms2 where ad: "admit (map_option (\<lambda>f. f att) ctl) x ms = (err2, ms2)"
      by (cases "admit (map_option (\<lambda>f. f att) ctl) x ms")
    have th: "thinned t (snd ms) (snd ms2)"
      using thinned_admit [of t ms "map_option (\<lambda>f. f att) ctl" x] ad by simp
    have p: "shard_put (now att) key x nx ms = ((False, Some ErrOutOfMemory), ms)"
      using full(2) by (cases ms) simp
    show ?thesis
    proof (cases err2)
      case (Some y)
      with p ad th show ?thesis by (simp add: reject_oom_def)
    next
      case None
      with p ad have eq: "store_attempts ctl now key x nx (Suc left) att ms =
          store_attempts ctl now key x nx left (att + 1) ms2"
        by simp
      show ?thesis
        unfolding eq using Suc.IH [where att = "att + 1" and ms = ms2] thinned_trans [OF th]
        by (clarsimp split: prod.splits) (blast | simp)+
    qed
  qed
qed

lemma admit_and_store_view:
  "fst (fst (admit_and_store ctl now key x nx ms)) \<Longrightarrow>
     \<exists>s. thinned t (snd ms) s \<and> snd (snd (admit_and_store ctl now key x nx ms)) = put_shard key x s"
  "\<not> fst (fst (admit_and_store ctl now key x nx ms)) \<Longrightarrow>
     thinned t (snd ms) (snd (snd (admit_and_store ctl now key x nx ms)))"
  "fst (fst (admit_and_store ctl now key x nx ms)) \<Longrightarrow> snd (fst (admit_and_store ctl now key x nx ms)) = None"
  using store_attempts_view [where ctl = ctl and now = now and key = key and x = x and nx = nx
      and left = admitAttempts and att = 0 and ms = ms and t = t]
  by (auto simp: admit_and_store_def split: prod.splits)

lemma admit_and_store_blocked:
  assumes "put_blocked (now 0) key nx (snd ms)"
  shows "admit_and_store ctl now key x nx ms = ((False, None), ms)"
  using assms by (cases ms) (simp add: admit_and_store_def admitAttempts_def numeral_eq_Suc shard_put_unfold)

section \<open>The engine provides the contract\<close>

definition engine_get_bytes ::
    "(bytes \<Rightarrow> u64) \<Rightarrow> int \<Rightarrow> int \<Rightarrow> int \<Rightarrow> bytes \<Rightarrow> engine \<Rightarrow> bytes option \<times> engine" where
  "engine_get_bytes hash t1 t2 t3 k e =
     (case engine_get hash t1 t2 t3 t3 k e of (r, e') \<Rightarrow> (map_option fst r, e'))"

text \<open>\<open>Set\<close> or \<open>SetNX\<close>, and whether it stored.\<close>

definition engine_put ::
    "(bytes \<Rightarrow> u64) \<Rightarrow> int \<Rightarrow> bytes \<Rightarrow> bytes \<Rightarrow> int \<Rightarrow> bool \<Rightarrow> engine \<Rightarrow> bool \<times> engine" where
  "engine_put hash now k v ttl nx e =
     (if nx then (case engine_setnx hash now (\<lambda>_. now) k v ttl e of ((stored, _), e') \<Rightarrow> (stored, e'))
      else (case engine_set hash now (\<lambda>_. now) k v ttl e of (err, e') \<Rightarrow> (err = None, e')))"

text \<open>A plain \<open>Set\<close> is blocked by nothing: no error means it stored.\<close>

lemma store_attempts_set:
  "snd (fst (store_attempts ctl now key x False left att ms)) = None \<Longrightarrow>
     fst (fst (store_attempts ctl now key x False left att ms))"
proof (induction left arbitrary: att ms)
  case 0
  then show ?case by (simp add: reject_oom_def)
next
  case (Suc left)
  show ?case
  proof (cases rule: shard_put_cases [of "now att" key False "snd ms" x "fst ms"])
    case blocked
    then show ?thesis by (simp add: put_blocked_def)
  next
    case (stored m')
    then show ?thesis by (cases ms) simp
  next
    case full
    obtain err2 ms2 where ad: "admit (map_option (\<lambda>f. f att) ctl) x ms = (err2, ms2)"
      by (cases "admit (map_option (\<lambda>f. f att) ctl) x ms")
    have p: "shard_put (now att) key x False ms = ((False, Some ErrOutOfMemory), ms)"
      using full(2) by (cases ms) simp
    show ?thesis
      using Suc.prems Suc.IH [where att = "att + 1" and ms = ms2] p ad by (cases err2) (simp_all add: reject_oom_def)
  qed
qed

lemma engine_put_unfold:
  assumes "validate_write now k v ttl e = Inr x"
  shows "fst (engine_put hash now k v ttl nx e) =
      fst (fst (admit_and_store (eviction e) (\<lambda>_. now) k x nx (at_shard (shard_for hash k e) e)))"
    and "up_to_hints (snd (engine_put hash now k v ttl nx e))
      (put_back (shard_for hash k e)
        (snd (admit_and_store (eviction e) (\<lambda>_. now) k x nx (at_shard (shard_for hash k e) e))) e)"
proof -
  let ?r = "admit_and_store (eviction e) (\<lambda>_. now) k x nx (at_shard (shard_for hash k e) e)"
  have "fst (fst ?r) \<Longrightarrow> snd (fst ?r) = None" by (rule admit_and_store_view(3))
  moreover have "\<not> nx \<Longrightarrow> snd (fst ?r) = None \<Longrightarrow> fst (fst ?r)"
    unfolding admit_and_store_def by (metis (full_types) store_attempts_set)
  ultimately show "fst (engine_put hash now k v ttl nx e) = fst (fst ?r)"
    using engine_set_unfold(2) [OF assms, of hash "\<lambda>_. now"] engine_setnx_unfold(2) [OF assms, of hash "\<lambda>_. now"]
    by (cases nx) (auto simp: engine_put_def split_beta Let_def)
  show "up_to_hints (snd (engine_put hash now k v ttl nx e)) (put_back (shard_for hash k e) (snd ?r) e)"
    using engine_set_unfold(3) [OF assms, of hash "\<lambda>_. now"] engine_setnx_unfold(3) [OF assms, of hash "\<lambda>_. now"]
    by (cases nx) (simp_all add: engine_put_def split_beta)
qed

lemma engine_put_refused:
  "validate_write now k v ttl e = Inl err \<Longrightarrow> engine_put hash now k v ttl nx e = (False, e)"
  by (simp add: engine_put_def engine_set_unfold(1) engine_setnx_unfold(1))

lemma validate_write_now: "validate_write now k v ttl e = Inr x \<Longrightarrow> \<not> closed e \<and> x = new_entry now k v ttl"
  by (simp add: validate_write_Inr)

lemma engine_put_view:
  assumes "eng_inv False hash e" and "engine_put hash now k v ttl nx e = (stored, e')"
  shows "stored \<Longrightarrow> engine_view hash t e' k = age_to t (Some (v, deadline now ttl))"
    and "k' \<noteq> k \<Longrightarrow> engine_view hash t e' k' = engine_view hash t e k' \<or> engine_view hash t e' k' = None"
    and "eng_inv False hash e'"
proof (atomize (full), cases "validate_write now k v ttl e")
  case (Inl err)
  then have "stored = False" "e' = e" using assms(2) by (simp_all add: engine_put_refused)
  with assms(1) show "(stored \<longrightarrow> engine_view hash t e' k = age_to t (Some (v, deadline now ttl))) \<and>
    (k' \<noteq> k \<longrightarrow> engine_view hash t e' k' = engine_view hash t e k' \<or> engine_view hash t e' k' = None) \<and>
    eng_inv False hash e'"
    by simp
next
  case (Inr x)
  let ?i = "shard_for hash k e"
  let ?r = "admit_and_store (eviction e) (\<lambda>_. now) k x nx (at_shard ?i e)"
  have x: "x = new_entry now k v ttl" "\<not> closed e" using validate_write_now [OF Inr] by simp_all
  have i: "?i < length (shards e)" by (rule eng_invD(1) [OF assms(1)])
  have st: "stored = fst (fst ?r)" using engine_put_unfold(1) [OF Inr, of hash nx] assms(2) by simp
  have up: "up_to_hints e' (put_back ?i (snd ?r) e)"
    using engine_put_unfold(2) [OF Inr, of hash nx] assms(2) by simp
  note v' = engine_view_hints [OF up, of hash t] engine_view_put_back [OF assms(1) i]
  have "stored \<longrightarrow> engine_view hash t e' k = age_to t (Some (v, deadline now ttl))"
    using st admit_and_store_view(1) [of "eviction e" "\<lambda>_. now" k x nx "at_shard ?i e" t] x
    by (auto simp: v' put_shard_view age_to_def live_at_expired [symmetric] new_entry_ExpireAt entry_view_def)
  moreover have "k' \<noteq> k \<longrightarrow> engine_view hash t e' k' = engine_view hash t e k' \<or> engine_view hash t e' k' = None"
  proof -
    have "thinned t (shards e ! ?i) s \<Longrightarrow> shard_for hash k' e = ?i \<Longrightarrow>
        live_view t s k' = engine_view hash t e k' \<or> live_view t s k' = None" for s
      using x(2) by (auto simp: thinned_def engine_view_def)
    then show ?thesis
      using admit_and_store_view(1,2) [of "eviction e" "\<lambda>_. now" k x nx "at_shard ?i e" t] x(2)
      by (cases "fst (fst ?r)") (auto simp: v' put_shard_view at_shard_def, metis option.distinct(1))
  qed
  moreover have "eng_inv False hash e'"
    using engine_set_inv [of False hash e now "\<lambda>_. now" k v ttl]
      engine_setnx_inv [of False hash e now "\<lambda>_. now" k v ttl] assms
    by (auto simp: engine_put_def split_beta split: if_splits)
  ultimately show "(stored \<longrightarrow> engine_view hash t e' k = age_to t (Some (v, deadline now ttl))) \<and>
    (k' \<noteq> k \<longrightarrow> engine_view hash t e' k' = engine_view hash t e k' \<or> engine_view hash t e' k' = None) \<and>
    eng_inv False hash e'"
    by blast
qed

lemma put_back_at_shard: "i < length (shards e) \<Longrightarrow> put_back i (at_shard i e) e = e"
  by (simp add: put_back_def at_shard_def)

lemma engine_put_blocked:
  assumes "eng_inv False hash e" and "engine_view hash now e k \<noteq> None"
  shows "engine_put hash now k v ttl True e = (False, e)"
proof (cases "validate_write now k v ttl e")
  case (Inl err)
  then show ?thesis by (rule engine_put_refused)
next
  case (Inr x)
  let ?i = "shard_for hash k e"
  have "put_blocked now k True (snd (at_shard ?i e))"
    using assms(2) by (auto simp: put_blocked_def shard_exists_view engine_view_def at_shard_def split: if_splits)
  then have "admit_and_store (eviction e) (\<lambda>_. now) k x True (at_shard ?i e) = ((False, None), at_shard ?i e)"
    by (rule admit_and_store_blocked)
  with Inr show ?thesis
    using put_back_at_shard [OF eng_invD(1) [OF assms(1), of k]]
    by (simp add: engine_put_def engine_setnx_def Let_def)
qed

interpretation engine_map: expiring_map
  where inv = "eng_inv False hash"
    and view = "engine_view hash"
    and get = "engine_get_bytes hash"
    and put = "engine_put hash"
    and reap = "\<lambda>now k e. snd (engine_delete_expired hash now k e)"
    and delete = "engine_delete hash"
  for hash
proof (unfold_locales, goal_cases)
  case (1 t t' s k)
  then show ?case using live_view_age [OF 1] by (simp add: engine_view_def age_to_def)
next
  case (2 s t1 t2 t3 k)
  let ?m = "fst (at_shard (shard_for hash k s) s)" and ?s = "snd (at_shard (shard_for hash k s) s)"
  have "map_option entry_view (fst (shard_get t1 t2 t3 k (?m, ?s))) = live_view t1 ?s k"
    by (rule shard_get_value)
  then have "map_option fst (map_option entry_view (fst (shard_get t1 t2 t3 k (?m, ?s)))) =
      map_option fst (live_view t1 ?s k)"
    by simp
  then show ?case
    by (simp add: engine_get_bytes_def engine_get_unfold Let_def split_beta engine_view_def
        option.map_comp comp_def entry_view_def at_shard_def)
next
  case (3 s t1 t2 t t3 k)
  have "engine_view hash t (put_back (shard_for hash k s)
      (snd (shard_get t1 t2 t3 k (at_shard (shard_for hash k s) s))) s) = engine_view hash t s"
    using shard_get_view [OF 3(2,3)]
    by (intro engine_view_same [OF 3(1) eng_invD(1) [OF 3(1)]]) (simp add: at_shard_def)
  then show ?case by (simp add: engine_get_bytes_def engine_get_unfold Let_def split_beta)
next
  case (4 s t1 t2 t3 k)
  then show ?case using engine_get_inv [OF 4, of t1 t2 t3 t3 k] by (simp add: engine_get_bytes_def split_beta)
next
  case (5 s now t k)
  have "engine_view hash t (put_back (shard_for hash k s)
      (snd (shard_expire now k (at_shard (shard_for hash k s) s))) s) = engine_view hash t s"
    using shard_expire_view [OF 5(2)]
    by (intro engine_view_same [OF 5(1) eng_invD(1) [OF 5(1)]]) (simp add: at_shard_def)
  then show ?case by (simp add: engine_delete_expired_def expire_key_unfold Let_def)
next
  case (6 s now k)
  then show ?case by (rule engine_delete_expired_inv)
next
  case (7 s now k v ttl nx s' t)
  then show ?case by (rule engine_put_view(1)) simp
next
  case (8 s now k v ttl nx r s')
  then show ?case by (rule engine_put_view(3))
next
  case (9 s now k v ttl nx r s' k' t)
  then show ?case by (rule engine_put_view(2))
next
  case (10 s now k v ttl)
  then show ?case by (rule engine_put_blocked)
next
  case (11 s t k)
  let ?i = "shard_for hash k s"
  have "live_view t (snd (snd (shard_delete k (at_shard ?i s)))) = (live_view t (shards s ! ?i))(k := None)"
    by (intro live_view_delete) (simp add: at_shard_def shard_removal_data)
  then show ?case
    using engine_view_put_back [OF 11 eng_invD(1) [OF 11]]
    by (auto simp: engine_delete_unfold Let_def fun_eq_iff) (auto simp: engine_view_def)
next
  case (12 s k)
  then show ?case by (rule engine_delete_inv)
qed

section \<open>What a client can rely on\<close>

lemma eng_inv_weaken: "eng_inv books hash e \<Longrightarrow> eng_inv False hash e"
  by (simp add: eng_inv_def)

text \<open>
  C10. Read your write. After a \<open>Set\<close> or \<open>SetNX\<close> that stored, and any reads by other clients and any
  reclamation by the expiry machinery since, a read of the key at \<open>t\<close> returns the stored value
  exactly until the deadline, and nothing from then on; without a TTL it returns it at every \<open>t\<close>.
\<close>

theorem engine_read_your_write:
  assumes "eng_reach hash cfg e" and "ShardCount cfg \<le> 2 ^ 32"
    and "engine_put hash now k v ttl nx e = (True, e')"
    and "\<forall>b \<in> set bs. bg_within t b"
  shows "fst (engine_get_bytes hash t t2 t3 k (engine_map.bg_run hash bs e')) =
    (if ttl > 0 \<and> i64 (now + ttl) \<noteq> 0 \<and> t > i64 (now + ttl) then None else Some v)"
proof -
  have "eng_inv False hash e" by (rule eng_inv_weaken [OF eng_reach_inv [OF assms(1,2)]])
  from engine_map.read_your_write [OF this assms(3,4)] show ?thesis
    by (auto simp: live_at_def deadline_def)
qed

text \<open>
  A deleted key stays deleted: whatever is read and reclaimed afterwards, a read finds nothing
  until something stores the key again.
\<close>

lemma engine_deleted_stays_deleted:
  assumes "eng_reach hash cfg e" and "ShardCount cfg \<le> 2 ^ 32"
    and "\<forall>b \<in> set bs. bg_within t b"
  shows "fst (engine_get_bytes hash t t2 t3 k (engine_map.bg_run hash bs (snd (engine_delete hash k e)))) = None"
  using engine_map.deleted_stays_deleted [OF eng_inv_weaken [OF eng_reach_inv [OF assms(1,2)]] assms(3)] .

text \<open>
  A write to one key changes what is visible of no other key, except that an entry may have been
  evicted to make room: another key reads as before, or as absent, never as another value.
\<close>

lemma engine_write_isolation:
  assumes "eng_reach hash cfg e" and "ShardCount cfg \<le> 2 ^ 32" and "k' \<noteq> k"
  shows "engine_view hash t (snd (engine_put hash now k v ttl nx e)) k' \<in> {engine_view hash t e k', None}"
proof -
  have "eng_inv False hash e" by (rule eng_inv_weaken [OF eng_reach_inv [OF assms(1,2)]])
  from engine_put_view(2) [OF this surjective_pairing assms(3), where now = now and v = v and ttl = ttl
      and nx = nx and t = t]
  show ?thesis by auto
qed

section \<open>Admission\<close>

text \<open>What admission relies on in a controller, as long as the shard holds no expired entry.\<close>

locale eviction_policy =
  fixes select :: "nat \<Rightarrow> shard \<Rightarrow> u64 \<Rightarrow> bytes list"
    and lively :: "shard \<Rightarrow> bool"
  assumes victims: "shard_inv s \<Longrightarrow> lively s \<Longrightarrow> distinct (select n s need) \<and> set (select n s need) \<subseteq> keyset s"
    and productive: "shard_inv s \<Longrightarrow> lively s \<Longrightarrow> need \<noteq> 0 \<Longrightarrow> data s \<noteq> [] \<Longrightarrow> select n s need \<noteq> []"
    and lively_delete: "lively s \<Longrightarrow> data s' = AList.delete v (data s) \<Longrightarrow> lively s'"

lemma length_delete_present:
  "keys_distinct xs \<Longrightarrow> k \<in> fst ` set xs \<Longrightarrow> Suc (length (AList.delete k xs)) = length xs"
  by (induction xs) (auto, force)

text \<open>Victims that are there are gone afterwards, one entry for one count.\<close>

lemma evict_victims_count:
  "keys_distinct (data (snd ms)) \<Longrightarrow> distinct vs \<Longrightarrow> set vs \<subseteq> keyset (snd ms) \<Longrightarrow>
     fst (evict_victims n vs ms) + length (data (snd (snd (evict_victims n vs ms)))) = n + length (data (snd ms))"
proof (induction vs arbitrary: n ms)
  case (Cons v vs)
  obtain m s where ms: "ms = (m, s)" by (cases ms)
  have d: "data (snd (snd (shard_evict v ms))) = AList.delete v (data s)"
    "keyset (snd (snd (shard_evict v ms))) = keyset s - {v}"
    by (simp_all add: ms shard_evict_sel)
  have "Suc (length (AList.delete v (data s))) = length (data s)"
    using Cons.prems ms by (intro length_delete_present) (auto simp: keyset_def)
  moreover have "set vs \<subseteq> keyset s - {v}" using Cons.prems ms by auto
  ultimately show ?case
    using Cons.IH [of "snd (shard_evict v ms)" "n + 1"] Cons.prems d ms by (auto simp: Let_def)
qed simp

lemma evict_victims_used:
  "usedMemory (fst (snd (evict_victims n vs ms))) \<le> usedMemory (fst ms)"
proof (induction vs arbitrary: n ms)
  case (Cons v vs)
  show ?case
    using Cons.IH [of "n + 1" "snd (shard_evict v ms)"] shard_evict_sel(2) [of v "fst ms" "snd ms"]
    by (auto simp: Let_def intro: order_trans)
qed simp

lemma admit_loop_None:
  "admit_loop select key sz mx n ms = (None, ms') \<Longrightarrow>
     usedMemory (fst ms') + sz \<le> mx + resident_size key (snd ms')"
proof (induction select key sz mx n ms rule: admit_loop.induct)
  case (1 select key sz mx n ms)
  from 1(2) show ?case
    by (subst (asm) admit_loop.simps)
      (auto simp: Let_def split: if_splits prod.splits dest: 1(1) [OF refl refl])
qed

text \<open>Both sides of the fit test are sums that do not wrap.\<close>

definition roomy_sums :: "mem_tracker \<Rightarrow> u64 \<Rightarrow> u64 \<Rightarrow> bool" where
  "roomy_sums m sz mx \<longleftrightarrow> unat (usedMemory m) + unat sz < 2 ^ 64 \<and> unat mx + 2 ^ 32 \<le> 2 ^ 64"

lemma fits_nat:
  assumes "roomy_sums m sz mx"
  shows "usedMemory m + sz \<le> mx + resident_size key s \<longleftrightarrow>
    unat (usedMemory m) + unat sz \<le> unat mx + unat (resident_size key s)"
proof -
  have "unat (resident_size key s) < 2 ^ 32"
    using unat_u32_less by (auto simp: resident_size_def split: option.split)
  then have "unat (mx + resident_size key s) = unat mx + unat (resident_size key s)"
    using assms by (intro unat_plus_u64) (simp add: roomy_sums_def)
  moreover have "unat (usedMemory m + sz) = unat (usedMemory m) + unat sz"
    using assms by (intro unat_plus_u64) (simp add: roomy_sums_def)
  ultimately show ?thesis by (simp add: word_le_nat_alt)
qed

context eviction_policy
begin

lemma lively_victims: "lively (snd ms) \<Longrightarrow> lively (snd (snd (evict_victims n vs ms)))"
proof (induction vs arbitrary: n ms)
  case (Cons v vs)
  have "data (snd (snd (shard_evict v ms))) = AList.delete v (data (snd ms))"
    by (cases ms) (simp add: shard_evict_sel(4))
  then have "lively (snd (snd (shard_evict v ms)))" by (rule lively_delete [OF Cons.prems])
  then show ?case using Cons.IH by (simp add: Let_def)
qed simp

text \<open>
  With at most as many entries in the shard as the cap on victims, admission never gives up: in the
  worst case the shard is emptied, and what the other shards hold leaves room by assumption.
\<close>

lemma admit_loop_succeeds:
  "sound True rest ms \<Longrightarrow> lively (snd ms) \<Longrightarrow> roomy True rest ms \<Longrightarrow>
   n + length (data (snd ms)) \<le> maxEvictionsPerWrite \<Longrightarrow> rest + unat sz \<le> unat mx \<Longrightarrow>
   roomy_sums (fst ms) sz mx \<Longrightarrow> fst (admit_loop select key sz mx n ms) = None"
proof (induction "\<lambda>k s need. select k s need" key sz mx n ms rule: admit_loop.induct)
  case (1 key sz mx n ms)
  obtain m s where ms: "ms = (m, s)" by (cases ms)
  let ?need = "usedMemory m + sz - resident_size key s - mx"
  have inv: "shard_inv s" and acc: "unat (usedMemory m) = rest + shard_bytes s"
    using 1(2) ms by (simp_all add: sound_def accounted_def)
  show ?case
  proof (cases "usedMemory m + sz \<le> mx + resident_size key s")
    case True
    then show ?thesis by (subst admit_loop.simps) (simp add: ms)
  next
    case False
    have nonempty: "data s \<noteq> []"
    proof
      assume "data s = []"
      then have "shard_bytes s = 0" by (simp add: shard_bytes_def)
      then show False using False fits_nat [of m sz mx key s] 1(6,7) acc ms by simp
    qed
    have lt: "\<not> maxEvictionsPerWrite \<le> n" using nonempty 1(5) ms by (cases "data s") auto
    have "?need \<noteq> 0"
    proof
      assume "?need = 0"
      then have "usedMemory m + sz = mx + resident_size key s" by (simp add: algebra_simps)
      with False show False by simp
    qed
    then have ne: "select n s ?need \<noteq> []" using productive inv 1(3) nonempty ms by simp
    obtain n' ms' where ev: "evict_victims n (select n s ?need) ms = (n', ms')"
      by (cases "evict_victims n (select n s ?need) ms")
    have eq: "admit_loop select key sz mx n ms = admit_loop select key sz mx n' ms'"
      using False lt ne ev by (subst admit_loop.simps) (simp add: Let_def ms)
    have "n' + length (data (snd ms')) = n + length (data s)"
      using evict_victims_count [of ms "select n s ?need" n] victims [OF inv] 1(3) ev ms shard_invD(1) [OF inv]
      by simp
    moreover have "roomy True rest ms'" using evict_victims_roomy [OF 1(4), of n "select n s ?need"] ev by simp
    moreover have "lively (snd ms')" using lively_victims [OF 1(3), of n "select n s ?need"] ev by simp
    moreover have "roomy_sums (fst ms') sz mx"
      using evict_victims_used [of n "select n s ?need" ms] 1(7) ev ms
      by (simp add: roomy_sums_def word_le_nat_alt)
    ultimately show ?thesis
      unfolding eq using 1(5,6) ms
      by (intro 1(1) [OF refl refl _ _ refl _ , where xc = n' and y = ms'])
        (use False lt ne ev ms roomy_sound in auto)
  qed
qed

end

text \<open>The sampling controller is such a policy, whatever it samples and however it breaks ties.\<close>

definition all_live :: "(nat \<Rightarrow> bytes \<Rightarrow> int) \<Rightarrow> shard \<Rightarrow> bool" where
  "all_live nk s \<longleftrightarrow> (\<forall>n. \<forall>(k, x) \<in> set (data s). \<not> is_expired (nk n k) x)"

lemma select_victims_policy:
  assumes "\<And>n. range_order (ord n)" and "\<And>n. tie_perm (tie n)" and "controller_ok c"
    and "pol_score (active_policy c) \<noteq> None"
  shows "eviction_policy (\<lambda>n s. select_victims (ord n) (nk n) (tie n) (nw n) c (Some s)) (all_live nk)"
proof
  fix s n need
  assume "shard_inv s"
  note sv = select_victims_facts [OF this assms(1,2,3), where needed = need]
  show "distinct (select_victims (ord n) (nk n) (tie n) (nw n) c (Some s) need) \<and>
      set (select_victims (ord n) (nk n) (tie n) (nw n) c (Some s) need) \<subseteq> keyset s"
    using sv(1) sv(3) [of n "nk n" n "nw n"] unfolding subset_iff keyset_lookup by force
  assume "all_live nk s" "need \<noteq> 0" "data s \<noteq> []"
  then show "select_victims (ord n) (nk n) (tie n) (nw n) c (Some s) need \<noteq> []"
    using sv(4) assms(4) by (cases "data s") (auto simp: all_live_def)
next
  fix s s' :: shard and v assume "all_live nk s" "data s' = AList.delete v (data s)"
  then show "all_live nk s'" by (auto simp: all_live_def dest!: set_delete_subsetD)
qed

interpretation lru_policy: eviction_policy
  where select = "\<lambda>n s. select_victims id (\<lambda>_. now) id now lru_controller (Some s)"
    and lively = "all_live (\<lambda>_ _. now)"
  for now
  by (rule select_victims_policy)
    (simp_all add: range_order_def tie_perm_def controller_ok_def lru_controller_def MaxSampleSize_def)

lemma shard_put_with_room:
  assumes "roomy True rest (m, s)"
    and "maxMemory m = 0 \<or> unat (usedMemory m) + unat (Size x) \<le> unat (maxMemory m) + unat (resident_size key s)"
  shows "snd (fst (shard_put now key x nx (m, s))) = None"
proof -
  have acc: "accounted rest (m, s)" and h: "headroom m" using assms(1) by (simp_all add: roomy_def sound_def)
  have "resident_size key s \<le> usedMemory m" by (rule resident_size_le [OF acc])
  then have "maxMemory m = 0 \<or> reserve_next (usedMemory m) (ucast (Size x)) (resident_size key s) \<le> maxMemory m"
    using unat_reserved [OF acc h, of x key] assms(2) by (auto simp: word_le_nat_alt sizen_def)
  then show ?thesis
    by (auto simp: shard_put_unfold reserve_def Let_def not_less)
qed

lemma admit_and_store_room:
  assumes f0: "f 0 = g" and pol0: "eviction_policy g lively" and r: "roomy True rest ms" and "lively (snd ms)"
    and "length (data (snd ms)) \<le> maxEvictionsPerWrite"
    and fits: "rest + unat (Size x) \<le> unat (maxMemory (fst ms))"
    and mx: "unat (maxMemory (fst ms)) + 2 ^ 32 \<le> 2 ^ 64" and key: "Key x = key"
  shows "snd (fst (admit_and_store (Some f) now key x nx ms)) = None"
proof (cases rule: shard_put_cases [of "now 0" key nx "snd ms" x "fst ms"])
  case blocked
  then show ?thesis by (cases ms) (simp add: admit_and_store_def admitAttempts_def numeral_eq_Suc)
next
  case (stored m')
  then show ?thesis by (cases ms) (simp add: admit_and_store_def admitAttempts_def numeral_eq_Suc)
next
  case full
  note pol = pol0 [folded f0]
  obtain m s where ms: "ms = (m, s)" by (cases ms)
  have "maxMemory m \<noteq> 0"
  proof
    assume "maxMemory m = 0"
    then have "snd (fst (shard_put (now 0) key x nx (m, s))) = None"
      using r by (intro shard_put_with_room) (simp_all add: ms)
    with full(2) show False by (simp add: ms)
  qed
  moreover have "\<not> maxMemory m < ucast (Size x)" using fits by (simp add: ms word_less_nat_alt)
  moreover have sums: "roomy_sums m (ucast (Size x)) (maxMemory m)"
    using r mx unat_u32_less [of "Size x"] by (simp add: roomy_sums_def roomy_def headroom_def ms)
  moreover have "fst (admit_loop (f 0) key (ucast (Size x)) (maxMemory m) 0 ms) = None"
    using eviction_policy.admit_loop_succeeds [OF pol roomy_sound [OF r] assms(4) r, of 0]
      assms(5) fits sums ms by simp
  ultimately obtain ms' where
    al: "admit_loop (f 0) key (ucast (Size x)) (maxMemory m) 0 ms = (None, ms')" and
    ad: "admit (Some (f 0)) x ms = (None, ms')"
    by (cases "admit_loop (f 0) key (ucast (Size x)) (maxMemory m) 0 ms") (simp add: admit_def ms key)
  have keeps: "roomy True rest ms'" "maxMemory (fst ms') = maxMemory m"
    using admit_keeps [OF r, of "Some (f 0)" x] ad ms by (simp_all add: admitted_from_def)
  have "roomy_sums (fst ms') (ucast (Size x)) (maxMemory m)"
    using keeps(1) mx ms unat_u32_less [of "Size x"] by (simp add: roomy_sums_def roomy_def headroom_def)
  then have "unat (usedMemory (fst ms')) + unat (Size x) \<le> unat (maxMemory m) + unat (resident_size key (snd ms'))"
    using admit_loop_None [OF al] fits_nat by fastforce
  then have "snd (fst (shard_put (now 1) key x nx ms')) = None"
    using shard_put_with_room [of rest "fst ms'" "snd ms'" x key "now 1" nx] keeps by simp
  then show ?thesis
    using full(2) ad ms
    by (simp add: admit_and_store_def admitAttempts_def numeral_eq_Suc split_beta)
qed

text \<open>
  C11. A write makes its own room. When the policy evicts (lru, lfu or fifo), the key's shard holds at
  most 64 entries and none that is expired by the sampling clock, and the entry would fit beside what
  the other shards hold, then \<open>Set\<close> succeeds: admission evicts from the shard until the entry fits,
  within its cap, and the retried store finds the room it made.
\<close>

theorem engine_set_makes_room:
  assumes "eng_reach hash cfg e" and "ShardCount cfg \<le> 2 ^ 32" and "headroom (memory e)"
    and "\<not> closed e" and "of_nat (length v) \<le> maxValueSize e" and "0 \<le> ttl"
    and "eviction e = Some (\<lambda>a n s. select_victims (ord a n) (nk a n) (tie a n) (nw a n) c (Some s))"
    and "\<forall>a n. range_order (ord a n) \<and> tie_perm (tie a n)"
    and "controller_ok c" and "pol_score (active_policy c) \<noteq> None"
    and "\<forall>n. \<forall>(k', x) \<in> set (data (shards e ! shard_for hash k e)). \<not> is_expired (nk 0 n k') x"
    and "length (data (shards e ! shard_for hash k e)) \<le> 64"
    and "rest_bytes (shard_for hash k e) e + unat (calculate_size k v) \<le> unat (maxMemory (memory e))"
    and "unat (maxMemory (memory e)) + 2 ^ 32 \<le> 2 ^ 64"
  shows "fst (engine_set hash t now k v ttl e) = None"
proof -
  let ?i = "shard_for hash k e"
  have inv: "eng_inv True hash e" by (rule eng_reach_inv [OF assms(1,2)])
  have val: "validate_write t k v ttl e = Inr (new_entry t k v ttl)"
    using assms(4-6) by (simp add: validate_write_Inr)
  have pol: "eviction_policy (\<lambda>n s. select_victims (ord 0 n) (nk 0 n) (tie 0 n) (nw 0 n) c (Some s)) (all_live (nk 0))"
    by (rule select_victims_policy) (use assms(8-10) in auto)
  have r: "roomy True (rest_bytes ?i e) (at_shard ?i e)"
    by (rule at_shard_roomy [OF inv eng_invD(1) [OF inv]]) (simp add: assms(3))
  have "snd (fst (admit_and_store (eviction e) now k (new_entry t k v ttl) False (at_shard ?i e))) = None"
    unfolding assms(7)
    by (rule admit_and_store_room [where rest = "rest_bytes ?i e", OF _ pol])
      (use r assms(11-14) in \<open>simp_all add: at_shard_def all_live_def maxEvictionsPerWrite_def\<close>)
  then show ?thesis using engine_set_unfold(2) [OF val, of hash now] by simp
qed

section \<open>The properties on a concrete engine\<close>

lemma store_attempts_step:
  "store_attempts ctl now key x nx (Suc left) att ms =
     (let r = shard_put (now att) key x nx ms
      in if snd (fst r) \<noteq> Some ErrOutOfMemory then r
         else case admit (map_option (\<lambda>f. f att) ctl) x (snd r) of
                (Some _, ms'') \<Rightarrow> reject_oom ms''
              | (None, ms'') \<Rightarrow> store_attempts ctl now key x nx left (att + 1) ms'')"
  by (simp add: Let_def split_beta)

lemma admit_and_store_first:
  "admit_and_store ctl now key x nx ms =
     (let r = shard_put (now 0) key x nx ms
      in if snd (fst r) \<noteq> Some ErrOutOfMemory then r
         else case admit (map_option (\<lambda>f. f 0) ctl) x (snd r) of
                (Some _, ms'') \<Rightarrow> reject_oom ms''
              | (None, ms'') \<Rightarrow> store_attempts ctl now key x nx (admitAttempts - 1) (0 + 1) ms'')"
proof -
  have "store_attempts ctl now key x nx admitAttempts 0 ms =
      store_attempts ctl now key x nx (Suc (admitAttempts - 1)) 0 ms"
    by (simp add: admitAttempts_def)
  then show ?thesis unfolding admit_and_store_def store_attempts_step .
qed

text \<open>One shard, 100 bytes, lru, and one entry of 82 bytes.\<close>

definition demo_hash :: "bytes \<Rightarrow> u64" where "demo_hash = (\<lambda>_. 0)"

definition demo_cfg :: engine_config where
  "demo_cfg = default_engine_config\<lparr>ShardCount := 1, MaxMemory := 100\<rparr>"

definition demo_ctl :: evict_fn where
  "demo_ctl = (\<lambda>a n s. select_victims id (\<lambda>_. 30) id 30 lru_controller (Some s))"

definition demo_start :: engine where
  "demo_start = set_eviction_controller (Some demo_ctl) (new_sharded_engine demo_cfg)"

definition demo_engine :: engine where
  "demo_engine = snd (engine_set demo_hash 10 (\<lambda>_. 10) ''a'' ''v'' 0 demo_start)"

lemma demo_start_unfold:
  "shards demo_start = [set_lazy_expiration True new_shard]" "memory demo_start = new_memory_tracker 100"
  "closed demo_start = False" "maxValueSize demo_start = 1048576" "shardMask demo_start = 0"
  "scheduler demo_start = None" "eviction demo_start = Some demo_ctl"
  by (simp_all add: demo_start_def set_eviction_controller_def new_sharded_engine_def demo_cfg_def
      default_engine_config_def next_power_of_two_def Let_def)

lemma demo_engine_data:
  "data (shards demo_engine ! 0) = [(''a'', new_entry 10 ''a'' ''v'' 0)]" "length (shards demo_engine) = 1"
  "maxMemory (memory demo_engine) = 100" "usedMemory (memory demo_engine) = 82"
  "closed demo_engine = False" "maxValueSize demo_engine = 1048576" "shardMask demo_engine = 0"
  "eviction demo_engine = Some demo_ctl"
  by (simp_all add: demo_engine_def engine_set_def validate_write_def demo_start_unfold Let_def
      shard_for_def demo_hash_def at_shard_def admit_and_store_first
      shard_put_unfold put_blocked_def resident_size_def reserve_def reserve_next_def
      new_memory_tracker_def set_lazy_expiration_def new_shard_def put_back_def schedule_def
      calculate_size_def EntryOverhead_def max_uint32_def new_entry_def)

lemma demo_reach_engine: "eng_reach demo_hash demo_cfg demo_engine"
proof -
  have "eng_reach demo_hash demo_cfg demo_start"
    unfolding demo_start_def by (rule er_step [OF er_new e_ctl])
  moreover have "headroom (memory demo_start)"
    by (simp add: headroom_def demo_start_unfold)
  ultimately show ?thesis
    unfolding demo_engine_def by (blast intro: er_step e_set)
qed

lemma demo_cfg_small: "ShardCount demo_cfg \<le> 2 ^ 32"
  by (simp add: demo_cfg_def)


lemma demo_overwrite: "fst (engine_put demo_hash 11 ''a'' ''w'' 50 False demo_engine)"
  by (simp add: engine_put_def engine_set_def validate_write_def demo_engine_data Let_def
      shard_for_def demo_hash_def at_shard_def admit_and_store_first
      shard_put_unfold put_blocked_def resident_size_def reserve_def reserve_next_def
      calculate_size_def EntryOverhead_def max_uint32_def split_beta)

theorem engine_read_your_write_witness:
  "fst (engine_get_bytes demo_hash 20 20 20 ''a''
     (engine_map.bg_run demo_hash [Read 12 12 12 ''b'', Reap 13 ''a'']
       (snd (engine_put demo_hash 11 ''a'' ''w'' 50 False demo_engine)))) = Some ''w''"
proof -
  have "engine_put demo_hash 11 ''a'' ''w'' 50 False demo_engine =
      (True, snd (engine_put demo_hash 11 ''a'' ''w'' 50 False demo_engine))"
    using demo_overwrite by (simp add: prod_eq_iff)
  from engine_read_your_write [OF demo_reach_engine demo_cfg_small this,
      of "[Read 12 12 12 ''b'', Reap 13 ''a'']" 20 20 20]
  show ?thesis by simp
qed

lemma engine_deleted_stays_deleted_witness:
  "fst (engine_get_bytes demo_hash 20 20 20 ''a''
     (engine_map.bg_run demo_hash [Read 12 12 12 ''a''] (snd (engine_delete demo_hash ''a'' demo_engine)))) = None"
  by (rule engine_deleted_stays_deleted [OF demo_reach_engine demo_cfg_small]) simp

lemma engine_write_isolation_witness:
  "engine_view demo_hash 30 (snd (engine_put demo_hash 20 ''b'' ''w'' 0 False demo_engine)) ''a''
     \<in> {engine_view demo_hash 30 demo_engine ''a'', None}"
  by (rule engine_write_isolation [OF demo_reach_engine demo_cfg_small]) simp

theorem engine_set_makes_room_witness:
  "fst (engine_set demo_hash 20 (\<lambda>_. 20) ''b'' ''w'' 0 demo_engine) = None"
proof (rule engine_set_makes_room [OF demo_reach_engine demo_cfg_small,
      where ord = "\<lambda>_ _. id" and nk = "\<lambda>_ _ _. 30" and tie = "\<lambda>_ _. id" and nw = "\<lambda>_ _. 30" and c = lru_controller])
  show "headroom (memory demo_engine)" by (simp add: headroom_def demo_engine_data)
  show "eviction demo_engine =
      Some (\<lambda>a n s. select_victims id (\<lambda>_. 30) id 30 lru_controller (Some s))"
    by (simp add: demo_engine_data demo_ctl_def)
  show "rest_bytes (shard_for demo_hash ''b'' demo_engine) demo_engine + unat (calculate_size ''b'' ''w'')
      \<le> unat (maxMemory (memory demo_engine))"
  proof -
    have "eng_bytes demo_engine = shard_bytes (shards demo_engine ! 0)"
      using demo_engine_data(2) by (cases "shards demo_engine") (auto simp: eng_bytes_def)
    then show ?thesis
      by (simp add: rest_bytes_def shard_for_def demo_hash_def demo_engine_data calculate_size_def
          EntryOverhead_def max_uint32_def)
  qed
qed (simp_all add: demo_engine_data range_order_def tie_perm_def controller_ok_def lru_controller_def
    MaxSampleSize_def shard_for_def demo_hash_def is_expired_def new_entry_def)

end
