(* ===== verification/Scan_Spec.thy ===== *)
theory Scan_Spec
  imports Scan_Inv
begin

text \<open>
  The guarantee of a scan: every key live from the first page to the last is returned exactly once.
  A scan is the sequence of pages of one client. Between two of its pages the shards and the rest of
  the registry may change in any way, as long as its own cursor is left as it was; a page that finds
  it dropped answers an error, and the scan is not continued.
\<close>

text \<open>Each shard has distinct keys, all at home there: a key's shard is fixed by its hash.\<close>

definition homed :: "(bytes \<Rightarrow> nat) \<Rightarrow> shard list \<Rightarrow> bool" where
  "homed home shs \<longleftrightarrow>
     (\<forall>i < length shs. keys_distinct (data (shs ! i)) \<and> (\<forall>k \<in> fst ` set (data (shs ! i)). home k = i))"

definition wanted :: "bytes \<Rightarrow> bytes \<Rightarrow> bool" where
  "wanted pat k \<longleftrightarrow> pat = [] \<or> match_glob pat k"

text \<open>\<open>k\<close> is there, and live by both of the page's clocks.\<close>

definition stable :: "(bytes \<Rightarrow> nat) \<Rightarrow> (bytes \<Rightarrow> int) \<Rightarrow> (bytes \<Rightarrow> int) \<Rightarrow> shard list \<Rightarrow> bytes \<Rightarrow> bool" where
  "stable home sn ln shs k \<longleftrightarrow>
     home k < length shs \<and>
     (\<exists>e. shard_lookup (shs ! home k) k = Some e \<and> \<not> is_expired (sn k) e \<and> \<not> is_expired (ln k) e)"

text \<open>How far a scan with cursor \<open>c\<close> has come, having returned \<open>seen\<close>.\<close>

definition progress ::
    "(bytes \<Rightarrow> nat) \<Rightarrow> nat \<Rightarrow> bytes set \<Rightarrow> bytes \<Rightarrow> bytes list \<Rightarrow> scan_cursor \<Rightarrow> bool" where
  "progress home n K pat seen c \<longleftrightarrow>
     - 1 \<le> c_shard c \<and> c_shard c < int n \<and>
     distinct (c_keys c) \<and> (\<forall>k \<in> set (c_keys c). int (home k) = c_shard c) \<and>
     distinct seen \<and>
     (\<forall>k \<in> set seen. wanted pat k \<and>
        (int (home k) < c_shard c \<or> k \<in> set (take (c_pos c) (c_keys c)))) \<and>
     (\<forall>k \<in> K. wanted pat k \<longrightarrow> int (home k) < c_shard c \<longrightarrow> k \<in> set seen) \<and>
     (\<forall>k \<in> K. int (home k) = c_shard c \<longrightarrow> k \<in> set (c_keys c) \<and>
        (wanted pat k \<longrightarrow> k \<in> set (take (c_pos c) (c_keys c)) \<longrightarrow> k \<in> set seen))"

definition complete :: "bytes set \<Rightarrow> bytes \<Rightarrow> bytes list \<Rightarrow> bool" where
  "complete K pat seen \<longleftrightarrow> distinct seen \<and> (\<forall>k \<in> set seen. wanted pat k) \<and>
     (\<forall>k \<in> K. wanted pat k \<longrightarrow> k \<in> set seen)"

section \<open>One batch, one advance\<close>

definition page_live :: "(bytes \<Rightarrow> int) \<Rightarrow> shard \<Rightarrow> bytes \<Rightarrow> bytes \<Rightarrow> bool" where
  "page_live ln s pat k \<longleftrightarrow>
     (case shard_lookup s k of None \<Rightarrow> False | Some e \<Rightarrow> \<not> is_expired (ln k) e) \<and> wanted pat k"

lemma live_keys_Cons:
  "live_keys ln s (k # ks) pat dst = live_keys ln s ks pat (if page_live ln s pat k then dst @ [k] else dst)"
  by (simp add: page_live_def wanted_def split: option.split)

lemma live_keys_filter: "live_keys ln s cands pat dst = dst @ filter (page_live ln s pat) cands"
proof (induction cands arbitrary: dst)
  case (Cons k ks)
  then show ?case by (simp only: live_keys_Cons) simp
qed simp

lemma progressD:
  assumes "progress home n K pat seen c"
  shows "- 1 \<le> c_shard c" "c_shard c < int n" "distinct (c_keys c)"
    "k \<in> set (c_keys c) \<Longrightarrow> int (home k) = c_shard c" "distinct seen"
    "k \<in> set seen \<Longrightarrow> wanted pat k"
    "k \<in> set seen \<Longrightarrow> int (home k) < c_shard c \<or> k \<in> set (take (c_pos c) (c_keys c))"
    "k \<in> K \<Longrightarrow> wanted pat k \<Longrightarrow> int (home k) < c_shard c \<Longrightarrow> k \<in> set seen"
    "k \<in> K \<Longrightarrow> int (home k) = c_shard c \<Longrightarrow> k \<in> set (c_keys c)"
    "k \<in> K \<Longrightarrow> int (home k) = c_shard c \<Longrightarrow> wanted pat k \<Longrightarrow>
       k \<in> set (take (c_pos c) (c_keys c)) \<Longrightarrow> k \<in> set seen"
  using assms unfolding progress_def by blast+

lemma progressI:
  assumes "- 1 \<le> c_shard c" "c_shard c < int n" "distinct (c_keys c)"
    "\<And>k. k \<in> set (c_keys c) \<Longrightarrow> int (home k) = c_shard c" "distinct seen"
    "\<And>k. k \<in> set seen \<Longrightarrow> wanted pat k"
    "\<And>k. k \<in> set seen \<Longrightarrow> int (home k) < c_shard c \<or> k \<in> set (take (c_pos c) (c_keys c))"
    "\<And>k. k \<in> K \<Longrightarrow> wanted pat k \<Longrightarrow> int (home k) < c_shard c \<Longrightarrow> k \<in> set seen"
    "\<And>k. k \<in> K \<Longrightarrow> int (home k) = c_shard c \<Longrightarrow> k \<in> set (c_keys c)"
    "\<And>k. k \<in> K \<Longrightarrow> int (home k) = c_shard c \<Longrightarrow> wanted pat k \<Longrightarrow>
       k \<in> set (take (c_pos c) (c_keys c)) \<Longrightarrow> k \<in> set seen"
  shows "progress home n K pat seen c"
  using assms unfolding progress_def by blast

lemma stable_page_live:
  assumes "stable home sn ln shs k" and "int (home k) = i" and "wanted pat k"
  shows "page_live ln (shs ! nat i) pat k"
proof -
  have "nat i = home k" using assms(2) by simp
  with assms(1,3) show ?thesis by (auto simp: page_live_def stable_def)
qed

lemma progress_batch:
  assumes p: "progress home n K pat seen c"
    and st: "\<forall>k \<in> K. stable home sn ln shs k"
  shows "progress home n K pat
     (seen @ filter (page_live ln (shs ! nat (c_shard c)) pat) (take tk (drop (c_pos c) (c_keys c))))
     (c\<lparr>c_pos := c_pos c + tk\<rparr>)"
proof -
  let ?P = "page_live ln (shs ! nat (c_shard c)) pat"
  let ?old = "take (c_pos c) (c_keys c)" and ?new = "take tk (drop (c_pos c) (c_keys c))"
  note p' = progressD [OF p]
  have split: "take (c_pos c + tk) (c_keys c) = ?old @ ?new" by (rule take_add)
  have d: "distinct (?old @ ?new)"
    unfolding split [symmetric] using p'(3) by (rule distinct_take)
  have new_home: "int (home k) = c_shard c" if "k \<in> set ?new" for k
    using that p'(4) by (blast dest: in_set_takeD in_set_dropD)
  have fresh: "k \<notin> set ?new" if "k \<in> set seen" for k
    using p'(7) [OF that] new_home [of k] d by auto
  have live: "?P k" if "k \<in> K" "int (home k) = c_shard c" "wanted pat k" for k
    using that st by (blast intro: stable_page_live)
  show ?thesis
  proof (rule progressI, goal_cases)
    case (4 k) then show ?case using p'(4) by simp
  next
    case 5
    then show ?case using p'(5) fresh d by auto
  next
    case (6 k) then show ?case using p'(6) by (auto simp: page_live_def)
  next
    case (7 k) then show ?case using p'(7) [of k] new_home by (auto simp: split)
  next
    case (8 k) then show ?case using p'(8) by simp
  next
    case (9 k) then show ?case using p'(9) by simp
  next
    case (10 k)
    then have "k \<in> set ?old \<or> k \<in> set ?new" by (auto simp: split)
    with 10 show ?case using p'(10) [of k] live [of k] by auto
  qed (use p' in simp_all)
qed

lemma shard_keys_props:
  assumes "range_order ord" and "keys_distinct (data s)"
  shows "distinct (shard_keys ord now s)" and "set (shard_keys ord now s) \<subseteq> fst ` set (data s)"
    and "shard_lookup s k = Some e \<Longrightarrow> \<not> is_expired (now k) e \<Longrightarrow> k \<in> set (shard_keys ord now s)"
proof -
  have m: "mset (ord (data s)) = mset (data s)" using assms(1) by (simp add: range_order_def)
  have "distinct (map fst (ord (data s)))"
    using assms(2) m by (metis keys_distinct_def mset_eq_imp_distinct_iff mset_map)
  then show "distinct (shard_keys ord now s)"
    by (simp add: shard_keys_def distinct_map_filter)
  show "set (shard_keys ord now s) \<subseteq> fst ` set (data s)"
    using mset_eq_setD [OF m] by (auto simp: shard_keys_def)
  show "shard_lookup s k = Some e \<Longrightarrow> \<not> is_expired (now k) e \<Longrightarrow> k \<in> set (shard_keys ord now s)"
    using mset_eq_setD [OF m] by (force simp: shard_keys_def dest: map_of_SomeD)
qed

lemma progress_advance:
  assumes p: "progress home (length shs) K pat seen c" and all: "c_pos c \<ge> length (c_keys c)"
    and h: "homed home shs" and st: "\<forall>k \<in> K. stable home sn ln shs k"
    and ord: "\<forall>i. range_order (ord i)"
    and c': "c_shard c' = c_shard c + 1" "c_shard c' < int (length shs)" "c_pos c' = 0"
      "c_keys c' = shard_keys (ord (nat (c_shard c'))) sn (shs ! nat (c_shard c'))"
  shows "progress home (length shs) K pat seen c'"
proof -
  let ?i = "nat (c_shard c')" and ?s = "shs ! nat (c_shard c')"
  note p' = progressD [OF p]
  have pos: "0 \<le> c_shard c'" using p c'(1) by (simp add: progress_def)
  then have i: "?i < length shs" using c'(2) by simp
  have kd: "keys_distinct (data ?s)" and hm: "\<forall>k \<in> fst ` set (data ?s). home k = ?i"
    using h i by (simp_all add: homed_def)
  have "range_order (ord ?i)" using ord by blast
  note sk = shard_keys_props [OF this kd]
  have keys: "distinct (c_keys c')" unfolding c'(4) by (rule sk(1))
  have homes: "int (home k) = c_shard c'" if "k \<in> set (c_keys c')" for k
  proof -
    have "k \<in> fst ` set (data ?s)" using that sk(2) unfolding c'(4) by blast
    with hm have "home k = ?i" by blast
    with pos show ?thesis by simp
  qed
  have K: "k \<in> set (c_keys c')" if "k \<in> K" "int (home k) = c_shard c'" for k
  proof -
    from that(2) have "home k = ?i" by simp
    with st that(1) obtain e where "shard_lookup ?s k = Some e" "\<not> is_expired (sn k) e"
      by (auto simp: stable_def)
    then show ?thesis using sk(3) unfolding c'(4) by blast
  qed
  have old: "k \<in> set seen" if "k \<in> K" "wanted pat k" "int (home k) < c_shard c'" for k
    using that p'(8,9,10) [of k] all c'(1) by (cases "int (home k) = c_shard c") auto
  have lt: "int (home k) < c_shard c'" if "k \<in> set seen" for k
    using p'(7) [OF that] p'(4) [of k] c'(1) by (auto dest: in_set_takeD)
  show ?thesis
  proof (rule progressI, goal_cases)
    case (4 k) then show ?case by (rule homes)
  next
    case (6 k) then show ?case by (rule p'(6))
  next
    case (7 k) then show ?case using lt by blast
  next
    case (8 k) then show ?case by (rule old)
  next
    case (9 k) then show ?case by (rule K)
  next
    case (10 k) then show ?case by (simp add: c'(3))
  qed (use p'(5) pos c'(2) keys in simp_all)
qed

lemma progress_done:
  assumes p: "progress home n K pat seen c" and all: "c_pos c \<ge> length (c_keys c)"
    and last: "c_shard c + 1 \<ge> int n" and h: "\<forall>k \<in> K. home k < n"
  shows "complete K pat seen"
proof -
  note p' = progressD [OF p]
  have "k \<in> set seen" if "k \<in> K" "wanted pat k" for k
  proof (cases "int (home k) = c_shard c")
    case True
    with that all p'(9,10) [of k] show ?thesis by simp
  next
    case False
    with that(1) h last have "int (home k) < c_shard c" by fastforce
    with that show ?thesis by (rule p'(8))
  qed
  with p'(5,6) show ?thesis by (simp add: complete_def)
qed

lemma progress_fresh: "progress home n K pat [] (fresh_cursor i ow now)"
  by (simp add: progress_def fresh_cursor_def)

lemma progress_touch: "progress home n K pat seen (c\<lparr>c_lastUsed := t\<rparr>) = progress home n K pat seen c"
  by (simp add: progress_def)

section \<open>A page\<close>

lemma page_loop_progress:
  assumes "in_use c r" and "snap_fits (maxBytes r) shs" and "\<forall>i. range_order (ord i)"
    and "homed home shs" and "\<forall>k \<in> K. stable home sn ln shs k"
    and "progress home (length shs) K pat (before @ keys) c"
    and "page_loop ord sn ln shs pat left keys c r = (Inr (keys', nxt), r')"
  shows "(\<exists>c'. nxt = c_id c' \<and> map_of (cursors r') nxt = Some c' \<and> c_id c' = c_id c
            \<and> progress home (length shs) K pat (before @ keys') c')
    \<or> (nxt = ScanCursorStart \<and> complete K pat (before @ keys'))"
  using assms
proof (induction ord sn ln shs pat left keys c r rule: page_loop.induct)
  case (1 ord sn ln shs pat left keys c r)
  show ?case
  proof (cases "left = 0")
    case True
    then have "keys' = keys" "nxt = c_id c" "r' = r"
      using 1(9) by (subst (asm) page_loop.simps, simp)+
    then show ?thesis using 1(3,8) by (auto simp: in_use_def)
  next
    case l: False
    show ?thesis
    proof (cases "c_pos c \<ge> length (c_keys c)")
      case True
      obtain ares c' r1 where adv: "advance_locked ord sn shs c r = (ares, c', r1)"
        by (cases "advance_locked ord sn shs c r")
      note a = advance_locked_use [OF 1(3,4,5) adv]
      consider (err) err where "ares = Inl err" | (fin) "ares = Inr False" | (more) "ares = Inr True"
        by (cases ares) auto
      then show ?thesis
      proof cases
        case err
        with l True adv 1(9) show ?thesis by (subst (asm) page_loop.simps) simp
      next
        case fin
        then have "c_shard c + 1 \<ge> int (length shs)"
          using adv by (auto simp: advance_locked_def Let_def split: if_splits prod.splits bool.splits)
        moreover have "keys' = keys" "nxt = ScanCursorStart"
          using fin l True adv 1(9) by (subst (asm) page_loop.simps, simp)+
        moreover have "\<forall>k \<in> K. home k < length shs" using 1(7) by (simp add: stable_def)
        ultimately show ?thesis using progress_done [OF 1(8) True] by simp
      next
        case more
        have "page_loop ord sn ln shs pat left keys c' r1 = (Inr (keys', nxt), r')"
          using l True adv 1(9) more by (subst (asm) page_loop.simps) simp
        moreover have adv': "advance_locked ord sn shs c r = (Inr True, c', r1)"
          using adv more by simp
        moreover have "progress home (length shs) K pat (before @ keys) c'"
          using progress_advance [OF 1(8) True 1(6,7,5)] a more advance_locked_shard [OF adv'] by simp
        ultimately show ?thesis using 1(1) [OF l True _ _ _ refl] a 1(4-7) more by simp
      qed
    next
      case False
      define tk where "tk = min left (length (c_keys c) - c_pos c)"
      define c' where "c' = c\<lparr>c_pos := c_pos c + tk\<rparr>"
      have use: "in_use c' (write_cursor c' r)"
        using 1(3) write_cursor_inv [of r c' c] charged_write [of None r c' "snapBytes r"]
          reg_invD(1) [of r]
        by (auto simp: in_use_def c'_def charged_def charge_def dest!: map_of_SomeD)
      let ?b = "take tk (drop (c_pos c) (c_keys c))" and ?s = "shs ! nat (c_shard c)"
      have "page_loop ord sn ln shs pat (left - tk) (live_keys ln ?s ?b pat keys)
          c' (write_cursor c' r) = (Inr (keys', nxt), r')"
        using l False 1(9) by (subst (asm) page_loop.simps) (simp add: Let_def tk_def c'_def)
      moreover have "progress home (length shs) K pat (before @ live_keys ln ?s ?b pat keys) c'"
        using progress_batch [OF 1(8,7), of tk] by (simp add: live_keys_filter c'_def)
      ultimately show ?thesis
        using 1(2) [OF l False tk_def refl c'_def use] 1(4-7) by (simp add: c'_def)
    qed
  qed
qed

text \<open>
  A page as one client's scan sees it: the registry is reachable, the keys of \<open>K\<close> are live
  throughout, and the id generator never answers the start sentinel (\<open>random_cursor_id_not_start\<close>).
\<close>

definition scan_page ::
    "(bytes \<Rightarrow> nat) \<Rightarrow> nat \<Rightarrow> bytes set \<Rightarrow> bytes \<Rightarrow> scan_owner \<Rightarrow> bytes \<Rightarrow> bytes list \<Rightarrow> bytes \<Rightarrow>
     scan_registry \<Rightarrow> scan_registry \<Rightarrow> bool" where
  "scan_page home n K pat owner i keys nxt r r' \<longleftrightarrow>
     reg_inv r \<and> charged None r \<and>
     (\<exists>newID ord t1 t2 sn ln shs cnt.
        page newID ord t1 t2 sn ln shs owner i cnt pat r = (Inr (keys, nxt), r') \<and>
        snap_fits (maxBytes r) shs \<and> (\<forall>i. range_order (ord i)) \<and> length shs = n \<and>
        homed home shs \<and> (\<forall>k \<in> K. stable home sn ln shs k) \<and> (\<forall>j. newID j \<noteq> Some ScanCursorStart))"

inductive scan_run ::
    "(bytes \<Rightarrow> nat) \<Rightarrow> nat \<Rightarrow> bytes set \<Rightarrow> bytes \<Rightarrow> scan_owner \<Rightarrow>
     bytes list \<Rightarrow> bytes \<Rightarrow> scan_registry \<Rightarrow> bool" for home n K pat owner where
  run_first: "scan_page home n K pat owner ScanCursorStart keys nxt r r' \<Longrightarrow>
    scan_run home n K pat owner keys nxt r'"
| run_next: "scan_run home n K pat owner seen i r0 \<Longrightarrow> i \<noteq> ScanCursorStart \<Longrightarrow>
    map_of (cursors r) i = map_of (cursors r0) i \<Longrightarrow>
    scan_page home n K pat owner i keys nxt r r' \<Longrightarrow>
    scan_run home n K pat owner (seen @ keys) nxt r'"

definition scan_state ::
    "(bytes \<Rightarrow> nat) \<Rightarrow> nat \<Rightarrow> bytes set \<Rightarrow> bytes \<Rightarrow> bytes list \<Rightarrow> bytes \<Rightarrow> scan_registry \<Rightarrow> bool" where
  "scan_state home n K pat seen nxt r \<longleftrightarrow>
     (nxt = ScanCursorStart \<longrightarrow> complete K pat seen) \<and>
     (nxt \<noteq> ScanCursorStart \<longrightarrow>
        (\<exists>c. map_of (cursors r) nxt = Some c \<and> progress home n K pat seen c))"

text \<open>The cursor a page works with, and what is known of it.\<close>

lemma page_start:
  assumes pg: "scan_page home n K pat owner i keys nxt r r'"
    and start: "i = ScanCursorStart \<and> before = [] \<or>
      i \<noteq> ScanCursorStart \<and> (\<exists>c. map_of (cursors r) i = Some c \<and> progress home n K pat before c)"
  shows "scan_state home n K pat (before @ keys) nxt r'"
proof -
  from pg obtain newID ord t1 t2 sn ln shs cnt where
    pg': "page newID ord t1 t2 sn ln shs owner i cnt pat r = (Inr (keys, nxt), r')"
    and inv: "reg_inv r" "charged None r" and fits: "snap_fits (maxBytes r) shs"
    and ord: "\<forall>i. range_order (ord i)" and n: "length shs = n" and h: "homed home shs"
    and st: "\<forall>k \<in> K. stable home sn ln shs k" and ids: "\<forall>j. newID j \<noteq> Some ScanCursorStart"
    by (auto simp: scan_page_def)
  define r1 where "r1 = sweep_locked t1 r"
  have sh: "shrunk None r r1" unfolding r1_def by (rule sweep_shrunk [OF inv(1)])
  note s = shrunkD [OF sh]
  obtain cres r2 where rs: "resolve_locked newID t2 owner i r1 = (cres, r2)"
    by (cases "resolve_locked newID t2 owner i r1")
  have mb: "unat (maxBytes r1) + 128 < 2 ^ 64" using fits s(3) by (simp add: snap_fits_def)
  note u = resolve_locked_use [OF s(1) s(2) [OF inv(2)] mb rs]
  obtain c where c: "cres = Inr c" and lp: "page_loop ord sn ln shs pat cnt [] c r2 = (Inr (keys, nxt), r')"
    using pg' rs by (cases cres) (simp_all add: page_def r1_def [symmetric])
  have "c_id c \<noteq> ScanCursorStart \<and> progress home n K pat before c"
  proof (cases "i = ScanCursorStart")
    case True
    then have "open_locked newID t2 owner r1 = (Inr c, r2)" using rs c by (simp add: resolve_locked_def)
    from open_locked_inv [OF s(1) s(2) [OF inv(2)] mb this]
    have "c = fresh_cursor (c_id c) owner t2" "\<exists>j. newID j = Some (c_id c)" by blast+
    then show ?thesis using True start ids progress_fresh by metis
  next
    case False
    then obtain d where d: "map_of (cursors r) i = Some d" "progress home n K pat before d"
      using start by auto
    from rs c False obtain d' where "map_of (cursors r1) i = Some d'" "c = d'\<lparr>c_lastUsed := t2\<rparr>"
      by (auto simp: resolve_locked_def split: option.splits if_splits)
    moreover from this s(7) d(1) have "d' = d" by fastforce
    ultimately show ?thesis using d reg_inv_id [OF inv(1) d(1)] False by (simp add: progress_touch)
  qed
  moreover have "in_use c r2" "snap_fits (maxBytes r2) shs" using u c s(3) fits by simp_all
  ultimately show ?thesis
    using page_loop_progress [OF _ _ ord h st, of c r2 pat before "[]", OF _ _ _ lp] n
    by (auto simp: scan_state_def)
qed

lemma scan_run_state:
  "scan_run home n K pat owner seen nxt r \<Longrightarrow> scan_state home n K pat seen nxt r"
proof (induction rule: scan_run.induct)
  case (run_first keys nxt r r')
  then show ?case using page_start [of home n K pat owner _ keys nxt r r' "[]"] by simp
next
  case (run_next seen i r0 r keys nxt r')
  then show ?case using page_start [OF run_next(4), of seen] by (simp add: scan_state_def)
qed

lemma distinct_count_list: "distinct xs \<Longrightarrow> k \<in> set xs \<Longrightarrow> count_list xs k = 1"
proof (induction xs)
  case (Cons x xs)
  then show ?case by (auto simp: count_notin)
qed simp

text \<open>
  C13. A scan that ran to the end returned every key that stayed live throughout, and matches, exactly
  once, and returned nothing twice; whatever was written, deleted or expired between its pages.
\<close>

theorem scan_exactly_once:
  assumes "scan_run home n K pat owner seen ScanCursorStart r"
  shows "distinct seen \<and> (\<forall>k \<in> K. pat = [] \<or> match_glob pat k \<longrightarrow> count_list seen k = 1)
    \<and> (\<forall>k \<in> set seen. pat = [] \<or> match_glob pat k)"
proof -
  have "complete K pat seen"
    using scan_run_state [OF assms] by (simp add: scan_state_def)
  then show ?thesis
    by (auto simp: complete_def wanted_def distinct_count_list)
qed

text \<open>Two keys in one shard, read in two pages; the second page finishes the scan.\<close>

definition demo_scan_shard :: shard where
  "demo_scan_shard = new_shard\<lparr>data := [(''a'', new_entry 1 ''a'' ''v'' 0), (''b'', new_entry 1 ''b'' ''w'' 0)]\<rparr>"

definition demo_page :: "bytes \<Rightarrow> nat \<Rightarrow> scan_registry \<Rightarrow>
    (scan_error + bytes list \<times> bytes) \<times> scan_registry" where
  "demo_page i cnt r =
     page (\<lambda>_. Some ''7'') (\<lambda>_ xs. xs) 5 5 (\<lambda>_. 5) (\<lambda>_. 5) [demo_scan_shard] 1 i cnt [] r"

definition demo_r0 :: scan_registry where "demo_r0 = new_scan_registry 0 0 0"
definition demo_r1 :: scan_registry where "demo_r1 = snd (demo_page ScanCursorStart 1 demo_r0)"
definition demo_r2 :: scan_registry where "demo_r2 = snd (demo_page ''7'' 5 demo_r1)"

lemma demo_page1: "fst (demo_page ScanCursorStart 1 demo_r0) = Inr ([''a''], ''7'')"
  by code_simp

lemma demo_page2: "fst (demo_page ''7'' 5 demo_r1) = Inr ([''b''], ''0'')"
  by code_simp

lemma demo_scan_page:
  assumes "reg_inv r" and "charged None r" and "maxBytes r = DefaultMaxScanSnapshotBytes"
    and "fst (demo_page i cnt r) = Inr (keys, nxt)"
  shows "scan_page (\<lambda>_. 0) 1 {''a'', ''b''} [] 1 i keys nxt r (snd (demo_page i cnt r))"
proof -
  have "snap_fits DefaultMaxScanSnapshotBytes [demo_scan_shard]"
    by (simp add: snap_fits_def DefaultMaxScanSnapshotBytes_def shard_snap_def demo_scan_shard_def)
  moreover have "homed (\<lambda>_. 0) [demo_scan_shard]"
    by (simp add: homed_def demo_scan_shard_def)
  moreover have "\<forall>k \<in> {''a'', ''b''}. stable (\<lambda>_. 0) (\<lambda>_. 5) (\<lambda>_. 5) [demo_scan_shard] k"
    by (simp add: stable_def demo_scan_shard_def is_expired_def new_entry_def)
  moreover have "page (\<lambda>_. Some ''7'') (\<lambda>_ xs. xs) 5 5 (\<lambda>_. 5) (\<lambda>_. 5) [demo_scan_shard] 1 i cnt [] r
      = (Inr (keys, nxt), snd (demo_page i cnt r))"
    using assms(4) by (metis demo_page_def prod.collapse)
  ultimately show ?thesis
    using assms(1-3) unfolding scan_page_def
    by (intro conjI exI [of _ "\<lambda>_. Some ''7''"] exI [of _ "\<lambda>_ xs. xs"] exI [of _ 5] exI [of _ "\<lambda>_. 5"]
        exI [of _ "[demo_scan_shard]"] exI [of _ cnt])
      (auto simp: range_order_def ScanCursorStart_def)
qed

lemma demo_r1_inv: "reg_inv demo_r1 \<and> charged None demo_r1 \<and> maxBytes demo_r1 = DefaultMaxScanSnapshotBytes"
proof -
  have "scan_reach 0 0 0 demo_r0" unfolding demo_r0_def by (rule scr_new)
  moreover have "scan_step demo_r0 demo_r1"
    unfolding demo_r1_def demo_page_def
    by (rule sc_page) (auto simp: range_order_def snap_fits_def demo_r0_def new_scan_registry_def
        DefaultMaxScanSnapshotBytes_def shard_snap_def demo_scan_shard_def)
  ultimately have "scan_reach 0 0 0 demo_r1" by (rule scr_step)
  from scan_reach_inv [OF this] show ?thesis by simp
qed

lemma demo_run: "scan_run (\<lambda>_. 0) 1 {''a'', ''b''} [] 1 [''a'', ''b''] ScanCursorStart demo_r2"
proof -
  have "scan_page (\<lambda>_. 0) 1 {''a'', ''b''} [] 1 ScanCursorStart [''a''] ''7'' demo_r0 demo_r1"
    unfolding demo_r1_def
    by (rule demo_scan_page [OF _ _ _ demo_page1])
      (simp_all only: demo_r0_def reg_inv_new charged_new, simp add: new_scan_registry_def)
  then have "scan_run (\<lambda>_. 0) 1 {''a'', ''b''} [] 1 [''a''] ''7'' demo_r1" by (rule run_first)
  moreover have "scan_page (\<lambda>_. 0) 1 {''a'', ''b''} [] 1 ''7'' [''b''] ''0'' demo_r1 demo_r2"
    unfolding demo_r2_def using demo_page2 demo_r1_inv by (intro demo_scan_page) simp_all
  ultimately have "scan_run (\<lambda>_. 0) 1 {''a'', ''b''} [] 1 ([''a''] @ [''b'']) ''0'' demo_r2"
    by (intro run_next) (simp_all add: ScanCursorStart_def)
  then show ?thesis by (simp add: ScanCursorStart_def)
qed

theorem scan_exactly_once_witness: "count_list [''a'', ''b''] ''b'' = 1 \<and> distinct [''a'', ''b'']"
  using scan_exactly_once [OF demo_run] by blast

end
