(* ===== verification/Wheel.thy ===== *)
theory Wheel
  imports Prelude
begin

text \<open>
  \<open>internal/ttl/wheel.go\<close>: one striped instance of the four-level hierarchical time wheel. Ticks
  are natural numbers: the code's \<open>uint64\<close> counts tenths of seconds from the process's epoch, and
  every subtraction it does is of a smaller tick from a larger one. The hint counter keeps its
  width. Each operation is one critical section of the wheel's mutex.

  The wheel is proved to refine a bag of hints in which an advance to tick \<open>t\<close> fires exactly the
  hints due at \<open>t\<close>: none early, none late, none lost, whatever level or overflow list held them.
\<close>

section \<open>State and operations\<close>

definition levelCount :: nat where "levelCount = 4"

text \<open>\<open>l0Bits\<close> to \<open>l3Bits\<close>, with the shift of each level, and \<open>levelSpans\<close>.\<close>

definition level_specs :: "(nat \<times> nat) list" where
  "level_specs = [(8, 0), (6, 8), (6, 8 + 6), (5, 8 + 6 + 6)]"

definition levelSpans :: "nat list" where
  "levelSpans = [2 ^ 8, 2 ^ (8 + 6), 2 ^ (8 + 6 + 6), 2 ^ (8 + 6 + 6 + 5)]"

record hint =
  hint_key :: bytes
  expireTick :: nat
  hint_shard :: int

record level =
  slots :: "hint list list"
  shift :: nat
  mask :: nat

record wheel =
  wheel_current :: nat
  levels :: "level list"
  overflow :: "hint list"
  pending :: u64

definition new_wheel :: wheel where
  "new_wheel =
     \<lparr>wheel_current = 0,
      levels = map (\<lambda>(bits, s). \<lparr>slots = replicate (2 ^ bits) [], shift = s, mask = 2 ^ bits - 1\<rparr>)
                 level_specs,
      overflow = [], pending = 0\<rparr>"

definition slot_index :: "level \<Rightarrow> nat \<Rightarrow> nat" where
  "slot_index l t = drop_bit (shift l) t AND mask l"

definition set_slot :: "nat \<Rightarrow> nat \<Rightarrow> hint list \<Rightarrow> wheel \<Rightarrow> wheel" where
  "set_slot lv idx hs w =
     (let l = levels w ! lv in w\<lparr>levels := (levels w)[lv := l\<lparr>slots := (slots l)[idx := hs]\<rparr>]\<rparr>)"

definition wheel_insert :: "hint \<Rightarrow> nat \<Rightarrow> wheel \<Rightarrow> wheel" where
  "wheel_insert h earliest w =
     (let h = (if expireTick h < earliest then h\<lparr>expireTick := earliest\<rparr> else h);
          delta = expireTick h - wheel_current w
      in case find (\<lambda>i. delta < levelSpans ! i) [0..<levelCount] of
           Some i \<Rightarrow>
             let l = levels w ! i; idx = slot_index l (expireTick h)
             in set_slot i idx (slots l ! idx @ [h]) w
         | None \<Rightarrow> w\<lparr>overflow := overflow w @ [h]\<rparr>)"

definition wheel_add :: "hint \<Rightarrow> wheel \<Rightarrow> wheel" where
  "wheel_add h w =
     (let w = wheel_insert h (wheel_current w + 1) w in w\<lparr>pending := pending w + 1\<rparr>)"

definition requeue :: "hint \<Rightarrow> wheel \<Rightarrow> wheel" where
  "requeue h w =
     (let w = wheel_insert (h\<lparr>expireTick := wheel_current w + 1\<rparr>) (wheel_current w + 1) w
      in w\<lparr>pending := pending w + 1\<rparr>)"

definition insert_all :: "hint list \<Rightarrow> wheel \<Rightarrow> wheel" where
  "insert_all hs w = fold (\<lambda>h w. wheel_insert h (wheel_current w) w) hs w"

definition cascade :: "nat \<Rightarrow> wheel \<Rightarrow> nat \<times> wheel" where
  "cascade lv w =
     (let l = levels w ! lv; idx = slot_index l (wheel_current w); slot = slots l ! idx
      in (idx, if slot \<noteq> [] then set_slot lv idx [] (insert_all slot w) else w))"

definition drain_overflow :: "wheel \<Rightarrow> wheel" where
  "drain_overflow w =
     (if overflow w = [] then w else insert_all (overflow w) (w\<lparr>overflow := []\<rparr>))"

fun cascade_levels :: "nat list \<Rightarrow> wheel \<Rightarrow> wheel" where
  "cascade_levels [] w = drain_overflow w"
| "cascade_levels (lv # lvs) w =
     (let (idx, w') = cascade lv w in if idx \<noteq> 0 then w' else cascade_levels lvs w')"

definition cascade_chain :: "wheel \<Rightarrow> wheel" where
  "cascade_chain w = cascade_levels [1..<levelCount] w"

definition advance :: "hint list \<Rightarrow> wheel \<Rightarrow> hint list \<times> wheel" where
  "advance dst w =
     (let w = w\<lparr>wheel_current := wheel_current w + 1\<rparr>;
          idx = wheel_current w AND mask (levels w ! 0);
          w = (if idx = 0 then cascade_chain w else w);
          slot = slots (levels w ! 0) ! idx
      in if slot = [] then (dst, w)
         else (dst @ slot,
               set_slot 0 idx [] (w\<lparr>pending := pending w - of_nat (length slot)\<rparr>)))"

definition wheel_counts :: "wheel \<Rightarrow> u64 \<times> u64" where
  "wheel_counts w = (pending w, of_nat (length (overflow w)))"

section \<open>The geometry\<close>

text \<open>
  Level \<open>i\<close> covers \<open>2 ^ reach i\<close> to \<open>2 ^ reach (i + 1)\<close> ticks of remaining time; its slots are
  \<open>2 ^ reach i\<close> ticks wide. Level 4 stands for the overflow list.
\<close>

definition reach :: "nat \<Rightarrow> nat" where
  "reach i = [0, 8, 14, 20, 25] ! i"

definition ring :: "nat \<Rightarrow> nat" where
  "ring i = [8, 6, 6, 5] ! i"

lemma less_4: "i < 4 \<Longrightarrow> i = 0 \<or> i = 1 \<or> i = 2 \<or> i = (3::nat)"
  by arith

lemma reach_simps [simp]:
  "reach 0 = 0" "reach (Suc 0) = 8" "reach 1 = 8" "reach 2 = 14" "reach 3 = 20" "reach 4 = 25"
  by (simp_all add: reach_def)

lemma ring_simps [simp]: "ring 0 = 8" "ring (Suc 0) = 6" "ring 1 = 6" "ring 2 = 6" "ring 3 = 5"
  by (simp_all add: ring_def)

lemma reach_Suc: "i < 4 \<Longrightarrow> reach (Suc i) = reach i + ring i"
  by (drule less_4) (auto simp: reach_def ring_def)

lemma reach_mono: "i \<le> j \<Longrightarrow> j \<le> 4 \<Longrightarrow> reach i \<le> reach j"
proof (induction rule: dec_induct)
  case (step n)
  then show ?case by (simp add: reach_Suc)
qed simp

definition fit :: "nat \<Rightarrow> nat" where
  "fit d = (case find (\<lambda>i. d < levelSpans ! i) [0..<levelCount] of Some i \<Rightarrow> i | None \<Rightarrow> 4)"

lemma find_levels:
  "find P [0..<levelCount] =
     (if P 0 then Some 0 else if P 1 then Some 1 else if P 2 then Some 2 else if P 3 then Some 3
      else None)"
proof -
  have "[0..<levelCount] = [0, 1, 2, 3]" by (simp add: levelCount_def upt_rec)
  then show ?thesis by simp
qed

lemma fit_cases: "fit d = (if d < 2 ^ 8 then 0 else if d < 2 ^ 14 then 1 else if d < 2 ^ 20 then 2
    else if d < 2 ^ 25 then 3 else 4)"
  by (simp add: fit_def find_levels levelSpans_def)

lemma fit_le: "fit d \<le> 4"
  by (simp add: fit_cases)

lemma fit_below: "fit d < 4 \<Longrightarrow> d < 2 ^ reach (Suc (fit d))"
  by (auto simp: fit_cases reach_def split: if_splits)

lemma fit_above: "0 < fit d \<Longrightarrow> 2 ^ reach (fit d) \<le> d"
  by (auto simp: fit_cases split: if_splits)

lemma fit_less: "d < 2 ^ reach i \<Longrightarrow> 0 < i \<Longrightarrow> i \<le> 4 \<Longrightarrow> fit d < i"
proof -
  assume a: "d < 2 ^ reach i" "0 < i" "i \<le> 4"
  then have "i = 1 \<or> i = 2 \<or> i = 3 \<or> i = 4" by arith
  with a show ?thesis by (auto simp: fit_cases)
qed

text \<open>Where a tick lies in the window of a level, in units of the level's slots.\<close>

lemma div_window:
  fixes c d :: nat
  assumes "d < 2 ^ (s + b)"
  shows "(c + d) div 2 ^ s \<le> c div 2 ^ s + 2 ^ b"
proof -
  have "c < (c div 2 ^ s + 1) * 2 ^ s"
    by (metis add.commute dividend_less_times_div mult.commute plus_1_eq_Suc mult_Suc zero_less_numeral zero_less_power)
  then have "c + d < (c div 2 ^ s + 1 + 2 ^ b) * 2 ^ s"
    using assms by (simp add: power_add algebra_simps)
  then have "(c + d) div 2 ^ s < c div 2 ^ s + 1 + 2 ^ b"
    by (simp add: div_less_iff_less_mult)
  then show ?thesis by simp
qed

lemma div_later:
  fixes c d :: nat
  assumes "2 ^ s \<le> d"
  shows "c div 2 ^ s < (c + d) div 2 ^ s"
proof -
  have "c div 2 ^ s + 1 = (c + 2 ^ s) div 2 ^ s" by (subst div_add_self2) simp_all
  also have "\<dots> \<le> (c + d) div 2 ^ s" by (rule div_le_mono) (use assms in simp)
  finally show ?thesis by simp
qed

lemma div_pred:
  fixes c :: nat
  assumes "\<not> 2 ^ s dvd Suc c"
  shows "Suc c div 2 ^ s = c div 2 ^ s"
  using assms by (simp add: div_Suc dvd_eq_mod_eq_0)

lemma div_pred_dvd:
  fixes c :: nat
  assumes "2 ^ s dvd Suc c"
  shows "Suc c div 2 ^ s = Suc (c div 2 ^ s)"
  using assms by (simp add: div_Suc dvd_eq_mod_eq_0)

lemma window_slot:
  fixes q x :: nat
  assumes "q < x" "x \<le> q + 2 ^ b" "x mod 2 ^ b = Suc q mod 2 ^ b"
  shows "x = Suc q"
proof (rule ccontr)
  assume "x \<noteq> Suc q"
  with assms(1) have "Suc q < x" by simp
  then have "2 ^ b dvd x - Suc q" using assms(3) by (simp add: mod_eq_dvd_iff_nat)
  then have "2 ^ b \<le> x - Suc q" using \<open>Suc q < x\<close> by (intro dvd_imp_le) auto
  with assms(2) \<open>Suc q < x\<close> show False by simp
qed

lemma and_mask_nat: "x AND (2 ^ b - 1) = x mod (2 ^ b :: nat)"
  by (simp add: take_bit_eq_mask mask_eq_exp_minus_1 flip: take_bit_eq_mod)

section \<open>Where hints may be\<close>

text \<open>
  \<open>wheel_at q w\<close>: level \<open>i\<close> has been cascaded up to slot number \<open>q i\<close> of its unbounded slot
  sequence, and holds hints of the next \<open>2 ^ ring i\<close> slots only, each where its tick says. The
  overflow list holds hints past the turn \<open>q 4\<close> of the top level.
\<close>

definition in_window :: "(nat \<Rightarrow> nat) \<Rightarrow> nat \<Rightarrow> nat \<Rightarrow> bool" where
  "in_window q i t \<longleftrightarrow>
     q i < t div 2 ^ reach i \<and> (i < 4 \<longrightarrow> t div 2 ^ reach i \<le> q i + 2 ^ ring i)"

definition level_ok :: "nat \<Rightarrow> level \<Rightarrow> bool" where
  "level_ok i l \<longleftrightarrow> shift l = reach i \<and> mask l = 2 ^ ring i - 1 \<and> List.length (slots l) = 2 ^ ring i"

definition wheel_at :: "(nat \<Rightarrow> nat) \<Rightarrow> wheel \<Rightarrow> bool" where
  "wheel_at q w \<longleftrightarrow>
     List.length (levels w) = 4 \<and> (\<forall>i < 4. level_ok i (levels w ! i)) \<and>
     (\<forall>i < 4. \<forall>k < 2 ^ ring i. \<forall>h \<in> set (slots (levels w ! i) ! k).
        k = (expireTick h div 2 ^ reach i) mod 2 ^ ring i \<and> in_window q i (expireTick h)) \<and>
     (\<forall>h \<in> set (overflow w). in_window q 4 (expireTick h))"

definition level_hints :: "level \<Rightarrow> hint multiset" where
  "level_hints l = mset (concat (slots l))"

definition hints :: "wheel \<Rightarrow> hint multiset" where
  "hints w = (\<Sum>l \<leftarrow> levels w. level_hints l) + mset (overflow w)"

lemma slot_index_ok:
  "level_ok i l \<Longrightarrow> slot_index l t = (t div 2 ^ reach i) mod 2 ^ ring i"
  using and_mask_nat [of "t div 2 ^ reach i" "ring i"]
  by (simp add: slot_index_def level_ok_def drop_bit_eq_div)

lemma slot_index_less: "level_ok i l \<Longrightarrow> slot_index l t < 2 ^ ring i"
  by (simp add: slot_index_ok)

lemma wheel_at_level: "wheel_at q w \<Longrightarrow> i < 4 \<Longrightarrow> level_ok i (levels w ! i)"
  by (simp add: wheel_at_def)

lemma wheel_at_length: "wheel_at q w \<Longrightarrow> List.length (levels w) = 4"
  by (simp add: wheel_at_def)

lemma wheel_at_slot:
  "wheel_at q w \<Longrightarrow> i < 4 \<Longrightarrow> k < 2 ^ ring i \<Longrightarrow> h \<in> set (slots (levels w ! i) ! k) \<Longrightarrow>
     k = (expireTick h div 2 ^ reach i) mod 2 ^ ring i \<and> in_window q i (expireTick h)"
  by (simp add: wheel_at_def)

lemma wheel_at_overflow:
  "wheel_at q w \<Longrightarrow> h \<in> set (overflow w) \<Longrightarrow> in_window q 4 (expireTick h)"
  by (simp add: wheel_at_def)

lemma wheel_at_current [simp]:
  "wheel_at q (w\<lparr>wheel_current := c\<rparr>) = wheel_at q w" "hints (w\<lparr>wheel_current := c\<rparr>) = hints w"
  "wheel_at q (w\<lparr>pending := p\<rparr>) = wheel_at q w" "hints (w\<lparr>pending := p\<rparr>) = hints w"
  by (simp_all add: wheel_at_def hints_def)

text \<open>Replacing the content of one slot.\<close>

lemma set_slot_simps [simp]:
  "wheel_current (set_slot i k hs w) = wheel_current w"
  "overflow (set_slot i k hs w) = overflow w"
  "pending (set_slot i k hs w) = pending w"
  "List.length (levels (set_slot i k hs w)) = List.length (levels w)"
  by (simp_all add: set_slot_def Let_def)

lemma slots_set_slot:
  "i < List.length (levels w) \<Longrightarrow>
     slots (levels (set_slot i k hs w) ! j) =
       (if j = i then (slots (levels w ! i))[k := hs] else slots (levels w ! j))"
  by (simp add: set_slot_def Let_def nth_list_update)

lemma level_ok_set_slot:
  "i < List.length (levels w) \<Longrightarrow>
     level_ok j (levels (set_slot i k hs w) ! j) = level_ok j (levels w ! j)"
  by (simp add: set_slot_def Let_def nth_list_update level_ok_def)

lemma mset_concat_update:
  "k < List.length xss \<Longrightarrow> mset (concat (xss[k := ys])) + mset (xss ! k) = mset (concat xss) + mset ys"
proof (induction xss arbitrary: k)
  case (Cons xs xss)
  then show ?case by (cases k) (auto simp: ac_simps)
qed simp

lemma sum_list_update_mset:
  fixes f :: "'a \<Rightarrow> 'b multiset"
  shows "i < List.length xs \<Longrightarrow> sum_list (map f (xs[i := y])) + f (xs ! i) = sum_list (map f xs) + f y"
proof (induction xs arbitrary: i)
  case (Cons x xs)
  then show ?case by (cases i) (auto simp: ac_simps)
qed simp

lemma hints_set_slot:
  assumes "i < List.length (levels w)" "k < List.length (slots (levels w ! i))"
  shows "hints (set_slot i k hs w) + mset (slots (levels w ! i) ! k) = hints w + mset hs"
proof -
  let ?l = "levels w ! i" let ?l' = "?l\<lparr>slots := (slots ?l)[k := hs]\<rparr>"
  have 1: "sum_list (map level_hints ((levels w)[i := ?l'])) + level_hints ?l
      = sum_list (map level_hints (levels w)) + level_hints ?l'"
    by (rule sum_list_update_mset) (rule assms)
  have 2: "level_hints ?l' + mset (slots ?l ! k) = level_hints ?l + mset hs"
    using mset_concat_update [OF assms(2), of hs] by (simp add: level_hints_def)
  have "hints (set_slot i k hs w) + mset (slots ?l ! k) + (level_hints ?l + level_hints ?l')
      = hints w + mset hs + (level_hints ?l + level_hints ?l')"
  proof -
    have "hints (set_slot i k hs w) = sum_list (map level_hints ((levels w)[i := ?l'])) + mset (overflow w)"
      by (simp add: hints_def set_slot_def Let_def)
    then have "hints (set_slot i k hs w) + mset (slots ?l ! k) + (level_hints ?l + level_hints ?l')
        = (sum_list (map level_hints ((levels w)[i := ?l'])) + level_hints ?l)
          + (level_hints ?l' + mset (slots ?l ! k)) + mset (overflow w)"
      by (simp only: ac_simps)
    also have "\<dots> = hints w + mset hs + (level_hints ?l + level_hints ?l')"
      unfolding 1 2 by (simp add: hints_def ac_simps)
    finally show ?thesis .
  qed
  then show ?thesis by simp
qed

text \<open>A slot may be extended by hints that belong there, or emptied.\<close>

lemma wheel_at_set_slot:
  assumes w: "wheel_at q w" and i: "i < 4"
    and hs: "\<And>h. h \<in> set hs \<Longrightarrow>
      k = (expireTick h div 2 ^ reach i) mod 2 ^ ring i \<and> in_window q i (expireTick h)"
  shows "wheel_at q (set_slot i k hs w)"
proof -
  have len: "List.length (levels w) = 4" by (rule wheel_at_length [OF w])
  have sl: "m = (expireTick h div 2 ^ reach j) mod 2 ^ ring j \<and> in_window q j (expireTick h)"
    if "j < 4" "m < 2 ^ ring j" "h \<in> set (slots (levels (set_slot i k hs w) ! j) ! m)" for j m h
  proof (cases "j = i \<and> m = k")
    case True
    have "h \<in> set hs"
    proof -
      have "List.length (slots (levels w ! i)) = 2 ^ ring i"
        using wheel_at_level [OF w i] by (simp add: level_ok_def)
      then show ?thesis using that True i len by (simp add: slots_set_slot)
    qed
    then show ?thesis using hs True by simp
  next
    case False
    have "h \<in> set (slots (levels w ! j) ! m)"
      using that False i len by (cases "j = i") (auto simp: slots_set_slot)
    then show ?thesis using wheel_at_slot [OF w that(1,2)] by simp
  qed
  have "\<forall>j < 4. level_ok j (levels (set_slot i k hs w) ! j)"
    using wheel_at_level [OF w] i len by (simp add: level_ok_set_slot)
  then show ?thesis
    using len wheel_at_overflow [OF w] sl by (simp add: wheel_at_def)
qed

section \<open>Insertion\<close>

text \<open>The hint as the wheel stores it.\<close>

definition pulled :: "nat \<Rightarrow> hint \<Rightarrow> hint" where
  "pulled earliest h = (if expireTick h < earliest then h\<lparr>expireTick := earliest\<rparr> else h)"

lemma pulled_tick [simp]: "expireTick (pulled e h) = max (expireTick h) e"
  by (simp add: pulled_def max_def)

lemma pulled_id: "e \<le> expireTick h \<Longrightarrow> pulled e h = h"
  by (simp add: pulled_def)

lemma wheel_insert_eq:
  "wheel_insert h earliest w =
     (let h = pulled earliest h; i = fit (expireTick h - wheel_current w)
      in if i < 4
         then set_slot i (slot_index (levels w ! i) (expireTick h))
                (slots (levels w ! i) ! slot_index (levels w ! i) (expireTick h) @ [h]) w
         else w\<lparr>overflow := overflow w @ [h]\<rparr>)"
  by (simp add: wheel_insert_def pulled_def [symmetric] Let_def find_levels fit_def)

lemma wheel_insert_frame [simp]:
  "wheel_current (wheel_insert h e w) = wheel_current w"
  "pending (wheel_insert h e w) = pending w"
  by (simp_all add: wheel_insert_eq Let_def)

lemma hints_insert:
  assumes "wheel_at q w"
  shows "hints (wheel_insert h e w) = add_mset (pulled e h) (hints w)"
proof -
  let ?h = "pulled e h" let ?i = "fit (expireTick ?h - wheel_current w)"
  let ?k = "slot_index (levels w ! ?i) (expireTick ?h)"
  show ?thesis
  proof (cases "?i < 4")
    case True
    have ok: "level_ok ?i (levels w ! ?i)" by (rule wheel_at_level [OF assms True])
    then have "?k < List.length (slots (levels w ! ?i))"
      using slot_index_less [OF ok, of "expireTick ?h"] by (simp add: level_ok_def)
    then have "hints (set_slot ?i ?k (slots (levels w ! ?i) ! ?k @ [?h]) w)
        + mset (slots (levels w ! ?i) ! ?k) = hints w + mset (slots (levels w ! ?i) ! ?k @ [?h])"
      using wheel_at_length [OF assms] True by (intro hints_set_slot) simp_all
    then have "hints (set_slot ?i ?k (slots (levels w ! ?i) ! ?k @ [?h]) w)
        + mset (slots (levels w ! ?i) ! ?k) = hints w + {#?h#} + mset (slots (levels w ! ?i) ! ?k)"
      by simp
    then have "hints (set_slot ?i ?k (slots (levels w ! ?i) ! ?k @ [?h]) w) = hints w + {#?h#}"
      by (simp only: add_right_cancel)
    then show ?thesis using True by (simp add: wheel_insert_eq Let_def)
  next
    case False
    then show ?thesis by (simp add: wheel_insert_eq Let_def hints_def)
  qed
qed

lemma wheel_at_insert:
  assumes w: "wheel_at q w"
    and fits: "in_window q (fit (expireTick (pulled e h) - wheel_current w)) (expireTick (pulled e h))"
  shows "wheel_at q (wheel_insert h e w)"
proof -
  let ?h = "pulled e h" let ?i = "fit (expireTick ?h - wheel_current w)"
  let ?k = "slot_index (levels w ! ?i) (expireTick ?h)"
  show ?thesis
  proof (cases "?i < 4")
    case True
    have ok: "level_ok ?i (levels w ! ?i)" by (rule wheel_at_level [OF w True])
    have k: "?k = (expireTick ?h div 2 ^ reach ?i) mod 2 ^ ring ?i" by (rule slot_index_ok [OF ok])
    have "wheel_at q (set_slot ?i ?k (slots (levels w ! ?i) ! ?k @ [?h]) w)"
    proof (rule wheel_at_set_slot [OF w True])
      fix g assume "g \<in> set (slots (levels w ! ?i) ! ?k @ [?h])"
      then consider "g \<in> set (slots (levels w ! ?i) ! ?k)" | "g = ?h" by auto
      then show "?k = (expireTick g div 2 ^ reach ?i) mod 2 ^ ring ?i \<and> in_window q ?i (expireTick g)"
      proof cases
        case 1
        then show ?thesis by (rule wheel_at_slot [OF w True slot_index_less [OF ok]])
      next
        case 2
        then show ?thesis using k fits by simp
      qed
    qed
    then show ?thesis using True by (simp add: wheel_insert_eq Let_def)
  next
    case False
    then have "?i = 4" using fit_le [of "expireTick ?h - wheel_current w"] by simp
    then have "in_window q 4 (expireTick ?h)" using fits by simp
    then show ?thesis using w False by (auto simp: wheel_insert_eq Let_def wheel_at_def)
  qed
qed

text \<open>
  A hint not due before the current tick fits the window of the level insertion chooses, as long
  as that level has been cascaded up to now. Level 0's current slot has not been read yet during
  a cascade.
\<close>

lemma fit_window:
  assumes "wheel_current w + d = t" and "0 < fit d"
    and q: "q (fit d) = wheel_current w div 2 ^ reach (fit d)"
  shows "in_window q (fit d) t"
proof -
  have "q (fit d) < t div 2 ^ reach (fit d)"
    using div_later [OF fit_above [OF assms(2)], of "wheel_current w"] assms(1) q by simp
  moreover have "t div 2 ^ reach (fit d) \<le> q (fit d) + 2 ^ ring (fit d)" if "fit d < 4"
    using div_window [of d "reach (fit d)" "ring (fit d)" "wheel_current w"] fit_below [OF that]
      reach_Suc [OF that] assms(1) q by simp
  ultimately show ?thesis by (simp add: in_window_def)
qed

section \<open>Cascading\<close>

text \<open>
  \<open>stale c lv\<close>: the clock has moved to \<open>Suc c\<close> and the levels below \<open>lv\<close> have been cascaded;
  level 0 has not fired yet.
\<close>

definition stale :: "nat \<Rightarrow> nat \<Rightarrow> nat \<Rightarrow> nat" where
  "stale c lv = (\<lambda>i. if i = 0 then c else if i < lv then Suc c div 2 ^ reach i else c div 2 ^ reach i)"

lemma wheel_at_cong: "(\<And>i. i \<le> 4 \<Longrightarrow> q i = q' i) \<Longrightarrow> wheel_at q w = wheel_at q' w"
  by (simp add: wheel_at_def in_window_def)

lemma wheel_at_turn:
  assumes w: "wheel_at q w" and i: "i < 4"
    and empty: "slots (levels w ! i) ! (Suc (q i) mod 2 ^ ring i) = []"
  shows "wheel_at (q(i := Suc (q i))) w"
proof -
  have own: "in_window (q(i := Suc (q i))) i (expireTick h)"
    if k: "k < 2 ^ ring i" and h: "h \<in> set (slots (levels w ! i) ! k)" for k h
  proof -
    note sl = wheel_at_slot [OF w i k h]
    have "expireTick h div 2 ^ reach i \<noteq> Suc (q i)"
    proof
      assume "expireTick h div 2 ^ reach i = Suc (q i)"
      then have "k = Suc (q i) mod 2 ^ ring i" using sl by simp
      with h empty show False by simp
    qed
    with sl i show ?thesis by (auto simp: in_window_def)
  qed
  have "in_window (q(i := Suc (q i))) j (expireTick h)"
    if "j < 4" "k < 2 ^ ring j" "h \<in> set (slots (levels w ! j) ! k)" for j k h
  proof (cases "j = i")
    case True
    then show ?thesis using own that by blast
  next
    case False
    then show ?thesis using wheel_at_slot [OF w that] by (simp add: in_window_def)
  qed
  moreover have "in_window (q(i := Suc (q i))) 4 (expireTick h)" if "h \<in> set (overflow w)" for h
    using wheel_at_overflow [OF w that] i by (simp add: in_window_def)
  ultimately show ?thesis
    using wheel_at_length [OF w] wheel_at_level [OF w] wheel_at_slot [OF w] by (simp add: wheel_at_def)
qed

lemma insert_due:
  assumes "wheel_current w = Suc c" "wheel_at (stale c lv) w" "Suc c \<le> expireTick h"
    and "fit (expireTick h - Suc c) < lv"
  shows "wheel_at (stale c lv) (wheel_insert h (Suc c) w)"
proof -
  let ?d = "expireTick h - Suc c"
  have "in_window (stale c lv) (fit ?d) (expireTick h)"
  proof (cases "fit ?d")
    case 0
    then have "?d < 2 ^ 8" using fit_below [of ?d] by simp
    with 0 assms(3) show ?thesis by (simp add: in_window_def stale_def)
  next
    case (Suc n)
    then show ?thesis using assms by (intro fit_window [where d = ?d and w = w]) (auto simp: stale_def)
  qed
  then show ?thesis
    using assms by (intro wheel_at_insert) (simp_all add: pulled_id)
qed

lemma insert_levels_above:
  "fit (expireTick (pulled e h) - wheel_current w) < lv \<Longrightarrow>
     (lv \<le> j \<longrightarrow> levels (wheel_insert h e w) ! j = levels w ! j) \<and>
     (lv \<le> 4 \<longrightarrow> overflow (wheel_insert h e w) = overflow w)"
  by (auto simp: wheel_insert_eq Let_def set_slot_def)

lemma insert_all_due:
  assumes "wheel_current w = Suc c" "wheel_at (stale c lv) w"
    and "\<And>h. h \<in> set hs \<Longrightarrow> Suc c \<le> expireTick h \<and> fit (expireTick h - Suc c) < lv"
  shows "wheel_at (stale c lv) (insert_all hs w) \<and> wheel_current (insert_all hs w) = Suc c
    \<and> pending (insert_all hs w) = pending w \<and> hints (insert_all hs w) = mset hs + hints w
    \<and> (\<forall>j \<ge> lv. levels (insert_all hs w) ! j = levels w ! j)
    \<and> (lv \<le> 4 \<longrightarrow> overflow (insert_all hs w) = overflow w)"
  using assms
proof (induction hs arbitrary: w)
  case Nil
  then show ?case by (simp add: insert_all_def)
next
  case (Cons h hs)
  let ?w = "wheel_insert h (Suc c) w"
  have h: "Suc c \<le> expireTick h" "fit (expireTick h - Suc c) < lv" using Cons.prems(3) by auto
  have w': "wheel_at (stale c lv) ?w" using Cons.prems(1,2) h by (rule insert_due)
  have IH: "wheel_at (stale c lv) (insert_all hs ?w) \<and> wheel_current (insert_all hs ?w) = Suc c
    \<and> pending (insert_all hs ?w) = pending ?w \<and> hints (insert_all hs ?w) = mset hs + hints ?w
    \<and> (\<forall>j \<ge> lv. levels (insert_all hs ?w) ! j = levels ?w ! j)
    \<and> (lv \<le> 4 \<longrightarrow> overflow (insert_all hs ?w) = overflow ?w)"
    using Cons.prems w' by (intro Cons.IH) auto
  have "hints ?w = add_mset h (hints w)"
    using hints_insert [OF Cons.prems(2)] h(1) by (simp add: pulled_id)
  moreover have "insert_all (h # hs) w = insert_all hs ?w"
    using Cons.prems(1) by (simp add: insert_all_def)
  moreover have "\<forall>j \<ge> lv. levels ?w ! j = levels w ! j" "lv \<le> 4 \<longrightarrow> overflow ?w = overflow w"
    using insert_levels_above [of "Suc c" h w lv] h Cons.prems(1) by (auto simp: pulled_id)
  ultimately show ?case using IH by auto
qed

text \<open>The content of the slot a level is about to turn to.\<close>

lemma turning_slot:
  assumes w: "wheel_at q w" and i: "i < 4" and q: "Suc (q i) = n div 2 ^ reach i"
    and dvd: "2 ^ reach i dvd n"
    and h: "h \<in> set (slots (levels w ! i) ! ((n div 2 ^ reach i) mod 2 ^ ring i))"
  shows "n \<le> expireTick h \<and> expireTick h - n < 2 ^ reach i"
proof -
  have "(n div 2 ^ reach i) mod 2 ^ ring i = (expireTick h div 2 ^ reach i) mod 2 ^ ring i
      \<and> in_window q i (expireTick h)"
    using w i h by (intro wheel_at_slot) auto
  then have "expireTick h div 2 ^ reach i = Suc (q i)"
    using i q by (intro window_slot [where b = "ring i"]) (auto simp: in_window_def)
  then have t: "expireTick h div 2 ^ reach i = n div 2 ^ reach i" using q by simp
  have n: "n = 2 ^ reach i * (n div 2 ^ reach i)" using dvd by simp
  have "expireTick h = 2 ^ reach i * (expireTick h div 2 ^ reach i) + expireTick h mod 2 ^ reach i"
    by simp
  then have "expireTick h = n + expireTick h mod 2 ^ reach i" using t n by metis
  then show ?thesis
    by (metis le_add1 add_diff_cancel_left' mod_less_divisor zero_less_numeral zero_less_power)
qed

text \<open>One level turned, and what is left for the levels above it.\<close>

abbreviation moved :: "nat \<Rightarrow> nat \<Rightarrow> wheel \<Rightarrow> wheel \<Rightarrow> bool" where
  "moved c lv w w' \<equiv> wheel_at (stale c lv) w' \<and> wheel_current w' = Suc c
     \<and> pending w' = pending w \<and> hints w' = hints w"

lemma stale_Suc:
  assumes "0 < lv" "2 ^ reach lv dvd Suc c"
  shows "stale c (Suc lv) = (stale c lv)(lv := Suc (stale c lv lv))"
  using assms by (auto simp: stale_def fun_eq_iff div_pred_dvd less_Suc_eq)

lemma cascade_moves:
  assumes lv: "0 < lv" "lv < 4" and c: "wheel_current w = Suc c" and w: "wheel_at (stale c lv) w"
    and dvd: "2 ^ reach lv dvd Suc c" and res: "cascade lv w = (idx, w')"
  shows "idx = (Suc c div 2 ^ reach lv) mod 2 ^ ring lv" "moved c (Suc lv) w w'"
proof -
  let ?slot = "slots (levels w ! lv) ! idx"
  have ok: "level_ok lv (levels w ! lv)" by (rule wheel_at_level [OF w lv(2)])
  show idx: "idx = (Suc c div 2 ^ reach lv) mod 2 ^ ring lv"
    using res c by (auto simp: cascade_def Let_def slot_index_ok [OF ok])
  have q: "Suc (stale c lv lv) = Suc c div 2 ^ reach lv"
    using lv dvd by (simp add: stale_def div_pred_dvd)
  have due: "Suc c \<le> expireTick h \<and> fit (expireTick h - Suc c) < lv" if "h \<in> set ?slot" for h
    using turning_slot [OF w lv(2) q dvd, of h] fit_less [of "expireTick h - Suc c" lv] that lv idx
    by simp
  let ?w1 = "insert_all ?slot w"
  have w1: "wheel_at (stale c lv) ?w1" "wheel_current ?w1 = Suc c" "pending ?w1 = pending w"
    "hints ?w1 = mset ?slot + hints w" "levels ?w1 ! lv = levels w ! lv"
    using insert_all_due [OF c w due] by auto
  have len: "List.length (levels ?w1) = 4" "List.length (slots (levels ?w1 ! lv)) = 2 ^ ring lv"
    using wheel_at_length [OF w1(1)] ok w1(5) by (auto simp: level_ok_def)
  have less: "idx < 2 ^ ring lv" using idx by simp
  have w': "w' = (if ?slot \<noteq> [] then set_slot lv idx [] ?w1 else w)"
    using res by (auto simp: cascade_def Let_def)
  have cleared: "wheel_at (stale c lv) w' \<and> slots (levels w' ! lv) ! idx = []"
  proof (cases "?slot = []")
    case False
    have "wheel_at (stale c lv) (set_slot lv idx [] ?w1)"
      by (rule wheel_at_set_slot [OF w1(1) lv(2)]) simp
    then show ?thesis using False w' len lv less by (simp add: slots_set_slot)
  qed (use w w' in simp)
  then have "wheel_at ((stale c lv)(lv := Suc (stale c lv lv))) w'"
    using lv idx q by (intro wheel_at_turn) auto
  then have "wheel_at (stale c (Suc lv)) w'" by (simp add: stale_Suc [OF lv(1) dvd])
  moreover have "hints w' = hints w"
  proof (cases "?slot = []")
    case False
    have "hints (set_slot lv idx [] ?w1) + mset (slots (levels ?w1 ! lv) ! idx) = hints ?w1 + mset []"
      using len lv less by (intro hints_set_slot) simp_all
    then have "hints (set_slot lv idx [] ?w1) = hints w" using w1(4,5) by simp
    with False w' show ?thesis by simp
  qed (use w' in simp)
  ultimately show "moved c (Suc lv) w w'" using w' w1 c by simp
qed

lemma drain_overflow_moves:
  assumes c: "wheel_current w = Suc c" and w: "wheel_at (stale c 4) w"
    and dvd: "2 ^ reach 4 dvd Suc c"
  shows "moved c 5 w (drain_overflow w)"
proof -
  let ?w = "w\<lparr>overflow := []\<rparr>"
  have "wheel_at ((stale c 4)(4 := stale c 5 4)) ?w"
    using w by (simp add: wheel_at_def in_window_def)
  moreover have "((stale c 4)(4 := stale c 5 4)) i = stale c 5 i" if "i \<le> 4" for i
    using that by (simp add: stale_def)
  ultimately have w5: "wheel_at (stale c 5) ?w"
    using wheel_at_cong [of "(stale c 4)(4 := stale c 5 4)" "stale c 5"] by blast
  have due: "Suc c \<le> expireTick h \<and> fit (expireTick h - Suc c) < 5" if "h \<in> set (overflow w)" for h
  proof -
    have "stale c 4 4 < expireTick h div 2 ^ reach 4"
      using wheel_at_overflow [OF w that] by (simp add: in_window_def)
    then have "Suc c div 2 ^ reach 4 \<le> expireTick h div 2 ^ reach 4"
      using dvd by (simp add: stale_def div_pred_dvd)
    then have "2 ^ reach 4 * (Suc c div 2 ^ reach 4) \<le> expireTick h"
      by (metis div_times_less_eq_dividend le_trans mult.commute mult_le_mono2)
    then show ?thesis using dvd fit_le [of "expireTick h - Suc c"] by simp
  qed
  have "wheel_current ?w = Suc c" using c by simp
  note all = insert_all_due [OF this w5 due]
  have "hints w = mset (overflow w) + hints ?w" by (simp add: hints_def)
  then have "moved c 5 w (insert_all (overflow w) ?w)" using all by auto
  moreover have "moved c 5 w w" if "overflow w = []"
  proof -
    have "?w = w" using that by (cases w) simp
    with w5 c show ?thesis by metis
  qed
  ultimately show ?thesis by (simp add: drain_overflow_def)
qed

text \<open>When a level has not wrapped, the levels above it are not due.\<close>

lemma moved_top:
  assumes "0 < lv" "lv \<le> 4" "\<not> 2 ^ reach lv dvd Suc c" "wheel_at (stale c lv) w"
  shows "wheel_at (stale c 5) w"
proof -
  have "stale c lv i = stale c 5 i" if "i \<le> 4" for i
  proof (cases "i < lv")
    case False
    then have "(2::nat) ^ reach lv dvd 2 ^ reach i"
      using that reach_mono [of lv i] by (simp add: le_imp_power_dvd)
    then have "\<not> 2 ^ reach i dvd Suc c" using assms(3) dvd_trans by blast
    then show ?thesis using False that assms(1) by (simp add: stale_def div_pred)
  qed (use that assms in \<open>auto simp: stale_def\<close>)
  then show ?thesis using assms(4) wheel_at_cong [of "stale c lv" "stale c 5"] by simp
qed

lemma wraps_dvd:
  "lv < 4 \<Longrightarrow> 2 ^ reach lv dvd (n::nat) \<Longrightarrow>
     2 ^ reach (Suc lv) dvd n \<longleftrightarrow> (n div 2 ^ reach lv) mod 2 ^ ring lv = 0"
  by (auto simp: reach_Suc power_add elim!: dvdE intro: dvd_mult_div_cancel)

lemma cascade_levels_moves:
  assumes "lv \<le> 4" "0 < lv" "wheel_current w = Suc c" "wheel_at (stale c lv) w"
    and "2 ^ reach lv dvd Suc c"
  shows "moved c 5 w (cascade_levels [lv..<4] w)"
  using assms
proof (induction "4 - lv" arbitrary: lv w)
  case 0
  then have "lv = 4" by simp
  then show ?case using 0 drain_overflow_moves [of w c] by simp
next
  case (Suc n)
  then have lv: "lv < 4" by simp
  obtain idx w' where res: "cascade lv w = (idx, w')" by fastforce
  note turned = cascade_moves [OF Suc.prems(2) lv Suc.prems(3,4,5) res]
  have step: "cascade_levels [lv..<4] w = (if idx \<noteq> 0 then w' else cascade_levels [Suc lv..<4] w')"
    using lv res by (simp add: upt_rec [of lv])
  show ?case
  proof (cases "idx = 0")
    case True
    then have "2 ^ reach (Suc lv) dvd Suc c" using turned(1) lv Suc.prems(5) wraps_dvd by simp
    then have "moved c 5 w' (cascade_levels [Suc lv..<4] w')"
      using Suc.hyps(2) lv turned(2) by (intro Suc.hyps(1)) auto
    then show ?thesis using True turned(2) step by simp
  next
    case False
    then have "\<not> 2 ^ reach (Suc lv) dvd Suc c" using turned(1) lv Suc.prems(5) wraps_dvd by metis
    then have "wheel_at (stale c 5) w'" using lv turned(2) by (intro moved_top [of "Suc lv"]) auto
    then show ?thesis using False turned(2) step by simp
  qed
qed

section \<open>The wheel as a bag of hints\<close>

definition quotients :: "nat \<Rightarrow> nat \<Rightarrow> nat" where
  "quotients c = (\<lambda>i. c div 2 ^ reach i)"

definition wheel_inv :: "wheel \<Rightarrow> bool" where
  "wheel_inv w \<longleftrightarrow>
     wheel_at (quotients (wheel_current w)) w \<and> pending w = of_nat (size (hints w))"

lemma in_sum_listE:
  assumes "x \<in># (\<Sum>l \<leftarrow> ls. f l)"
  obtains l where "l \<in> set ls" "x \<in># f l"
  using assms by (induction ls) auto

lemma in_hints:
  assumes "wheel_at q w" "h \<in># hints w"
  shows "(\<exists>i < 4. \<exists>k < 2 ^ ring i. h \<in> set (slots (levels w ! i) ! k)) \<or> h \<in> set (overflow w)"
proof (cases "h \<in> set (overflow w)")
  case False
  then have "h \<in># (\<Sum>l \<leftarrow> levels w. level_hints l)" using assms(2) by (simp add: hints_def)
  then obtain l where l: "l \<in> set (levels w)" "h \<in># level_hints l" by (rule in_sum_listE)
  then obtain i where i: "i < 4" "l = levels w ! i"
    using wheel_at_length [OF assms(1)] by (metis in_set_conv_nth)
  from l(2) obtain hs where hs: "hs \<in> set (slots l)" "h \<in> set hs" by (auto simp: level_hints_def)
  then obtain k where "k < List.length (slots l)" "hs = slots l ! k" by (metis in_set_conv_nth)
  moreover have "List.length (slots l) = 2 ^ ring i"
    using wheel_at_level [OF assms(1) i(1)] i(2) by (simp add: level_ok_def)
  ultimately have "k < 2 ^ ring i" "h \<in> set (slots (levels w ! i) ! k)" using i hs by simp_all
  then show ?thesis using i(1) by blast
qed simp

lemma hints_later:
  assumes "wheel_at (quotients c) w" "h \<in># hints w"
  shows "c < expireTick h"
proof -
  obtain i where "in_window (quotients c) i (expireTick h)"
    using in_hints [OF assms] wheel_at_slot [OF assms(1)] wheel_at_overflow [OF assms(1)] by blast
  then have "c div 2 ^ reach i < expireTick h div 2 ^ reach i"
    by (simp add: in_window_def quotients_def)
  then show ?thesis by (metis div_le_mono not_le)
qed

text \<open>An advance takes out exactly the hints due at the new tick.\<close>

lemma advance_fires:
  assumes w: "wheel_inv w" and res: "advance dst w = (dst', w')"
  shows "\<exists>slot. dst' = dst @ slot \<and> hints w = mset slot + hints w'
      \<and> (\<forall>h \<in> set slot. expireTick h = wheel_current w + 1)
      \<and> pending w' = pending w - of_nat (List.length slot)
      \<and> wheel_current w' = wheel_current w + 1 \<and> wheel_at (quotients (wheel_current w + 1)) w'"
proof -
  define c where "c = wheel_current w"
  let ?w0 = "w\<lparr>wheel_current := Suc c\<rparr>"
  define idx where "idx = Suc c mod 2 ^ 8"
  define w1 where "w1 = (if idx = 0 then cascade_chain ?w0 else ?w0)"
  have w0: "wheel_at (quotients c) ?w0" using w by (simp add: wheel_inv_def c_def)
  have eq: "quotients c = stale c 1" by (auto simp: quotients_def stale_def fun_eq_iff)
  have m: "Suc c AND mask (levels ?w0 ! 0) = idx"
    using wheel_at_level [OF w0, of 0] and_mask_nat [of "Suc c" 8] by (simp add: level_ok_def idx_def)
  have "moved c 5 ?w0 w1"
  proof (cases "idx = 0")
    case True
    then have "moved c 5 ?w0 (cascade_levels [1..<4] ?w0)"
      using w0 eq by (intro cascade_levels_moves) (auto simp: dvd_eq_mod_eq_0 idx_def)
    then show ?thesis using True by (simp add: cascade_chain_def levelCount_def w1_def)
  next
    case False
    then have "wheel_at (stale c 5) ?w0"
      using w0 eq by (intro moved_top [of 1]) (auto simp: dvd_eq_mod_eq_0 idx_def)
    then show ?thesis using False by (simp add: w1_def)
  qed
  then have w1: "wheel_at (stale c 5) w1" "wheel_current w1 = Suc c" "pending w1 = pending w"
    "hints w1 = hints w" by auto
  define slot where "slot = slots (levels w1 ! 0) ! idx"
  define wf where "wf = (if slot = [] then w1
    else set_slot 0 idx [] (w1\<lparr>pending := pending w1 - of_nat (List.length slot)\<rparr>))"
  have res': "dst' = dst @ slot" "w' = wf"
    using res m by (auto simp: advance_def Let_def c_def [symmetric] slot_def wf_def w1_def split: if_splits)
  have fired: "\<forall>h \<in> set slot. expireTick h = Suc c"
  proof
    fix h assume "h \<in> set slot"
    then show "expireTick h = Suc c"
      using turning_slot [OF w1(1), of 0 "Suc c" h] by (auto simp: slot_def stale_def idx_def)
  qed
  have len: "List.length (levels w1) = 4" "List.length (slots (levels w1 ! 0)) = 2 ^ 8"
    using wheel_at_length [OF w1(1)] wheel_at_level [OF w1(1), of 0] by (auto simp: level_ok_def)
  have less: "idx < 2 ^ 8" by (simp add: idx_def)
  have cleared: "wheel_at (stale c 5) wf \<and> slots (levels wf ! 0) ! idx = []"
  proof (cases "slot = []")
    case False
    have "wheel_at (stale c 5) (set_slot 0 idx [] (w1\<lparr>pending := pending w1 - of_nat (List.length slot)\<rparr>))"
      using w1(1) by (intro wheel_at_set_slot) simp_all
    then have "wheel_at (stale c 5) wf" using False by (simp add: wf_def)
    then show ?thesis using False len less by (simp add: wf_def slots_set_slot)
  qed (use w1 in \<open>auto simp: wf_def slot_def\<close>)
  then have "wheel_at ((stale c 5)(0 := Suc (stale c 5 0))) wf"
    by (intro wheel_at_turn) (auto simp: stale_def idx_def)
  moreover have "((stale c 5)(0 := Suc (stale c 5 0))) i = quotients (Suc c) i" if "i \<le> 4" for i
    using that by (simp add: stale_def quotients_def)
  ultimately have "wheel_at (quotients (Suc c)) wf"
    using wheel_at_cong [of "(stale c 5)(0 := Suc (stale c 5 0))" "quotients (Suc c)"] by blast
  moreover have "hints w = mset slot + hints wf"
  proof (cases "slot = []")
    case False
    have "hints wf + mset slot = hints w1"
      using hints_set_slot [of 0 "w1\<lparr>pending := pending w1 - of_nat (List.length slot)\<rparr>" idx "[]"]
        len less False by (simp add: wf_def slot_def)
    then show ?thesis using w1 by (simp add: ac_simps)
  qed (use w1 in \<open>simp add: wf_def\<close>)
  moreover have "pending wf = pending w - of_nat (List.length slot)" "wheel_current wf = Suc c"
    using w1 by (auto simp: wf_def)
  ultimately show ?thesis using res' fired by (auto simp: c_def)
qed

lemma wheel_inv_new: "wheel_inv new_wheel" and hints_new [simp]: "hints new_wheel = {#}"
  and current_new [simp]: "wheel_current new_wheel = 0"
proof -
  have l: "levels new_wheel ! i = \<lparr>slots = replicate (2 ^ ring i) [], shift = reach i, mask = 2 ^ ring i - 1\<rparr>"
    if "i < 4" for i
    using less_4 [OF that] by (auto simp: new_wheel_def level_specs_def)
  have n: "List.length (levels new_wheel) = 4" by (simp add: new_wheel_def level_specs_def)
  show h: "hints new_wheel = {#}"
    by (simp add: hints_def new_wheel_def level_specs_def level_hints_def)
  have "wheel_at q new_wheel" for q
    using n l by (simp add: wheel_at_def level_ok_def) (simp add: new_wheel_def)
  then show "wheel_inv new_wheel" using h by (simp add: wheel_inv_def) (simp add: new_wheel_def)
  show "wheel_current new_wheel = 0" by (simp add: new_wheel_def)
qed

lemma insert_next:
  assumes "wheel_inv w" "wheel_current w < expireTick (pulled e h)"
  shows "wheel_at (quotients (wheel_current w)) (wheel_insert h e w)"
proof (rule wheel_at_insert)
  let ?c = "wheel_current w" let ?t = "expireTick (pulled e h)"
  show "in_window (quotients ?c) (fit (?t - ?c)) ?t"
  proof (cases "fit (?t - ?c)")
    case 0
    then have "?t - ?c < 2 ^ 8" using fit_below [of "?t - ?c"] by simp
    then have "?t \<le> ?c + 2 ^ 8" by linarith
    with 0 assms(2) show ?thesis by (simp add: in_window_def quotients_def del: pulled_tick)
  next
    case (Suc n)
    then show ?thesis
      using assms(2) by (intro fit_window [where d = "?t - ?c" and w = w]) (auto simp: quotients_def)
  qed
qed (use assms in \<open>simp add: wheel_inv_def\<close>)

lemma wheel_add_bag:
  assumes "wheel_inv w"
  shows "wheel_inv (wheel_add h w) \<and> wheel_current (wheel_add h w) = wheel_current w
    \<and> hints (wheel_add h w) = add_mset (pulled (wheel_current w + 1) h) (hints w)"
proof -
  have "wheel_at (quotients (wheel_current w)) w" using assms by (simp add: wheel_inv_def)
  note new = hints_insert [OF this, of h "wheel_current w + 1"]
    and at = insert_next [OF assms, of "wheel_current w + 1" h]
  show ?thesis using assms new at by (simp add: wheel_add_def Let_def wheel_inv_def)
qed

lemma requeue_bag:
  assumes "wheel_inv w"
  shows "wheel_inv (requeue h w) \<and> wheel_current (requeue h w) = wheel_current w
    \<and> hints (requeue h w) = add_mset (h\<lparr>expireTick := wheel_current w + 1\<rparr>) (hints w)"
proof -
  have "requeue h w = wheel_add (h\<lparr>expireTick := wheel_current w + 1\<rparr>) w"
    by (simp add: requeue_def wheel_add_def)
  then show ?thesis using wheel_add_bag [OF assms] by (simp add: pulled_id)
qed

lemma filter_mset_all: "\<forall>x \<in># M. P x \<Longrightarrow> filter_mset P M = M"
  by (induction M) auto

lemma advance_bag:
  assumes w: "wheel_inv w" and res: "advance dst w = (dst', w')"
  shows "wheel_inv w' \<and> wheel_current w' = wheel_current w + 1
    \<and> (\<exists>slot. dst' = dst @ slot
        \<and> mset slot = filter_mset (\<lambda>h. expireTick h = wheel_current w + 1) (hints w))
    \<and> hints w' = filter_mset (\<lambda>h. expireTick h \<noteq> wheel_current w + 1) (hints w)"
proof -
  obtain slot where s: "dst' = dst @ slot" "hints w = mset slot + hints w'"
    "\<forall>h \<in> set slot. expireTick h = wheel_current w + 1"
    "pending w' = pending w - of_nat (List.length slot)"
    "wheel_current w' = wheel_current w + 1" "wheel_at (quotients (wheel_current w + 1)) w'"
    using advance_fires [OF w res] by blast
  have later: "\<forall>h \<in># hints w'. expireTick h \<noteq> wheel_current w + 1"
    using hints_later [OF s(6)] by (metis less_irrefl)
  have "filter_mset (\<lambda>h. expireTick h = wheel_current w + 1) (mset slot) = mset slot"
    "filter_mset (\<lambda>h. expireTick h \<noteq> wheel_current w + 1) (mset slot) = {#}"
    using s(3) by (auto simp: filter_mset_all)
  moreover have "filter_mset (\<lambda>h. expireTick h = wheel_current w + 1) (hints w') = {#}"
    "filter_mset (\<lambda>h. expireTick h \<noteq> wheel_current w + 1) (hints w') = hints w'"
    using later by (auto simp: filter_mset_all)
  moreover have "pending w' = of_nat (size (hints w'))"
    using w s(2,4) by (simp add: wheel_inv_def)
  ultimately show ?thesis using s by (auto simp: wheel_inv_def)
qed

section \<open>Histories\<close>

datatype wheel_op = Add hint | Requeue hint | Tick

fun wheel_exec :: "wheel_op \<Rightarrow> wheel \<Rightarrow> hint list \<times> wheel" where
  "wheel_exec (Add h) w = ([], wheel_add h w)"
| "wheel_exec (Requeue h) w = ([], requeue h w)"
| "wheel_exec Tick w = advance [] w"

fun wheel_run :: "wheel_op list \<Rightarrow> wheel \<Rightarrow> hint list list \<times> wheel" where
  "wheel_run [] w = ([], w)"
| "wheel_run (opn # opns) w =
     (let (out, w) = wheel_exec opn w; (outs, w) = wheel_run opns w in (out # outs, w))"

text \<open>The specification: a clock and a bag.\<close>

fun bag_exec :: "wheel_op \<Rightarrow> nat \<times> hint multiset \<Rightarrow> hint multiset \<times> nat \<times> hint multiset" where
  "bag_exec (Add h) (c, B) = ({#}, c, add_mset (h\<lparr>expireTick := max (expireTick h) (c + 1)\<rparr>) B)"
| "bag_exec (Requeue h) (c, B) = ({#}, c, add_mset (h\<lparr>expireTick := c + 1\<rparr>) B)"
| "bag_exec Tick (c, B) =
     ({#h \<in># B. expireTick h = c + 1#}, c + 1, {#h \<in># B. expireTick h \<noteq> c + 1#})"

fun bag_run :: "wheel_op list \<Rightarrow> nat \<times> hint multiset \<Rightarrow> hint multiset list \<times> nat \<times> hint multiset" where
  "bag_run [] s = ([], s)"
| "bag_run (opn # opns) s =
     (let (out, s) = bag_exec opn s; (outs, s) = bag_run opns s in (out # outs, s))"

lemma pulled_eq: "pulled e h = h\<lparr>expireTick := max (expireTick h) e\<rparr>"
  by (simp add: pulled_def max_def)

lemma wheel_exec_bag:
  assumes "wheel_inv w" "wheel_exec opn w = (out, w')"
  shows "wheel_inv w' \<and> bag_exec opn (wheel_current w, hints w) = (mset out, wheel_current w', hints w')"
proof (cases opn)
  case (Add h)
  then show ?thesis using assms wheel_add_bag [OF assms(1), of h] by (auto simp: pulled_eq)
next
  case (Requeue h)
  then show ?thesis using assms requeue_bag [OF assms(1), of h] by auto
next
  case Tick
  then show ?thesis using assms advance_bag [of w "[]" out w'] by auto
qed

lemma wheel_run_bag:
  assumes "wheel_inv w" "wheel_run opns w = (outs, w')"
  shows "wheel_inv w' \<and>
    bag_run opns (wheel_current w, hints w) = (map mset outs, wheel_current w', hints w')"
  using assms
proof (induction opns arbitrary: w outs)
  case (Cons opn opns)
  obtain out w1 where 1: "wheel_exec opn w = (out, w1)" by fastforce
  obtain outs1 where 2: "wheel_run opns w1 = (outs1, w')" "outs = out # outs1"
    using Cons.prems(2) 1 by (auto split: prod.splits)
  note wheel_exec_bag [OF Cons.prems(1) 1]
  with Cons.IH [of w1 outs1] 2 show ?case by simp
qed simp

text \<open>
  C20. The hierarchical wheel implements the bag: after any history of additions, requeues and
  ticks from an empty wheel, each tick fired exactly the hints the bag has due at that tick,
  whatever cascades moved them through the levels and the overflow list; the wheel still holds
  exactly the hints the bag holds; and the pending counter is their number.
\<close>

theorem wheel_refines_bag:
  "case (wheel_run opns new_wheel, bag_run opns (0, {#})) of
     ((outs, w), (bag_outs, c, B)) \<Rightarrow>
       map mset outs = bag_outs \<and> wheel_current w = c \<and> hints w = B
       \<and> fst (wheel_counts w) = of_nat (size B)"
proof -
  obtain outs w where r: "wheel_run opns new_wheel = (outs, w)" by fastforce
  show ?thesis
    using wheel_run_bag [OF wheel_inv_new r] r by (auto simp: wheel_inv_def wheel_counts_def)
qed

lemma bag_ticks:
  "j < k \<Longrightarrow> fst (bag_run (replicate k Tick) (c, B)) ! j = {#h \<in># B. expireTick h = c + j + 1#}"
proof (induction k arbitrary: j c B)
  case (Suc k)
  show ?case
  proof (cases j)
    case 0
    then show ?thesis by (simp split: prod.split)
  next
    case (Suc i)
    have "fst (bag_run (replicate k Tick) (c + 1, {#h \<in># B. expireTick h \<noteq> c + 1#})) ! i
        = {#h \<in># {#h \<in># B. expireTick h \<noteq> c + 1#}. expireTick h = (c + 1) + i + 1#}"
      using Suc.IH Suc.prems Suc by simp
    also have "\<dots> = {#h \<in># B. expireTick h = c + j + 1#}"
      using Suc by (auto simp: filter_filter_mset intro: filter_mset_cong)
    finally show ?thesis using Suc by (simp add: case_prod_beta)
  qed
qed simp

text \<open>
  A hint fires exactly at its deadline: whatever happened to the wheel before, a hint added now
  is among those fired by the tick it asked for (the next one, if it asked for a tick already
  passed) and by no other tick.
\<close>

lemma wheel_fires_on_time:
  assumes "j < k" and "wheel_run opns new_wheel = (outs, w)"
  shows "h\<lparr>expireTick := max (expireTick h) (wheel_current w + 1)\<rparr>
      \<in> set (fst (wheel_run (replicate k Tick) (wheel_add h w)) ! j)
    \<longleftrightarrow> wheel_current w + j + 1 = max (expireTick h) (wheel_current w + 1)"
proof -
  let ?w = "wheel_add h w" let ?h = "h\<lparr>expireTick := max (expireTick h) (wheel_current w + 1)\<rparr>"
  have inv: "wheel_inv w" using wheel_run_bag [OF wheel_inv_new assms(2)] by simp
  note add = wheel_add_bag [OF inv, of h]
  obtain outs' w' where r: "wheel_run (replicate k Tick) ?w = (outs', w')" by fastforce
  have "bag_run (replicate k Tick) (wheel_current w, hints ?w) = (map mset outs', wheel_current w', hints w')"
    using wheel_run_bag [OF conjunct1 [OF add] r] add by simp
  then have "map mset outs' ! j = {#g \<in># hints ?w. expireTick g = wheel_current w + j + 1#}"
    using bag_ticks [OF assms(1), of "wheel_current w" "hints ?w"] by simp
  moreover have "List.length outs' = k"
  proof -
    have "List.length (fst (wheel_run (replicate n Tick) v)) = n" for n v
      by (induction n arbitrary: v) (simp_all add: case_prod_beta)
    from this [of k ?w] r show ?thesis by simp
  qed
  ultimately have "mset (outs' ! j) = {#g \<in># hints ?w. expireTick g = wheel_current w + j + 1#}"
    using assms(1) by simp
  then have "?h \<in> set (outs' ! j) \<longleftrightarrow> ?h \<in># {#g \<in># hints ?w. expireTick g = wheel_current w + j + 1#}"
    by (metis set_mset_mset)
  moreover have "?h \<in># hints ?w" using add by (simp add: pulled_eq)
  ultimately show ?thesis using r by auto
qed

lemma wheel_fires_on_time_witness:
  "\<lparr>hint_key = ''k'', expireTick = 40000000, hint_shard = 0\<rparr>
     \<in> set (fst (wheel_run (replicate 40000000 Tick)
          (wheel_add \<lparr>hint_key = ''k'', expireTick = 40000000, hint_shard = 0\<rparr> new_wheel)) ! 39999999)"
  using wheel_fires_on_time [where j = 39999999 and k = 40000000 and opns = "[]" and outs = "[]"
      and w = new_wheel and h = "\<lparr>hint_key = ''k'', expireTick = 40000000, hint_shard = 0\<rparr>"]
  by simp

end
