(* ===== verification/Ttl_Manager.thy ===== *)
theory Ttl_Manager
  imports Wheel "HOL-Library.While_Combinator"
begin

text \<open>
  \<open>internal/ttl/manager.go\<close> and \<open>internal/ttl/ttl.go\<close>: the striped wheels behind one clock, the
  tick loop's work and hint validation. Instants are nanoseconds. A \<open>time.Time\<close> carries a monotonic
  and a wall reading: the model passes both, \<open>mclk\<close> for the deadlines of ticks and \<open>wall\<close> (what
  \<open>UnixNano\<close> returns) for expiries. The keyspace behind the \<open>Keyspace\<close> interface is a parameter:
  \<open>ex\<close> is \<open>ExpiryOf\<close> and \<open>ep\<close> is \<open>Expire\<close>, over a state of its own. The goroutine, the timer and
  the channels of \<open>run\<close> are not modelled; \<open>catch_up\<close> is the work it does on each wake-up, with the
  outcomes of its polls of the quit channel as an argument.
\<close>

section \<open>Configuration\<close>

definition DefaultTick :: int where "DefaultTick = 100 * 1000000"
definition DefaultStripes :: int where "DefaultStripes = 16"
definition DefaultMaxHintsPerTick :: int where "DefaultMaxHintsPerTick = 10000"
definition maxStripes :: int where "maxStripes = 1024"

datatype ttl_error = ErrAlreadyRunning | ErrStopped | CtxErr

record ttl_config =
  Tick :: int
  Stripes :: int
  MaxHintsPerTick :: int

definition round_up_pow2 :: "int \<Rightarrow> int" where
  "round_up_pow2 n =
     (if n \<le> 1 then 1 else if n \<ge> maxStripes then maxStripes
      else while (\<lambda>p. p < n) (\<lambda>p. 2 * p) 1)"

definition normalize :: "ttl_config \<Rightarrow> ttl_config" where
  "normalize c =
     (let c = (if Tick c \<le> 0 then c\<lparr>Tick := DefaultTick\<rparr> else c);
          c = (if Stripes c = 0 then c\<lparr>Stripes := DefaultStripes\<rparr> else c);
          c = c\<lparr>Stripes := round_up_pow2 (Stripes c)\<rparr>;
          c = (if MaxHintsPerTick c = 0 then c\<lparr>MaxHintsPerTick := DefaultMaxHintsPerTick\<rparr> else c)
      in if MaxHintsPerTick c < 0 then c\<lparr>MaxHintsPerTick := 0\<rparr> else c)"

section \<open>The manager\<close>

datatype lifecycle = StateNew | StateRunning | StateStopped

record manager =
  tick :: int
  epoch :: int
  epochNano :: int
  maxPerTick :: int
  stripes :: "wheel list"
  stripe_mask :: int
  lifecycle :: lifecycle
  quit_closed :: bool
  current :: nat
  ticks :: u64
  added :: u64
  ignored :: u64
  fired :: u64
  expired :: u64
  dropped :: u64
  reinserted :: u64
  deferred :: u64
  lateTicks :: u64
  maxLag :: int

definition new_manager :: "int \<Rightarrow> int \<Rightarrow> ttl_config \<Rightarrow> manager" where
  "new_manager mclk wall cfg0 =
     (let cfg = normalize cfg0
      in \<lparr>tick = Tick cfg, epoch = mclk, epochNano = wall, maxPerTick = MaxHintsPerTick cfg,
          stripes = replicate (nat (Stripes cfg)) new_wheel, stripe_mask = Stripes cfg - 1,
          lifecycle = StateNew, quit_closed = False, current = 0, ticks = 0, added = 0, ignored = 0,
          fired = 0, expired = 0, dropped = 0, reinserted = 0, deferred = 0, lateTicks = 0,
          maxLag = 0\<rparr>)"

definition stripe_for :: "int \<Rightarrow> manager \<Rightarrow> nat" where
  "stripe_for shard m = nat (shard AND stripe_mask m)"

definition on_stripe :: "int \<Rightarrow> (wheel \<Rightarrow> wheel) \<Rightarrow> manager \<Rightarrow> manager" where
  "on_stripe shard f m =
     (let i = stripe_for shard m in m\<lparr>stripes := (stripes m)[i := f (stripes m ! i)]\<rparr>)"

definition tick_for :: "int \<Rightarrow> manager \<Rightarrow> nat" where
  "tick_for expireAt m =
     (let delta = i64 (expireAt - epochNano m)
      in if delta \<le> 0 then 0
         else let step = tick m; t = delta div step
              in nat (if delta mod step \<noteq> 0 then i64 (t + 1) else t))"

definition tick_deadline :: "nat \<Rightarrow> manager \<Rightarrow> int" where
  "tick_deadline t m = epoch m + i64 (i64 (int t) * tick m)"

definition manager_add :: "int \<Rightarrow> bytes \<Rightarrow> int \<Rightarrow> manager \<Rightarrow> manager" where
  "manager_add shard key expireAt m =
     (if expireAt \<le> 0 then m\<lparr>ignored := ignored m + 1\<rparr>
      else if lifecycle m = StateStopped then m
      else let m = on_stripe shard (wheel_add \<lparr>hint_key = key, expireTick = tick_for expireAt m,
                                                 hint_shard = shard\<rparr>) m
           in m\<lparr>added := added m + 1\<rparr>)"

definition manager_start :: "manager \<Rightarrow> ttl_error option \<times> manager" where
  "manager_start m =
     (if lifecycle m = StateNew then (None, m\<lparr>lifecycle := StateRunning\<rparr>)
      else if lifecycle m = StateRunning then (Some ErrAlreadyRunning, m)
      else (Some ErrStopped, m))"

text \<open>\<open>drained\<close>: whether the loop closed \<open>done\<close> before the context of \<open>Stop\<close> expired.\<close>

definition manager_stop :: "bool \<Rightarrow> manager \<Rightarrow> ttl_error option \<times> manager" where
  "manager_stop drained m =
     (if lifecycle m \<noteq> StateRunning then
        (None, if lifecycle m = StateNew then m\<lparr>lifecycle := StateStopped\<rparr> else m)
      else (if drained then None else Some CtxErr, m\<lparr>lifecycle := StateStopped, quit_closed := True\<rparr>))"

type_synonym 's expiry_fn = "int \<Rightarrow> bytes \<Rightarrow> 's \<Rightarrow> int \<times> bool"
type_synonym 's expire_fn = "int \<Rightarrow> bytes \<Rightarrow> 's \<Rightarrow> bool \<times> 's"

text \<open>One turn of the validation loop of \<open>process\<close>.\<close>

definition validate :: "'s expiry_fn \<Rightarrow> 's expire_fn \<Rightarrow> int \<Rightarrow> hint \<Rightarrow> manager \<times> 's \<Rightarrow> manager \<times> 's" where
  "validate ex ep wall h = (\<lambda>(m, s).
     (let m = m\<lparr>fired := fired m + 1\<rparr>; (expireAt, present) = ex (hint_shard h) (hint_key h) s
      in if \<not> present \<or> expireAt = 0 then (m\<lparr>dropped := dropped m + 1\<rparr>, s)
         else if wall > expireAt then
           (case ep (hint_shard h) (hint_key h) s of
              (True, s') \<Rightarrow> (m\<lparr>expired := expired m + 1\<rparr>, s')
            | (False, s') \<Rightarrow> (m\<lparr>dropped := dropped m + 1\<rparr>, s'))
         else let m = on_stripe (hint_shard h) (wheel_add (h\<lparr>expireTick := tick_for expireAt m\<rparr>)) m
              in (m\<lparr>reinserted := reinserted m + 1\<rparr>, s)))"

definition requeue_all :: "hint list \<Rightarrow> manager \<Rightarrow> manager" where
  "requeue_all hs m = fold (\<lambda>h. on_stripe (hint_shard h) (requeue h)) hs m"

definition process :: "'s expiry_fn \<Rightarrow> 's expire_fn \<Rightarrow> hint list \<Rightarrow> int \<Rightarrow> manager \<times> 's \<Rightarrow> manager \<times> 's" where
  "process ex ep hs wall = (\<lambda>(m, s).
     (let limit = List.length hs
      in if maxPerTick m > 0 \<and> int limit > maxPerTick m then
           let cap = nat (maxPerTick m);
               m = requeue_all (drop cap hs) m;
               m = m\<lparr>deferred := deferred m + of_nat (limit - cap)\<rparr>
           in fold (validate ex ep wall) (take cap hs) (m, s)
         else fold (validate ex ep wall) hs (m, s)))"

fun advance_stripes :: "hint list \<Rightarrow> wheel list \<Rightarrow> hint list \<times> wheel list" where
  "advance_stripes buf [] = (buf, [])"
| "advance_stripes buf (w # ws) =
     (let (buf, w) = advance buf w; (buf, ws) = advance_stripes buf ws in (buf, w # ws))"

definition advance_one :: "'s expiry_fn \<Rightarrow> 's expire_fn \<Rightarrow> int \<Rightarrow> manager \<times> 's \<Rightarrow> manager \<times> 's" where
  "advance_one ex ep wall = (\<lambda>(m, s).
     (let m = m\<lparr>current := current m + 1, ticks := ticks m + 1\<rparr>;
          (buf, ws) = advance_stripes [] (stripes m)
      in process ex ep buf wall (m\<lparr>stripes := ws\<rparr>, s)))"

definition record_late :: "nat \<Rightarrow> manager \<Rightarrow> manager" where
  "record_late processed m =
     (if processed > 1 then m\<lparr>lateTicks := lateTicks m + of_nat (processed - 1)\<rparr> else m)"

text \<open>\<open>quits n\<close>: whether the poll after the \<open>n\<close>th turn, from 0, finds the quit channel closed.\<close>

partial_function (option) catch_loop ::
    "'s expiry_fn \<Rightarrow> 's expire_fn \<Rightarrow> (nat \<Rightarrow> bool) \<Rightarrow> int \<Rightarrow> int \<Rightarrow> nat \<Rightarrow> manager \<times> 's \<Rightarrow>
       (nat \<times> manager \<times> 's) option" where
  "catch_loop ex ep quits mclk wall n ms =
     (if tick_deadline (current (fst ms) + 1) (fst ms) > mclk then Some (n, ms)
      else let ms = advance_one ex ep wall ms
           in if quits n then Some (n + 1, ms)
              else catch_loop ex ep quits mclk wall (n + 1) ms)"

definition catch_up ::
    "'s expiry_fn \<Rightarrow> 's expire_fn \<Rightarrow> (nat \<Rightarrow> bool) \<Rightarrow> int \<Rightarrow> int \<Rightarrow> manager \<times> 's \<Rightarrow>
       (nat \<times> manager \<times> 's) option" where
  "catch_up ex ep quits mclk wall = (\<lambda>(m, s).
     (if tick_deadline (current m + 1) m > mclk then Some (0, m, s)
      else let lag = i64 (mclk - tick_deadline (current m + 1) m);
               m = (if lag > maxLag m then m\<lparr>maxLag := lag\<rparr> else m)
           in map_option (\<lambda>(n, m, s). (n, record_late n m, s))
                (catch_loop ex ep quits mclk wall 0 (m, s))))"

record ttl_stats =
  ts_Running :: bool
  ts_Ticks :: u64
  ts_CurrentTick :: nat
  ts_Added :: u64
  ts_Ignored :: u64
  ts_Fired :: u64
  ts_Expired :: u64
  ts_Dropped :: u64
  ts_Reinserted :: u64
  ts_Deferred :: u64
  ts_LateTicks :: u64
  ts_MaxLag :: int
  ts_Pending :: u64
  ts_Overflow :: u64

definition manager_stats :: "manager \<Rightarrow> ttl_stats" where
  "manager_stats m =
     (let (p, ov) = fold (\<lambda>w (p, ov). (p + fst (wheel_counts w), ov + snd (wheel_counts w)))
                      (stripes m) (0, 0)
      in \<lparr>ts_Running = (lifecycle m = StateRunning), ts_Ticks = ticks m, ts_CurrentTick = current m,
          ts_Added = added m, ts_Ignored = ignored m, ts_Fired = fired m, ts_Expired = expired m,
          ts_Dropped = dropped m, ts_Reinserted = reinserted m, ts_Deferred = deferred m,
          ts_LateTicks = lateTicks m, ts_MaxLag = maxLag m, ts_Pending = p, ts_Overflow = ov\<rparr>)"

definition nop_expiry_of :: "unit expiry_fn" where "nop_expiry_of i k s = (0, False)"
definition nop_expire :: "unit expire_fn" where "nop_expire i k s = (False, s)"

section \<open>Rounding the stripe count\<close>

lemma pow2_loop:
  assumes "1 < n" "n < 1024"
  shows "\<exists>j. while (\<lambda>p. p < n) (\<lambda>p. 2 * p) 1 = (2::int) ^ j \<and> n \<le> 2 ^ j \<and> 2 ^ j < 2 * n"
proof (rule while_rule [where P = "\<lambda>p. (\<exists>j. p = 2 ^ j) \<and> p < 2 * n" and r = "measure (\<lambda>p. nat (n - p))"])
  fix p :: int
  assume p: "(\<exists>j. p = 2 ^ j) \<and> p < 2 * n" "p < n"
  then obtain j where j: "p = 2 ^ j" by blast
  have "2 * p = 2 ^ Suc j" using j by simp
  then have "\<exists>j. 2 * p = 2 ^ j" by blast
  then show "(\<exists>j. 2 * p = 2 ^ j) \<and> 2 * p < 2 * n" using p by simp
  show "(2 * p, p) \<in> measure (\<lambda>p. nat (n - p))" using p j by simp
qed (use assms in \<open>auto intro: exI [of _ 0]\<close>)

text \<open>
  The stripe count becomes a power of two between 1 and 1024: the least one that is at least
  the configured count, as long as that is at most 1024.
\<close>

lemma round_up_pow2_least:
  "(\<exists>j \<le> 10. round_up_pow2 n = 2 ^ j)
   \<and> (n \<le> 1024 \<longrightarrow> n \<le> round_up_pow2 n \<and> (\<forall>j. n \<le> 2 ^ j \<longrightarrow> round_up_pow2 n \<le> 2 ^ j))"
proof (cases "1 < n \<and> n < 1024")
  case True
  then obtain j where j: "round_up_pow2 n = 2 ^ j" "n \<le> 2 ^ j" "(2::int) ^ j < 2 * n"
    using pow2_loop [of n] by (auto simp: round_up_pow2_def maxStripes_def)
  have "(2::int) ^ j < 2 ^ 11" using j(3) True by simp
  then have le: "j \<le> 10" using power_less_imp_less_exp [of "2::int" j 11] by simp
  have "j \<le> i" if "n \<le> 2 ^ i" for i
  proof (rule ccontr)
    assume "\<not> j \<le> i"
    then have "(2::int) ^ Suc i \<le> 2 ^ j" by (intro power_increasing) auto
    with that j(3) show False by simp
  qed
  then have "round_up_pow2 n \<le> 2 ^ i" if "n \<le> 2 ^ i" for i
    using that j(1) by (simp add: power_increasing)
  with j le show ?thesis by auto
next
  case False
  then have "n \<le> 1 \<or> 1024 \<le> n" by arith
  then show ?thesis
  proof
    assume "n \<le> 1"
    then show ?thesis by (auto simp: round_up_pow2_def intro: exI [of _ 0])
  next
    assume n: "1024 \<le> n"
    then have r: "round_up_pow2 n = 2 ^ 10" by (simp add: round_up_pow2_def maxStripes_def)
    have "round_up_pow2 n \<le> 2 ^ j" if "n \<le> 2 ^ j" for j
      using r n that by simp
    moreover have "n \<le> round_up_pow2 n" if "n \<le> 1024" using that r by simp
    moreover have "\<exists>j \<le> 10. round_up_pow2 n = 2 ^ j" using r by blast
    ultimately show ?thesis by blast
  qed
qed

section \<open>The invariant\<close>

text \<open>The stripes share the manager's clock; together they are one bag of hints.\<close>

definition bag_of :: "wheel list \<Rightarrow> hint multiset" where
  "bag_of ws = (\<Sum>w \<leftarrow> ws. hints w)"

definition in_step :: "nat \<Rightarrow> wheel list \<Rightarrow> bool" where
  "in_step c ws \<longleftrightarrow> (\<forall>w \<in> set ws. wheel_inv w \<and> wheel_current w = c)"

definition mgr_ok :: "manager \<Rightarrow> bool" where
  "mgr_ok m \<longleftrightarrow> tick m > 0 \<and> in_step (current m) (stripes m)
     \<and> (\<exists>k. stripe_mask m = 2 ^ k - 1 \<and> List.length (stripes m) = 2 ^ k)"

lemma stripe_for_less:
  assumes "mgr_ok m"
  shows "stripe_for sh m < List.length (stripes m)"
proof -
  obtain k where k: "stripe_mask m = 2 ^ k - 1" "List.length (stripes m) = 2 ^ k"
    using assms by (auto simp: mgr_ok_def)
  have "sh AND stripe_mask m = sh mod 2 ^ k"
    using k(1) by (simp add: take_bit_eq_mask mask_eq_exp_minus_1 flip: take_bit_eq_mod)
  moreover have "0 \<le> sh mod 2 ^ k" "sh mod 2 ^ k < 2 ^ k" by simp_all
  ultimately show ?thesis using k(2) by (simp add: stripe_for_def nat_less_iff)
qed

lemma on_stripe_sel [simp]:
  "tick (on_stripe sh f m) = tick m" "epoch (on_stripe sh f m) = epoch m"
  "epochNano (on_stripe sh f m) = epochNano m" "maxPerTick (on_stripe sh f m) = maxPerTick m"
  "stripe_mask (on_stripe sh f m) = stripe_mask m" "lifecycle (on_stripe sh f m) = lifecycle m"
  "current (on_stripe sh f m) = current m" "added (on_stripe sh f m) = added m"
  "fired (on_stripe sh f m) = fired m" "expired (on_stripe sh f m) = expired m"
  "lateTicks (on_stripe sh f m) = lateTicks m"
  "dropped (on_stripe sh f m) = dropped m" "reinserted (on_stripe sh f m) = reinserted m"
  by (simp_all add: on_stripe_def Let_def)

lemma bag_of_update:
  "i < List.length ws \<Longrightarrow> hints w = add_mset h (hints (ws ! i)) \<Longrightarrow>
     bag_of (ws[i := w]) = add_mset h (bag_of ws)"
proof (induction ws arbitrary: i)
  case (Cons v ws)
  then show ?case by (cases i) (auto simp: bag_of_def)
qed simp

lemma on_stripe_bag:
  assumes m: "mgr_ok m"
    and f: "\<And>w. wheel_inv w \<Longrightarrow> wheel_current w = current m \<Longrightarrow>
      wheel_inv (f w) \<and> wheel_current (f w) = current m \<and> hints (f w) = add_mset h (hints w)"
  shows "mgr_ok (on_stripe sh f m) \<and> bag_of (stripes (on_stripe sh f m)) = add_mset h (bag_of (stripes m))"
proof -
  let ?i = "stripe_for sh m"
  have i: "?i < List.length (stripes m)" by (rule stripe_for_less [OF m])
  then have "wheel_inv (stripes m ! ?i) \<and> wheel_current (stripes m ! ?i) = current m"
    using m by (simp add: mgr_ok_def in_step_def)
  then have fi: "wheel_inv (f (stripes m ! ?i)) \<and> wheel_current (f (stripes m ! ?i)) = current m
      \<and> hints (f (stripes m ! ?i)) = add_mset h (hints (stripes m ! ?i))"
    using f by blast
  have "in_step (current m) ((stripes m)[?i := f (stripes m ! ?i)])"
    using m fi by (auto simp: mgr_ok_def in_step_def dest: set_update_subset_insert [THEN subsetD])
  with m have "mgr_ok (on_stripe sh f m)" by (simp add: mgr_ok_def on_stripe_def Let_def)
  moreover have "bag_of (stripes (on_stripe sh f m)) = add_mset h (bag_of (stripes m))"
    using bag_of_update [OF i] fi by (simp add: on_stripe_def Let_def)
  ultimately show ?thesis by blast
qed

lemma on_stripe_add:
  "mgr_ok m \<Longrightarrow> mgr_ok (on_stripe sh (wheel_add h) m)
     \<and> bag_of (stripes (on_stripe sh (wheel_add h) m))
       = add_mset (pulled (current m + 1) h) (bag_of (stripes m))"
  by (rule on_stripe_bag) (metis wheel_add_bag)+

lemma on_stripe_requeue:
  "mgr_ok m \<Longrightarrow> mgr_ok (on_stripe sh (requeue h) m)
     \<and> bag_of (stripes (on_stripe sh (requeue h) m))
       = add_mset (h\<lparr>expireTick := current m + 1\<rparr>) (bag_of (stripes m))"
  by (rule on_stripe_bag) (metis requeue_bag)+

lemma mgr_ok_counters [simp]:
  "mgr_ok (m\<lparr>added := x\<rparr>) = mgr_ok m" "mgr_ok (m\<lparr>ignored := x\<rparr>) = mgr_ok m"
  "mgr_ok (m\<lparr>fired := x\<rparr>) = mgr_ok m" "mgr_ok (m\<lparr>expired := x\<rparr>) = mgr_ok m"
  "mgr_ok (m\<lparr>dropped := x\<rparr>) = mgr_ok m" "mgr_ok (m\<lparr>reinserted := x\<rparr>) = mgr_ok m"
  "mgr_ok (m\<lparr>deferred := x\<rparr>) = mgr_ok m" "mgr_ok (m\<lparr>lateTicks := x\<rparr>) = mgr_ok m"
  "mgr_ok (m\<lparr>maxLag := y\<rparr>) = mgr_ok m" "mgr_ok (m\<lparr>lifecycle := l\<rparr>) = mgr_ok m"
  "mgr_ok (m\<lparr>quit_closed := b\<rparr>) = mgr_ok m"
  by (simp_all add: mgr_ok_def)

lemma advance_stripes_bag:
  "in_step c ws \<Longrightarrow> advance_stripes buf ws = (buf', ws') \<Longrightarrow>
     in_step (c + 1) ws' \<and> List.length ws' = List.length ws
     \<and> (\<exists>due. buf' = buf @ due \<and> mset due = {#h \<in># bag_of ws. expireTick h = c + 1#})
     \<and> bag_of ws' = {#h \<in># bag_of ws. expireTick h \<noteq> c + 1#}"
proof (induction ws arbitrary: buf ws')
  case Nil
  then show ?case by (simp add: in_step_def bag_of_def)
next
  case (Cons w ws)
  obtain buf1 w1 where 1: "advance buf w = (buf1, w1)" by fastforce
  obtain ws1 where 2: "advance_stripes buf1 ws = (buf', ws1)" "ws' = w1 # ws1"
    using Cons.prems(2) 1 by (auto split: prod.splits)
  have w: "wheel_inv w" "wheel_current w = c" using Cons.prems(1) by (auto simp: in_step_def)
  obtain due1 where due1: "buf1 = buf @ due1" "mset due1 = {#h \<in># hints w. expireTick h = c + 1#}"
    and w1: "wheel_inv w1" "wheel_current w1 = c + 1" "hints w1 = {#h \<in># hints w. expireTick h \<noteq> c + 1#}"
    using advance_bag [OF w(1) 1, unfolded w(2)] by blast
  have "in_step c ws" using Cons.prems(1) by (simp add: in_step_def)
  then obtain due2 where due2: "buf' = buf1 @ due2" "mset due2 = {#h \<in># bag_of ws. expireTick h = c + 1#}"
    and ws1: "in_step (c + 1) ws1" "List.length ws1 = List.length ws"
      "bag_of ws1 = {#h \<in># bag_of ws. expireTick h \<noteq> c + 1#}"
    using Cons.IH [OF _ 2(1)] by blast
  have "buf' = buf @ (due1 @ due2)" "mset (due1 @ due2) = {#h \<in># bag_of (w # ws). expireTick h = c + 1#}"
    using due1 due2 by (simp_all add: bag_of_def)
  moreover have "in_step (c + 1) ws'" using 2(2) w1(1,2) ws1(1) by (simp add: in_step_def)
  moreover have "bag_of ws' = {#h \<in># bag_of (w # ws). expireTick h \<noteq> c + 1#}"
    using 2(2) w1(3) ws1(3) by (simp add: bag_of_def)
  moreover have "List.length ws' = List.length (w # ws)" using 2(2) ws1(2) by simp
  ultimately show ?case by blast
qed

section \<open>Accounting\<close>

text \<open>
  \<open>n\<close> hints have been taken out of the wheels and not dealt with yet. Every hint accepted is still
  pending, or was expired or dropped; a reinsertion keeps it pending.
\<close>

definition balanced :: "nat \<Rightarrow> manager \<Rightarrow> bool" where
  "balanced n m \<longleftrightarrow> mgr_ok m \<and> fired m = expired m + dropped m + reinserted m
     \<and> of_nat (size (bag_of (stripes m))) + of_nat n + expired m + dropped m = added m"

lemma validate_balanced:
  "balanced (Suc n) m \<Longrightarrow> balanced n (fst (validate ex ep wall h (m, s)))"
  using on_stripe_add [of "m\<lparr>fired := fired m + 1\<rparr>"]
  by (auto simp: validate_def balanced_def Let_def ac_simps split: prod.split bool.split)

lemma validate_loop_balanced:
  "balanced (List.length hs + n) m \<Longrightarrow> balanced n (fst (fold (validate ex ep wall) hs (m, s)))"
proof (induction hs arbitrary: m s)
  case (Cons h hs)
  obtain m1 s1 where 1: "validate ex ep wall h (m, s) = (m1, s1)" by fastforce
  have "balanced (List.length hs + n) m1"
    using validate_balanced [of "List.length hs + n" m ex ep wall h s] Cons.prems 1 by simp
  then show ?case using Cons.IH 1 by simp
qed simp

lemma requeue_all_balanced:
  "balanced (List.length hs + n) m \<Longrightarrow> balanced n (requeue_all hs m)"
proof (induction hs arbitrary: m)
  case (Cons h hs)
  have "mgr_ok m" using Cons.prems by (simp add: balanced_def)
  then have "balanced (List.length hs + n) (on_stripe (hint_shard h) (requeue h) m)"
    using Cons.prems on_stripe_requeue [of m "hint_shard h" h] by (simp add: balanced_def ac_simps)
  then show ?case using Cons.IH by (simp add: requeue_all_def)
qed (simp add: requeue_all_def)

lemma requeue_all_sel [simp]:
  "tick (requeue_all hs m) = tick m" "epoch (requeue_all hs m) = epoch m"
  "epochNano (requeue_all hs m) = epochNano m" "maxPerTick (requeue_all hs m) = maxPerTick m"
  "current (requeue_all hs m) = current m" "lateTicks (requeue_all hs m) = lateTicks m"
  by (induction hs arbitrary: m) (simp_all add: requeue_all_def)

lemma process_balanced:
  assumes "balanced (List.length hs) m"
  shows "balanced 0 (fst (process ex ep hs wall (m, s)))"
proof (cases "maxPerTick m > 0 \<and> int (List.length hs) > maxPerTick m")
  case True
  let ?cap = "nat (maxPerTick m)" let ?m = "requeue_all (drop ?cap hs) m"
  have "List.length (drop ?cap hs) + List.length (take ?cap hs) = List.length hs" by simp
  then have "balanced (List.length (take ?cap hs)) ?m"
    using assms by (intro requeue_all_balanced) simp
  then have "balanced (List.length (take ?cap hs) + 0) (?m\<lparr>deferred := d\<rparr>)" for d
    by (simp add: balanced_def)
  then show ?thesis using True by (simp add: process_def Let_def validate_loop_balanced)
next
  case False
  then show ?thesis
    using validate_loop_balanced [of hs 0] assms by (auto simp: process_def Let_def)
qed

lemma advance_one_balanced:
  assumes "balanced 0 m"
  shows "balanced 0 (fst (advance_one ex ep wall (m, s)))"
proof -
  obtain buf ws where a: "advance_stripes [] (stripes m) = (buf, ws)" by fastforce
  have ok: "mgr_ok m" using assms by (simp add: balanced_def)
  then have st: "in_step (current m) (stripes m)" by (simp add: mgr_ok_def)
  note adv = advance_stripes_bag [OF st a]
  have "mset buf + bag_of ws = bag_of (stripes m)" using adv by (auto simp: multiset_partition)
  then have "size (bag_of (stripes m)) = List.length buf + size (bag_of ws)"
    by (metis size_mset size_union)
  then have "balanced (List.length buf) (m\<lparr>current := current m + 1, ticks := ticks m + 1, stripes := ws\<rparr>)"
    using assms adv by (auto simp: balanced_def mgr_ok_def ac_simps)
  then show ?thesis using a by (simp add: advance_one_def Let_def process_balanced)
qed

section \<open>The clock of the loop\<close>

text \<open>What a tick leaves alone, and that it moves the clock by one.\<close>

definition same_config :: "manager \<Rightarrow> manager \<Rightarrow> bool" where
  "same_config m m' \<longleftrightarrow> tick m' = tick m \<and> epoch m' = epoch m \<and> epochNano m' = epochNano m
     \<and> maxPerTick m' = maxPerTick m \<and> lateTicks m' = lateTicks m"

lemma validate_config:
  "same_config m (fst (validate ex ep wall h (m, s))) \<and> current (fst (validate ex ep wall h (m, s))) = current m"
  by (auto simp: validate_def same_config_def Let_def split: prod.split bool.split)

lemma validate_loop_config:
  "same_config m (fst (fold (validate ex ep wall) hs (m, s)))
     \<and> current (fst (fold (validate ex ep wall) hs (m, s))) = current m"
proof (induction hs arbitrary: m s)
  case (Cons h hs)
  obtain m1 s1 where 1: "validate ex ep wall h (m, s) = (m1, s1)" by fastforce
  then show ?case
    using Cons.IH [of m1 s1] validate_config [of m ex ep wall h s] by (simp add: same_config_def)
qed (simp add: same_config_def)

lemma process_config:
  "same_config m (fst (process ex ep hs wall (m, s))) \<and> current (fst (process ex ep hs wall (m, s))) = current m"
  using validate_loop_config [of _ ex ep wall]
  by (auto simp: process_def Let_def same_config_def)

lemma advance_one_config:
  "same_config m (fst (advance_one ex ep wall (m, s)))
     \<and> current (fst (advance_one ex ep wall (m, s))) = current m + 1"
proof -
  obtain buf ws where a: "advance_stripes [] (stripes m) = (buf, ws)" by fastforce
  let ?m = "m\<lparr>current := Suc (current m), ticks := ticks m + 1, stripes := ws\<rparr>"
  show ?thesis
    using process_config [of ?m ex ep buf wall s] a by (simp add: advance_one_def Let_def same_config_def)
qed

text \<open>
  The loop keeps whatever one tick keeps, by induction on the loop's own fixpoint: this covers every
  run that returns, after however many ticks and whatever the polls of the quit channel say.
\<close>

lemma catch_loop_keeps:
  assumes ret: "catch_loop ex ep quits mclk wall n ms = Some y"
    and start: "Q ms" and step: "\<And>ms. Q ms \<Longrightarrow> Q (advance_one ex ep wall ms)"
  shows "Q (snd y)"
proof -
  have "(\<forall>ms. Q ms \<longrightarrow> Q (advance_one ex ep wall ms)) \<longrightarrow> Q ms \<longrightarrow> Q (snd y)"
  proof (rule catch_loop.raw_induct [where P = "\<lambda>ex ep quits mclk wall n ms y.
        (\<forall>ms. Q ms \<longrightarrow> Q (advance_one ex ep wall ms)) \<longrightarrow> Q ms \<longrightarrow> Q (snd y)", OF _ ret], intro impI)
    fix f ex ep quits mclk wall n ms y
    assume IH: "\<And>ex ep quits mclk wall n ms y. f ex ep quits mclk wall n ms = Some y \<Longrightarrow>
        (\<forall>ms. Q ms \<longrightarrow> Q (advance_one ex ep wall ms)) \<longrightarrow> Q ms \<longrightarrow> Q (snd y)"
      and eq: "(if mclk < tick_deadline (current (fst ms) + 1) (fst ms) then Some (n, ms)
        else let ms = advance_one ex ep wall ms
             in if quits n then Some (n + 1, ms) else f ex ep quits mclk wall (n + 1) ms) = Some y"
      and step: "\<forall>ms. Q ms \<longrightarrow> Q (advance_one ex ep wall ms)" and ms: "Q ms"
    have ms': "Q (advance_one ex ep wall ms)" using step ms by blast
    have "Q (snd y)" if "f ex ep quits mclk wall (n + 1) (advance_one ex ep wall ms) = Some y"
      using IH [OF that] step ms' by blast
    with eq ms ms' show "Q (snd y)" by (auto simp only: Let_def option.inject snd_conv split: if_splits)
  qed
  then show ?thesis using start step by blast
qed

text \<open>A predicate of the clock's bookkeeping besides the tick is kept by the whole of \<open>catchUp\<close>.\<close>

lemma catch_up_keeps:
  assumes ret: "catch_up ex ep quits mclk wall (m, s) = Some (n, m', s')"
    and start: "Q (m, s)" and step: "\<And>ms. Q ms \<Longrightarrow> Q (advance_one ex ep wall ms)"
    and lag: "\<And>m s x. Q (m, s) \<Longrightarrow> Q (m\<lparr>maxLag := x\<rparr>, s)"
    and late: "\<And>m s x. Q (m, s) \<Longrightarrow> Q (m\<lparr>lateTicks := x\<rparr>, s)"
  shows "Q (m', s')"
proof (cases "tick_deadline (current m + 1) m > mclk")
  case True
  then show ?thesis using ret start by (simp add: catch_up_def)
next
  case False
  define m1 where "m1 = (let l = i64 (mclk - tick_deadline (current m + 1) m)
    in if l > maxLag m then m\<lparr>maxLag := l\<rparr> else m)"
  obtain m2 where l: "catch_loop ex ep quits mclk wall 0 (m1, s) = Some (n, m2, s')"
    and m': "m' = record_late n m2"
    using ret False by (auto simp: catch_up_def m1_def Let_def)
  have "Q (m1, s)" using start lag by (simp add: m1_def Let_def)
  then have "Q (m2, s')" using catch_loop_keeps [OF l, of Q] step by simp
  then show ?thesis using late by (simp add: m' record_late_def)
qed

lemma catch_up_balanced:
  "catch_up ex ep quits mclk wall (m, s) = Some (n, m', s') \<Longrightarrow> balanced 0 m \<Longrightarrow> balanced 0 m'"
  by (drule catch_up_keeps [where Q = "\<lambda>ms. balanced 0 (fst ms)"])
    (auto simp: advance_one_balanced, auto simp: balanced_def)

section \<open>Histories\<close>

text \<open>
  Everything that can happen to a manager from its construction: hints added, the lifecycle calls,
  wake-ups of the loop, and clients changing the keyspace behind it.
\<close>

inductive mgr_reach :: "'s expiry_fn \<Rightarrow> 's expire_fn \<Rightarrow> manager \<times> 's \<Rightarrow> bool"
  for ex :: "'s expiry_fn" and ep :: "'s expire_fn" where
  new: "mgr_reach ex ep (new_manager mclk wall cfg, s)"
| add: "mgr_reach ex ep (m, s) \<Longrightarrow> mgr_reach ex ep (manager_add shard key expireAt m, s)"
| start: "mgr_reach ex ep (m, s) \<Longrightarrow> mgr_reach ex ep (snd (manager_start m), s)"
| stop: "mgr_reach ex ep (m, s) \<Longrightarrow> mgr_reach ex ep (snd (manager_stop drained m), s)"
| wake: "mgr_reach ex ep (m, s) \<Longrightarrow> catch_up ex ep quits mclk wall (m, s) = Some (n, m', s') \<Longrightarrow>
    mgr_reach ex ep (m', s')"
| clients: "mgr_reach ex ep (m, s) \<Longrightarrow> mgr_reach ex ep (m, s')"

lemma normalize_ok: "Tick (normalize cfg) > 0" "\<exists>k. Stripes (normalize cfg) = 2 ^ k"
  using round_up_pow2_least by (auto simp: normalize_def Let_def DefaultTick_def)

lemma new_manager_balanced: "balanced 0 (new_manager mclk wall cfg)"
proof -
  obtain k where "Stripes (normalize cfg) = 2 ^ k" using normalize_ok(2) by blast
  moreover have "bag_of (replicate n new_wheel) = {#}" for n
    by (induction n) (simp_all add: bag_of_def)
  ultimately show ?thesis
    using normalize_ok(1) [of cfg] wheel_inv_new
    by (auto simp: balanced_def new_manager_def Let_def mgr_ok_def in_step_def nat_power_eq)
qed

lemma manager_add_balanced: "balanced 0 m \<Longrightarrow> balanced 0 (manager_add shard key expireAt m)"
  using on_stripe_add [of m shard]
  by (auto simp: manager_add_def balanced_def Let_def ac_simps)

lemma mgr_reach_balanced: "mgr_reach ex ep ms \<Longrightarrow> balanced 0 (fst ms)"
proof (induction rule: mgr_reach.induct)
  case (new mclk wall cfg s)
  then show ?case by (simp add: new_manager_balanced)
next
  case (add m s shard key expireAt)
  then show ?case by (simp add: manager_add_balanced)
next
  case (wake m s quits mclk wall n m' s')
  then show ?case using catch_up_balanced by simp
qed (auto simp: manager_start_def manager_stop_def balanced_def)

lemma fold_pairs:
  fixes f g :: "'a \<Rightarrow> 'b::comm_monoid_add"
  shows "fold (\<lambda>w (p, v). (p + f w, v + g w)) ws (a, b)
     = (a + (\<Sum>w \<leftarrow> ws. f w), b + (\<Sum>w \<leftarrow> ws. g w))"
  by (induction ws arbitrary: a b) (simp_all add: ac_simps)

lemma pending_bag:
  assumes "in_step c ws"
  shows "(\<Sum>w \<leftarrow> ws. fst (wheel_counts w)) = of_nat (size (bag_of ws))"
proof -
  have "\<forall>w \<in> set ws. pending w = of_nat (size (hints w))"
    using assms by (simp add: in_step_def wheel_inv_def)
  then show ?thesis by (induction ws) (simp_all add: bag_of_def wheel_counts_def)
qed

text \<open>
  No hint is lost or counted twice: at any moment between the manager's operations, whatever
  was added, fired, deferred, requeued or reinserted before, the hints accepted are those pending
  plus those expired plus those dropped; every firing was an expiry, a drop or a reinsertion; and
  the pending count reported is the number of hints in the wheels.
\<close>

lemma ttl_accounting:
  assumes "mgr_reach ex ep (m, s)"
  shows "ts_Pending (manager_stats m) + ts_Expired (manager_stats m) + ts_Dropped (manager_stats m)
      = ts_Added (manager_stats m)
    \<and> ts_Fired (manager_stats m)
      = ts_Expired (manager_stats m) + ts_Dropped (manager_stats m) + ts_Reinserted (manager_stats m)
    \<and> ts_Pending (manager_stats m) = of_nat (size (bag_of (stripes m)))"
proof -
  have b: "balanced 0 m" using mgr_reach_balanced [OF assms] by simp
  then have "in_step (current m) (stripes m)" by (simp add: balanced_def mgr_ok_def)
  then have "ts_Pending (manager_stats m) = of_nat (size (bag_of (stripes m)))"
    by (simp add: manager_stats_def fold_pairs pending_bag)
  then show ?thesis using b by (simp add: balanced_def manager_stats_def split: prod.split)
qed

section \<open>Ticks and deadlines\<close>

text \<open>
  A hint's tick is the first tick whose deadline is at or after the key's expiry, as read on
  the wall clock from the epoch: a hint never fires before its key's deadline, and waits for less
  than one tick after it.
\<close>

lemma tick_for_least_deadline:
  assumes "tick m > 0" and "0 < expireAt - epochNano m" and "expireAt - epochNano m + tick m \<le> max_int64"
  shows "expireAt \<le> epochNano m + int (tick_for expireAt m) * tick m
    \<and> epochNano m + int (tick_for expireAt m) * tick m < expireAt + tick m"
proof -
  let ?d = "expireAt - epochNano m" and ?s = "tick m"
  have d: "i64 ?d = ?d" using assms by (intro i64_id) auto
  have q: "0 \<le> ?d div ?s" using assms by (simp add: pos_imp_zdiv_nonneg_iff)
  have "?d div ?s \<le> ?d" using zdiv_mono2 [of ?d 1 ?s] assms by simp
  then have i: "i64 (?d div ?s + 1) = ?d div ?s + 1" using q assms by (intro i64_id) auto
  have e: "?d = ?s * (?d div ?s) + ?d mod ?s" by simp
  have t: "int (tick_for expireAt m) = (if ?d mod ?s \<noteq> 0 then ?d div ?s + 1 else ?d div ?s)"
    using assms(2) d i q by (simp add: tick_for_def Let_def)
  have m: "0 \<le> ?d mod ?s" "?d mod ?s < ?s" using assms(1) by simp_all
  have "?d \<le> int (tick_for expireAt m) * ?s \<and> int (tick_for expireAt m) * ?s < ?d + ?s"
  proof (cases "?d mod ?s = 0")
    case True
    then have "int (tick_for expireAt m) * ?s = ?d" using t e by (simp add: mult.commute)
    then show ?thesis using assms(1) by simp
  next
    case False
    then have "int (tick_for expireAt m) * ?s = ?s * (?d div ?s) + ?s"
      using t by (simp add: algebra_simps)
    then show ?thesis using e m False by linarith
  qed
  then show ?thesis by linarith
qed

text \<open>Until the clock of ticks would leave 64 bits, deadlines are exact.\<close>

lemma tick_deadline_exact:
  assumes "tick m > 0" "int t * tick m \<le> max_int64"
  shows "tick_deadline t m = epoch m + int t * tick m"
proof -
  have "int t * 1 \<le> int t * tick m" using assms(1) by (intro mult_left_mono) auto
  then have "i64 (int t) = int t" using assms(2) by (intro i64_id) auto
  moreover have "i64 (int t * tick m) = int t * tick m"
    using assms by (intro i64_id) (auto intro: order_trans [of _ 0])
  ultimately show ?thesis by (simp add: tick_deadline_def)
qed

lemma int_div_less:
  assumes "0 < (s :: int)"
  shows "x div s < t \<longleftrightarrow> x < t * s"
proof
  assume "x div s < t"
  then have "(x div s + 1) * s \<le> t * s" using assms by (intro mult_right_mono) auto
  moreover have "x < (x div s + 1) * s"
  proof -
    have "x div s * s + x mod s = x" "(x div s + 1) * s = x div s * s + s"
      by (simp, simp add: distrib_right)
    then show ?thesis using assms pos_mod_bound [of s x] by linarith
  qed
  ultimately show "x < t * s" by simp
next
  assume "x < t * s"
  moreover have "x div s * s \<le> x" using assms pos_mod_sign [of s x] div_mult_mod_eq [of x s] by linarith
  ultimately have "x div s * s < t * s" by simp
  then show "x div s < t" using assms by simp
qed

lemma deadline_passed:
  assumes "tick m > 0" "int t * tick m \<le> max_int64"
  shows "tick_deadline t m > mclk \<longleftrightarrow> (mclk - epoch m) div tick m < int t"
  using assms by (auto simp: tick_deadline_exact int_div_less)

text \<open>
  \<open>target\<close>: the last tick whose deadline has passed. The loop runs until the clock has reached it,
  so the number of ticks left is a measure.
\<close>

definition target :: "int \<Rightarrow> manager \<Rightarrow> nat" where
  "target mclk m = nat ((mclk - epoch m) div tick m)"

lemma catch_loop_returns:
  assumes "tick m > 0" "0 \<le> mclk - epoch m" "mclk - epoch m + tick m \<le> max_int64"
    and "current m \<le> target mclk m"
  shows "\<exists>m' s'. catch_loop ex ep quits mclk wall n (m, s) = Some (n + (current m' - current m), m', s')
    \<and> current m \<le> current m' \<and> current m' \<le> target mclk m
    \<and> ((\<forall>i. \<not> quits i) \<longrightarrow> current m' = target mclk m)"
  using assms
proof (induction "target mclk m - current m" arbitrary: m n s)
  let ?w = "\<lambda>m. (mclk - epoch m) div tick m"
  {
    fix m :: manager
    assume m: "tick m > 0" "0 \<le> mclk - epoch m" "mclk - epoch m + tick m \<le> max_int64"
      "current m \<le> target mclk m"
    have w: "0 \<le> ?w m" "int (target mclk m) = ?w m"
      using m by (simp_all add: target_def pos_imp_zdiv_nonneg_iff)
    have "?w m * tick m \<le> mclk - epoch m"
      using m(1) pos_mod_sign [of "tick m" "mclk - epoch m"]
        div_mult_mod_eq [of "mclk - epoch m" "tick m"] by linarith
    moreover have "int (current m + 1) * tick m \<le> (?w m + 1) * tick m"
      using m(1,4) w(2) by (intro mult_right_mono) auto
    ultimately have "int (current m + 1) * tick m \<le> max_int64"
      using m(3) by (simp add: algebra_simps)
    note deadline_passed [OF m(1) this, of mclk]
    then have "tick_deadline (current m + 1) m > mclk \<longleftrightarrow> target mclk m < current m + 1"
      using w by auto
  } note stop = this
  {
    case 0
    then have "tick_deadline (current m + 1) m > mclk" using stop [of m] by simp
    then show ?case using 0 by (subst catch_loop.simps) auto
  next
    case (Suc d)
    then have "current m < target mclk m" by simp
    then have go: "\<not> tick_deadline (current m + 1) m > mclk" using stop [of m] Suc.prems by simp
    obtain m1 s1 where 1: "advance_one ex ep wall (m, s) = (m1, s1)" by fastforce
    have m1: "tick m1 = tick m" "epoch m1 = epoch m" "current m1 = current m + 1"
      using advance_one_config [of m ex ep wall s] 1 by (auto simp: same_config_def)
    then have t: "target mclk m1 = target mclk m" by (simp add: target_def)
    have eq: "catch_loop ex ep quits mclk wall n (m, s) =
        (if quits n then Some (n + 1, m1, s1) else catch_loop ex ep quits mclk wall (n + 1) (m1, s1))"
      using go 1 by (subst catch_loop.simps) simp
    show ?case
    proof (cases "quits n")
      case True
      then show ?thesis using eq m1 \<open>current m < target mclk m\<close> by auto
    next
      case False
      have "\<exists>m' s'. catch_loop ex ep quits mclk wall (n + 1) (m1, s1)
            = Some (n + 1 + (current m' - current m1), m', s')
          \<and> current m1 \<le> current m' \<and> current m' \<le> target mclk m1
          \<and> ((\<forall>i. \<not> quits i) \<longrightarrow> current m' = target mclk m1)"
        using Suc.hyps(2) Suc.prems m1 t by (intro Suc.hyps(1)) auto
      then show ?thesis using False eq m1 t by auto
    qed
  }
qed

text \<open>
  A wake-up of the tick loop returns, and has run every tick whose deadline has passed, one at a
  time: the clock ends at the last such tick, the number processed is how far it moved, and all but
  the first of them are counted as late. Only a stop request ends it earlier.
\<close>

lemma catch_up_reaches_now:
  assumes "tick m > 0" and "0 \<le> mclk - epoch m" and "mclk - epoch m + tick m \<le> max_int64"
    and "current m \<le> target mclk m"
  shows "\<exists>n m' s'. catch_up ex ep quits mclk wall (m, s) = Some (n, m', s')
    \<and> current m' = current m + n \<and> current m' \<le> target mclk m
    \<and> ((\<forall>i. \<not> quits i) \<longrightarrow> current m' = target mclk m)
    \<and> lateTicks m' = lateTicks m + of_nat (n - 1)"
proof (cases "tick_deadline (current m + 1) m > mclk")
  case True
  have w: "0 \<le> (mclk - epoch m) div tick m" using assms by (simp add: pos_imp_zdiv_nonneg_iff)
  have "(mclk - epoch m) div tick m * tick m \<le> mclk - epoch m"
    using assms(1) pos_mod_sign [of "tick m" "mclk - epoch m"]
      div_mult_mod_eq [of "mclk - epoch m" "tick m"] by linarith
  moreover have "int (current m + 1) * tick m \<le> ((mclk - epoch m) div tick m + 1) * tick m"
    using assms(1,4) w by (intro mult_right_mono) (auto simp: target_def)
  ultimately have "int (current m + 1) * tick m \<le> max_int64"
    using assms(3) by (simp add: algebra_simps)
  then have "(mclk - epoch m) div tick m < int (current m + 1)"
    using deadline_passed [OF assms(1)] True by blast
  then have "current m = target mclk m" using assms(4) w by (simp add: target_def)
  then show ?thesis using True by (simp add: catch_up_def)
next
  case False
  define m1 where "m1 = (let l = i64 (mclk - tick_deadline (current m + 1) m)
    in if l > maxLag m then m\<lparr>maxLag := l\<rparr> else m)"
  have m1: "tick m1 = tick m" "epoch m1 = epoch m" "current m1 = current m" "lateTicks m1 = lateTicks m"
    by (simp_all add: m1_def Let_def)
  then have t: "target mclk m1 = target mclk m" by (simp add: target_def)
  obtain m2 s2 where l: "catch_loop ex ep quits mclk wall 0 (m1, s) = Some (0 + (current m2 - current m1), m2, s2)"
    and m2: "current m1 \<le> current m2" "current m2 \<le> target mclk m1"
      "(\<forall>i. \<not> quits i) \<longrightarrow> current m2 = target mclk m1"
    using catch_loop_returns [of m1 mclk ex ep quits wall 0 s] assms m1 t by auto
  have "lateTicks m2 = lateTicks m"
  proof -
    have "lateTicks (fst (advance_one ex ep wall ms)) = lateTicks (fst ms)" for ms
      using advance_one_config [of "fst ms" ex ep wall "snd ms"] by (simp add: same_config_def)
    then show ?thesis
      using catch_loop_keeps [OF l, of "\<lambda>ms. lateTicks (fst ms) = lateTicks m"] m1(4) by simp
  qed
  moreover have "catch_up ex ep quits mclk wall (m, s)
      = Some (current m2 - current m, record_late (current m2 - current m) m2, s2)"
    using False l m1 by (simp add: catch_up_def m1_def Let_def)
  ultimately show ?thesis using m2 m1 t by (auto simp: record_late_def)
qed

section \<open>What the manager owes the keyspace\<close>

text \<open>
  The contract of the \<open>Keyspace\<close> interface. \<open>inv lo hi s\<close>: \<open>s\<close> is well formed and its clock reads
  between \<open>lo\<close> and \<open>hi\<close> for the time being. \<open>Expire\<close> touches no key but by removing it, removes a
  key that is past its expiry, and leaves a live one.
\<close>

locale ttl_keyspace =
  fixes inv :: "int \<Rightarrow> int \<Rightarrow> 's \<Rightarrow> bool"
    and ex :: "'s expiry_fn"
    and ep :: "'s expire_fn"
  assumes expire_inv: "inv lo hi s \<Longrightarrow> inv lo hi (snd (ep i k s))"
    and expire_gone: "inv lo hi s \<Longrightarrow> ex i k s = (d, True) \<Longrightarrow> d \<noteq> 0 \<Longrightarrow> d < lo \<Longrightarrow>
          \<not> snd (ex i k (snd (ep i k s)))"
    and expire_live: "inv lo hi s \<Longrightarrow> ex j k' s = (d, True) \<Longrightarrow> d = 0 \<or> hi \<le> d \<Longrightarrow>
          ex j k' (snd (ep i k s)) = (d, True)"
    and expire_frame: "inv lo hi s \<Longrightarrow>
          ex j k' (snd (ep i k s)) = ex j k' s \<or> \<not> snd (ex j k' (snd (ep i k s)))"
begin

lemma validate_state: "snd (validate ex ep wall h (m, s)) = s
    \<or> snd (validate ex ep wall h (m, s)) = snd (ep (hint_shard h) (hint_key h) s)"
  by (auto simp: validate_def Let_def split: prod.split bool.split)

lemma validate_inv: "inv lo hi (snd ms) \<Longrightarrow> inv lo hi (snd (validate ex ep wall h ms))"
  using validate_state [of wall h "fst ms" "snd ms"] expire_inv [of lo hi "snd ms"] by auto

lemma validate_live:
  "inv lo hi (snd ms) \<Longrightarrow> ex j k (snd ms) = (d, True) \<Longrightarrow> d = 0 \<or> hi \<le> d \<Longrightarrow>
     ex j k (snd (validate ex ep wall h ms)) = (d, True)"
  using validate_state [of wall h "fst ms" "snd ms"] expire_live [of lo hi "snd ms" j k d] by auto

lemma validate_frame:
  "inv lo hi (snd ms) \<Longrightarrow> ex j k (snd (validate ex ep wall h ms)) = ex j k (snd ms)
     \<or> \<not> snd (ex j k (snd (validate ex ep wall h ms)))"
  using validate_state [of wall h "fst ms" "snd ms"] expire_frame [of lo hi "snd ms" j k "hint_shard h" "hint_key h"]
  by (metis prod.collapse)

lemma validate_gone:
  assumes "inv lo hi (snd ms)" "d \<noteq> 0" "d < lo" "d < wall"
    and "ex (hint_shard h) (hint_key h) (snd ms) = (d, True) \<or> \<not> snd (ex (hint_shard h) (hint_key h) (snd ms))"
  shows "\<not> snd (ex (hint_shard h) (hint_key h) (snd (validate ex ep wall h ms)))"
proof (cases ms)
  case (Pair m s)
  obtain d' p where e: "ex (hint_shard h) (hint_key h) s = (d', p)" by fastforce
  show ?thesis
    using assms Pair e expire_gone [of lo hi s "hint_shard h" "hint_key h" d]
    by (auto simp: validate_def Let_def split: prod.split bool.split)
qed

lemma loop_keeps:
  assumes "Q ms" and "\<And>h ms. Q ms \<Longrightarrow> Q (validate ex ep wall h ms)"
  shows "Q (fold (validate ex ep wall) hs ms)"
  using assms by (induction hs arbitrary: ms) auto

text \<open>A predicate of the keyspace alone that validation keeps is kept by a tick and by a catch-up.\<close>

lemma advance_one_keeps:
  assumes "R (snd ms)" and step: "\<And>h ms. R (snd ms) \<Longrightarrow> R (snd (validate ex ep wall h ms))"
  shows "R (snd (advance_one ex ep wall ms))"
proof (cases ms)
  case (Pair m s)
  obtain buf ws where a: "advance_stripes [] (stripes m) = (buf, ws)" by fastforce
  have "R (snd (process ex ep buf wall (m', s)))" for m'
    using loop_keeps [where Q = "\<lambda>ms. R (snd ms)" and wall = wall, OF _ step] assms(1) Pair
    by (simp add: process_def Let_def)
  then show ?thesis using Pair a by (simp add: advance_one_def Let_def)
qed

lemma catch_up_live:
  assumes "catch_up ex ep quits mclk wall (m, s) = Some (n, m', s')"
    and "inv lo hi s" "ex j k s = (d, True)" "d = 0 \<or> hi \<le> d"
  shows "ex j k s' = (d, True)"
proof -
  let ?R = "\<lambda>s. inv lo hi s \<and> ex j k s = (d, True)"
  have "?R (snd (validate ex ep wall h ms))" if "?R (snd ms)" for h ms
    using that validate_inv validate_live assms(4) by blast
  then have "?R (snd (advance_one ex ep wall ms))" if "?R (snd ms)" for ms
    using that advance_one_keeps [where R = ?R] by blast
  then have "?R (snd (m', s'))"
    using assms(2,3) by (intro catch_up_keeps [OF assms(1), where Q = "\<lambda>ms. ?R (snd ms)"]) auto
  then show ?thesis by simp
qed

lemma loop_gone:
  assumes "inv lo hi (snd ms)" "h \<in> set hs" "d \<noteq> 0" "d < lo" "d < wall"
    and "ex (hint_shard h) (hint_key h) (snd ms) = (d, True) \<or> \<not> snd (ex (hint_shard h) (hint_key h) (snd ms))"
  shows "\<not> snd (ex (hint_shard h) (hint_key h) (snd (fold (validate ex ep wall) hs ms)))"
  using assms(1,2,6)
proof (induction hs arbitrary: ms)
  case (Cons g hs)
  let ?i = "hint_shard h" and ?k = "hint_key h" and ?ms = "validate ex ep wall g ms"
  have inv: "inv lo hi (snd ?ms)" by (rule validate_inv) (rule Cons.prems)
  have fr: "ex ?i ?k (snd ?ms) = ex ?i ?k (snd ms) \<or> \<not> snd (ex ?i ?k (snd ?ms))"
    by (rule validate_frame) (rule Cons.prems)
  show ?case
  proof (cases "h \<in> set hs")
    case True
    then show ?thesis using Cons.IH [OF inv True] fr Cons.prems(3) by auto
  next
    case False
    then have "g = h" using Cons.prems(2) by simp
    then have "\<not> snd (ex ?i ?k (snd ?ms))"
      using validate_gone [of lo hi ms d wall h] Cons.prems assms(3,4,5) by blast
    then have "inv lo hi (snd ?ms) \<and> \<not> snd (ex ?i ?k (snd ?ms))" using inv by simp
    then have "inv lo hi (snd (fold (validate ex ep wall) hs ?ms))
        \<and> \<not> snd (ex ?i ?k (snd (fold (validate ex ep wall) hs ?ms)))"
    proof (rule loop_keeps [where Q = "\<lambda>ms :: manager \<times> 's. inv lo hi (snd ms) \<and> \<not> snd (ex ?i ?k (snd ms))"])
      fix g and ms :: "manager \<times> 's"
      assume "inv lo hi (snd ms) \<and> \<not> snd (ex ?i ?k (snd ms))"
      then show "inv lo hi (snd (validate ex ep wall g ms)) \<and> \<not> snd (ex ?i ?k (snd (validate ex ep wall g ms)))"
        using validate_inv validate_frame by metis
    qed
    then show ?thesis by simp
  qed
qed simp

lemma tick_reaps:
  assumes m: "mgr_ok m" and h: "h \<in># bag_of (stripes m)" "expireTick h = current m + 1"
    and cap: "maxPerTick m \<le> 0"
    and s: "inv lo hi s" "ex (hint_shard h) (hint_key h) s = (d, True)" "d \<noteq> 0" "d < lo" "d < wall"
  shows "\<not> snd (ex (hint_shard h) (hint_key h) (snd (advance_one ex ep wall (m, s))))"
proof -
  obtain buf ws where a: "advance_stripes [] (stripes m) = (buf, ws)" by fastforce
  have "in_step (current m) (stripes m)" using m by (simp add: mgr_ok_def)
  from advance_stripes_bag [OF this a] have "mset buf = {#h \<in># bag_of (stripes m). expireTick h = current m + 1#}"
    by auto
  then have "h \<in># mset buf" using h by simp
  then have "h \<in> set buf" by simp
  then show ?thesis
    using a cap loop_gone [of lo hi "(m', s)" h buf d wall for m'] s
    by (simp add: advance_one_def process_def Let_def)
qed

text \<open>A hint not due stays where it is for a tick.\<close>

lemma validate_bag:
  "mgr_ok m \<Longrightarrow> mgr_ok (fst (validate ex ep wall g (m, s)))
     \<and> bag_of (stripes m) \<subseteq># bag_of (stripes (fst (validate ex ep wall g (m, s))))"
  using on_stripe_add [of "m\<lparr>fired := fired m + 1\<rparr>"]
  by (auto simp: validate_def Let_def split: prod.split bool.split)

lemma advance_one_hint:
  assumes m: "mgr_ok m" and cap: "maxPerTick m \<le> 0"
    and h: "h \<in># bag_of (stripes m)" "expireTick h \<noteq> current m + 1"
  shows "h \<in># bag_of (stripes (fst (advance_one ex ep wall (m, s))))"
proof -
  obtain buf ws where a: "advance_stripes [] (stripes m) = (buf, ws)" by fastforce
  let ?m = "m\<lparr>current := current m + 1, ticks := ticks m + 1, stripes := ws\<rparr>"
  have "in_step (current m) (stripes m)" using m by (simp add: mgr_ok_def)
  note adv = advance_stripes_bag [OF this a]
  let ?Q = "\<lambda>ms :: manager \<times> 's. mgr_ok (fst ms) \<and> h \<in># bag_of (stripes (fst ms))"
  have "?Q (fold (validate ex ep wall) buf (?m, s))"
  proof (rule loop_keeps [where Q = ?Q])
    show "?Q (?m, s)" using adv h m by (auto simp: mgr_ok_def)
    show "?Q (validate ex ep wall g ms)" if "?Q ms" for g ms
      using that validate_bag [of "fst ms" wall g "snd ms"] by (auto dest: mset_subset_eqD)
  qed
  then show ?thesis using a cap by (simp add: advance_one_def process_def Let_def)
qed

lemma catch_up_reaps:
  assumes run: "catch_up ex ep quits mclk wall (m, s) = Some (n, m', s')"
    and m: "balanced 0 m" "maxPerTick m \<le> 0"
    and h: "h \<in># bag_of (stripes m)" "current m < expireTick h" "expireTick h \<le> current m'"
    and s: "inv lo hi s" "ex (hint_shard h) (hint_key h) s = (d, True)" "d \<noteq> 0" "d < lo" "d < wall"
  shows "\<not> snd (ex (hint_shard h) (hint_key h) s')"
proof -
  let ?e = "\<lambda>s. ex (hint_shard h) (hint_key h) s"
  let ?Q = "\<lambda>ms. balanced 0 (fst ms) \<and> maxPerTick (fst ms) \<le> 0 \<and> inv lo hi (snd ms) \<and>
    (\<not> snd (?e (snd ms)) \<or> ?e (snd ms) = (d, True)
       \<and> h \<in># bag_of (stripes (fst ms)) \<and> current (fst ms) < expireTick h)"
  have inv: "inv lo hi (snd (advance_one ex ep wall ms))" if "inv lo hi (snd ms)" for ms
    using that advance_one_keeps [where R = "inv lo hi"] validate_inv by blast
  have frame: "?e (snd (advance_one ex ep wall ms)) = x \<or> \<not> snd (?e (snd (advance_one ex ep wall ms)))"
    if "inv lo hi (snd ms)" "?e (snd ms) = x \<or> \<not> snd (?e (snd ms))" for ms x
    using advance_one_keeps [where R = "\<lambda>s. inv lo hi s \<and> (?e s = x \<or> \<not> snd (?e s))"]
      validate_inv validate_frame that by metis
  have step: "?Q (advance_one ex ep wall ms)" if Q: "?Q ms" for ms
  proof -
    have ok: "mgr_ok (fst ms)" using Q by (simp add: balanced_def)
    have cfg: "maxPerTick (fst (advance_one ex ep wall ms)) = maxPerTick (fst ms)"
      "current (fst (advance_one ex ep wall ms)) = current (fst ms) + 1"
      using advance_one_config [of "fst ms" ex ep wall "snd ms"] by (simp_all add: same_config_def)
    have bal: "balanced 0 (fst (advance_one ex ep wall ms))"
      using advance_one_balanced [of "fst ms" ex ep wall "snd ms"] Q by simp
    have key: "?e (snd (advance_one ex ep wall ms)) = (d, True) \<or> \<not> snd (?e (snd (advance_one ex ep wall ms)))"
      using Q by (intro frame) auto
    show ?thesis
    proof (cases "snd (?e (snd ms)) \<and> expireTick h \<noteq> current (fst ms) + 1")
      case True
      then have "h \<in># bag_of (stripes (fst (advance_one ex ep wall ms)))"
        using advance_one_hint [OF ok, of h wall "snd ms"] Q by auto
      then show ?thesis using Q True cfg bal key inv by auto
    next
      case False
      have "\<not> snd (?e (snd (advance_one ex ep wall ms)))"
      proof (cases "snd (?e (snd ms))")
        case True
        then show ?thesis
          using tick_reaps [OF ok, of h lo hi "snd ms" d wall] False Q s by auto
      next
        case gone: False
        have "?e (snd (advance_one ex ep wall ms)) = ?e (snd ms) \<or> \<not> snd (?e (snd (advance_one ex ep wall ms)))"
          using Q by (intro frame) auto
        then show ?thesis using gone by auto
      qed
      then show ?thesis using Q cfg bal inv by auto
    qed
  qed
  have "?Q (m', s')"
    by (rule catch_up_keeps [OF run, where Q = ?Q])
      (use m h s step in \<open>auto simp: balanced_def\<close>)
  then show ?thesis using h(3) by auto
qed

end

end
