(* ===== verification/Ttl_Spec.thy ===== *)
theory Ttl_Spec
  imports Ttl_Manager Engine_Spec
begin

text \<open>
  The time wheel over the storage engine: \<open>ShardedEngine\<close> provides the \<open>Keyspace\<close> contract
  (\<open>engine_keyspace\<close>), so a key that is live is never removed by the wheel, whatever hints it
  holds, and a key whose hint is due is gone after the tick.
\<close>

section \<open>The engine as a keyspace\<close>

text \<open>
  The engine reads its own clock when it expires a key; its readings to come are the second
  component, the first of them next.
\<close>

type_synonym clocked = "engine \<times> (nat \<Rightarrow> int)"

definition ks_expiry_of :: "int \<Rightarrow> bytes \<Rightarrow> clocked \<Rightarrow> int \<times> bool" where
  "ks_expiry_of i k s = engine_expiry_of i k (fst s)"

definition ks_expire :: "int \<Rightarrow> bytes \<Rightarrow> clocked \<Rightarrow> bool \<times> clocked" where
  "ks_expire i k s =
     (case engine_expire (snd s 0) i k (fst s) of (r, e) \<Rightarrow> (r, e, \<lambda>n. snd s (Suc n)))"

definition ks_inv :: "(bytes \<Rightarrow> u64) \<Rightarrow> int \<Rightarrow> int \<Rightarrow> clocked \<Rightarrow> bool" where
  "ks_inv hash lo hi s \<longleftrightarrow> eng_inv False hash (fst s) \<and> (\<forall>n. lo \<le> snd s n \<and> snd s n \<le> hi)"

lemma shard_at_put_back:
  "i < length (shards e) \<Longrightarrow>
     shard_at j (put_back i ms e) = (if shard_at j e \<noteq> None \<and> nat j = i then Some (snd ms) else shard_at j e)"
  by (auto simp: shard_at_def)

text \<open>What an expiry does to what \<open>ExpiryOf\<close> answers.\<close>

lemma engine_expire_expiry_of:
  assumes "eng_inv books hash e"
  shows "engine_expiry_of j k' (snd (engine_expire now i k e)) =
    (if fst (engine_expire now i k e) \<and> nat j = nat i \<and> shard_at j e \<noteq> None \<and> k' = k then (0, False)
     else engine_expiry_of j k' e)"
proof (cases "closed e \<or> shard_at i e = None")
  case True
  then show ?thesis
    by (auto simp: engine_expire_def engine_expiry_of_def expire_key_def split: option.split)
next
  case False
  then have i: "nat i < length (shards e)" "shard_at i e = Some (shards e ! nat i)"
    by (auto simp: shard_at_def split: if_splits)
  let ?r = "shard_expire now k (memory e, shards e ! nat i)"
  have e: "engine_expire now i k e = (fst ?r, put_back (nat i) (snd ?r) e)"
    using False i by (simp add: engine_expire_def expire_key_unfold Let_def at_shard_def)
  have lookup: "shard_lookup (snd (snd ?r)) x
      = (if fst ?r \<and> x = k then None else shard_lookup (shards e ! nat i) x)" for x
    using shard_expire_data [of now k "memory e" "shards e ! nat i"] by simp
  show ?thesis
  proof (cases "shard_at j e")
    case None
    then show ?thesis using False i unfolding e by (simp add: engine_expiry_of_def shard_at_put_back)
  next
    case (Some s)
    then have "s = shards e ! nat j" by (auto simp: shard_at_def split: if_splits)
    with Some False i(1) lookup show ?thesis
      unfolding e by (simp add: engine_expiry_of_def shard_at_put_back expiry_of_def)
  qed
qed

lemma engine_expire_True:
  assumes "\<not> closed e"
  shows "fst (engine_expire now i k e) \<longleftrightarrow>
    (\<exists>d. engine_expiry_of i k e = (d, True) \<and> d \<noteq> 0 \<and> d < now)"
proof (cases "shard_at i e")
  case (Some s)
  then have "s = shards e ! nat i" by (auto simp: shard_at_def split: if_splits)
  then show ?thesis
    using assms Some
    by (auto simp: engine_expire_def engine_expiry_of_def expire_key_unfold Let_def at_shard_def
        shard_expire_True expiry_of_def is_expired_def split: option.splits)
qed (simp add: engine_expire_def engine_expiry_of_def)

interpretation engine_keyspace: ttl_keyspace "ks_inv hash" ks_expiry_of ks_expire
proof
  fix lo hi :: int and s :: clocked and i j :: int and k k' :: bytes and d :: int
  assume inv: "ks_inv hash lo hi s"
  then have e: "eng_inv False hash (fst s)" and clk: "\<And>n. lo \<le> snd s n \<and> snd s n \<le> hi"
    by (auto simp: ks_inv_def)
  have ep: "fst (snd (ks_expire i k s)) = snd (engine_expire (snd s 0) i k (fst s))"
    "snd (snd (ks_expire i k s)) = (\<lambda>n. snd s (Suc n))" for i k
    by (simp_all add: ks_expire_def split: prod.split)
  note after = engine_expire_expiry_of [OF e]
  show "ks_inv hash lo hi (snd (ks_expire i k s))"
    using engine_expire_inv [OF e] clk by (simp add: ks_inv_def ep)
  show "ks_expiry_of j k' (snd (ks_expire i k s)) = ks_expiry_of j k' s
      \<or> \<not> snd (ks_expiry_of j k' (snd (ks_expire i k s)))"
    by (simp add: ks_expiry_of_def ep after)
  show "\<not> snd (ks_expiry_of i k (snd (ks_expire i k s)))"
    if "ks_expiry_of i k s = (d, True)" "d \<noteq> 0" "d < lo"
  proof -
    have open_shard: "\<not> closed (fst s)" "shard_at i (fst s) \<noteq> None"
      using that(1) by (auto simp: ks_expiry_of_def engine_expiry_of_def split: if_splits option.splits)
    moreover have "d < snd s 0" using that(3) clk [of 0] by simp
    ultimately have "fst (engine_expire (snd s 0) i k (fst s))"
      using that engine_expire_True [of "fst s" "snd s 0" i k] by (auto simp: ks_expiry_of_def)
    then show ?thesis using open_shard by (simp add: ks_expiry_of_def ep after)
  qed
  show "ks_expiry_of j k' (snd (ks_expire i k s)) = (d, True)"
    if live: "ks_expiry_of j k' s = (d, True)" "d = 0 \<or> hi \<le> d"
  proof -
    have open_shard: "\<not> closed (fst s)"
      using live(1) by (auto simp: ks_expiry_of_def engine_expiry_of_def split: if_splits)
    have "\<not> (fst (engine_expire (snd s 0) i k (fst s)) \<and> nat j = nat i \<and> shard_at j (fst s) \<noteq> None \<and> k' = k)"
    proof
      assume a: "fst (engine_expire (snd s 0) i k (fst s)) \<and> nat j = nat i \<and> shard_at j (fst s) \<noteq> None \<and> k' = k"
      then obtain d' where d': "engine_expiry_of i k (fst s) = (d', True)" "d' \<noteq> 0" "d' < snd s 0"
        using engine_expire_True [OF open_shard] by blast
      have "shard_at i (fst s) = shard_at j (fst s)"
        using a d'(1) open_shard by (auto simp: engine_expiry_of_def shard_at_def split: if_splits)
      then have "engine_expiry_of j k' (fst s) = engine_expiry_of i k (fst s)"
        using a by (simp add: engine_expiry_of_def)
      with d' live clk [of 0] show False by (simp add: ks_expiry_of_def)
    qed
    then show ?thesis using live(1) by (simp add: ks_expiry_of_def ep after)
  qed
qed

section \<open>The wheel against the engine\<close>

text \<open>
  C21. Hints are never truth: whatever hints the wheels hold, a wake-up of the tick loop leaves a key
  that is live at every clock reading of the wake-up in place with its expiry, however the wall
  clock reading the loop started from relates to them.
\<close>

theorem ttl_spares_live_keys:
  assumes "eng_inv False hash e"
    and "catch_up ks_expiry_of ks_expire quits mclk wall (m, e, clk) = Some (n, m', e', clk')"
    and "engine_expiry_of i key e = (d, True)" and "\<And>n. lo \<le> clk n"
    and "d = 0 \<or> (\<forall>n. clk n \<le> d)" and "\<And>n. clk n \<le> hi"
  shows "engine_expiry_of i key e' = (d, True)"
proof -
  let ?hi = "if d = 0 then hi else d"
  have "ks_inv hash lo ?hi (e, clk)" using assms by (auto simp: ks_inv_def)
  from engine_keyspace.catch_up_live [OF assms(2) this, of i key d] assms(3)
  show ?thesis by (simp add: ks_expiry_of_def)
qed


section \<open>The properties on concrete wheels\<close>

definition demo_ttl_cfg :: ttl_config where
  "demo_ttl_cfg = \<lparr>Tick = 100, Stripes = 1, MaxHintsPerTick = -1\<rparr>"

definition demo_manager :: manager where
  "demo_manager = new_manager 0 0 demo_ttl_cfg"

lemma demo_manager_sel:
  "tick demo_manager = 100" "epoch demo_manager = 0" "epochNano demo_manager = 0"
  "current demo_manager = 0" "lifecycle demo_manager = StateNew" "maxPerTick demo_manager = 0"
  "lateTicks demo_manager = 0"
  by (simp_all add: demo_manager_def new_manager_def demo_ttl_cfg_def normalize_def Let_def)

lemma demo_reach_manager: "mgr_reach ex ep (demo_manager, s)"
  unfolding demo_manager_def by (rule mgr_reach.new)

lemma demo_hint_sel:
  "tick (manager_add i k d demo_manager) = 100" "epoch (manager_add i k d demo_manager) = 0"
  "current (manager_add i k d demo_manager) = 0" "lateTicks (manager_add i k d demo_manager) = 0"
  "target 1000 (manager_add i k d demo_manager) = 10"
  by (simp_all add: manager_add_def Let_def demo_manager_sel target_def)

lemma ttl_accounting_witness:
  "ts_Pending (manager_stats (manager_add 0 ''a'' 60 demo_manager))
     = of_nat (size (bag_of (stripes (manager_add 0 ''a'' 60 demo_manager))))"
  using ttl_accounting [OF mgr_reach.add [OF demo_reach_manager [of nop_expiry_of nop_expire "()"]]]
  by blast

lemma tick_for_least_deadline_witness:
  "60 \<le> int (tick_for 60 demo_manager) * 100 \<and> int (tick_for 60 demo_manager) * 100 < 160"
  using tick_for_least_deadline [of demo_manager 60] by (simp add: demo_manager_sel)

lemma catch_up_reaches_now_witness:
  "\<exists>n m' s'. catch_up nop_expiry_of nop_expire (\<lambda>_. False) 1000 1000 (manager_add 0 ''a'' 60 demo_manager, ())
      = Some (n, m', s') \<and> n = 10 \<and> lateTicks m' = 9"
  using catch_up_reaches_now [of "manager_add 0 ''a'' 60 demo_manager" 1000 nop_expiry_of nop_expire
      "\<lambda>_. False" 1000 "()"]
  by (auto simp: demo_hint_sel)

lemma demo_key_expiry: "engine_expiry_of 0 ''a'' demo_engine = (0, True)"
  by (simp add: engine_expiry_of_def shard_at_def demo_engine_data expiry_of_def new_entry_def)

text \<open>A stale hint for a key that no longer has an expiry.\<close>

lemma ttl_spares_live_keys_witness:
  "\<exists>n m' e' clk'. catch_up ks_expiry_of ks_expire (\<lambda>_. False) 1000 1000
      (manager_add 0 ''a'' 60 demo_manager, demo_engine, \<lambda>_. 1000) = Some (n, m', e', clk')
    \<and> engine_expiry_of 0 ''a'' e' = (0, True)"
proof -
  obtain n m' e' clk' where c: "catch_up ks_expiry_of ks_expire (\<lambda>_. False) 1000 1000
      (manager_add 0 ''a'' 60 demo_manager, demo_engine, \<lambda>_. 1000) = Some (n, m', e', clk')"
    using catch_up_reaches_now [of "manager_add 0 ''a'' 60 demo_manager" 1000 ks_expiry_of ks_expire
        "\<lambda>_. False" 1000 "(demo_engine, \<lambda>_. 1000)"]
    by (auto simp: demo_hint_sel)
  have "eng_inv False demo_hash demo_engine"
    by (rule eng_inv_weaken [OF eng_reach_inv [OF demo_reach_engine demo_cfg_small]])
  from ttl_spares_live_keys [OF this c demo_key_expiry, of 1000 1000] c show ?thesis by auto
qed

text \<open>The same key stored with a time to live of 50.\<close>

definition demo_timed :: engine where
  "demo_timed = snd (engine_set demo_hash 10 (\<lambda>_. 10) ''a'' ''v'' 50 demo_start)"

lemma demo_timed_inv: "eng_inv False demo_hash demo_timed"
proof -
  have "eng_reach demo_hash demo_cfg demo_start"
    unfolding demo_start_def by (rule er_step [OF er_new e_ctl])
  moreover have "headroom (memory demo_start)"
    by (simp add: headroom_def demo_start_unfold)
  ultimately have "eng_reach demo_hash demo_cfg demo_timed"
    unfolding demo_timed_def by (blast intro: er_step e_set)
  from eng_inv_weaken [OF eng_reach_inv [OF this demo_cfg_small]] show ?thesis .
qed

lemma demo_timed_expiry: "engine_expiry_of 0 ''a'' demo_timed = (60, True)"
  by (simp add: demo_timed_def engine_set_def validate_write_def demo_start_unfold Let_def
      shard_for_def demo_hash_def at_shard_def admit_and_store_first
      shard_put_unfold put_blocked_def resident_size_def reserve_def reserve_next_def
      new_memory_tracker_def set_lazy_expiration_def new_shard_def put_back_def schedule_def
      calculate_size_def EntryOverhead_def max_uint32_def new_entry_def
      engine_expiry_of_def shard_at_def expiry_of_def)


lemma round_up_pow2_least_witness: "100 \<le> round_up_pow2 100 \<and> round_up_pow2 100 \<le> 2 ^ 7"
proof -
  have "100 \<le> round_up_pow2 100" "\<forall>j. (100::int) \<le> 2 ^ j \<longrightarrow> round_up_pow2 100 \<le> 2 ^ j"
    using round_up_pow2_least [of 100] by simp_all
  then show ?thesis by (auto dest: spec [of _ 7])
qed

end
