(* ===== verification/Go_Reader.thy ===== *)
theory Go_Reader
  imports Go_Lib
begin

text \<open>
  What the two decoders use of \<open>bufio.Reader\<close> and \<open>io.ReadFull\<close>. A reader is the bytes that have
  arrived and not been consumed, and how the stream goes on after them: \<open>None\<close> means that nothing
  more arrives, so that a read past the end blocks; \<open>Some e\<close> that the next read fails with \<open>e\<close>.
  A read therefore has three outcomes. \<open>B\<close> is the size of the buffer, which \<open>bufio\<close> holds to at
  least 16 bytes.
\<close>

datatype io_error =
    EOF | UnexpectedEOF | Protocol bytes | RequestTooLarge | DeadlineExceeded | NetClosed | OtherError bytes

datatype 'a read = Got 'a bytes | Fail io_error | Blocks

abbreviation LF :: char where "LF \<equiv> CHR 0x0A"
abbreviation CR :: char where "CR \<equiv> CHR 0x0D"
abbreviation CRLF :: bytes where "CRLF \<equiv> [CR, LF]"

text \<open>\<open>ReadSlice('\n')\<close>: a line with its LF, a buffer full without one, or what is left at the end.\<close>

datatype slice = Line bytes bytes | BufferFull bytes bytes | AtEnd bytes io_error | NoData

definition buf_size :: "nat \<Rightarrow> nat" where
  "buf_size B = max 16 B"

definition read_slice :: "nat \<Rightarrow> io_error option \<Rightarrow> bytes \<Rightarrow> slice" where
  "read_slice B fin inp =
     (let pre = takeWhile (\<lambda>c. c \<noteq> LF) inp; B = buf_size B
      in if length pre < length inp \<and> length pre < B
         then Line (pre @ [LF]) (drop (length pre + 1) inp)
         else if B \<le> length inp then BufferFull (take B inp) (drop B inp)
         else case fin of Some e \<Rightarrow> AtEnd inp e | None \<Rightarrow> NoData)"

definition read_byte :: "io_error option \<Rightarrow> bytes \<Rightarrow> char read" where
  "read_byte fin inp =
     (case inp of c # cs \<Rightarrow> Got c cs
      | [] \<Rightarrow> (case fin of Some e \<Rightarrow> Fail e | None \<Rightarrow> Blocks))"

definition read_full :: "nat \<Rightarrow> io_error option \<Rightarrow> bytes \<Rightarrow> bytes read" where
  "read_full n fin inp =
     (if n \<le> length inp then Got (take n inp) (drop n inp)
      else case fin of
             None \<Rightarrow> Blocks
           | Some e \<Rightarrow> Fail (if inp \<noteq> [] \<and> e = EOF then UnexpectedEOF else e))"

section \<open>Consuming a prefix\<close>

lemma buf_size_pos [simp]: "0 < buf_size B" and buf_size_le: "B \<le> buf_size B"
  by (simp_all add: buf_size_def)

lemma takeWhile_line: "LF \<notin> set s \<Longrightarrow> takeWhile (\<lambda>c. c \<noteq> LF) (s @ LF # rest) = s"
  by (induction s) auto

lemma read_slice_line:
  "LF \<notin> set s \<Longrightarrow> length s < buf_size B \<Longrightarrow> read_slice B fin (s @ LF # rest) = Line (s @ [LF]) rest"
  by (simp add: read_slice_def takeWhile_line Let_def)

lemma read_slice_Line:
  "read_slice B fin inp = Line l rest \<Longrightarrow>
     inp = l @ rest \<and> (\<exists>s. l = s @ [LF] \<and> LF \<notin> set s)"
proof -
  let ?s = "takeWhile (\<lambda>c. c \<noteq> LF) inp"
  assume "read_slice B fin inp = Line l rest"
  then have l: "l = ?s @ [LF]" "rest = drop (length ?s + 1) inp" "length ?s < length inp"
    by (auto simp: read_slice_def Let_def split: if_splits option.splits)
  then have "inp ! length ?s = LF" using nth_length_takeWhile by blast
  then have "drop (length ?s) inp = LF # rest" using l(2,3) by (simp add: Cons_nth_drop_Suc [symmetric])
  moreover have "inp = ?s @ drop (length ?s) inp" by (metis append_take_drop_id takeWhile_eq_take)
  ultimately have "inp = ?s @ LF # rest" by simp
  moreover have "LF \<notin> set ?s" by (auto dest: set_takeWhileD)
  ultimately show ?thesis using l(1) by auto
qed

lemma takeWhile_prefix_full:
  assumes "n \<le> length s"
  shows "n \<le> length (takeWhile P s) \<longleftrightarrow> (\<forall>x \<in> set (take n s). P x)"
  using assms
proof (induction s arbitrary: n)
  case (Cons a s)
  then show ?case by (cases n) auto
qed simp

lemma read_slice_full:
  assumes "buf_size B \<le> length s" "LF \<notin> set (take (buf_size B) s)"
  shows "read_slice B fin s = BufferFull (take (buf_size B) s) (drop (buf_size B) s)"
proof -
  have "buf_size B \<le> length (takeWhile (\<lambda>c. c \<noteq> LF) s)"
    using assms by (auto simp: takeWhile_prefix_full)
  then show ?thesis using assms(1) by (simp add: read_slice_def Let_def)
qed

lemma read_slice_Full:
  assumes "read_slice B fin inp = BufferFull c rest"
  shows "inp = c @ rest \<and> length c = buf_size B \<and> LF \<notin> set c"
proof -
  let ?m = "buf_size B"
  have f: "?m \<le> length inp" "c = take ?m inp" "rest = drop ?m inp"
    and n: "\<not> (length (takeWhile (\<lambda>c. c \<noteq> LF) inp) < length inp \<and> length (takeWhile (\<lambda>c. c \<noteq> LF) inp) < ?m)"
    using assms by (auto simp: read_slice_def Let_def split: if_splits option.splits)
  have "?m \<le> length (takeWhile (\<lambda>c. c \<noteq> LF) inp)"
    using f(1) n length_takeWhile_le [of "\<lambda>c. c \<noteq> LF" inp] by linarith
  then have "LF \<notin> set c" using f by (auto simp: takeWhile_prefix_full)
  then show ?thesis using f by simp
qed

lemma read_slice_AtEnd:
  "read_slice B fin inp = AtEnd c e \<Longrightarrow> c = inp \<and> fin = Some e \<and> length inp < buf_size B"
  by (auto simp: read_slice_def Let_def split: if_splits option.splits)

lemma read_slice_NoData:
  "read_slice B fin inp = NoData \<Longrightarrow> fin = None \<and> length inp < buf_size B \<and> LF \<notin> set inp"
proof -
  assume a: "read_slice B fin inp = NoData"
  then have b: "fin = None" "length inp < buf_size B"
    and t: "\<not> (length (takeWhile (\<lambda>c. c \<noteq> LF) inp) < length inp \<and> length (takeWhile (\<lambda>c. c \<noteq> LF) inp) < buf_size B)"
    by (auto simp: read_slice_def Let_def split: if_splits option.splits)
  then have "takeWhile (\<lambda>c. c \<noteq> LF) inp = inp"
    using length_takeWhile_le [of "\<lambda>c. c \<noteq> LF" inp]
    by (metis le_neq_implies_less less_trans takeWhile_eq_take take_all le_refl)
  then show ?thesis using b by (metis (mono_tags, lifting) set_takeWhileD)
qed

lemma read_full_append [simp]: "length s = n \<Longrightarrow> read_full n fin (s @ rest) = Got s rest"
  by (auto simp: read_full_def)

lemma read_full_Got: "read_full n fin inp = Got s rest \<Longrightarrow> inp = s @ rest \<and> length s = n"
  by (auto simp: read_full_def split: if_splits option.splits)

lemma read_byte_Got: "read_byte fin inp = Got c rest \<longleftrightarrow> inp = c # rest"
  by (auto simp: read_byte_def split: list.splits option.splits)

end
