(* ===== verification/Resp.thy ===== *)
theory Resp
  imports Go_Reader
begin

text \<open>
  \<open>internal/protocol/resp.go\<close>: the request decoder of the server and the limits it enforces. A
  request is a line of words or a flat array of bulk strings; every limit is checked while the
  request is being read. \<open>uni\<close> is what Go's Unicode tables make of a name with bytes above 0x7f.
\<close>

section \<open>Limits\<close>

record limits =
  MaxInlineLength :: int
  MaxMultiBulkLength :: int
  MaxBulkLength :: int

definition defaultMaxInlineLength :: int where "defaultMaxInlineLength = 64 * 1024"
definition defaultMaxMultiBulkLength :: int where "defaultMaxMultiBulkLength = 1024 * 1024"
definition maxValueSizeCeiling :: int where "maxValueSizeCeiling = 16 * 1024 * 1024"
definition bulkMargin :: int where "bulkMargin = 64 * 1024"

definition default_limits :: limits where
  "default_limits =
     \<lparr>MaxInlineLength = defaultMaxInlineLength, MaxMultiBulkLength = defaultMaxMultiBulkLength,
      MaxBulkLength = maxValueSizeCeiling + bulkMargin\<rparr>"

definition limits_for_value_size :: "int \<Rightarrow> limits" where
  "limits_for_value_size maxValueSize =
     (if maxValueSize > 0 \<and> maxValueSize < maxValueSizeCeiling
      then default_limits\<lparr>MaxBulkLength := maxValueSize + bulkMargin\<rparr> else default_limits)"

definition normalize_limits :: "limits \<Rightarrow> limits" where
  "normalize_limits l =
     (let d = default_limits;
          l = (if MaxInlineLength l \<le> 0 then l\<lparr>MaxInlineLength := MaxInlineLength d\<rparr> else l);
          l = (if MaxMultiBulkLength l \<le> 0 then l\<lparr>MaxMultiBulkLength := MaxMultiBulkLength d\<rparr> else l)
      in if MaxBulkLength l \<le> 0 then l\<lparr>MaxBulkLength := MaxBulkLength d\<rparr> else l)"

section \<open>Requests\<close>

record command =
  cmd_name :: bytes
  cmd_args :: "bytes list"

definition empty_command :: command where
  "empty_command = \<lparr>cmd_name = [], cmd_args = []\<rparr>"

definition protocol_error_text :: "bytes \<Rightarrow> bytes" where
  "protocol_error_text m = ''Protocol error: '' @ m"

definition command_from_parts :: "(bytes \<Rightarrow> bytes) \<Rightarrow> bytes list \<Rightarrow> command" where
  "command_from_parts uni parts =
     (case parts of [] \<Rightarrow> empty_command
      | p # ps \<Rightarrow> \<lparr>cmd_name = to_upper uni p, cmd_args = ps\<rparr>)"

definition decode_inline :: "(bytes \<Rightarrow> bytes) \<Rightarrow> bytes \<Rightarrow> command" where
  "decode_inline uni line =
     (let fs = split_fields line in if fs = [] then empty_command else command_from_parts uni fs)"

section \<open>Lines\<close>

definition trim_terminator :: "bytes \<Rightarrow> io_error + bytes \<times> bool" where
  "trim_terminator line =
     (if line = [] \<or> last line \<noteq> LF then Inl (Protocol ''expected CRLF line terminator'')
      else let body = butlast line
           in if body \<noteq> [] \<and> last body = CR then Inr (butlast body, True) else Inr (body, False))"

text \<open>The loop of \<open>readLine\<close>: \<open>line\<close> is what has accumulated.\<close>

function read_line :: "nat \<Rightarrow> io_error option \<Rightarrow> int \<Rightarrow> bool \<Rightarrow> bytes \<Rightarrow> bytes \<Rightarrow> (bytes \<times> bool) read" where
  "read_line B fin mx midFrame line inp =
     (case read_slice B fin inp of
        NoData \<Rightarrow> Blocks
      | Line chunk rest \<Rightarrow>
          if int (length line) + int (length chunk) > mx then Fail (Protocol ''too big inline request'')
          else (case trim_terminator (line @ chunk) of Inl e \<Rightarrow> Fail e | Inr r \<Rightarrow> Got r rest)
      | BufferFull chunk rest \<Rightarrow>
          if int (length line) + int (length chunk) > mx then Fail (Protocol ''too big inline request'')
          else read_line B fin mx midFrame (line @ chunk) rest
      | AtEnd chunk e \<Rightarrow>
          if int (length line) + int (length chunk) > mx then Fail (Protocol ''too big inline request'')
          else if e = EOF \<and> (midFrame \<or> line @ chunk \<noteq> []) then Fail UnexpectedEOF
          else Fail e)"
  by pat_completeness auto
termination
  by (relation "measure (\<lambda>(B, fin, mx, mid, line, inp). length inp)") (auto dest: read_slice_Full)

declare read_line.simps [simp del]

section \<open>Bulk strings\<close>

definition hex_digit :: "nat \<Rightarrow> char" where
  "hex_digit d = (if d < 10 then char_of (48 + d) else char_of (87 + d))"

text \<open>One byte as \<open>strconv.Quote\<close> escapes it inside the quotes.\<close>

definition quote_byte :: "char \<Rightarrow> bytes" where
  "quote_byte c =
     (let n = (of_char c :: nat); bs = CHR 0x5C
      in if n = 0x22 \<or> n = 0x5C then [bs, c]
         else if 0x20 \<le> n \<and> n \<le> 0x7E then [c]
         else if n = 7 then [bs, CHR ''a''] else if n = 8 then [bs, CHR ''b'']
         else if n = 12 then [bs, CHR ''f''] else if n = 10 then [bs, CHR ''n'']
         else if n = 13 then [bs, CHR ''r''] else if n = 9 then [bs, CHR ''t'']
         else if n = 11 then [bs, CHR ''v'']
         else [bs, CHR ''x'', hex_digit (n div 16), hex_digit (n mod 16)])"

definition printable_byte :: "bytes \<Rightarrow> bytes" where
  "printable_byte line = (case line of [] \<Rightarrow> [] | c # _ \<Rightarrow> quote_byte c)"

definition unexpected_eof :: "io_error \<Rightarrow> io_error" where
  "unexpected_eof e = (if e = EOF then UnexpectedEOF else e)"

definition decode_bulk :: "nat \<Rightarrow> limits \<Rightarrow> io_error option \<Rightarrow> bytes \<Rightarrow> bytes read" where
  "decode_bulk B lim fin inp =
     (case read_line B fin (MaxInlineLength lim) True [] inp of
        Blocks \<Rightarrow> Blocks
      | Fail e \<Rightarrow> Fail e
      | Got (line, hadCRLF) rest \<Rightarrow>
          if \<not> hadCRLF then Fail (Protocol ''expected CRLF line terminator'')
          else if line = [] \<or> hd line \<noteq> CHR ''$''
            then Fail (Protocol (''expected '' @ [CHR 0x27] @ ''$'' @ [CHR 0x27] @ '', got '' @ [CHR 0x27]
                   @ printable_byte line @ [CHR 0x27]))
          else case atoi (tl line) of
                 None \<Rightarrow> Fail (Protocol ''invalid bulk length'')
               | Some len \<Rightarrow>
                   if len < 0 \<or> len > MaxBulkLength lim then Fail (Protocol ''invalid bulk length'')
                   else case read_full (nat len + 2) fin rest of
                          Blocks \<Rightarrow> Blocks
                        | Fail e \<Rightarrow> Fail (unexpected_eof e)
                        | Got arg rest' \<Rightarrow>
                            if drop (nat len) arg \<noteq> CRLF
                            then Fail (Protocol ''expected CRLF after bulk string'')
                            else Got (take (nat len) arg) rest')"

text \<open>The loop over the elements of a request.\<close>

fun decode_elements :: "nat \<Rightarrow> nat \<Rightarrow> limits \<Rightarrow> io_error option \<Rightarrow> bytes list \<Rightarrow> bytes \<Rightarrow> bytes list read" where
  "decode_elements 0 B lim fin parts inp = Got parts inp"
| "decode_elements (Suc n) B lim fin parts inp =
     (case decode_bulk B lim fin inp of
        Blocks \<Rightarrow> Blocks
      | Fail e \<Rightarrow> Fail e
      | Got arg rest \<Rightarrow> decode_elements n B lim fin (parts @ [arg]) rest)"

definition decode_multi_bulk ::
    "(bytes \<Rightarrow> bytes) \<Rightarrow> nat \<Rightarrow> limits \<Rightarrow> io_error option \<Rightarrow> bytes \<Rightarrow> bytes \<Rightarrow> command read" where
  "decode_multi_bulk uni B lim fin header inp =
     (case atoi (tl header) of
        None \<Rightarrow> Fail (Protocol ''invalid multibulk length'')
      | Some cnt \<Rightarrow>
          if cnt < 0 \<or> cnt > MaxMultiBulkLength lim then Fail (Protocol ''invalid multibulk length'')
          else if cnt = 0 then Got empty_command inp
          else case decode_elements (nat cnt) B lim fin [] inp of
                 Blocks \<Rightarrow> Blocks
               | Fail e \<Rightarrow> Fail e
               | Got parts rest \<Rightarrow> Got (command_from_parts uni parts) rest)"

section \<open>What a read consumes\<close>

lemma read_line_consumes:
  "read_line B fin mx mid line inp = Got r rest \<Longrightarrow> length rest < length inp"
proof (induction B fin mx mid line inp rule: read_line.induct)
  case (1 B fin mx mid line inp)
  show ?case
  proof (cases "read_slice B fin inp")
    case (Line c rest')
    then have "rest = rest'"
      using "1.prems" by (simp add: read_line.simps [of B fin mx mid line inp] split: if_splits sum.splits)
    then show ?thesis using read_slice_Line [OF Line] by auto
  next
    case (BufferFull c rest')
    then have "length rest < length rest'"
      using "1.prems" "1.IH" [OF BufferFull]
      by (simp add: read_line.simps [of B fin mx mid line inp] split: if_splits)
    then show ?thesis using read_slice_Full [OF BufferFull] by simp
  qed (use "1.prems" in \<open>auto simp: read_line.simps [of B fin mx mid line inp] split: if_splits\<close>)
qed

lemma decode_bulk_consumes:
  "decode_bulk B lim fin inp = Got arg rest \<Longrightarrow> length rest < length inp"
  by (auto simp: decode_bulk_def split: read.splits if_splits option.splits
      dest!: read_line_consumes read_full_Got)

lemma decode_elements_consumes:
  "decode_elements n B lim fin parts inp = Got ps rest \<Longrightarrow> length rest \<le> length inp"
  by (induction n arbitrary: parts inp)
    (auto split: read.splits dest!: decode_bulk_consumes, fastforce dest: less_le_trans less_imp_le le_trans)

lemma decode_multi_bulk_consumes:
  "decode_multi_bulk uni B lim fin header inp = Got cmd rest \<Longrightarrow> length rest \<le> length inp"
  by (auto simp: decode_multi_bulk_def split: option.splits if_splits read.splits
      dest: decode_elements_consumes)

section \<open>Decoding\<close>

text \<open>Empty requests are skipped. Every turn of the loop consumes a line, so it ends.\<close>

function decode :: "(bytes \<Rightarrow> bytes) \<Rightarrow> nat \<Rightarrow> limits \<Rightarrow> io_error option \<Rightarrow> bytes \<Rightarrow> command read" where
  "decode uni B lim fin inp =
     (case read_line B fin (MaxInlineLength lim) False [] inp of
        Blocks \<Rightarrow> Blocks
      | Fail e \<Rightarrow> Fail e
      | Got (line, hadCRLF) rest \<Rightarrow>
          if line = [] then decode uni B lim fin rest
          else if hd line = CHR ''*'' then
            (if \<not> hadCRLF then Fail (Protocol ''expected CRLF line terminator'')
             else case decode_multi_bulk uni B lim fin line rest of
                    Blocks \<Rightarrow> Blocks
                  | Fail e \<Rightarrow> Fail e
                  | Got cmd rest' \<Rightarrow>
                      if cmd_name cmd = [] then decode uni B lim fin rest' else Got cmd rest')
          else let cmd = decode_inline uni line
               in if cmd_name cmd = [] then decode uni B lim fin rest else Got cmd rest)"
  by pat_completeness auto
termination
  by (relation "measure (\<lambda>(uni, B, lim, fin, inp). length inp)")
    (auto dest!: read_line_consumes decode_multi_bulk_consumes)

declare decode.simps [simp del]

section \<open>Lines arrive whole, whatever the buffer\<close>

definition line_result :: "bytes \<Rightarrow> bytes \<Rightarrow> (bytes \<times> bool) read" where
  "line_result l rest = (case trim_terminator l of Inl e \<Rightarrow> Fail e | Inr r \<Rightarrow> Got r rest)"

lemma read_line_whole:
  assumes "LF \<notin> set s" and "int (length line) + int (length s) + 1 \<le> mx"
  shows "read_line B fin mx mid line (s @ LF # rest) = line_result (line @ s @ [LF]) rest"
  using assms
proof (induction "length s" arbitrary: s line rule: less_induct)
  case less
  show ?case
  proof (cases "length s < buf_size B")
    case True
    then have "read_slice B fin (s @ LF # rest) = Line (s @ [LF]) rest"
      using less.prems(1) read_slice_line [of s B fin rest] by simp
    then show ?thesis
      using less.prems(2) by (simp add: read_line.simps [of _ _ _ _ _ "s @ LF # rest"] line_result_def)
  next
    case False
    let ?a = "take (buf_size B) s" and ?b = "drop (buf_size B) s"
    have s: "s = ?a @ ?b" "length ?a = buf_size B" using False by simp_all
    have "read_slice B fin (s @ LF # rest) = BufferFull ?a (?b @ LF # rest)"
    proof -
      have "take (buf_size B) (s @ LF # rest) = ?a" "drop (buf_size B) (s @ LF # rest) = ?b @ LF # rest"
        using False by simp_all
      moreover have "LF \<notin> set ?a" using less.prems(1) by (meson in_set_takeD)
      ultimately show ?thesis using read_slice_full [of B "s @ LF # rest" fin] False by simp
    qed
    then have "read_line B fin mx mid line (s @ LF # rest) = read_line B fin mx mid (line @ ?a) (?b @ LF # rest)"
      using less.prems(2) False by (simp add: read_line.simps [of _ _ _ _ line "s @ LF # rest"])
    also have "\<dots> = line_result ((line @ ?a) @ ?b @ [LF]) rest"
    proof (rule less.hyps)
      show "length ?b < length s" using False buf_size_pos [of B] by (simp only: length_drop)
      show "LF \<notin> set ?b" using less.prems(1) by (meson in_set_dropD)
      show "int (length (line @ ?a)) + int (length ?b) + 1 \<le> mx"
        using less.prems(2) False by simp
    qed
    also have "(line @ ?a) @ ?b @ [LF] = line @ s @ [LF]" by simp
    finally show ?thesis .
  qed
qed

lemma line_result_crlf: "line_result (s @ CRLF) rest = Got (s, True) rest"
  by (simp add: line_result_def trim_terminator_def butlast_append)

lemma read_line_crlf:
  assumes "LF \<notin> set s" and "int (length s) + 2 \<le> mx"
  shows "read_line B fin mx mid [] (s @ CR # LF # rest) = Got (s, True) rest"
  using read_line_whole [of "s @ [CR]" "[]" mx B fin mid rest] assms line_result_crlf [of s rest] by simp

text \<open>
  A line that never ends is refused once the limit and one more buffer have arrived: the memory a
  client can make the decoder hold is bounded before anything it sent is trusted.
\<close>

lemma read_line_endless:
  assumes "LF \<notin> set inp" and "0 \<le> mx" and "mx + int (buf_size B) \<le> int (length line) + int (length inp)"
    and "int (length line) \<le> mx"
  shows "read_line B fin mx mid line inp = Fail (Protocol ''too big inline request'')"
  using assms
proof (induction "length inp" arbitrary: inp line rule: less_induct)
  case less
  let ?m = "buf_size B"
  have ge: "?m \<le> length inp" using less.prems(3,4) by linarith
  have sl: "read_slice B fin inp = BufferFull (take ?m inp) (drop ?m inp)"
    by (rule read_slice_full [OF ge]) (use less.prems(1) in \<open>meson in_set_takeD\<close>)
  show ?case
  proof (cases "int (length line) + int ?m > mx")
    case True
    then show ?thesis using sl ge by (simp add: read_line.simps [of _ _ _ _ line inp] min_absorb2)
  next
    case False
    have "read_line B fin mx mid (line @ take ?m inp) (drop ?m inp) = Fail (Protocol ''too big inline request'')"
    proof (rule less.hyps)
      show "length (drop ?m inp) < length inp"
        using ge buf_size_pos [of B] by (simp only: length_drop)
      show "LF \<notin> set (drop ?m inp)" using less.prems(1) by (meson in_set_dropD)
      show "mx + int ?m \<le> int (length (line @ take ?m inp)) + int (length (drop ?m inp))"
        "int (length (line @ take ?m inp)) \<le> mx"
        using less.prems(3) False ge by (simp_all add: min_absorb2)
    qed (rule less.prems)
    then show ?thesis
      using sl ge False by (simp add: read_line.simps [of _ _ _ _ line inp] min_absorb2)
  qed
qed

section \<open>A request to run\<close>


lemma ping_command: "decode_inline id ''PING'' = \<lparr>cmd_name = ''PING'', cmd_args = []\<rparr>"
  by code_simp

lemma ping_run:
  "decode id 16 \<lparr>MaxInlineLength = 64, MaxMultiBulkLength = 8, MaxBulkLength = 16\<rparr> None (''PING'' @ CRLF @ ''*1'')
     = Got \<lparr>cmd_name = ''PING'', cmd_args = []\<rparr> ''*1''"
  by (simp add: decode.simps read_line.simps read_slice_def Let_def buf_size_def trim_terminator_def ping_command)

section \<open>Packet boundaries\<close>

text \<open>An answer other than blocking does not change when more bytes follow those it was given on.\<close>

fun more :: "bytes \<Rightarrow> 'a read \<Rightarrow> 'a read" where
  "more xs (Got a rest) = Got a (rest @ xs)"
| "more xs r = r"

lemma read_slice_more:
  "read_slice B None inp = Line l rest \<Longrightarrow> read_slice B fin (inp @ xs) = Line l (rest @ xs)"
  "read_slice B None inp = BufferFull l rest \<Longrightarrow> read_slice B fin (inp @ xs) = BufferFull l (rest @ xs)"
proof -
  let ?t = "takeWhile (\<lambda>c. c \<noteq> LF)"
  assume a: "read_slice B None inp = Line l rest"
  then obtain s where s: "inp = (s @ [LF]) @ rest" "l = s @ [LF]" "LF \<notin> set s"
    using read_slice_Line by blast
  then have "?t inp = s" by (simp add: takeWhile_line)
  then have "length s < buf_size B" using a by (simp add: read_slice_def Let_def split: if_splits)
  then show "read_slice B fin (inp @ xs) = Line l (rest @ xs)"
    using s read_slice_line [of s B fin "rest @ xs"] by simp
next
  assume "read_slice B None inp = BufferFull l rest"
  then have f: "inp = l @ rest" "length l = buf_size B" "LF \<notin> set l" using read_slice_Full by auto
  then have t: "take (buf_size B) (inp @ xs) = l" "drop (buf_size B) (inp @ xs) = rest @ xs"
    by (simp_all flip: f(2))
  have "buf_size B \<le> length (inp @ xs)" using f by (simp flip: f(2))
  from read_slice_full [OF this, of fin, unfolded t] f(3)
  show "read_slice B fin (inp @ xs) = BufferFull l (rest @ xs)" by blast
qed

lemma read_line_more:
  "read_line B None mx mid line inp \<noteq> Blocks \<Longrightarrow>
     read_line B fin mx mid line (inp @ xs) = more xs (read_line B None mx mid line inp)"
proof (induction "length inp" arbitrary: inp line rule: less_induct)
  case less
  show ?case
  proof (cases "read_slice B None inp")
    case (Line c rest)
    show ?thesis
      using read_slice_more(1) [OF Line, of fin xs] Line
      by (simp add: read_line.simps [of _ _ _ _ line inp] read_line.simps [of _ _ _ _ line "inp @ xs"] split: sum.split)
  next
    case (BufferFull c rest)
    have "length rest < length inp" using read_slice_Full [OF BufferFull] by auto
    then show ?thesis
      using less.hyps [of rest "line @ c"] less.prems read_slice_more(2) [OF BufferFull, of fin xs] BufferFull
      by (simp add: read_line.simps [of _ _ _ _ line inp] read_line.simps [of _ _ _ _ line "inp @ xs"] split: if_splits)
  next
    case (AtEnd c e)
    then show ?thesis using read_slice_AtEnd by fastforce
  next
    case NoData
    then show ?thesis using less.prems by (simp add: read_line.simps [of _ _ _ _ line inp])
  qed
qed

lemma read_full_more:
  "read_full n None inp \<noteq> Blocks \<Longrightarrow> read_full n fin (inp @ xs) = more xs (read_full n None inp)"
  by (auto simp: read_full_def split: if_splits)

lemma decode_bulk_more:
  "decode_bulk B lim None inp \<noteq> Blocks \<Longrightarrow> decode_bulk B lim fin (inp @ xs) = more xs (decode_bulk B lim None inp)"
  using read_line_more [of B "MaxInlineLength lim" True "[]" inp fin xs] read_full_more [of _ _ fin xs]
  by (auto simp: decode_bulk_def split: read.splits if_splits option.splits prod.splits)

lemma decode_elements_more:
  "decode_elements n B lim None parts inp \<noteq> Blocks \<Longrightarrow>
     decode_elements n B lim fin parts (inp @ xs) = more xs (decode_elements n B lim None parts inp)"
proof (induction n arbitrary: parts inp)
  case (Suc n)
  have "decode_bulk B lim None inp \<noteq> Blocks" using Suc.prems by auto
  from decode_bulk_more [OF this, of fin xs] Suc show ?case by (auto split: read.splits)
qed simp

lemma decode_multi_bulk_more:
  "decode_multi_bulk uni B lim None header inp \<noteq> Blocks \<Longrightarrow>
     decode_multi_bulk uni B lim fin header (inp @ xs) = more xs (decode_multi_bulk uni B lim None header inp)"
  using decode_elements_more [of "nat (the (atoi (tl header)))" B lim "[]" inp fin xs]
  by (auto simp: decode_multi_bulk_def split: option.splits read.splits if_splits)

lemma decode_more:
  assumes "decode uni B lim None inp \<noteq> Blocks"
  shows "decode uni B lim fin (inp @ xs) = more xs (decode uni B lim None inp)"
  using assms
proof (induction "length inp" arbitrary: inp rule: less_induct)
  case less
  note unf = decode.simps [of uni B lim None inp] decode.simps [of uni B lim fin "inp @ xs"]
  have "read_line B None (MaxInlineLength lim) False [] inp \<noteq> Blocks"
    using less.prems by (auto simp: unf)
  note l = read_line_more [OF this, of fin xs]
  show ?case
  proof (cases "read_line B None (MaxInlineLength lim) False [] inp")
    case (Got r rest)
    obtain line hadCRLF where r: "r = (line, hadCRLF)" by fastforce
    have sh: "length rest < length inp" by (rule read_line_consumes [OF Got])
    note IH = less.hyps [OF sh]
    have IH2: "length rest' \<le> length rest \<Longrightarrow> decode uni B lim None rest' \<noteq> Blocks \<Longrightarrow>
        decode uni B lim fin (rest' @ xs) = more xs (decode uni B lim None rest')" for rest'
      using less.hyps [of rest'] sh by simp
    show ?thesis
    proof (cases "line \<noteq> [] \<and> hd line = CHR ''*'' \<and> hadCRLF")
      case True
      then have mb: "decode_multi_bulk uni B lim None line rest \<noteq> Blocks"
        using less.prems Got r by (auto simp: unf)
      note m = decode_multi_bulk_more [OF mb, of fin xs]
      show ?thesis
      proof (cases "decode_multi_bulk uni B lim None line rest")
        case (Got cmd rest')
        then have "length rest' \<le> length rest" by (rule decode_multi_bulk_consumes)
        then show ?thesis
          using \<open>read_line B None (MaxInlineLength lim) False [] inp = Got r rest\<close> Got r l m True
            less.prems IH2 [of rest'] by (auto simp: unf)
      qed (use Got r l m mb True in \<open>auto simp: unf\<close>)
    next
      case False
      then have "line = [] \<or> hd line = CHR ''*'' \<and> \<not> hadCRLF \<and> line \<noteq> [] \<or> hd line \<noteq> CHR ''*'' \<and> line \<noteq> []"
        by blast
      moreover have ?thesis if "line = []"
        using that Got r l less.prems IH by (simp add: unf)
      moreover have ?thesis if "hd line = CHR ''*'' \<and> \<not> hadCRLF \<and> line \<noteq> []"
        using that Got r l by (simp add: unf)
      moreover have ?thesis if "hd line \<noteq> CHR ''*'' \<and> line \<noteq> []"
        using that Got r l less.prems IH
        by (cases "cmd_name (decode_inline uni line) = []") (simp_all add: unf Let_def)
      ultimately show ?thesis by blast
    qed
  qed (use l less.prems in \<open>auto simp: unf\<close>)
qed

text \<open>
  Packet boundaries are invisible: once the decoder can answer on the bytes that have arrived,
  with a command or with an error, it gives the same answer and leaves the same rest when any more
  bytes follow, however the stream goes on after them.
\<close>

lemma decode_ignores_packets:
  assumes "decode uni B lim None inp \<noteq> Blocks"
  shows "decode uni B lim fin (inp @ xs) = more xs (decode uni B lim None inp)"
  using assms by (rule decode_more)

lemma decode_ignores_packets_witness:
  "decode id 16 \<lparr>MaxInlineLength = 64, MaxMultiBulkLength = 8, MaxBulkLength = 16\<rparr> (Some EOF) ((''PING'' @ CRLF @ ''*1'') @ CRLF)
     = Got \<lparr>cmd_name = ''PING'', cmd_args = []\<rparr> ((''*1'') @ CRLF)"
proof -
  have d: "decode id 16 \<lparr>MaxInlineLength = 64, MaxMultiBulkLength = 8, MaxBulkLength = 16\<rparr> None (''PING'' @ CRLF @ ''*1'')
      = Got \<lparr>cmd_name = ''PING'', cmd_args = []\<rparr> ''*1''"
    by (rule ping_run)
  show ?thesis by (subst decode_ignores_packets) (simp_all add: d del: append_assoc append.simps)
qed

section \<open>Limits hold\<close>

lemma fields_loop_size: "sum_list (map length (fields_loop cur s)) \<le> length cur + length s"
proof (induction cur s rule: fields_loop.induct)
  case (2 cur c cs)
  show ?case
  proof (cases "space_len (c # cs) = 0")
    case True
    then show ?thesis using "2.IH"(1) [OF refl True] by simp
  next
    case False
    then have "sum_list (map length (fields_loop [] (drop (space_len (c # cs) - 1) cs))) \<le> length cs"
      using "2.IH"(2,3) [OF refl False] by (cases "cur = []") auto
    then show ?thesis using False by (auto simp: Let_def)
  qed
qed simp

lemma trim_terminator_size:
  "trim_terminator l = Inr (line, b) \<Longrightarrow> length line < length l"
  by (auto simp: trim_terminator_def Let_def split: if_splits)

lemma read_line_size:
  "read_line B fin mx mid line inp = Got (l, b) rest \<Longrightarrow> int (length l) < mx"
proof (induction "length inp" arbitrary: inp line rule: less_induct)
  case less
  show ?case
  proof (cases "read_slice B fin inp")
    case (Line c r)
    then show ?thesis
      using less.prems trim_terminator_size [of "line @ c" l b]
      by (auto simp: read_line.simps [of _ _ _ _ line inp] split: if_splits sum.splits)
  next
    case (BufferFull c r)
    have "length r < length inp" using read_slice_Full [OF BufferFull] by (auto simp flip: length_greater_0_conv)
    then show ?thesis
      using less.hyps [of r "line @ c"] less.prems BufferFull
      by (simp add: read_line.simps [of _ _ _ _ line inp] split: if_splits)
  qed (use less.prems in \<open>auto simp: read_line.simps [of _ _ _ _ line inp] split: if_splits\<close>)
qed

lemma decode_bulk_size: "decode_bulk B lim fin inp = Got arg rest \<Longrightarrow> int (length arg) \<le> MaxBulkLength lim"
  by (auto simp: decode_bulk_def min_def split: read.splits if_splits option.splits)

lemma decode_elements_size:
  "decode_elements n B lim fin parts inp = Got ps rest \<Longrightarrow>
     \<forall>p \<in> set parts. int (length p) \<le> MaxBulkLength lim \<Longrightarrow>
     length ps = length parts + n \<and> (\<forall>p \<in> set ps. int (length p) \<le> MaxBulkLength lim)"
proof (induction n arbitrary: parts inp)
  case (Suc n)
  from Suc.prems(1) obtain arg r where "decode_bulk B lim fin inp = Got arg r"
    "decode_elements n B lim fin (parts @ [arg]) r = Got ps rest"
    by (auto split: read.splits)
  with Suc.IH [of "parts @ [arg]" r] Suc.prems(2) decode_bulk_size show ?case by fastforce
qed simp

lemma decode_multi_bulk_size:
  assumes "decode_multi_bulk uni B lim fin header inp = Got cmd rest"
  shows "cmd = empty_command \<or> (\<exists>parts. parts \<noteq> [] \<and> cmd = command_from_parts uni parts
     \<and> int (length parts) \<le> MaxMultiBulkLength lim \<and> (\<forall>p \<in> set parts. int (length p) \<le> MaxBulkLength lim))"
proof -
  obtain n where n: "atoi (tl header) = Some n" "0 \<le> n" "n \<le> MaxMultiBulkLength lim"
    using assms by (auto simp: decode_multi_bulk_def split: option.splits if_splits)
  show ?thesis
  proof (cases "n = 0")
    case False
    with assms n obtain parts where p: "decode_elements (nat n) B lim fin [] inp = Got parts rest"
      "cmd = command_from_parts uni parts"
      by (auto simp: decode_multi_bulk_def split: read.splits if_splits)
    from decode_elements_size [OF p(1)] have "length parts = nat n" "\<forall>p \<in> set parts. int (length p) \<le> MaxBulkLength lim"
      by simp_all
    moreover from this have "parts \<noteq> []" using n(2) False by auto
    ultimately show ?thesis using p(2) n by auto
  qed (use assms n in \<open>simp add: decode_multi_bulk_def split: if_splits\<close>)
qed

text \<open>
  C25. Whatever a client sends, a command that comes out of the decoder has a name and is within the
  limits: it is a frame of at most the element limit with every argument within the bulk limit, or
  an inline line whose words together are shorter than the line limit.
\<close>

theorem decode_within_limits:
  assumes "decode uni B lim fin inp = Got cmd rest"
  shows "cmd_name cmd \<noteq> [] \<and> (\<exists>parts. cmd = command_from_parts uni parts
    \<and> (int (length parts) \<le> MaxMultiBulkLength lim \<and> (\<forall>p \<in> set parts. int (length p) \<le> MaxBulkLength lim)
       \<or> int (sum_list (map length parts)) < MaxInlineLength lim))"
  using assms
proof (induction "length inp" arbitrary: inp rule: less_induct)
  case less
  note unf = decode.simps [of uni B lim fin inp]
  obtain line hadCRLF r where l: "read_line B fin (MaxInlineLength lim) False [] inp = Got (line, hadCRLF) r"
    using less.prems by (auto simp: unf split: read.splits)
  have sh: "length r < length inp" by (rule read_line_consumes [OF l])
  show ?case
  proof (cases "line = []")
    case True
    then show ?thesis using less.hyps [OF sh] less.prems l by (simp add: unf)
  next
    case line: False
    show ?thesis
    proof (cases "hd line = CHR ''*''")
      case True
      then obtain cmd' r' where m: "decode_multi_bulk uni B lim fin line r = Got cmd' r'"
        "(if cmd_name cmd' = [] then decode uni B lim fin r' else Got cmd' r') = Got cmd rest"
        using less.prems l line by (auto simp: unf split: read.splits if_splits)
      show ?thesis
      proof (cases "cmd_name cmd' = []")
        case True
        have "length r' < length inp" using decode_multi_bulk_consumes [OF m(1)] sh by simp
        then show ?thesis using less.hyps m(2) True by simp
      next
        case False
        then show ?thesis
          using m(2) decode_multi_bulk_size [OF m(1)] by (auto simp: empty_command_def)
      qed
    next
      case inline: False
      show ?thesis
      proof (cases "cmd_name (decode_inline uni line) = []")
        case True
        then show ?thesis using less.hyps [OF sh] less.prems l line inline by (simp add: unf)
      next
        case False
        then have cmd: "cmd = decode_inline uni line" using less.prems l line inline by (simp add: unf)
        with False have "cmd = command_from_parts uni (split_fields line)"
          by (auto simp: decode_inline_def Let_def empty_command_def split: if_splits)
        moreover have "int (sum_list (map length (split_fields line))) < MaxInlineLength lim"
          using fields_loop_size [of "[]" line] read_line_size [OF l] by (simp add: split_fields_def)
        ultimately show ?thesis using False cmd by auto
      qed
    qed
  qed
qed

lemma decode_within_limits_witness:
  "cmd_name \<lparr>cmd_name = ''PING'', cmd_args = []\<rparr> \<noteq> []
    \<and> (\<exists>parts. \<lparr>cmd_name = ''PING'', cmd_args = []\<rparr> = command_from_parts id parts
    \<and> (int (length parts) \<le> 8 \<and> (\<forall>p \<in> set parts. int (length p) \<le> 16) \<or> int (sum_list (map length parts)) < 64))"
proof -
  have "decode id 16 \<lparr>MaxInlineLength = 64, MaxMultiBulkLength = 8, MaxBulkLength = 16\<rparr> None (''PING'' @ CRLF @ ''*1'')
      = Got \<lparr>cmd_name = ''PING'', cmd_args = []\<rparr> ''*1''"
    by (rule ping_run)
  from decode_within_limits [OF this] show ?thesis by simp
qed

end
