(* ===== verification/Reply.thy ===== *)
theory Reply
  imports Go_Reader
begin

text \<open>
  \<open>internal/protocol/reply.go\<close> and \<open>encode_resp2.go\<close>: the logical replies and their RESP2 rendering.
  A floating point number is an abstract \<open>'f\<close> with the operations of \<open>math\<close> and \<open>strconv\<close> the code
  uses in \<open>float_ops\<close>. \<open>NoReply\<close> is the nil interface, which is what a slot of an aggregate that was
  never filled holds; the encoder refuses it.
\<close>

section \<open>Replies\<close>

datatype 'f reply =
    SimpleString bytes
  | Error bytes bytes
  | BulkError bytes bytes
  | BulkString bytes
  | Verbatim bytes bytes
  | Integer int
  | BigNumber bytes
  | Boolean bool
  | Double 'f
  | Array "'f reply list"
  | SetReply "'f reply list"
  | Push "'f reply list"
  | MapReply "('f reply \<times> 'f reply) list"
  | Attribute "('f reply \<times> 'f reply) list" "'f reply"
  | NilReply
  | NoReply

record 'f float_ops =
  is_pos_inf :: "'f \<Rightarrow> bool"
  is_neg_inf :: "'f \<Rightarrow> bool"
  is_nan :: "'f \<Rightarrow> bool"
  format_shortest :: "'f \<Rightarrow> bytes"
  parse_float :: "bytes \<Rightarrow> 'f option"
  zero_float :: 'f

definition kindErr :: bytes where "kindErr = ''ERR''"

definition error_text :: "bytes \<Rightarrow> bytes \<Rightarrow> bytes" where
  "error_text kind msg = (if kind = [] then msg else kind @ '' '' @ msg)"

section \<open>The RESP2 encoder\<close>

definition append_crlf :: "bytes \<Rightarrow> bytes" where
  "append_crlf dst = dst @ CRLF"

definition append_array_header :: "bytes \<Rightarrow> int \<Rightarrow> bytes" where
  "append_array_header dst n = append_crlf (dst @ ''*'' @ format_int n)"

definition append_bulk :: "bytes \<Rightarrow> bytes \<Rightarrow> bytes" where
  "append_bulk dst payload =
     append_crlf (append_crlf (dst @ ''$'' @ format_int (int (length payload))) @ payload)"

definition fold_line :: "bytes \<Rightarrow> bytes" where
  "fold_line text = map (\<lambda>c. if c = CR \<or> c = LF then CHR '' '' else c) text"

definition append_single_line :: "bytes \<Rightarrow> bytes \<Rightarrow> bytes" where
  "append_single_line dst text =
     (if \<not> list_ex (\<lambda>c. c = CR \<or> c = LF) text then dst @ text else dst @ fold_line text)"

definition format_double :: "'f float_ops \<Rightarrow> 'f \<Rightarrow> bytes" where
  "format_double F f =
     (if is_pos_inf F f then ''inf'' else if is_neg_inf F f then ''-inf''
      else if is_nan F f then ''nan'' else format_shortest F f)"

definition append_scalar :: "'f float_ops \<Rightarrow> bytes \<Rightarrow> 'f reply \<Rightarrow> bytes + bytes" where
  "append_scalar F dst r =
     (case r of
        SimpleString v \<Rightarrow> Inr (append_crlf (append_single_line (dst @ ''+'') v))
      | Error k m \<Rightarrow> Inr (append_crlf (append_single_line (dst @ ''-'') (error_text k m)))
      | BulkError k m \<Rightarrow> Inr (append_crlf (append_single_line (dst @ ''-'') (error_text k m)))
      | BulkString v \<Rightarrow> Inr (append_bulk dst v)
      | Verbatim _ text \<Rightarrow> Inr (append_bulk dst text)
      | BigNumber v \<Rightarrow> Inr (append_bulk dst v)
      | Double f \<Rightarrow> Inr (append_bulk dst (format_double F f))
      | Integer i \<Rightarrow> Inr (append_crlf (dst @ '':'' @ format_int i))
      | Boolean b \<Rightarrow> Inr (append_crlf (dst @ '':'' @ (if b then ''1'' else ''0'')))
      | NilReply \<Rightarrow> Inr (dst @ ''$-1'' @ CRLF)
      | _ \<Rightarrow> Inl ''protocol: unsupported reply type <nil>'')"

function (sequential) append_reply :: "'f float_ops \<Rightarrow> bytes \<Rightarrow> 'f reply \<Rightarrow> bytes + bytes"
  and append_elements :: "'f float_ops \<Rightarrow> bytes \<Rightarrow> 'f reply list \<Rightarrow> bytes + bytes"
  and append_kvs :: "'f float_ops \<Rightarrow> bytes \<Rightarrow> ('f reply \<times> 'f reply) list \<Rightarrow> bytes + bytes" where
  "append_reply F dst (Array v) = append_elements F (append_array_header dst (int (length v))) v"
| "append_reply F dst (SetReply v) = append_elements F (append_array_header dst (int (length v))) v"
| "append_reply F dst (Push v) = append_elements F (append_array_header dst (int (length v))) v"
| "append_reply F dst (MapReply v) = append_kvs F (append_array_header dst (2 * int (length v))) v"
| "append_reply F dst (Attribute _ v) = (if v = NoReply then append_scalar F dst NilReply else append_reply F dst v)"
| "append_reply F dst r = append_scalar F dst r"
| "append_elements F dst [] = Inr dst"
| "append_elements F dst (x # xs) =
     (case append_reply F dst x of Inl e \<Rightarrow> Inl e | Inr dst \<Rightarrow> append_elements F dst xs)"
| "append_kvs F dst [] = Inr dst"
| "append_kvs F dst ((k, v) # kvs) =
     (case append_reply F dst k of Inl e \<Rightarrow> Inl e
      | Inr dst \<Rightarrow> (case append_reply F dst v of Inl e \<Rightarrow> Inl e | Inr dst \<Rightarrow> append_kvs F dst kvs))"
  by pat_completeness auto
termination
  by (relation "measure (\<lambda>x. case x of Inl (F, d, r) \<Rightarrow> size r
        | Inr (Inl (F, d, rs)) \<Rightarrow> size_list size rs
        | Inr (Inr (F, d, kvs)) \<Rightarrow> size_list (size_prod size size) kvs)") auto

text \<open>\<open>Encode\<close>: what is handed to the writer, or the error before anything is written.\<close>

definition encode :: "'f float_ops \<Rightarrow> 'f reply \<Rightarrow> bytes + bytes" where
  "encode F r = append_reply F [] r"

section \<open>The buffer is only extended\<close>

lemma append_crlf_prefix [simp]: "append_crlf (dst @ s) = dst @ append_crlf s"
  by (simp add: append_crlf_def)

lemma append_single_line_eq: "append_single_line dst t = dst @ fold_line t"
proof -
  have "fold_line t = t" if "\<not> list_ex (\<lambda>c. c = CR \<or> c = LF) t"
    using that by (induction t) (auto simp: fold_line_def)
  then show ?thesis by (simp add: append_single_line_def)
qed

lemma append_scalar_prefix:
  "append_scalar F dst r = map_sum id ((@) dst) (append_scalar F [] r)"
  by (cases r) (simp_all add: append_scalar_def append_bulk_def append_single_line_eq)

lemma map_sum_cases: "map_sum id f x = (case x of Inl e \<Rightarrow> Inl e | Inr y \<Rightarrow> Inr (f y))"
  by (cases x) simp_all

lemma append_header_prefix: "append_array_header (dst @ s) n = dst @ append_array_header s n"
  by (simp add: append_array_header_def append_crlf_def)

lemma append_reply_prefix:
  "append_reply F (dst @ s) r = map_sum id ((@) dst) (append_reply F s r)"
  "append_elements F (dst @ s) rs = map_sum id ((@) dst) (append_elements F s rs)"
  "append_kvs F (dst @ s) kvs = map_sum id ((@) dst) (append_kvs F s kvs)"
proof (induction F s r and F s rs and F s kvs rule: append_reply_append_elements_append_kvs.induct)
  case (5 F s as v)
  show ?case
  proof (cases "v = NoReply")
    case True
    then show ?thesis
      using append_scalar_prefix [of F "dst @ s" NilReply] append_scalar_prefix [of F s NilReply]
      by (simp add: append_scalar_def)
  qed (use 5 in simp)
next
  case (8 F s x xs)
  then show ?case by (cases "append_reply F s x") (auto simp: map_sum_cases)
next
  case (10 F s k v kvs)
  then show ?case
    by (cases "append_reply F s k"; simp) (auto simp: map_sum_cases split: sum.splits)
qed (simp_all add: append_header_prefix append_scalar_def append_bulk_def append_single_line_eq append_crlf_def)

end
