(* ===== verification/Client_Resp.thy ===== *)
theory Client_Resp
  imports Go_Reader Reply
begin

text \<open>
  \<open>pkg/client/resp.go\<close>: the wire format as the Go client implements it, independently of the
  server's codec. A protocol error is \<open>Fail (Protocol m)\<close>; its message quotes input through
  \<open>quote\<close> (\<open>strconv.Quote\<close>). Floating point numbers are as in \<open>Reply\<close>.
\<close>

definition statusOK :: bytes where "statusOK = ''OK''"

definition maxBulkLength :: int where "maxBulkLength = push_bit 20 512"
definition maxAggregate :: int where "maxAggregate = push_bit 24 1"
definition maxReplyDepth :: nat where "maxReplyDepth = 32"
definition readBufferSize :: nat where "readBufferSize = push_bit 10 16"

section \<open>Replies as the client sees them\<close>

datatype reply_type =
    TypeNil | TypeStatus | TypeError | TypeInteger | TypeBulk | TypeArray | TypeMap | TypeBool
  | TypeDouble | TypeBigNumber | TypePush

datatype 'f creply =
  CReply (rType: reply_type) (rStr: bytes) (rInt: int) (rFloat: 'f) (rKind: bytes)
    (rArr: "'f creply list")

definition blank :: "'f float_ops \<Rightarrow> reply_type \<Rightarrow> 'f creply" where
  "blank F t = CReply t [] 0 (zero_float F) [] []"

definition str_reply :: "'f float_ops \<Rightarrow> reply_type \<Rightarrow> bytes \<Rightarrow> 'f creply" where
  "str_reply F t s = CReply t s 0 (zero_float F) [] []"

definition int_reply :: "'f float_ops \<Rightarrow> reply_type \<Rightarrow> int \<Rightarrow> 'f creply" where
  "int_reply F t i = CReply t [] i (zero_float F) [] []"

definition arr_reply :: "'f float_ops \<Rightarrow> reply_type \<Rightarrow> 'f creply list \<Rightarrow> 'f creply" where
  "arr_reply F t rs = CReply t [] 0 (zero_float F) [] rs"

definition error_reply :: "'f float_ops \<Rightarrow> bytes \<Rightarrow> 'f creply" where
  "error_reply F line =
     CReply TypeError line 0 (zero_float F) (takeWhile (\<lambda>c. c \<noteq> CHR '' '') line) []"

section \<open>Commands\<close>

definition append_arg :: "bytes \<Rightarrow> bytes \<Rightarrow> bytes" where
  "append_arg dst arg = dst @ ''$'' @ format_int (int (length arg)) @ CRLF @ arg @ CRLF"

definition append_command :: "bytes \<Rightarrow> bytes list \<Rightarrow> bytes" where
  "append_command dst args =
     foldl append_arg (dst @ ''*'' @ format_int (int (length args)) @ CRLF) args"

section \<open>Decoding\<close>

definition client_read_line :: "io_error option \<Rightarrow> bytes \<Rightarrow> bytes read" where
  "client_read_line fin inp =
     (case read_slice readBufferSize fin inp of
        NoData \<Rightarrow> Blocks
      | BufferFull _ _ \<Rightarrow>
          Fail (Protocol (''reply line exceeds the '' @ format_nat readBufferSize @ '' byte limit''))
      | AtEnd _ e \<Rightarrow> Fail e
      | Line raw rest \<Rightarrow>
          if length raw < 2 \<or> raw ! (length raw - 2) \<noteq> CR
          then Fail (Protocol ''reply line is not terminated by CRLF'')
          else Got (take (length raw - 2) raw) rest)"

definition client_parse_int :: "(bytes \<Rightarrow> bytes) \<Rightarrow> bytes \<Rightarrow> bytes \<Rightarrow> io_error + int" where
  "client_parse_int quote line what =
     (case parse_int line of Some n \<Rightarrow> Inr n
      | None \<Rightarrow> Inl (Protocol (what @ '' '' @ quote line @ '' is not a number'')))"

definition decode_scalar :: "'f float_ops \<Rightarrow> (bytes \<Rightarrow> bytes) \<Rightarrow> char \<Rightarrow> bytes \<Rightarrow> io_error + 'f creply" where
  "decode_scalar F quote prefix line =
     (if prefix = CHR ''+'' then Inr (str_reply F TypeStatus line)
      else if prefix = CHR ''-'' then Inr (error_reply F line)
      else if prefix = CHR '':'' then
        (case client_parse_int quote line ''integer'' of Inl e \<Rightarrow> Inl e | Inr n \<Rightarrow> Inr (int_reply F TypeInteger n))
      else if prefix = CHR ''_'' then
        (if line \<noteq> [] then Inl (Protocol (''null reply carries data '' @ quote line)) else Inr (blank F TypeNil))
      else if prefix = CHR ''#'' then
        (if line = ''t'' then Inr (int_reply F TypeBool 1)
         else if line = ''f'' then Inr (int_reply F TypeBool 0)
         else Inl (Protocol (''boolean reply is '' @ quote line @ '', want t or f'')))
      else if prefix = CHR '','' then
        (case parse_float F line of
           None \<Rightarrow> Inl (Protocol (''double '' @ quote line @ '' is not a number''))
         | Some f \<Rightarrow> Inr (CReply TypeDouble line 0 f [] []))
      else if prefix = CHR ''('' then Inr (str_reply F TypeBigNumber line)
      else Inl (Protocol (''unknown reply type '' @ quote [prefix] @ '' (line '' @ quote line @ '')'')))"

definition decode_client_bulk ::
    "'f float_ops \<Rightarrow> (bytes \<Rightarrow> bytes) \<Rightarrow> io_error option \<Rightarrow> bytes \<Rightarrow> bool \<Rightarrow> bytes \<Rightarrow> 'f creply read" where
  "decode_client_bulk F quote fin line verbatim inp =
     (case client_parse_int quote line ''bulk length'' of
        Inl e \<Rightarrow> Fail e
      | Inr n \<Rightarrow>
          if n < 0 then Got (blank F TypeNil) inp
          else if n > maxBulkLength
            then Fail (Protocol (''bulk string of '' @ format_int n @ '' bytes exceeds the limit''))
          else case read_full (nat n + 2) fin inp of
                 Blocks \<Rightarrow> Blocks
               | Fail e \<Rightarrow> Fail e
               | Got buf rest \<Rightarrow>
                   if drop (nat n) buf \<noteq> CRLF then Fail (Protocol ''bulk string is not terminated by CRLF'')
                   else let payload = take (nat n) buf
                        in if verbatim then
                             (if length payload < 4 \<or> payload ! 3 \<noteq> CHR '':''
                              then Fail (Protocol ''verbatim string has no format prefix'')
                              else Got (str_reply F TypeBulk (drop 4 payload)) rest)
                           else Got (str_reply F TypeBulk payload) rest)"

definition lift_sum :: "bytes \<Rightarrow> io_error + 'a \<Rightarrow> 'a read" where
  "lift_sum rest x = (case x of Inl e \<Rightarrow> Fail e | Inr a \<Rightarrow> Got a rest)"

text \<open>
  \<open>decode_items n depth\<close> is the loop of \<open>decodeItems\<close> with \<open>n\<close> replies to go. The nesting limit is
  what bounds the recursion, whatever the input.
\<close>

function decode_reply ::
    "'f float_ops \<Rightarrow> (bytes \<Rightarrow> bytes) \<Rightarrow> io_error option \<Rightarrow> nat \<Rightarrow> bytes \<Rightarrow> 'f creply read"
  and decode_items ::
    "'f float_ops \<Rightarrow> (bytes \<Rightarrow> bytes) \<Rightarrow> io_error option \<Rightarrow> nat \<Rightarrow> nat \<Rightarrow> 'f creply list \<Rightarrow> bytes \<Rightarrow>
       'f creply list read" where
  "decode_reply F quote fin depth inp =
     (if depth > maxReplyDepth
      then Fail (Protocol (''reply nests deeper than '' @ format_nat maxReplyDepth @ '' levels''))
      else case read_byte fin inp of
             Blocks \<Rightarrow> Blocks | Fail e \<Rightarrow> Fail e
           | Got prefix inp \<Rightarrow>
      (case client_read_line fin inp of
         Blocks \<Rightarrow> Blocks | Fail e \<Rightarrow> Fail e
       | Got line inp \<Rightarrow>
           if prefix = CHR ''$'' then decode_client_bulk F quote fin line False inp
           else if prefix = CHR ''='' then decode_client_bulk F quote fin line True inp
           else if prefix = CHR ''!'' then
             (case decode_client_bulk F quote fin line False inp of
                Blocks \<Rightarrow> Blocks | Fail e \<Rightarrow> Fail e
              | Got r rest \<Rightarrow> Got (error_reply F (rStr r)) rest)
           else if prefix = CHR ''*'' \<or> prefix = CHR ''~'' \<or> prefix = CHR ''>'' then
             (case client_parse_int quote line ''array length'' of
                Inl e \<Rightarrow> Fail e
              | Inr n \<Rightarrow>
                  if n < 0 then Got (blank F TypeNil) inp
                  else if n > maxAggregate
                    then Fail (Protocol (''array of '' @ format_int n @ '' elements exceeds the limit''))
                  else case decode_items F quote fin depth (nat n) [] inp of
                         Blocks \<Rightarrow> Blocks | Fail e \<Rightarrow> Fail e
                       | Got rs rest \<Rightarrow>
                           Got (arr_reply F (if prefix = CHR ''>'' then TypePush else TypeArray) rs) rest)
           else if prefix = CHR ''%'' then
             (case client_parse_int quote line ''map length'' of
                Inl e \<Rightarrow> Fail e
              | Inr n \<Rightarrow>
                  if n < 0 then Got (blank F TypeNil) inp
                  else if n > maxAggregate
                    then Fail (Protocol (''map of '' @ format_int n @ '' pairs exceeds the limit''))
                  else case decode_items F quote fin depth (nat (n * 2)) [] inp of
                         Blocks \<Rightarrow> Blocks | Fail e \<Rightarrow> Fail e
                       | Got rs rest \<Rightarrow> Got (arr_reply F TypeMap rs) rest)
           else lift_sum inp (decode_scalar F quote prefix line)))"
| "decode_items F quote fin depth n items inp =
     (if n = 0 then Got items inp
      else case decode_reply F quote fin (depth + 1) inp of
             Blocks \<Rightarrow> Blocks | Fail e \<Rightarrow> Fail e
           | Got r rest \<Rightarrow> decode_items F quote fin depth (n - 1) (items @ [r]) rest)"
  by pat_completeness auto
termination
  by (relation "measures [\<lambda>x. case x of Inl (F, q, f, d, i) \<Rightarrow> 2 * (maxReplyDepth + 2 - d)
        | Inr (F, q, f, d, n, rs, i) \<Rightarrow> 2 * (maxReplyDepth + 2 - d) - 1,
      \<lambda>x. case x of Inl _ \<Rightarrow> 0 | Inr (F, q, f, d, n, rs, i) \<Rightarrow> n]") auto

declare decode_reply.simps [simp del] decode_items.simps [simp del]

end
