(* ===== verification/Wire_Spec.thy ===== *)
theory Wire_Spec
  imports Resp Reply Client_Resp
begin

text \<open>
  The two implementations of the wire format agree: what the Go client sends is what the server
  decodes, and what the server encodes is what the client decodes, for every reply the server's
  hierarchy has and whatever follows it on the stream.
\<close>

section \<open>Headers\<close>

lemma format_nat_length: "n < 10 ^ k \<Longrightarrow> 0 < k \<Longrightarrow> length (format_nat n) \<le> k"
proof (induction n arbitrary: k rule: format_nat.induct)
  case (1 n)
  show ?case
  proof (cases "n < 10")
    case True
    then show ?thesis using "1.prems" by (simp add: format_nat.simps [of n])
  next
    case False
    then obtain j where j: "k = Suc j" "0 < j"
      using "1.prems" by (cases k; cases "k - 1") auto
    have "n div 10 < 10 ^ j" using "1.prems" j by (simp add: div_less_iff_less_mult mult.commute)
    from "1.IH" [OF False this j(2)] show ?thesis using False j by (simp add: format_nat.simps [of n])
  qed
qed

lemma format_nat_no_lf: "LF \<notin> set (format_nat n)"
  using format_nat_digits [of n] not_digit_chars by (auto simp: list_all_iff)

lemma format_int_no_lf: "LF \<notin> set (format_int i)"
  using format_nat_no_lf by (auto simp: format_int_def)

lemma format_int_length:
  assumes "min_int64 \<le> i" "i \<le> max_int64"
  shows "length (format_int i) \<le> 20"
proof -
  have "nat \<bar>i\<bar> < 10 ^ 19" using assms by (simp add: nat_less_iff)
  then have "length (format_nat (nat \<bar>i\<bar>)) \<le> 19" by (intro format_nat_length) auto
  then show ?thesis by (auto simp: format_int_def)
qed

section \<open>Requests\<close>

lemma decode_bulk_arg:
  assumes "int (length arg) \<le> MaxBulkLength lim" "MaxBulkLength lim \<le> max_int64" "23 \<le> MaxInlineLength lim"
  shows "decode_bulk B lim fin (append_arg [] arg @ rest) = Got arg rest"
proof -
  let ?h = "''$'' @ format_int (int (length arg))"
  have r: "min_int64 \<le> int (length arg)" "int (length arg) \<le> max_int64" using assms by simp_all
  have "int (length ?h) + 2 \<le> MaxInlineLength lim" "LF \<notin> set ?h"
    using format_int_length [OF r] assms(3) format_int_no_lf by simp_all
  then have l: "read_line B fin (MaxInlineLength lim) True [] (?h @ CR # LF # arg @ CRLF @ rest)
      = Got (?h, True) (arg @ CRLF @ rest)"
    by (intro read_line_crlf)
  have "read_full (nat (int (length arg)) + 2) fin ((arg @ CRLF) @ rest) = Got (arg @ CRLF) rest"
    by (intro read_full_append) simp
  then show ?thesis
    using l assms(1) parse_int_format [OF r] by (simp add: decode_bulk_def append_arg_def)
qed

lemma foldl_append_arg: "foldl append_arg dst args = dst @ concat (map (append_arg []) args)"
  by (induction args arbitrary: dst) (simp_all add: append_arg_def)

lemma decode_elements_args:
  assumes "\<forall>a \<in> set args. int (length a) \<le> MaxBulkLength lim" "MaxBulkLength lim \<le> max_int64"
    and "23 \<le> MaxInlineLength lim"
  shows "decode_elements (length args) B lim fin parts (concat (map (append_arg []) args) @ rest)
    = Got (parts @ args) rest"
  using assms(1)
proof (induction args arbitrary: parts)
  case (Cons a args)
  then show ?case
    using decode_bulk_arg [OF _ assms(2,3), of a B fin "concat (map (append_arg []) args) @ rest"] by simp
qed simp

lemma decode_append_command:
  assumes "args \<noteq> []" and "to_upper uni (hd args) \<noteq> []"
    and "int (length args) \<le> MaxMultiBulkLength lim" and "MaxMultiBulkLength lim \<le> max_int64"
    and "\<forall>a \<in> set args. int (length a) \<le> MaxBulkLength lim" and "MaxBulkLength lim \<le> max_int64"
    and "23 \<le> MaxInlineLength lim"
  shows "decode uni B lim fin (append_command [] args @ rest)
    = Got \<lparr>cmd_name = to_upper uni (hd args), cmd_args = tl args\<rparr> rest"
proof -
  let ?h = "''*'' @ format_int (int (length args))" let ?body = "concat (map (append_arg []) args) @ rest"
  have r: "min_int64 \<le> int (length args)" "int (length args) \<le> max_int64" using assms(3,4) by simp_all
  have "int (length ?h) + 2 \<le> MaxInlineLength lim" "LF \<notin> set ?h"
    using format_int_length [OF r] assms(7) format_int_no_lf by simp_all
  then have l: "read_line B fin (MaxInlineLength lim) False [] (?h @ CR # LF # ?body) = Got (?h, True) ?body"
    by (intro read_line_crlf)
  have m: "decode_multi_bulk uni B lim fin ?h ?body = Got (command_from_parts uni args) rest"
    using parse_int_format [OF r] decode_elements_args [OF assms(5-7), of B fin "[]" rest] assms(1,3)
    by (simp add: decode_multi_bulk_def)
  have "append_command [] args @ rest = ?h @ CR # LF # ?body"
    by (simp add: append_command_def foldl_append_arg)
  moreover have "decode uni B lim fin (?h @ CR # LF # ?body) = Got (command_from_parts uni args) rest"
    using l m assms(1,2)
    by (subst decode.simps) (cases args, simp_all add: command_from_parts_def)
  ultimately show ?thesis using assms(1) by (cases args) (simp_all add: command_from_parts_def)
qed

text \<open>
  C14. What the client sends is what the server runs: the request bytes of a command, followed by
  anything, decode to that command's arguments and leave exactly what followed, for binary
  arguments of any content within the limits.
\<close>

theorem request_roundtrip:
  assumes "args \<noteq> []" and "to_upper uni (hd args) \<noteq> []"
    and "int (length args) \<le> MaxMultiBulkLength lim" and "MaxMultiBulkLength lim \<le> max_int64"
    and "\<forall>a \<in> set args. int (length a) \<le> MaxBulkLength lim" and "MaxBulkLength lim \<le> max_int64"
    and "23 \<le> MaxInlineLength lim"
  shows "decode uni B lim fin (append_command [] args @ rest)
    = Got \<lparr>cmd_name = to_upper uni (hd args), cmd_args = tl args\<rparr> rest"
  using assms by (rule decode_append_command)

lemma request_roundtrip_witness:
  "decode id 4096 default_limits None (append_command [] [''set'', [CHR 0x0D, CHR 0x0A, CHR 0x00], ''''] @ ''*'')
    = Got \<lparr>cmd_name = ''SET'', cmd_args = [[CHR 0x0D, CHR 0x0A, CHR 0x00], '''']\<rparr> ''*''"
proof -
  have "to_upper id ''set'' = ''SET''" by code_simp
  then show ?thesis
    using request_roundtrip [of "[''set'', [CHR 0x0D, CHR 0x0A, CHR 0x00], '''']" id default_limits 4096 None "''*''"]
    by (simp add: default_limits_def defaultMaxInlineLength_def
        defaultMaxMultiBulkLength_def maxValueSizeCeiling_def bulkMargin_def)
qed

section \<open>Replies\<close>

primrec as_client :: "'f float_ops \<Rightarrow> 'f reply \<Rightarrow> 'f creply" where
  "as_client F (SimpleString v) = str_reply F TypeStatus (fold_line v)"
| "as_client F (Error k m) = error_reply F (fold_line (error_text k m))"
| "as_client F (BulkError k m) = error_reply F (fold_line (error_text k m))"
| "as_client F (BulkString v) = str_reply F TypeBulk v"
| "as_client F (Verbatim f t) = str_reply F TypeBulk t"
| "as_client F (BigNumber v) = str_reply F TypeBulk v"
| "as_client F (Double f) = str_reply F TypeBulk (format_double F f)"
| "as_client F (Integer i) = int_reply F TypeInteger i"
| "as_client F (Boolean b) = int_reply F TypeInteger (if b then 1 else 0)"
| "as_client F (Array v) = arr_reply F TypeArray (map (as_client F) v)"
| "as_client F (SetReply v) = arr_reply F TypeArray (map (as_client F) v)"
| "as_client F (Push v) = arr_reply F TypeArray (map (as_client F) v)"
| "as_client F (MapReply v) =
     arr_reply F TypeArray (concat (map (\<lambda>(k, x). [k, x]) (map (map_prod (as_client F) (as_client F)) v)))"
| "as_client F (Attribute attrs v) = (if v = NoReply then blank F TypeNil else as_client F v)"
| "as_client F NilReply = blank F TypeNil"
| "as_client F NoReply = blank F TypeNil"

text \<open>
  What the client's limits admit at nesting depth \<open>d\<close>: the lines fit its buffer, the lengths and
  the depth its ceilings, the integers an \<open>int64\<close>.
\<close>

definition line_fits :: "bytes \<Rightarrow> bool" where
  "line_fits s \<longleftrightarrow> length s + 1 < readBufferSize"

definition bulk_fits :: "bytes \<Rightarrow> bool" where
  "bulk_fits s \<longleftrightarrow> int (length s) \<le> maxBulkLength"

primrec fits :: "'f float_ops \<Rightarrow> 'f reply \<Rightarrow> nat \<Rightarrow> bool" where
  "fits F (SimpleString v) = (\<lambda>d. d \<le> maxReplyDepth \<and> line_fits v)"
| "fits F (Error k m) = (\<lambda>d. d \<le> maxReplyDepth \<and> line_fits (error_text k m))"
| "fits F (BulkError k m) = (\<lambda>d. d \<le> maxReplyDepth \<and> line_fits (error_text k m))"
| "fits F (BulkString v) = (\<lambda>d. d \<le> maxReplyDepth \<and> bulk_fits v)"
| "fits F (Verbatim f t) = (\<lambda>d. d \<le> maxReplyDepth \<and> bulk_fits t)"
| "fits F (BigNumber v) = (\<lambda>d. d \<le> maxReplyDepth \<and> bulk_fits v)"
| "fits F (Double f) = (\<lambda>d. d \<le> maxReplyDepth \<and> bulk_fits (format_double F f))"
| "fits F (Integer i) = (\<lambda>d. d \<le> maxReplyDepth \<and> min_int64 \<le> i \<and> i \<le> max_int64)"
| "fits F (Boolean b) = (\<lambda>d. d \<le> maxReplyDepth)"
| "fits F (Array v) = (\<lambda>d. d \<le> maxReplyDepth \<and> int (length v) \<le> maxAggregate
     \<and> list_all (\<lambda>f. f (d + 1)) (map (fits F) v))"
| "fits F (SetReply v) = (\<lambda>d. d \<le> maxReplyDepth \<and> int (length v) \<le> maxAggregate
     \<and> list_all (\<lambda>f. f (d + 1)) (map (fits F) v))"
| "fits F (Push v) = (\<lambda>d. d \<le> maxReplyDepth \<and> int (length v) \<le> maxAggregate
     \<and> list_all (\<lambda>f. f (d + 1)) (map (fits F) v))"
| "fits F (MapReply v) = (\<lambda>d. d \<le> maxReplyDepth \<and> 2 * int (length v) \<le> maxAggregate
     \<and> list_all (\<lambda>(f, g). f (d + 1) \<and> g (d + 1)) (map (map_prod (fits F) (fits F)) v))"
| "fits F (Attribute attrs v) = (\<lambda>d. if v = NoReply then d \<le> maxReplyDepth else fits F v d)"
| "fits F NilReply = (\<lambda>d. d \<le> maxReplyDepth)"
| "fits F NoReply = (\<lambda>d. False)"

lemma client_read_line_crlf:
  assumes "LF \<notin> set s" "line_fits s"
  shows "client_read_line fin (s @ CR # LF # rest) = Got s rest"
proof -
  have "length (s @ [CR]) < buf_size readBufferSize"
    using assms(2) buf_size_le [of readBufferSize] by (simp add: line_fits_def)
  then have "read_slice readBufferSize fin ((s @ [CR]) @ LF # rest) = Line ((s @ [CR]) @ [LF]) rest"
    using assms(1) by (intro read_slice_line) auto
  then show ?thesis by (simp add: client_read_line_def nth_append)
qed

lemma fold_line_clean [simp]: "LF \<notin> set (fold_line s)" "length (fold_line s) = length s"
  by (auto simp: fold_line_def)

lemma line_fits_int: "min_int64 \<le> i \<Longrightarrow> i \<le> max_int64 \<Longrightarrow> line_fits (format_int i)"
  using format_int_length [of i] by (simp add: line_fits_def readBufferSize_def push_bit_eq_mult)

text \<open>A reply decodes back when its type byte and line are followed by the right thing.\<close>

abbreviation decodes_as :: "'f float_ops \<Rightarrow> (bytes \<Rightarrow> bytes) \<Rightarrow> nat \<Rightarrow> bytes \<Rightarrow> 'f creply \<Rightarrow> bool" where
  "decodes_as F quote d b r \<equiv> (\<forall>fin rest. decode_reply F quote fin d (b @ rest) = Got r rest)"

lemma decode_line:
  assumes "d \<le> maxReplyDepth" "LF \<notin> set s" "line_fits s"
  shows "decode_reply F quote fin d (c # s @ CR # LF # rest) =
    (if c = CHR ''$'' then decode_client_bulk F quote fin s False rest
     else if c \<in> {CHR ''='', CHR ''!'', CHR ''~'', CHR ''>'', CHR ''%''}
       then decode_reply F quote fin d (c # s @ CR # LF # rest)
     else if c = CHR ''*'' then
       (case client_parse_int quote s ''array length'' of
          Inl e \<Rightarrow> Fail e
        | Inr n \<Rightarrow>
            if n < 0 then Got (blank F TypeNil) rest
            else if n > maxAggregate
              then Fail (Protocol (''array of '' @ format_int n @ '' elements exceeds the limit''))
            else case decode_items F quote fin d (nat n) [] rest of
                   Blocks \<Rightarrow> Blocks | Fail e \<Rightarrow> Fail e
                 | Got rs rest \<Rightarrow> Got (arr_reply F TypeArray rs) rest)
     else lift_sum rest (decode_scalar F quote c s))"
proof -
  have "client_read_line fin (s @ CR # LF # rest) = Got s rest"
    by (rule client_read_line_crlf) (rule assms)+
  then show ?thesis
    using assms(1) by (simp add: decode_reply.simps [of F quote fin d "c # s @ CR # LF # rest"] read_byte_def)
qed

lemma decodes_bulk:
  assumes "d \<le> maxReplyDepth" "bulk_fits s"
  shows "decodes_as F quote d (append_bulk [] s) (str_reply F TypeBulk s)"
proof (intro allI)
  fix fin rest
  have r: "min_int64 \<le> int (length s)" "int (length s) \<le> max_int64"
    using assms(2) by (simp_all add: bulk_fits_def maxBulkLength_def push_bit_eq_mult)
  have "read_full (nat (int (length s)) + 2) fin ((s @ CRLF) @ rest) = Got (s @ CRLF) rest"
    by (intro read_full_append) simp
  then show "decode_reply F quote fin d (append_bulk [] s @ rest) = Got (str_reply F TypeBulk s) rest"
    using assms decode_line [OF assms(1) format_int_no_lf line_fits_int [OF r], of F quote fin "CHR ''$''" "s @ CRLF @ rest"]
      parse_int_format [OF r]
    by (simp add: append_bulk_def append_crlf_def decode_client_bulk_def client_parse_int_def bulk_fits_def)
qed

lemma decodes_int:
  assumes "d \<le> maxReplyDepth" "min_int64 \<le> i" "i \<le> max_int64"
  shows "decodes_as F quote d ('':'' @ format_int i @ CRLF) (int_reply F TypeInteger i)"
  using decode_line [OF assms(1) format_int_no_lf line_fits_int [OF assms(2,3)], of F quote _ "CHR '':''"]
    parse_int_format [OF assms(2,3)]
  by (simp add: lift_sum_def decode_scalar_def client_parse_int_def)

lemma decodes_status:
  assumes "d \<le> maxReplyDepth" "line_fits s"
  shows "decodes_as F quote d (''+'' @ fold_line s @ CRLF) (str_reply F TypeStatus (fold_line s))"
    and "decodes_as F quote d (''-'' @ fold_line s @ CRLF) (error_reply F (fold_line s))"
proof -
  have "line_fits (fold_line s)" using assms(2) by (simp add: line_fits_def)
  note l = decode_line [OF assms(1) fold_line_clean(1) this, of F quote]
  show "decodes_as F quote d (''+'' @ fold_line s @ CRLF) (str_reply F TypeStatus (fold_line s))"
    "decodes_as F quote d (''-'' @ fold_line s @ CRLF) (error_reply F (fold_line s))"
    using l [of _ "CHR ''+''"] l [of _ "CHR ''-''"] by (simp_all add: lift_sum_def decode_scalar_def)
qed

lemma decodes_nil: "d \<le> maxReplyDepth \<Longrightarrow> decodes_as F quote d (''$-1'' @ CRLF) (blank F TypeNil)"
  using decode_line [of d "''-1''" F quote _ "CHR ''$''"]
  by (simp add: line_fits_def readBufferSize_def push_bit_eq_mult decode_client_bulk_def client_parse_int_def
      parse_int_def parse_digits_def is_digit_def digits_val_def digit_val_def)

lemma decodes_array:
  assumes "d \<le> maxReplyDepth" "0 \<le> n" "n \<le> maxAggregate"
    and "\<And>fin rest. decode_items F quote fin d (nat n) [] (b @ rest) = Got rs rest"
  shows "decodes_as F quote d (append_array_header [] n @ b) (arr_reply F TypeArray rs)"
proof -
  have r: "min_int64 \<le> n" "n \<le> max_int64"
    using assms by (simp_all add: maxAggregate_def push_bit_eq_mult)
  show ?thesis
    using assms decode_line [OF assms(1) format_int_no_lf line_fits_int [OF r], of F quote _ "CHR ''*''"]
      parse_int_format [OF r]
    by (simp add: append_array_header_def append_crlf_def client_parse_int_def)
qed

lemma decode_items_Nil: "decode_items F quote fin d 0 items inp = Got items inp"
  by (simp add: decode_items.simps)

lemma decode_items_Suc:
  assumes "decodes_as F quote (Suc d) b r"
  shows "decode_items F quote fin d (Suc n) items (b @ rest) = decode_items F quote fin d n (items @ [r]) rest"
  using assms by (simp add: decode_items.simps [of F quote fin d "Suc n"])

text \<open>What the encoder appends for a reply, elements, or pairs that fit, and how it reads back.\<close>

abbreviation flatten :: "('a \<times> 'a) list \<Rightarrow> 'a list" where
  "flatten kvs \<equiv> concat (map (\<lambda>(k, x). [k, x]) kvs)"

lemma append_array_header_split: "append_array_header dst n = dst @ append_array_header [] n"
  by (simp add: append_array_header_def append_crlf_def)

lemma array_case:
  assumes "fits_d \<and> int (length v) \<le> maxAggregate" "d \<le> maxReplyDepth"
    and "\<exists>b. append_elements F (append_array_header dst (int (length v))) v
          = Inr (append_array_header dst (int (length v)) @ b)
      \<and> (\<forall>fin items rest. decode_items F quote fin d (length v) items (b @ rest) = Got (items @ rs) rest)"
  shows "\<exists>b. append_elements F (append_array_header dst (int (length v))) v = Inr (dst @ b)
    \<and> decodes_as F quote d b (arr_reply F TypeArray rs)"
proof -
  let ?n = "int (length v)"
  obtain b where b: "append_elements F (append_array_header dst ?n) v = Inr (append_array_header dst ?n @ b)"
    "\<forall>fin items rest. decode_items F quote fin d (length v) items (b @ rest) = Got (items @ rs) rest"
    using assms(3) by blast
  have "decodes_as F quote d (append_array_header [] ?n @ b) (arr_reply F TypeArray rs)"
    using b(2) assms by (intro decodes_array) auto
  moreover have "append_array_header dst ?n @ b = dst @ append_array_header [] ?n @ b"
    using append_array_header_split [of dst ?n] by simp
  ultimately show ?thesis using b(1) by metis
qed

lemma scalar_cases:
  assumes "fits F r d"
    and "case r of Array _ \<Rightarrow> False | SetReply _ \<Rightarrow> False | Push _ \<Rightarrow> False | MapReply _ \<Rightarrow> False
      | Attribute _ _ \<Rightarrow> False | _ \<Rightarrow> True"
  shows "\<exists>b. append_scalar F dst r = Inr (dst @ b) \<and> decodes_as F quote d b (as_client F r)"
proof -
  have one: "format_int 1 = ''1''" "format_int 0 = ''0''"
    by code_simp+
  show ?thesis
  proof (cases r)
    case (SimpleString v)
    then show ?thesis
      using assms(1) decodes_status(1) [of d v F quote]
      by (intro exI [of _ "''+'' @ fold_line v @ CRLF"])
        (simp add: append_scalar_def append_single_line_eq append_crlf_def)
  next
    case (Error k m)
    then show ?thesis
      using assms(1) decodes_status(2) [of d "error_text k m" F quote]
      by (intro exI [of _ "''-'' @ fold_line (error_text k m) @ CRLF"])
        (simp add: append_scalar_def append_single_line_eq append_crlf_def)
  next
    case (BulkError k m)
    then show ?thesis
      using assms(1) decodes_status(2) [of d "error_text k m" F quote]
      by (intro exI [of _ "''-'' @ fold_line (error_text k m) @ CRLF"])
        (simp add: append_scalar_def append_single_line_eq append_crlf_def)
  next
    case (BulkString s)
    then show ?thesis
      using assms(1) decodes_bulk [of d s F quote]
      by (intro exI [of _ "append_bulk [] s"]) (simp add: append_scalar_def append_bulk_def append_crlf_def)
  next
    case (Verbatim f s)
    then show ?thesis
      using assms(1) decodes_bulk [of d s F quote]
      by (intro exI [of _ "append_bulk [] s"]) (simp add: append_scalar_def append_bulk_def append_crlf_def)
  next
    case (BigNumber s)
    then show ?thesis
      using assms(1) decodes_bulk [of d s F quote]
      by (intro exI [of _ "append_bulk [] s"]) (simp add: append_scalar_def append_bulk_def append_crlf_def)
  next
    case (Double f)
    then show ?thesis
      using assms(1) decodes_bulk [of d "format_double F f" F quote]
      by (intro exI [of _ "append_bulk [] (format_double F f)"]) (simp add: append_scalar_def append_bulk_def append_crlf_def)
  next
    case (Integer i)
    then show ?thesis
      using assms(1) decodes_int [of d i F quote]
      by (intro exI [of _ "'':'' @ format_int i @ CRLF"]) (simp add: append_scalar_def append_crlf_def)
  next
    case (Boolean b)
    then show ?thesis
      using assms(1) decodes_int [of d 1 F quote] decodes_int [of d 0 F quote] one
      by (intro exI [of _ "'':'' @ (if b then ''1'' else ''0'') @ CRLF"]) (simp add: append_scalar_def append_crlf_def)
  next
    case NilReply
    then show ?thesis
      using assms(1) decodes_nil [of d F quote]
      by (intro exI [of _ "''$-1'' @ CRLF"]) (simp add: append_scalar_def)
  qed (use assms in simp_all)
qed

lemma append_reply_roundtrip:
  "fits F r d \<Longrightarrow> \<exists>b. append_reply F dst r = Inr (dst @ b) \<and> decodes_as F quote d b (as_client F r)"
  "list_all (\<lambda>r. fits F r (Suc d)) rs \<Longrightarrow> \<exists>b. append_elements F dst rs = Inr (dst @ b)
    \<and> (\<forall>fin items rest. decode_items F quote fin d (length rs) items (b @ rest) = Got (items @ map (as_client F) rs) rest)"
  "list_all (\<lambda>(k, x). fits F k (Suc d) \<and> fits F x (Suc d)) kvs \<Longrightarrow> \<exists>b. append_kvs F dst kvs = Inr (dst @ b)
    \<and> (\<forall>fin items rest. decode_items F quote fin d (2 * length kvs) items (b @ rest)
        = Got (items @ flatten (map (map_prod (as_client F) (as_client F)) kvs)) rest)"
proof (induction F dst r and F dst rs and F dst kvs arbitrary: d and d and d
    rule: append_reply_append_elements_append_kvs.induct)
  case (8 F dst x xs)
  obtain b1 where b1: "append_reply F dst x = Inr (dst @ b1)" "decodes_as F quote (Suc d) b1 (as_client F x)"
    using "8.IH"(1) [of "Suc d"] "8.prems" by auto
  obtain b2 where b2: "append_elements F (dst @ b1) xs = Inr ((dst @ b1) @ b2)"
    "\<forall>fin items rest. decode_items F quote fin d (length xs) items (b2 @ rest) = Got (items @ map (as_client F) xs) rest"
    using "8.IH"(2) [OF b1(1), of d] "8.prems" by auto
  show ?case
    using b1 b2 decode_items_Suc [OF b1(2)] by (intro exI [of _ "b1 @ b2"]) simp
next
  case (10 F dst k x kvs)
  obtain b1 where b1: "append_reply F dst k = Inr (dst @ b1)" "decodes_as F quote (Suc d) b1 (as_client F k)"
    using "10.IH"(1) [of "Suc d"] "10.prems" by auto
  obtain b2 where b2: "append_reply F (dst @ b1) x = Inr ((dst @ b1) @ b2)" "decodes_as F quote (Suc d) b2 (as_client F x)"
    using "10.IH"(2) [OF b1(1), of "Suc d"] "10.prems" by auto
  obtain b3 where b3: "append_kvs F ((dst @ b1) @ b2) kvs = Inr (((dst @ b1) @ b2) @ b3)"
    "\<forall>fin items rest. decode_items F quote fin d (2 * length kvs) items (b3 @ rest)
        = Got (items @ flatten (map (map_prod (as_client F) (as_client F)) kvs)) rest"
    using "10.IH"(3) [OF b1(1) b2(1), of d] "10.prems" by auto
  show ?case
    using b1 b2 b3 decode_items_Suc [OF b1(2)] decode_items_Suc [OF b2(2)]
    by (intro exI [of _ "b1 @ b2 @ b3"]) simp
next
  case (4 F dst v)
  let ?n = "2 * int (length v)"
  have "list_all (\<lambda>(k, x). fits F k (Suc d) \<and> fits F x (Suc d)) v"
    using "4.prems" by (simp add: list_all_iff split_beta)
  from "4.IH" [OF this]
  obtain b where b: "append_kvs F (append_array_header dst ?n) v = Inr (append_array_header dst ?n @ b)"
    "\<forall>fin items rest. decode_items F quote fin d (2 * length v) items (b @ rest)
        = Got (items @ flatten (map (map_prod (as_client F) (as_client F)) v)) rest"
    by blast
  have "decodes_as F quote d (append_array_header [] ?n @ b)
      (arr_reply F TypeArray (flatten (map (map_prod (as_client F) (as_client F)) v)))"
    using b(2) "4.prems" by (intro decodes_array) (auto simp: nat_mult_distrib)
  moreover have "append_array_header dst ?n @ b = dst @ append_array_header [] ?n @ b"
    using append_array_header_split [of dst ?n] by simp
  ultimately show ?case using b(1) by (metis append_reply.simps(4) as_client.simps(13))
next
  case (5 F dst as v)
  then show ?case
    using scalar_cases [of F NilReply d dst quote] by (cases "v = NoReply") auto
next
  case (1 F dst v)
  have "list_all (\<lambda>r. fits F r (Suc d)) v" using "1.prems" by (simp add: list_all_iff)
  from "1.IH" [OF this] show ?case
    using array_case [of True v d F dst quote "map (as_client F) v"] "1.prems" by simp
next
  case (2 F dst v)
  have "list_all (\<lambda>r. fits F r (Suc d)) v" using "2.prems" by (simp add: list_all_iff)
  from "2.IH" [OF this] show ?case
    using array_case [of True v d F dst quote "map (as_client F) v"] "2.prems" by simp
next
  case (3 F dst v)
  have "list_all (\<lambda>r. fits F r (Suc d)) v" using "3.prems" by (simp add: list_all_iff)
  from "3.IH" [OF this] show ?case
    using array_case [of True v d F dst quote "map (as_client F) v"] "3.prems" by simp
next
  case (7 F dst)
  then show ?case by (simp add: decode_items_Nil)
next
  case (9 F dst)
  then show ?case by (simp add: decode_items_Nil)
qed (simp_all only: append_reply.simps, (rule scalar_cases; simp)+)

text \<open>
  C15. The client reads back what the server meant: every reply that has a rendering and is within
  the client's limits encodes without an error, and the client's decoder turns the bytes, followed
  by anything, into the value the reply stands for in RESP2, leaving exactly what followed. In
  particular no text in a status or an error can frame a second reply.
\<close>

theorem reply_roundtrip:
  assumes "fits F r 0"
  shows "\<exists>b. encode F r = Inr b \<and> (\<forall>fin rest. decode_reply F quote fin 0 (b @ rest) = Got (as_client F r) rest)"
  using append_reply_roundtrip(1) [OF assms, of "[]" quote] by (simp add: encode_def)

definition demo_floats :: "int float_ops" where
  "demo_floats = \<lparr>is_pos_inf = (\<lambda>_. False), is_neg_inf = (\<lambda>_. False), is_nan = (\<lambda>_. False),
     format_shortest = format_int, parse_float = parse_int, zero_float = 0\<rparr>"

lemma client_limits:
  "maxReplyDepth = 32" "maxAggregate = 16777216" "readBufferSize = 16384" "maxBulkLength = 536870912"
  by (simp_all add: maxReplyDepth_def maxAggregate_def readBufferSize_def maxBulkLength_def push_bit_eq_mult)

lemma reply_roundtrip_witness:
  "\<exists>b. encode demo_floats (Array [Error ''ERR'' [CHR 0x0D, CHR 0x0A, CHR ''+''], MapReply [(BulkString ''k'', Boolean True)]])
      = Inr b \<and> (\<forall>fin rest. decode_reply demo_floats id fin 0 (b @ rest)
      = Got (arr_reply demo_floats TypeArray
          [error_reply demo_floats ''ERR   +'',
           arr_reply demo_floats TypeArray [str_reply demo_floats TypeBulk ''k'', int_reply demo_floats TypeInteger 1]]) rest)"
proof -
  let ?r = "Array [Error ''ERR'' [CHR 0x0D, CHR 0x0A, CHR ''+''], MapReply [(BulkString ''k'', Boolean True)]]"
  have "fits demo_floats ?r 0"
    by (simp add: client_limits line_fits_def error_text_def bulk_fits_def)
  from reply_roundtrip [OF this, of id] show ?thesis
    by (simp add: error_text_def fold_line_def)
qed

text \<open>
  The decoder's recursion is bounded: a frame of arrays nested past the limit is refused with a
  protocol error, in whatever depth the bytes go on, and never by running out of stack.
\<close>

lemma deep_reply_refused:
  assumes "maxReplyDepth < n"
  shows "decode_reply F quote fin 0 (concat (replicate n (''*1'' @ CRLF)) @ rest)
    = Fail (Protocol (''reply nests deeper than '' @ format_nat maxReplyDepth @ '' levels''))"
proof -
  have one: "parse_int ''1'' = Some 1"
    by (simp add: parse_int_def parse_digits_def is_digit_def digits_val_def digit_val_def)
  have "decode_reply F quote fin d (concat (replicate k (''*1'' @ CRLF)) @ rest)
      = Fail (Protocol (''reply nests deeper than '' @ format_nat maxReplyDepth @ '' levels''))" if "maxReplyDepth < d + k" for d k
    using that
  proof (induction k arbitrary: d)
    case 0
    then show ?case by (simp add: decode_reply.simps [of F quote fin d])
  next
    case (Suc k)
    show ?case
    proof (cases "d \<le> maxReplyDepth")
      case True
      have "decode_reply F quote fin (Suc d) (concat (replicate k (''*1'' @ CRLF)) @ rest)
          = Fail (Protocol (''reply nests deeper than '' @ format_nat maxReplyDepth @ '' levels''))"
        using Suc.prems by (intro Suc.IH) simp
      then have "decode_items F quote fin d (nat 1) [] (concat (replicate k (''*1'' @ CRLF)) @ rest)
          = Fail (Protocol (''reply nests deeper than '' @ format_nat maxReplyDepth @ '' levels''))"
        by (simp add: decode_items.simps [of F quote fin d "Suc 0"])
      then show ?thesis
        using decode_line [OF True, of "''1''" F quote fin "CHR ''*''"] one
        by (simp add: line_fits_def readBufferSize_def client_parse_int_def maxAggregate_def push_bit_eq_mult)
    next
      case False
      then show ?thesis by (simp add: decode_reply.simps [of F quote fin d])
    qed
  qed
  from this [of 0 n] assms show ?thesis by simp
qed

lemma deep_reply_refused_witness:
  "decode_reply demo_floats id None 0 (concat (replicate 1000000 (''*1'' @ CRLF)) @ [])
     = Fail (Protocol (''reply nests deeper than '' @ format_nat maxReplyDepth @ '' levels''))"
  by (rule deep_reply_refused) (simp add: maxReplyDepth_def)

end
