(* ===== verification/Framing.thy ===== *)
theory Framing
  imports Resp
begin

text \<open>
  \<open>internal/server/framing.go\<close>: the scan that decides whether another request of a pipeline can be
  decoded without reading, so that the replies need not be flushed first. A result of 0 is
  "not complete". The scan is proved one-sided, as its comment claims, for frames whose headers
  are plain numbers and whose command name is not empty, and two frames outside that are shown
  for which it reports a complete request although the decoder goes on to block.
\<close>

section \<open>The scan\<close>

definition scan_line :: "bytes \<Rightarrow> (bytes \<times> nat) option" where
  "scan_line buf =
     (let pre = takeWhile (\<lambda>c. c \<noteq> LF) buf
      in if length pre = length buf then None
         else Some (if pre \<noteq> [] \<and> last pre = CR then butlast pre else pre, length pre + 1))"

definition ascii_space :: "char \<Rightarrow> bool" where
  "ascii_space c \<longleftrightarrow> c \<in> {CHR '' '', CHR 0x09, LF, CHR 0x0B, CHR 0x0C, CR}"

definition command_bytes :: "bytes \<Rightarrow> bool" where
  "command_bytes line \<longleftrightarrow> list_ex (\<lambda>c. (of_char c :: nat) < 0x80 \<and> \<not> ascii_space c) line"

definition scan_int :: "bytes \<Rightarrow> int option" where
  "scan_int t =
     (if t = [] then None
      else let negative = (hd t = CHR ''-''); t = (if negative then tl t else t)
           in if t = [] \<or> length t > 18 then None
              else if \<not> list_all (\<lambda>c. CHR ''0'' \<le> c \<and> c \<le> CHR ''9'') t then None
              else let v = foldl (\<lambda>v c. v * 10 + int (of_char c - of_char (CHR ''0''))) 0 t
                   in Some (if negative then - v else v))"

fun scan_elements :: "bytes \<Rightarrow> nat \<Rightarrow> nat \<Rightarrow> nat" where
  "scan_elements buf at 0 = at"
| "scan_elements buf at (Suc n) =
     (case scan_line (drop at buf) of
        None \<Rightarrow> 0
      | Some (line, sz) \<Rightarrow>
          if line = [] \<or> hd line \<noteq> CHR ''$'' then at + sz
          else case scan_int (tl line) of
                 None \<Rightarrow> at + sz
               | Some len \<Rightarrow>
                   if len < 0 then at + sz
                   else if int (length buf - (at + sz)) < len + 2 then 0
                   else scan_elements buf (at + sz + (nat len + 2)) n)"

lemma scan_line_size: "scan_line buf = Some (line, sz) \<Longrightarrow> 0 < sz \<and> sz \<le> length buf"
  using length_takeWhile_le [of "\<lambda>c. c \<noteq> LF" buf] by (auto simp: scan_line_def Let_def split: if_splits)

function scan_from :: "bytes \<Rightarrow> nat \<Rightarrow> nat" where
  "scan_from buf pos =
     (case scan_line (drop pos buf) of
        None \<Rightarrow> 0
      | Some (line, sz) \<Rightarrow>
          if line = [] then scan_from buf (pos + sz)
          else if hd line = CHR ''*'' then
            (case scan_int (tl line) of
               None \<Rightarrow> pos + sz
             | Some cnt \<Rightarrow>
                 if cnt < 0 then pos + sz
                 else if cnt = 0 then scan_from buf (pos + sz)
                 else if cnt > int (length buf) then 0
                 else scan_elements buf (pos + sz) (nat cnt))
          else if command_bytes line then pos + sz
          else 0)"
  by pat_completeness auto
termination
  by (relation "measure (\<lambda>(buf, pos). length buf - pos)") (auto dest!: scan_line_size)

declare scan_from.simps [simp del]

definition scan_request :: "bytes \<Rightarrow> nat" where
  "scan_request buf = scan_from buf 0"

text \<open>\<open>requestBuffered\<close>, of the bytes the read buffer holds.\<close>

definition request_buffered :: "bytes \<Rightarrow> bool" where
  "request_buffered buf = (if buf = [] then False else scan_request buf > 0)"

section \<open>Numbers\<close>

lemma is_digit_range: "CHR ''0'' \<le> c \<and> c \<le> CHR ''9'' \<longleftrightarrow> is_digit c"
  by (simp add: is_digit_def less_eq_char_def)

lemma digits_val_int:
  "int (digits_val acc t) = foldl (\<lambda>v c. v * 10 + int (of_char c - of_char (CHR ''0''))) (int acc) t"
  by (induction t arbitrary: acc) (simp_all add: digits_val_def digit_val_def mult.commute)

lemma digits_val_bound: "list_all is_digit t \<Longrightarrow> digits_val acc t < (acc + 1) * 10 ^ length t"
proof (induction t arbitrary: acc)
  case (Cons c t)
  have "digit_val c < 10" using Cons.prems by (auto simp: is_digit_def digit_val_def)
  have "digits_val (10 * acc + digit_val c) t < (10 * acc + digit_val c + 1) * 10 ^ length t"
    using Cons.IH Cons.prems by simp
  also have "\<dots> \<le> (10 * (acc + 1)) * 10 ^ length t" using \<open>digit_val c < 10\<close> by (intro mult_right_mono) auto
  finally show ?case by (simp add: digits_val_def algebra_simps)
qed (simp add: digits_val_def)

lemma scan_int_atoi:
  assumes "scan_int t = Some v"
  shows "atoi t = Some v"
proof -
  let ?neg = "hd t = CHR ''-''" let ?d = "if ?neg then tl t else t"
  have d: "t \<noteq> []" "?d \<noteq> []" "length ?d \<le> 18" "list_all is_digit ?d"
    and v: "v = (if ?neg then - int (digits_val 0 ?d) else int (digits_val 0 ?d))"
    using assms by (auto simp: scan_int_def Let_def is_digit_range digits_val_int split: if_splits)
  have "digits_val 0 ?d < 10 ^ length ?d" using digits_val_bound [OF d(4), of 0] by simp
  also have "\<dots> \<le> 10 ^ 18" using d(3) by (intro power_increasing) auto
  finally have b: "digits_val 0 ?d < 10 ^ 18" .
  obtain c cs where t: "t = c # cs" using d(1) by (cases t) auto
  have plus: "c \<noteq> CHR ''+''" using d(4) t by auto
  have p: "parse_digits ?d = Some (digits_val 0 ?d)" using d by (simp add: parse_digits_def)
  show ?thesis
  proof (cases ?neg)
    case True
    then show ?thesis using p v b t by (simp add: parse_int_def)
  next
    case False
    then show ?thesis using p v b t plus by (simp add: parse_int_def)
  qed
qed

section \<open>Lines\<close>

lemma scan_line_Some:
  assumes "scan_line buf = Some (line, sz)"
  obtains s rest where "buf = s @ LF # rest" "LF \<notin> set s" "sz = length s + 1"
    "line = (if s \<noteq> [] \<and> last s = CR then butlast s else s)" "drop sz buf = rest"
proof -
  let ?s = "takeWhile (\<lambda>c. c \<noteq> LF) buf"
  have len: "length ?s \<noteq> length buf" and l: "line = (if ?s \<noteq> [] \<and> last ?s = CR then butlast ?s else ?s)"
    "sz = length ?s + 1"
    using assms by (auto simp: scan_line_def Let_def split: if_splits)
  then have "length ?s < length buf" using length_takeWhile_le [of "\<lambda>c. c \<noteq> LF" buf] by simp
  then have "buf ! length ?s = LF" "drop (length ?s) buf = buf ! length ?s # drop (length ?s + 1) buf"
    using nth_length_takeWhile by (blast, simp add: Cons_nth_drop_Suc)
  then have "buf = ?s @ LF # drop (length ?s + 1) buf"
    by (metis append_take_drop_id takeWhile_eq_take)
  moreover have "LF \<notin> set ?s" by (auto dest: set_takeWhileD)
  ultimately show thesis using that l by metis
qed

lemma scan_line_intro: "LF \<notin> set s \<Longrightarrow>
  scan_line (s @ LF # rest) = Some (if s \<noteq> [] \<and> last s = CR then butlast s else s, length s + 1)"
  by (simp add: scan_line_def takeWhile_line Let_def)

text \<open>The decoder reads the line the scan saw, or refuses it; it does not block.\<close>

lemma read_line_over:
  assumes "LF \<notin> set s" and "int (length line) + int (length s) + 1 > mx" and "int (length line) \<le> mx"
  shows "read_line B fin mx mid line (s @ LF # rest) = Fail (Protocol ''too big inline request'')"
  using assms
proof (induction "length s" arbitrary: s line rule: less_induct)
  case less
  show ?case
  proof (cases "length s < buf_size B")
    case True
    then have "read_slice B fin (s @ LF # rest) = Line (s @ [LF]) rest"
      using less.prems(1) read_slice_line [of s B fin rest] by simp
    then show ?thesis
      using less.prems(2) by (simp add: read_line.simps [of _ _ _ _ _ "s @ LF # rest"])
  next
    case False
    let ?a = "take (buf_size B) s" and ?b = "drop (buf_size B) s"
    have "take (buf_size B) (s @ LF # rest) = ?a" "drop (buf_size B) (s @ LF # rest) = ?b @ LF # rest"
      using False by simp_all
    moreover have "LF \<notin> set ?a" using less.prems(1) by (meson in_set_takeD)
    ultimately have sl: "read_slice B fin (s @ LF # rest) = BufferFull ?a (?b @ LF # rest)"
      using read_slice_full [of B "s @ LF # rest" fin] False by simp
    have la: "length ?a = buf_size B" using False by simp
    show ?thesis
    proof (cases "int (length line) + int (length ?a) > mx")
      case True
      then show ?thesis using sl by (simp add: read_line.simps [of _ _ _ _ line "s @ LF # rest"])
    next
      case fits: False
      have "read_line B fin mx mid (line @ ?a) (?b @ LF # rest) = Fail (Protocol ''too big inline request'')"
      proof (rule less.hyps)
        show "length ?b < length s" using False buf_size_pos [of B] by (simp only: length_drop)
        show "LF \<notin> set ?b" using less.prems(1) by (meson in_set_dropD)
        show "int (length (line @ ?a)) + int (length ?b) + 1 > mx" "int (length (line @ ?a)) \<le> mx"
          using less.prems(2) False fits la by simp_all
      qed
      then show ?thesis using sl fits by (simp add: read_line.simps [of _ _ _ _ line "s @ LF # rest"])
    qed
  qed
qed

lemma read_line_scan:
  assumes "scan_line buf = Some (line, sz)" "0 \<le> mx"
  shows "read_line B fin mx mid [] buf = Fail (Protocol ''too big inline request'')
    \<or> (\<exists>crlf. read_line B fin mx mid [] buf = Got (line, crlf) (drop sz buf))"
proof -
  obtain s rest where s: "buf = s @ LF # rest" "LF \<notin> set s" "drop sz buf = rest"
    "line = (if s \<noteq> [] \<and> last s = CR then butlast s else s)"
    using assms(1) by (rule scan_line_Some)
  show ?thesis
  proof (cases "int (length s) + 1 \<le> mx")
    case True
    then have "read_line B fin mx mid [] buf = line_result (s @ [LF]) rest"
      using read_line_whole [of s "[]" mx B fin mid rest] s by simp
    then show ?thesis using s by (auto simp: line_result_def trim_terminator_def Let_def)
  next
    case False
    then show ?thesis using read_line_over [of s mx "[]" B fin mid rest] s assms(2) by simp
  qed
qed

section \<open>One-sidedness\<close>

text \<open>The complete lines of a buffer, wherever in a frame they are.\<close>

function lines_of :: "bytes \<Rightarrow> bytes list" where
  "lines_of buf = (case scan_line buf of None \<Rightarrow> [] | Some (line, sz) \<Rightarrow> line # lines_of (drop sz buf))"
  by pat_completeness auto
termination
  by (relation "measure length") (auto dest!: scan_line_size)

declare lines_of.simps [simp del]

lemma lines_of_line:
  "scan_line buf = Some (line, sz) \<Longrightarrow> lines_of buf = line # lines_of (drop sz buf)"
  by (simp add: lines_of.simps [of buf])

lemma lines_of_append_crlf: "\<exists>ls. lines_of (s @ CR # LF # rest) = ls @ lines_of rest"
proof (induction "length s" arbitrary: s rule: less_induct)
  case less
  show ?case
  proof (cases "LF \<in> set s")
    case False
    then have "scan_line ((s @ [CR]) @ LF # rest) = Some (s, length s + 2)"
      by (subst scan_line_intro) auto
    then have "lines_of (s @ CR # LF # rest) = s # lines_of rest"
      using lines_of_line [of "(s @ [CR]) @ LF # rest"] by simp
    then show ?thesis by (metis append_Cons append_Nil)
  next
    case True
    then obtain a b where ab: "s = a @ LF # b" "LF \<notin> set a" by (meson split_list_first)
    then have "scan_line (a @ LF # b @ CR # LF # rest) =
        Some (if a \<noteq> [] \<and> last a = CR then butlast a else a, length a + 1)"
      by (intro scan_line_intro)
    from lines_of_line [OF this] have "\<exists>l. lines_of (s @ CR # LF # rest) = l # lines_of (b @ CR # LF # rest)"
      using ab by simp
    moreover have "\<exists>ls. lines_of (b @ CR # LF # rest) = ls @ lines_of rest"
      using ab by (intro less.hyps) simp
    ultimately show ?thesis by (metis append_Cons)
  qed
qed

text \<open>
  Every header in the buffer is a number both sides read alike, and no frame has an empty name.
\<close>

definition plain_header :: "bytes \<Rightarrow> bool" where
  "plain_header l \<longleftrightarrow> (l \<noteq> [] \<and> (hd l = CHR ''*'' \<or> hd l = CHR ''$'') \<longrightarrow> scan_int (tl l) = None \<longrightarrow> atoi (tl l) = None)"

definition named_after :: "bytes \<Rightarrow> bytes \<Rightarrow> bool" where
  "named_after l l' \<longleftrightarrow> \<not> (l \<noteq> [] \<and> hd l = CHR ''*'' \<and> l' \<noteq> [] \<and> hd l' = CHR ''$'' \<and> scan_int (tl l') = Some 0)"

definition plain_buffer :: "bytes \<Rightarrow> bool" where
  "plain_buffer buf \<longleftrightarrow> list_all plain_header (lines_of buf) \<and> successively named_after (lines_of buf)"

lemma scan_elements_ok:
  assumes "scan_elements buf at n > 0" "list_all plain_header (lines_of (drop at buf))" "0 \<le> MaxInlineLength lim"
  shows "decode_elements n B lim fin parts (drop at buf) \<noteq> Blocks"
  using assms(1,2)
proof (induction n arbitrary: at parts)
  case (Suc n)
  obtain line sz where l: "scan_line (drop at buf) = Some (line, sz)"
    using Suc.prems(1) by (auto split: option.splits)
  let ?rest = "drop sz (drop at buf)"
  from read_line_scan [OF l assms(3)] show ?case
  proof
    assume "read_line B fin (MaxInlineLength lim) True [] (drop at buf) = Fail (Protocol ''too big inline request'')"
    then show ?thesis by (simp add: decode_bulk_def)
  next
    assume "\<exists>crlf. read_line B fin (MaxInlineLength lim) True [] (drop at buf) = Got (line, crlf) ?rest"
    then obtain crlf where rd: "read_line B fin (MaxInlineLength lim) True [] (drop at buf) = Got (line, crlf) ?rest"
      by blast
    show ?thesis
    proof (cases "crlf \<and> line \<noteq> [] \<and> hd line = CHR ''$''")
      case False
      then show ?thesis using rd by (auto simp: decode_bulk_def)
    next
      case True
      have ph: "plain_header line" using Suc.prems(2) lines_of_line [OF l] by simp
      show ?thesis
      proof (cases "atoi (tl line)")
        case None
        then show ?thesis using rd by (auto simp: decode_bulk_def)
      next
        case (Some len)
        then have si: "scan_int (tl line) = Some len"
          using ph True scan_int_atoi [of "tl line"] by (cases "scan_int (tl line)") (auto simp: plain_header_def)
        show ?thesis
        proof (cases "len < 0 \<or> len > MaxBulkLength lim")
          case True
          then show ?thesis using rd Some by (auto simp: decode_bulk_def)
        next
          case False
          have enough: "\<not> int (length buf - (at + sz)) < len + 2"
            and rec: "scan_elements buf (at + sz + (nat len + 2)) n > 0"
            using Suc.prems(1) l si True False by (auto split: if_splits)
          then have len: "nat len + 2 \<le> length ?rest" using False by (simp add: add.commute) linarith
          let ?arg = "take (nat len + 2) ?rest" let ?rest' = "drop (nat len + 2) ?rest"
          have rf: "read_full (nat len + 2) fin ?rest = Got ?arg ?rest'" using len by (simp add: read_full_def)
          have r': "?rest' = drop (at + sz + (nat len + 2)) buf" by (simp add: ac_simps)
          show ?thesis
          proof (cases "drop (nat len) ?arg = CRLF")
            case crlf_ok: True
            then have arg: "?arg = take (nat len) ?rest @ CRLF"
              by (metis append_take_drop_id min.absorb1 le_add1 take_take)
            then have "?rest = take (nat len) ?rest @ CR # LF # ?rest'"
              by (metis append.assoc append_Cons append_Nil append_take_drop_id)
            then obtain ls where "lines_of ?rest = ls @ lines_of ?rest'"
              using lines_of_append_crlf by metis
            then have "list_all plain_header (lines_of ?rest')"
              using Suc.prems(2) lines_of_line [OF l] by simp
            then have "decode_elements n B lim fin (parts @ [take (nat len) ?arg]) ?rest' \<noteq> Blocks"
              using Suc.IH rec unfolding r' by blast
            then show ?thesis using rd Some True False rf crlf_ok by (simp add: decode_bulk_def)
          next
            case False
            then show ?thesis using rd Some True \<open>\<not> (len < 0 \<or> len > MaxBulkLength lim)\<close> rf
              by (simp add: decode_bulk_def)
          qed
        qed
      qed
    qed
  qed
qed simp

lemma decode_bulk_header:
  assumes "decode_bulk B lim fin inp = Got arg rest" "scan_line inp = Some (l, sz)" "plain_header l"
    and "0 \<le> MaxInlineLength lim"
  shows "l \<noteq> [] \<and> hd l = CHR ''$'' \<and> scan_int (tl l) = Some (int (length arg))"
proof -
  obtain crlf where rd: "read_line B fin (MaxInlineLength lim) True [] inp = Got (l, crlf) (drop sz inp)"
    using read_line_scan [OF assms(2,4), of B fin True] assms(1) by (auto simp: decode_bulk_def)
  then obtain len where len: "l \<noteq> []" "hd l = CHR ''$''" "atoi (tl l) = Some len" "0 \<le> len"
    using assms(1) by (auto simp: decode_bulk_def split: if_splits option.splits)
  then have "scan_int (tl l) = Some len"
    using assms(3) scan_int_atoi [of "tl l"] by (cases "scan_int (tl l)") (auto simp: plain_header_def)
  moreover have "length arg = nat len"
    using assms(1) rd len by (auto simp: decode_bulk_def min_def split: if_splits read.splits dest!: read_full_Got)
  ultimately show ?thesis using len by simp
qed

lemma fields_loop_nonempty: "f \<in> set (fields_loop cur s) \<Longrightarrow> f \<noteq> []"
  by (induction cur s rule: fields_loop.induct) (auto simp: Let_def split: if_splits)

lemma to_upper_nonempty: "(\<And>s. s \<noteq> [] \<Longrightarrow> uni s \<noteq> []) \<Longrightarrow> s \<noteq> [] \<Longrightarrow> to_upper uni s \<noteq> []"
  by (simp add: to_upper_def)

lemma ascii_space_code: "ascii_space c \<longleftrightarrow> (of_char c :: nat) \<in> {9, 10, 11, 12, 13, 32}"
proof
  assume "ascii_space c"
  then show "(of_char c :: nat) \<in> {9, 10, 11, 12, 13, 32}" by (auto simp: ascii_space_def)
next
  assume "(of_char c :: nat) \<in> {9, 10, 11, 12, 13, 32}"
  then have "char_of (of_char c :: nat) \<in> char_of ` {9 :: nat, 10, 11, 12, 13, 32}" by (rule imageI)
  then have "c \<in> char_of ` {9 :: nat, 10, 11, 12, 13, 32}" by simp
  then show "ascii_space c" unfolding ascii_space_def by (auto simp: char_of_def bit_simps)
qed

lemma inline_named:
  assumes "command_bytes line" "\<And>s. s \<noteq> [] \<Longrightarrow> uni s \<noteq> []"
  shows "cmd_name (decode_inline uni line) \<noteq> []"
proof -
  obtain c where "c \<in> set line" "ascii_nonspace c"
    using assms(1) by (auto simp: command_bytes_def list_ex_iff ascii_nonspace_def ascii_space_code)
  then have "split_fields line \<noteq> []" unfolding split_fields_def by (rule fields_not_Nil)
  then obtain f fs where f: "split_fields line = f # fs" by (cases "split_fields line") auto
  then have "f \<noteq> []" using fields_loop_nonempty [of f "[]" line] by (simp add: split_fields_def)
  then show ?thesis using f to_upper_nonempty [OF assms(2)] by (simp add: decode_inline_def command_from_parts_def)
qed

lemma elements_named:
  assumes "decode_elements (Suc n) B lim fin [] inp = Got parts rest" "scan_line inp = Some (l', sz)"
    and "plain_header l'" "named_after line l'" "0 \<le> MaxInlineLength lim" "line \<noteq> []" "hd line = CHR ''*''"
  shows "parts \<noteq> [] \<and> hd parts \<noteq> []"
proof -
  obtain arg r where a: "decode_bulk B lim fin inp = Got arg r" "decode_elements n B lim fin [arg] r = Got parts rest"
    using assms(1) by (auto split: read.splits)
  have "arg \<noteq> []"
    using decode_bulk_header [OF a(1) assms(2,3,5)] assms(4,6,7) by (auto simp: named_after_def)
  moreover have "decode_elements k B lim fin (arg # ps) r = Got parts rest \<Longrightarrow> parts \<noteq> [] \<and> hd parts = arg" for k ps r
    by (induction k arbitrary: ps r) (auto split: read.splits)
  ultimately show ?thesis using a(2) by blast
qed

lemma plain_buffer_next:
  assumes "plain_buffer buf" "scan_line buf = Some (line, sz)"
  shows "plain_header line" "plain_buffer (drop sz buf)"
    "scan_line (drop sz buf) = Some (l', sz') \<Longrightarrow> plain_header l' \<and> named_after line l'"
  using assms lines_of_line [OF assms(2)] lines_of_line [of "drop sz buf" l' sz']
  by (auto simp: plain_buffer_def successively_Cons)

lemma scan_request_complete:
  assumes "scan_request buf > 0" and "plain_buffer buf" and "0 \<le> MaxInlineLength lim"
    and "\<And>s. s \<noteq> [] \<Longrightarrow> uni s \<noteq> []"
  shows "decode uni B lim fin buf \<noteq> Blocks"
proof -
  have "decode uni B lim fin (drop pos buf) \<noteq> Blocks"
    if "scan_from buf pos > 0" "plain_buffer (drop pos buf)" for pos
    using that
  proof (induction "length buf - pos" arbitrary: pos rule: less_induct)
    case less
    note unf = decode.simps [of uni B lim fin "drop pos buf"]
    obtain line sz where l: "scan_line (drop pos buf) = Some (line, sz)"
      using less.prems(1) by (subst (asm) scan_from.simps) (auto split: option.splits)
    have rest: "drop sz (drop pos buf) = drop (pos + sz) buf" by (simp add: add.commute)
    have nxt: "plain_header line" "plain_buffer (drop (pos + sz) buf)"
      using plain_buffer_next [OF less.prems(2) l] rest by simp_all
    have shorter: "length buf - (pos + sz) < length buf - pos" using scan_line_size [OF l] by auto
    note IH = less.hyps [OF shorter _ nxt(2)]
    from read_line_scan [OF l assms(3), of B fin False] show ?case
    proof
      assume "read_line B fin (MaxInlineLength lim) False [] (drop pos buf) = Fail (Protocol ''too big inline request'')"
      then show ?thesis by (simp add: unf)
    next
      assume "\<exists>crlf. read_line B fin (MaxInlineLength lim) False [] (drop pos buf) = Got (line, crlf) (drop sz (drop pos buf))"
      then obtain crlf where
        rd: "read_line B fin (MaxInlineLength lim) False [] (drop pos buf) = Got (line, crlf) (drop (pos + sz) buf)"
        using rest by auto
      consider "line = []" | "line \<noteq> []" "hd line \<noteq> CHR ''*''" | "line \<noteq> []" "hd line = CHR ''*''" "\<not> crlf"
        | "line \<noteq> []" "hd line = CHR ''*''" crlf by blast
      then show ?thesis
      proof cases
        case 1
        then have "scan_from buf (pos + sz) > 0"
          using less.prems(1) l by (subst (asm) scan_from.simps) simp
        then show ?thesis using IH rd 1 by (simp add: unf)
      next
        case 2
        then have "command_bytes line"
          using less.prems(1) l by (subst (asm) scan_from.simps) (simp split: if_splits)
        then show ?thesis using inline_named [OF _ assms(4)] rd 2 by (simp add: unf Let_def)
      next
        case 3
        then show ?thesis using rd by (simp add: unf)
      next
        case 4
        show ?thesis
        proof (cases "atoi (tl line)")
          case None
          then show ?thesis using rd 4 by (simp add: unf decode_multi_bulk_def)
        next
          case (Some cnt)
          then have si: "scan_int (tl line) = Some cnt"
            using nxt(1) 4 scan_int_atoi [of "tl line"] by (cases "scan_int (tl line)") (auto simp: plain_header_def)
          consider "cnt < 0 \<or> cnt > MaxMultiBulkLength lim" | "cnt = 0" "cnt \<le> MaxMultiBulkLength lim"
            | "cnt > 0" "cnt \<le> MaxMultiBulkLength lim" by linarith
          then show ?thesis
          proof cases
            case 1
            then show ?thesis using rd 4 Some by (auto simp: unf decode_multi_bulk_def)
          next
            case 2
            then have "scan_from buf (pos + sz) > 0"
              using less.prems(1) l 4 si by (subst (asm) scan_from.simps) simp
            then show ?thesis
              using IH rd 4 Some 2 by (simp add: unf decode_multi_bulk_def empty_command_def)
          next
            case 3
            then have se: "scan_elements buf (pos + sz) (nat cnt) > 0"
              using less.prems(1) l 4 si by (subst (asm) scan_from.simps) (simp split: if_splits)
            obtain n where n: "nat cnt = Suc n" using 3 by (cases "nat cnt") auto
            obtain l' sz' where l': "scan_line (drop (pos + sz) buf) = Some (l', sz')"
              using se n by (auto split: option.splits)
            have ph: "plain_header l' \<and> named_after line l'"
              using plain_buffer_next(3) [OF less.prems(2) l] l' rest by simp
            have "list_all plain_header (lines_of (drop (pos + sz) buf))"
              using nxt(2) by (simp add: plain_buffer_def)
            from scan_elements_ok [OF se this assms(3)]
            have nb: "decode_elements (nat cnt) B lim fin [] (drop (pos + sz) buf) \<noteq> Blocks" by blast
            show ?thesis
            proof (cases "decode_elements (nat cnt) B lim fin [] (drop (pos + sz) buf)")
              case (Got parts r)
              then have "parts \<noteq> [] \<and> hd parts \<noteq> []"
                using elements_named [of n B lim fin "drop (pos + sz) buf" parts r l' sz' line] n l' ph assms(3) 4
                by simp
              then have "cmd_name (command_from_parts uni parts) \<noteq> []"
                using to_upper_nonempty [OF assms(4)] by (cases parts) (simp_all add: command_from_parts_def)
              then show ?thesis using rd 4 Some 3 Got by (simp add: unf decode_multi_bulk_def)
            qed (use rd 4 Some 3 nb in \<open>simp_all add: unf decode_multi_bulk_def\<close>)
          qed
        qed
      qed
    qed
  qed
  from this [of 0] assms(1,2) show ?thesis by (simp add: scan_request_def)
qed

text \<open>
  The scan is one-sided: when it reports a complete request in the buffer, decoding from the
  buffer does not block, so no reply is held back behind a frame that has not arrived. (Every
  header in the buffer being a number that the scan reads if \<open>strconv.Atoi\<close> does, and no frame
  starting with an empty name; Unicode upper-casing does not empty a name.)
\<close>

lemma scan_request_one_sided:
  assumes "scan_request buf > 0" and "plain_buffer buf" and "0 \<le> MaxInlineLength lim"
    and "\<And>s. s \<noteq> [] \<Longrightarrow> uni s \<noteq> []"
  shows "decode uni B lim fin buf \<noteq> Blocks"
  using assms by (rule scan_request_complete)

text \<open>The reader and the limits of the witnesses.\<close>

lemma small_ints [simp]:
  "atoi ''1'' = Some 1" "atoi ''2'' = Some 2" "atoi ''3'' = Some 3" "atoi ''+1'' = Some 1" "atoi ''0'' = Some 0"
  by (simp_all add: parse_int_def parse_digits_def digits_val_def is_digit_def digit_val_def)

lemmas read_eval = read_line.simps read_slice_def Let_def buf_size_def trim_terminator_def

lemma scan_request_one_sided_witness:
  "decode id 16 \<lparr>MaxInlineLength = 64, MaxMultiBulkLength = 8, MaxBulkLength = 16\<rparr> None
     (''*2'' @ CRLF @ ''$3'' @ CRLF @ ''get'' @ CRLF @ ''$1'' @ CRLF @ ''k'' @ CRLF @ ''*1'') \<noteq> Blocks"
proof (rule scan_request_one_sided)
  show "plain_buffer (''*2'' @ CRLF @ ''$3'' @ CRLF @ ''get'' @ CRLF @ ''$1'' @ CRLF @ ''k'' @ CRLF @ ''*1'')"
    by (simp add: plain_buffer_def lines_of.simps scan_line_def Let_def plain_header_def named_after_def scan_int_def
        less_eq_char_def)
  show "0 < scan_request (''*2'' @ CRLF @ ''$3'' @ CRLF @ ''get'' @ CRLF @ ''$1'' @ CRLF @ ''k'' @ CRLF @ ''*1'')"
    by code_simp
qed simp_all

text \<open>
  The two frames for which the scan overclaims. A number with a plus sign, which the scan takes
  for a header the decoder refuses and which \<open>strconv.Atoi\<close> accepts; and a frame whose command name
  is the empty string, which the decoder skips. In both cases the scan says that a complete request
  is buffered and the decoder blocks, whatever else has been decoded before it and is not flushed.
\<close>

lemma scan_request_overclaims:
  "(scan_request (''*+1'' @ CRLF) > 0 \<and> decode id 16 default_limits None (''*+1'' @ CRLF) = Blocks)
    \<and> (scan_request (''*1'' @ CRLF @ ''$0'' @ CRLF @ CRLF) > 0
       \<and> decode id 16 default_limits None (''*1'' @ CRLF @ ''$0'' @ CRLF @ CRLF) = Blocks)"
proof -
  have "scan_request (''*+1'' @ CRLF) > 0" "scan_request (''*1'' @ CRLF @ ''$0'' @ CRLF @ CRLF) > 0"
    by code_simp+
  moreover have "decode id 16 default_limits None (''*+1'' @ CRLF) = Blocks"
    "decode id 16 default_limits None (''*1'' @ CRLF @ ''$0'' @ CRLF @ CRLF) = Blocks"
    by (simp_all add: decode.simps read_eval decode_multi_bulk_def decode_bulk_def read_full_def default_limits_def
        defaultMaxInlineLength_def defaultMaxMultiBulkLength_def maxValueSizeCeiling_def bulkMargin_def
        command_from_parts_def to_upper_def is_ascii_def)
  ultimately show ?thesis by simp
qed

end
