(* ===== verification/Conn_Limits.thy ===== *)
theory Conn_Limits
  imports Resp "HOL-Library.Signed_Division"
begin

text \<open>
  \<open>internal/server/limits.go\<close>: what one client may cost the server, the correction of unusable
  values, and the protocol limits derived from them. Durations are nanoseconds; the division is
  Go's, which truncates towards zero (\<open>sdiv\<close>).
\<close>

record conn_limits =
  MaxConnections :: int
  IdleTimeout :: int
  MaxRequestBytes :: int
  MaxPipelineCommands :: int
  MaxOutputBytes :: int

definition connBufferSize :: int where "connBufferSize = 16 * 1024"

definition defaultMaxConnections :: int where "defaultMaxConnections = 10000"
definition defaultIdleTimeout :: int where "defaultIdleTimeout = 30 * 1000000000"
definition defaultMaxRequestBytes :: int where "defaultMaxRequestBytes = 2 * 1024 * 1024"
definition minRequestBytes :: int where "minRequestBytes = 4 * connBufferSize"
definition defaultMaxPipelineCommands :: int where "defaultMaxPipelineCommands = 1024"
definition defaultMaxOutputBytes :: int where "defaultMaxOutputBytes = 64 * 1024 * 1024"
definition maxRequestElements :: int where "maxRequestElements = 128 * 1024"
definition minElementWire :: int where "minElementWire = 7"

definition default_conn_limits :: conn_limits where
  "default_conn_limits =
     \<lparr>MaxConnections = defaultMaxConnections, IdleTimeout = defaultIdleTimeout,
      MaxRequestBytes = defaultMaxRequestBytes, MaxPipelineCommands = defaultMaxPipelineCommands,
      MaxOutputBytes = defaultMaxOutputBytes\<rparr>"

definition normalize_conn_limits :: "conn_limits \<Rightarrow> conn_limits" where
  "normalize_conn_limits l =
     (let d = default_conn_limits;
          l = (if MaxConnections l \<le> 0 then l\<lparr>MaxConnections := MaxConnections d\<rparr> else l);
          l = (if IdleTimeout l < 0 then l\<lparr>IdleTimeout := IdleTimeout d\<rparr> else l);
          l = (if MaxRequestBytes l \<le> 0 then l\<lparr>MaxRequestBytes := MaxRequestBytes d\<rparr> else l);
          l = (if MaxRequestBytes l < minRequestBytes then l\<lparr>MaxRequestBytes := minRequestBytes\<rparr> else l);
          l = (if MaxPipelineCommands l \<le> 0 then l\<lparr>MaxPipelineCommands := MaxPipelineCommands d\<rparr> else l);
          l = (if MaxOutputBytes l < 0 then l\<lparr>MaxOutputBytes := MaxOutputBytes d\<rparr> else l)
      in l)"

definition codec_limits :: "conn_limits \<Rightarrow> int \<Rightarrow> limits" where
  "codec_limits l maxValueSize =
     (let lim = limits_for_value_size maxValueSize;
          fromBudget = MaxRequestBytes l sdiv minElementWire
      in lim\<lparr>MaxMultiBulkLength := min (min (MaxMultiBulkLength lim) maxRequestElements) fromBudget\<rparr>)"

lemmas limit_consts =
  connBufferSize_def defaultMaxConnections_def defaultIdleTimeout_def defaultMaxRequestBytes_def
  minRequestBytes_def defaultMaxPipelineCommands_def defaultMaxOutputBytes_def maxRequestElements_def
  minElementWire_def defaultMaxInlineLength_def defaultMaxMultiBulkLength_def maxValueSizeCeiling_def
  bulkMargin_def

definition usable_limits :: "conn_limits \<Rightarrow> bool" where
  "usable_limits l \<longleftrightarrow> MaxConnections l > 0 \<and> IdleTimeout l \<ge> 0 \<and> MaxRequestBytes l \<ge> minRequestBytes
     \<and> MaxPipelineCommands l > 0 \<and> MaxOutputBytes l \<ge> 0"

lemma normalize_usable: "usable_limits (normalize_conn_limits l)"
  by (simp add: usable_limits_def normalize_conn_limits_def Let_def default_conn_limits_def limit_consts)

lemma normalize_id: "usable_limits l \<Longrightarrow> normalize_conn_limits l = l"
  by (simp add: usable_limits_def normalize_conn_limits_def Let_def limit_consts)

lemma sdiv_nonneg: "0 \<le> (a :: int) \<Longrightarrow> 0 < b \<Longrightarrow> a sdiv b = a div b"
  by (cases "a = 0") (simp_all add: signed_divide_int_def)

text \<open>
  However the server is configured, the limits it enforces are usable and agree with each
  other: the corrected limits need no second correction, a request may have an argument and never
  more than 131072, as many elements of the least size as the element limit allows fit in the byte
  budget, an argument as long as the largest value fits the bulk limit when the budget is not
  smaller, and the codec's own correction leaves the derived limits alone.
\<close>

lemma derived_limits_agree:
  "let l' = normalize_conn_limits l; lim = codec_limits l' maxValueSize in
     normalize_conn_limits l' = l' \<and> usable_limits l'
     \<and> 1 \<le> MaxMultiBulkLength lim \<and> MaxMultiBulkLength lim \<le> 131072
     \<and> 7 * MaxMultiBulkLength lim \<le> MaxRequestBytes l'
     \<and> min maxValueSize maxValueSizeCeiling < MaxBulkLength lim
     \<and> MaxBulkLength lim \<le> maxValueSizeCeiling + bulkMargin
     \<and> normalize_limits lim = lim"
proof -
  let ?l = "normalize_conn_limits l" let ?lim = "codec_limits ?l maxValueSize"
  have u: "usable_limits ?l" by (rule normalize_usable)
  then have m: "65536 \<le> MaxRequestBytes ?l" by (simp add: usable_limits_def limit_consts)
  then have d: "MaxRequestBytes ?l sdiv 7 = MaxRequestBytes ?l div 7"
    by (simp add: sdiv_nonneg)
  have len: "MaxMultiBulkLength ?lim = min 131072 (MaxRequestBytes ?l div 7)"
    by (simp add: codec_limits_def Let_def limits_for_value_size_def default_limits_def limit_consts d)
  have bulk: "MaxBulkLength ?lim
      = (if 0 < maxValueSize \<and> maxValueSize < maxValueSizeCeiling then maxValueSize else maxValueSizeCeiling) + bulkMargin"
    by (simp add: codec_limits_def Let_def limits_for_value_size_def default_limits_def)
  have "MaxInlineLength ?lim = 65536"
    by (simp add: codec_limits_def Let_def limits_for_value_size_def default_limits_def limit_consts)
  moreover have "1 \<le> MaxMultiBulkLength ?lim \<and> MaxMultiBulkLength ?lim \<le> 131072
      \<and> 7 * MaxMultiBulkLength ?lim \<le> MaxRequestBytes ?l"
    using m unfolding len by (auto simp: min_def)
  moreover have "min maxValueSize maxValueSizeCeiling < MaxBulkLength ?lim
      \<and> MaxBulkLength ?lim \<le> maxValueSizeCeiling + bulkMargin \<and> 0 < MaxBulkLength ?lim"
    unfolding bulk by (auto simp: limit_consts)
  ultimately show ?thesis
    using u normalize_id [OF u] by (simp add: Let_def normalize_limits_def)
qed

end
