(* ===== verification/Auth.thy ===== *)
theory Auth
  imports Go_Lib
begin

text \<open>
  \<open>internal/server/auth.go\<close>: the shared token. The authenticator holds \<open>None\<close> as long as nothing was
  stored in its pointer (and for a nil authenticator); \<open>sha\<close> is SHA-256. The constant-time
  comparison of the digests is equality as far as its result goes.
\<close>

definition DefaultUser :: bytes where "DefaultUser = ''default''"

datatype auth_error = ErrAuthDisabled | ErrWrongPass

record auth_state =
  enabled :: bool
  digest :: bytes

type_synonym authenticator = "auth_state option"

definition auth_set :: "(bytes \<Rightarrow> bytes) \<Rightarrow> bool \<Rightarrow> bytes \<Rightarrow> authenticator \<Rightarrow> authenticator" where
  "auth_set sha en token a = Some \<lparr>enabled = en, digest = sha token\<rparr>"

definition new_authenticator :: "(bytes \<Rightarrow> bytes) \<Rightarrow> bool \<Rightarrow> bytes \<Rightarrow> authenticator" where
  "new_authenticator sha en token = auth_set sha en token None"

definition auth_required :: "authenticator \<Rightarrow> bool" where
  "auth_required a = (case a of None \<Rightarrow> False | Some st \<Rightarrow> enabled st)"

definition auth_verify :: "(bytes \<Rightarrow> bytes) \<Rightarrow> bytes \<Rightarrow> bytes \<Rightarrow> authenticator \<Rightarrow> auth_error option" where
  "auth_verify sha username token a =
     (if \<not> auth_required a then Some ErrAuthDisabled
      else if length username > 0 \<and> username \<noteq> DefaultUser then Some ErrWrongPass
      else let supplied = sha token
           in if supplied \<noteq> digest (the a) then Some ErrWrongPass else None)"

lemma auth_verify_ok:
  "auth_verify sha username token a = None \<longleftrightarrow>
     auth_required a \<and> (username = [] \<or> username = DefaultUser) \<and> sha token = digest (the a)"
  by (auto simp: auth_verify_def Let_def)

end
