(* ===== verification/Session.thy ===== *)
theory Session
  imports Conn_Limits Auth Reply
begin

text \<open>
  The state a command runs against (\<open>internal/server/commands.go\<close>, \<open>server.go\<close>): the \<open>Store\<close>
  interface as a record of functions over an abstract keyspace state \<open>'w\<close>, the server, the
  connection counters and the session. \<open>platform\<close> collects what the handlers read from outside the
  repository: SHA-256, Go's Unicode case tables, the version and runtime strings, and the float64
  operations of \<open>humanBytes\<close> over an abstract \<open>'x\<close>. \<open>readings\<close> are the clock readings of one command.
\<close>

section \<open>The store\<close>

datatype store_error =
    StoreValueTooLarge
  | StoreOutOfMemory
  | StoreInvalidKey
  | StoreScanCursorUnknown
  | StoreTooManyScanCursors
  | StoreScanMemoryExhausted
  | StoreOther bytes

record process_stats =
  HeapAlloc :: u64
  HeapSys :: u64
  HeapInuse :: u64
  HeapObjects :: u64
  StackInuse :: u64
  Sys :: u64
  NumGC :: u32
  Goroutines :: int
  SampledAt :: "int option"

record server_stats =
  sv_Keys :: u64
  sv_KeysWithTTL :: u64
  sv_MemoryUsed :: u64
  sv_MemoryMax :: u64
  sv_Gets :: u64
  sv_Sets :: u64
  sv_Deletes :: u64
  sv_Hits :: u64
  sv_Misses :: u64
  sv_Evictions :: u64
  sv_Expirations :: u64
  sv_OOMRejected :: u64
  sv_ScanCursors :: u64
  sv_ScanSnapshotBytes :: u64
  sv_Process :: process_stats

record 'w store =
  kv_MaxValueSize :: "'w \<Rightarrow> int"
  kv_Get :: "bytes \<Rightarrow> 'w \<Rightarrow> bytes option \<times> 'w"
  kv_Set :: "bytes \<Rightarrow> bytes \<Rightarrow> int \<Rightarrow> 'w \<Rightarrow> store_error option \<times> 'w"
  kv_SetNX :: "bytes \<Rightarrow> bytes \<Rightarrow> int \<Rightarrow> 'w \<Rightarrow> (bool \<times> store_error option) \<times> 'w"
  kv_Delete :: "bytes \<Rightarrow> 'w \<Rightarrow> bool \<times> 'w"
  kv_Exists :: "bytes \<Rightarrow> 'w \<Rightarrow> bool \<times> 'w"
  kv_Keys :: "bytes \<Rightarrow> 'w \<Rightarrow> bytes list \<times> 'w"
  kv_Scan :: "u64 \<Rightarrow> bytes \<Rightarrow> int \<Rightarrow> bytes \<Rightarrow> 'w \<Rightarrow> (store_error + bytes list \<times> bytes) \<times> 'w"
  kv_ReleaseScans :: "u64 \<Rightarrow> 'w \<Rightarrow> 'w"
  kv_GetTTL :: "bytes \<Rightarrow> 'w \<Rightarrow> int option \<times> 'w"
  kv_SetTTL :: "bytes \<Rightarrow> int \<Rightarrow> 'w \<Rightarrow> bool \<times> 'w"
  kv_Stats :: "'w \<Rightarrow> server_stats \<times> 'w"

section \<open>The server and its connections\<close>

record conn_counters =
  nextID :: u64
  connectionsReceived :: u64
  commandsProcessed :: u64
  connected :: int
  rejected :: u64
  idleClosed :: u64
  outputClosed :: u64
  stalledClosed :: u64
  requestClosed :: u64
  panics :: u64

definition zero_counters :: conn_counters where
  "zero_counters =
     \<lparr>nextID = 0, connectionsReceived = 0, commandsProcessed = 0, connected = 0, rejected = 0,
      idleClosed = 0, outputClosed = 0, stalledClosed = 0, requestClosed = 0, panics = 0\<rparr>"

record 'w server =
  srv_store :: "'w store"
  srv_world :: 'w
  srv_addr :: bytes
  srv_auth :: authenticator
  srv_limits :: conn_limits
  srv_codecLimits :: limits
  srv_conns :: conn_counters

text \<open>
  \<open>New\<close>, without the socket it binds: \<open>limits\<close> and \<open>au\<close> are what the options left (\<open>None\<close> where no
  option was given).
\<close>

definition new_server ::
    "(bytes \<Rightarrow> bytes) \<Rightarrow> bytes \<Rightarrow> 'w store option \<Rightarrow> 'w \<Rightarrow> conn_limits option \<Rightarrow> authenticator option \<Rightarrow>
     bytes + 'w server" where
  "new_server sha addr store w limits au =
     (case store of
        None \<Rightarrow> Inl ''server: a keyspace is required''
      | Some st \<Rightarrow>
          (let a = (case au of None \<Rightarrow> new_authenticator sha False [] | Some a \<Rightarrow> a);
               l = normalize_conn_limits (case limits of None \<Rightarrow> default_conn_limits | Some l \<Rightarrow> l);
               codec = normalize_limits (codec_limits l (kv_MaxValueSize st w))
           in Inr \<lparr>srv_store = st, srv_world = w, srv_addr = addr, srv_auth = a, srv_limits = l,
                   srv_codecLimits = codec, srv_conns = zero_counters\<rparr>))"

record session =
  sess_id :: u64
  remoteAddr :: bytes
  authenticated :: bool

definition new_session :: "bytes \<Rightarrow> 'w server \<Rightarrow> session \<times> 'w server" where
  "new_session addr srv =
     (let c = srv_conns srv;
          c = c\<lparr>connectionsReceived := connectionsReceived c + 1\<rparr>;
          c = c\<lparr>connected := i64 (connected c + 1)\<rparr>;
          c = c\<lparr>nextID := nextID c + 1\<rparr>
      in (\<lparr>sess_id = nextID c, remoteAddr = addr, authenticated = False\<rparr>, srv\<lparr>srv_conns := c\<rparr>))"

definition close_session :: "session \<Rightarrow> 'w server \<Rightarrow> 'w server" where
  "close_session s srv =
     (let c = srv_conns srv
      in srv\<lparr>srv_conns := c\<lparr>connected := i64 (connected c - 1)\<rparr>,
             srv_world := kv_ReleaseScans (srv_store srv) (sess_id s) (srv_world srv)\<rparr>)"

text \<open>A call of the store.\<close>

definition on_store :: "('w store \<Rightarrow> 'w \<Rightarrow> 'a \<times> 'w) \<Rightarrow> 'w server \<Rightarrow> 'a \<times> 'w server" where
  "on_store f srv =
     (case f (srv_store srv) (srv_world srv) of (r, w) \<Rightarrow> (r, srv\<lparr>srv_world := w\<rparr>))"

record 'x platform =
  sha256 :: "bytes \<Rightarrow> bytes"
  unicode_upper :: "bytes \<Rightarrow> bytes"
  unicode_lower :: "bytes \<Rightarrow> bytes"
  server_version :: bytes
  go_version :: bytes
  os_arch :: bytes
  process_id :: int
  f_of_u64 :: "u64 \<Rightarrow> 'x"
  f_div :: "'x \<Rightarrow> 'x \<Rightarrow> 'x"
  f_less :: "'x \<Rightarrow> 'x \<Rightarrow> bool"
  f_fixed2 :: "'x \<Rightarrow> bytes"

record readings =
  r_now :: int
  r_uptime_seconds :: u64
  r_uptime_days :: int

section \<open>Server texts\<close>

definition serverName :: bytes where "serverName = ''atlascache''"
definition serverMode :: bytes where "serverMode = ''standalone''"
definition serverRole :: bytes where "serverRole = ''master''"
definition respVersion :: int where "respVersion = 2"

definition errorf :: "bytes \<Rightarrow> 'f reply" where
  "errorf m = Error kindErr m"

abbreviation sq :: bytes where "sq \<equiv> [CHR 0x27]"

text \<open>\<open>net.SplitHostPort\<close>, of which the code uses the port.\<close>

definition split_port :: "bytes \<Rightarrow> bytes option" where
  "split_port hp =
     (if CHR '':'' \<notin> set hp then None
      else let port = rev (takeWhile (\<lambda>c. c \<noteq> CHR '':'') (rev hp));
               i = length hp - length port - 1
           in if hd hp = CHR ''['' then
                (if CHR '']'' \<notin> set hp then None
                 else let en = length (takeWhile (\<lambda>c. c \<noteq> CHR '']'') hp)
                      in if en + 1 \<noteq> i then None
                         else if CHR ''['' \<in> set (drop 1 hp) \<or> CHR '']'' \<in> set (drop (en + 1) hp) then None
                         else Some port)
              else if CHR '':'' \<in> set (take i hp) then None
              else if CHR ''['' \<in> set hp \<or> CHR '']'' \<in> set hp then None
              else Some port)"

definition listen_port :: "bytes \<Rightarrow> bytes" where
  "listen_port addr = (case split_port addr of None \<Rightarrow> ''0'' | Some p \<Rightarrow> p)"

end
