(* ===== verification/Info.thy ===== *)
theory Info
  imports Session
begin

text \<open>
  \<open>internal/server/info.go\<close>: the INFO reply and the parser of it. A value printed with \<open>%v\<close> is a
  decimal number or a string.
\<close>

section \<open>Fields\<close>

definition field :: "bytes \<Rightarrow> bytes \<Rightarrow> bytes" where
  "field name v = name @ '':'' @ v"

abbreviation fmt_u64 :: "u64 \<Rightarrow> bytes" where "fmt_u64 w \<equiv> format_nat (unat w)"

fun human_loop :: "'x platform \<Rightarrow> 'x \<Rightarrow> bytes list \<Rightarrow> 'x \<Rightarrow> bytes" where
  "human_loop P unit [] v = f_fixed2 P (f_div P v unit) @ ''E''"
| "human_loop P unit (suffix # ss) v =
     (let v' = f_div P v unit
      in if f_less P v' unit then f_fixed2 P v' @ suffix else human_loop P unit ss v')"

definition human_bytes :: "'x platform \<Rightarrow> u64 \<Rightarrow> bytes" where
  "human_bytes P n =
     (if n < 1024 then fmt_u64 n @ ''B''
      else human_loop P (f_of_u64 P 1024) [''K'', ''M'', ''G'', ''T'', ''P''] (f_of_u64 P n))"

definition info_server :: "'x platform \<Rightarrow> readings \<Rightarrow> 'w server \<Rightarrow> bytes list" where
  "info_server P t srv =
     [field ''atlascache_version'' (server_version P),
      field ''atlascache_mode'' serverMode,
      field ''atlascache_role'' serverRole,
      field ''go_version'' (go_version P),
      field ''os'' (os_arch P),
      field ''arch_bits'' ''64'',
      field ''process_id'' (format_int (process_id P)),
      field ''tcp_port'' (listen_port (srv_addr srv)),
      field ''uptime_in_seconds'' (fmt_u64 (r_uptime_seconds t)),
      field ''uptime_in_days'' (format_int (r_uptime_days t))]"

definition info_clients :: "'w server \<Rightarrow> bytes list" where
  "info_clients srv =
     [field ''connected_clients'' (format_int (connected (srv_conns srv))),
      field ''blocked_clients'' ''0'',
      field ''maxclients'' (format_int (MaxConnections (srv_limits srv))),
      field ''atlascache_client_idle_timeout_ms'' (format_int (IdleTimeout (srv_limits srv) sdiv 1000000)),
      field ''atlascache_max_request_size'' (format_int (MaxRequestBytes (srv_limits srv))),
      field ''atlascache_max_request_elements'' (format_int (MaxMultiBulkLength (srv_codecLimits srv))),
      field ''atlascache_max_pipeline_commands'' (format_int (MaxPipelineCommands (srv_limits srv))),
      field ''atlascache_max_output_buffer'' (format_int (MaxOutputBytes (srv_limits srv)))]"

definition info_memory :: "'x platform \<Rightarrow> server_stats \<Rightarrow> bytes list" where
  "info_memory P st =
     [field ''used_memory'' (fmt_u64 (sv_MemoryUsed st)),
      field ''used_memory_human'' (human_bytes P (sv_MemoryUsed st)),
      field ''maxmemory'' (fmt_u64 (sv_MemoryMax st)),
      field ''maxmemory_human'' (human_bytes P (sv_MemoryMax st)),
      field ''atlascache_scan_cursors'' (fmt_u64 (sv_ScanCursors st)),
      field ''atlascache_scan_snapshot_bytes'' (fmt_u64 (sv_ScanSnapshotBytes st))]
     @ (let p = sv_Process st
        in case SampledAt p of
             None \<Rightarrow> []
           | Some at \<Rightarrow>
               [field ''atlascache_heap_alloc'' (fmt_u64 (HeapAlloc p)),
                field ''atlascache_heap_sys'' (fmt_u64 (HeapSys p)),
                field ''atlascache_heap_inuse'' (fmt_u64 (HeapInuse p)),
                field ''atlascache_heap_objects'' (fmt_u64 (HeapObjects p)),
                field ''atlascache_stack_inuse'' (fmt_u64 (StackInuse p)),
                field ''atlascache_process_memory'' (fmt_u64 (Sys p)),
                field ''atlascache_num_gc'' (format_nat (unat (NumGC p))),
                field ''atlascache_goroutines'' (format_int (Goroutines p)),
                field ''atlascache_memory_sampled_at'' (format_int at)])"

definition info_stats :: "'w server \<Rightarrow> server_stats \<Rightarrow> bytes list" where
  "info_stats srv st =
     [field ''total_connections_received'' (fmt_u64 (connectionsReceived (srv_conns srv))),
      field ''total_commands_processed'' (fmt_u64 (commandsProcessed (srv_conns srv))),
      field ''rejected_connections'' (fmt_u64 (rejected (srv_conns srv))),
      field ''atlascache_idle_closed'' (fmt_u64 (idleClosed (srv_conns srv))),
      field ''atlascache_output_limit_closed'' (fmt_u64 (outputClosed (srv_conns srv))),
      field ''atlascache_stalled_closed'' (fmt_u64 (stalledClosed (srv_conns srv))),
      field ''atlascache_request_limit_closed'' (fmt_u64 (requestClosed (srv_conns srv))),
      field ''atlascache_handler_panics'' (fmt_u64 (panics (srv_conns srv))),
      field ''keyspace_hits'' (fmt_u64 (sv_Hits st)),
      field ''keyspace_misses'' (fmt_u64 (sv_Misses st)),
      field ''expired_keys'' (fmt_u64 (sv_Expirations st)),
      field ''evicted_keys'' (fmt_u64 (sv_Evictions st)),
      field ''atlascache_gets'' (fmt_u64 (sv_Gets st)),
      field ''atlascache_sets'' (fmt_u64 (sv_Sets st)),
      field ''atlascache_deletes'' (fmt_u64 (sv_Deletes st)),
      field ''atlascache_oom_rejected'' (fmt_u64 (sv_OOMRejected st))]"

definition info_keyspace :: "server_stats \<Rightarrow> bytes list" where
  "info_keyspace st =
     (if sv_Keys st = 0 then []
      else [''db0:keys='' @ fmt_u64 (sv_Keys st) @ '',expires='' @ fmt_u64 (sv_KeysWithTTL st)
             @ '',avg_ttl=0''])"

section \<open>Sections\<close>

definition sectionServer :: bytes where "sectionServer = ''server''"
definition sectionClients :: bytes where "sectionClients = ''clients''"
definition sectionMemory :: bytes where "sectionMemory = ''memory''"
definition sectionStats :: bytes where "sectionStats = ''stats''"
definition sectionKeyspace :: bytes where "sectionKeyspace = ''keyspace''"

definition infoSections :: "bytes list" where
  "infoSections = [sectionServer, sectionClients, sectionMemory, sectionStats, sectionKeyspace]"

definition infoSectionAliases :: "bytes list" where
  "infoSectionAliases = [''default'', ''all'', ''everything'']"

lemmas section_names =
  sectionServer_def sectionClients_def sectionMemory_def sectionStats_def sectionKeyspace_def

definition info_fields ::
    "'x platform \<Rightarrow> readings \<Rightarrow> 'w server \<Rightarrow> bytes \<Rightarrow> server_stats \<Rightarrow> bytes list" where
  "info_fields P t srv name st =
     (if name = sectionServer then info_server P t srv
      else if name = sectionClients then info_clients srv
      else if name = sectionMemory then info_memory P st
      else if name = sectionStats then info_stats srv st
      else if name = sectionKeyspace then info_keyspace st
      else [])"

definition info_section ::
    "'x platform \<Rightarrow> readings \<Rightarrow> 'w server \<Rightarrow> bytes \<Rightarrow> server_stats \<Rightarrow> bytes" where
  "info_section P t srv name st =
     ''# '' @ to_upper (unicode_upper P) (take 1 name) @ drop 1 name @ CRLF
     @ concat (map (\<lambda>line. line @ CRLF) (info_fields P t srv name st))"

text \<open>The loop over the arguments: \<open>None\<close> when one of them stands for all sections.\<close>

fun select_sections :: "'x platform \<Rightarrow> bytes list \<Rightarrow> bytes list \<Rightarrow> bytes list option" where
  "select_sections P [] selected = Some selected"
| "select_sections P (arg # args) selected =
     (let name = to_lower (unicode_lower P) arg
      in if name \<in> set infoSectionAliases then None
         else if name \<in> set infoSections then select_sections P args (name # selected)
         else select_sections P args selected)"

definition requested_sections :: "'x platform \<Rightarrow> bytes list \<Rightarrow> bytes list" where
  "requested_sections P args =
     (case select_sections P args [] of
        None \<Rightarrow> infoSections
      | Some selected \<Rightarrow> filter (\<lambda>name. name \<in> set selected) infoSections)"

fun join :: "bytes \<Rightarrow> bytes list \<Rightarrow> bytes" where
  "join sep [] = []"
| "join sep [x] = x"
| "join sep (x # y # zs) = x @ sep @ join sep (y # zs)"

definition info_handler ::
    "'x platform \<Rightarrow> readings \<Rightarrow> command \<Rightarrow> session \<Rightarrow> 'w server \<Rightarrow> 'f reply \<times> session \<times> 'w server" where
  "info_handler P t cmd s srv =
     (let wanted = (if length (cmd_args cmd) > 0 then requested_sections P (cmd_args cmd) else infoSections)
      in if wanted = [] then (Verbatim ''txt'' [], s, srv)
         else case on_store kv_Stats srv of
                (st, srv) \<Rightarrow>
                  (Verbatim ''txt'' (join CRLF (map (\<lambda>name. info_section P t srv name st) wanted)), s, srv))"

section \<open>Reading INFO back\<close>

fun split_lines :: "bytes \<Rightarrow> bytes \<Rightarrow> bytes list" where
  "split_lines cur [] = [rev cur]"
| "split_lines cur (c # cs) = (if c = LF then rev cur # split_lines [] cs else split_lines (c # cur) cs)"

definition trim_right_cr :: "bytes \<Rightarrow> bytes" where
  "trim_right_cr s = rev (dropWhile (\<lambda>c. c = CR) (rev s))"

definition cut_colon :: "bytes \<Rightarrow> (bytes \<times> bytes) option" where
  "cut_colon s =
     (let name = takeWhile (\<lambda>c. c \<noteq> CHR '':'') s
      in if length name < length s then Some (name, drop (length name + 1) s) else None)"

definition parse_line :: "bytes \<Rightarrow> (bytes \<rightharpoonup> bytes) \<Rightarrow> bytes \<rightharpoonup> bytes" where
  "parse_line line m =
     (let line = trim_right_cr line
      in if line = [] \<or> hd line = CHR ''#'' then m
         else case cut_colon line of None \<Rightarrow> m | Some (n, v) \<Rightarrow> m(n \<mapsto> v))"

definition parse_info :: "bytes \<Rightarrow> bytes \<rightharpoonup> bytes" where
  "parse_info txt = fold parse_line (split_lines [] txt) Map.empty"

end
