(* ===== verification/Commands.thy ===== *)
theory Commands
  imports Info Glob
begin

text \<open>
  \<open>internal/server/commands.go\<close>: the handlers, the option parsers, the dispatch table, the
  authentication gate and \<open>dispatch\<close>. A handler takes the command, the session and the server and
  returns its reply with both updated; everything it does to the keyspace goes through the store.
\<close>

type_synonym ('x, 'w, 'f) handler =
  "'x platform \<Rightarrow> readings \<Rightarrow> command \<Rightarrow> session \<Rightarrow> 'w server \<Rightarrow> 'f reply \<times> session \<times> 'w server"

section \<open>Error replies\<close>

definition err_no_auth :: "'f reply" where
  "err_no_auth = Error ''NOAUTH'' ''Authentication required''"

definition err_wrong_pass :: "'f reply" where
  "err_wrong_pass = Error ''WRONGPASS'' ''invalid username-password pair''"

definition err_no_proto :: "'f reply" where
  "err_no_proto = Error ''NOPROTO'' ''unsupported protocol version''"

definition err_syntax :: "'f reply" where
  "err_syntax = errorf ''syntax error''"

definition err_not_an_integer :: "'f reply" where
  "err_not_an_integer = errorf ''value is not an integer or out of range''"

definition err_expire_time :: "bytes \<Rightarrow> 'f reply" where
  "err_expire_time name = errorf (''invalid expire time in '' @ sq @ name @ sq @ '' command'')"

definition applied :: "bool \<Rightarrow> 'f reply" where
  "applied ok = (if ok then Integer 1 else Integer 0)"

fun store_error_text :: "store_error \<Rightarrow> bytes" where
  "store_error_text StoreValueTooLarge = ''value exceeds max_value_size''"
| "store_error_text StoreOutOfMemory = ''out of memory''"
| "store_error_text StoreInvalidKey = ''invalid key''"
| "store_error_text StoreScanCursorUnknown = ''scan cursor is unknown''"
| "store_error_text StoreTooManyScanCursors = ''too many open scan cursors''"
| "store_error_text StoreScanMemoryExhausted = ''scan snapshot memory limit reached''"
| "store_error_text (StoreOther m) = m"

definition store_failure :: "store_error \<Rightarrow> 'f reply" where
  "store_failure e =
     (case e of
        StoreOutOfMemory \<Rightarrow>
          Error ''OOM'' (''command not allowed when used memory > '' @ sq @ ''maxmemory'' @ sq @ ''.'')
      | StoreValueTooLarge \<Rightarrow> errorf ''value exceeds max_value_size''
      | StoreInvalidKey \<Rightarrow> errorf ''invalid key''
      | _ \<Rightarrow> errorf (store_error_text e))"

definition scan_failure :: "store_error \<Rightarrow> 'f reply" where
  "scan_failure e =
     (case e of
        StoreScanCursorUnknown \<Rightarrow> errorf ''invalid cursor''
      | StoreTooManyScanCursors \<Rightarrow>
          errorf ''too many open scan cursors; finish or abandon one before starting another''
      | StoreScanMemoryExhausted \<Rightarrow> errorf ''scan snapshot memory limit reached''
      | _ \<Rightarrow> errorf (store_error_text e))"

section \<open>Expiry arithmetic\<close>

definition second :: int where "second = 1000000000"
definition millisecond :: int where "millisecond = 1000000"

definition expiry_for :: "int \<Rightarrow> int \<Rightarrow> int \<Rightarrow> int option" where
  "expiry_for now amount unit =
     (if amount \<le> 0 \<or> amount > max_int64 sdiv unit then None
      else let ttl = i64 (amount * unit)
           in if ttl > i64 (max_int64 - now) then None else Some ttl)"

definition whole_seconds :: "int \<Rightarrow> int" where
  "whole_seconds remaining = i64 (remaining sdiv 1000000 + 500) sdiv 1000"

section \<open>Option parsers\<close>

definition parse_set_expiry :: "'x platform \<Rightarrow> int \<Rightarrow> bytes list \<Rightarrow> 'f reply + int" where
  "parse_set_expiry P now opts =
     (if length opts = 0 then Inr 0
      else if length opts \<noteq> 2 then Inl err_syntax
      else let u = to_upper (unicode_upper P) (opts ! 0)
           in if u \<noteq> ''EX'' \<and> u \<noteq> ''PX'' then Inl err_syntax
              else let unit = (if u = ''EX'' then second else millisecond)
                   in case parse_int (opts ! 1) of
                        None \<Rightarrow> Inl err_not_an_integer
                      | Some amount \<Rightarrow>
                          (case expiry_for now amount unit of
                             None \<Rightarrow> Inl (err_expire_time ''set'')
                           | Some ttl \<Rightarrow> Inr ttl))"

definition parse_scan_cursor :: "bytes \<Rightarrow> 'f reply + bytes" where
  "parse_scan_cursor arg =
     (case parse_uint arg of None \<Rightarrow> Inl (errorf ''invalid cursor'') | Some v \<Rightarrow> Inr (format_nat v))"

record scan_options =
  so_count :: int
  so_match :: bytes

fun scan_options_loop :: "'x platform \<Rightarrow> scan_options \<Rightarrow> bytes list \<Rightarrow> 'f reply + scan_options" where
  "scan_options_loop P opts [] = Inr opts"
| "scan_options_loop P opts [a] = Inl err_syntax"
| "scan_options_loop P opts (a # v # args) =
     (let u = to_upper (unicode_upper P) a
      in if u = ''MATCH'' then scan_options_loop P (opts\<lparr>so_match := v\<rparr>) args
         else if u = ''COUNT'' then
           (case parse_int v of
              None \<Rightarrow> Inl err_not_an_integer
            | Some c \<Rightarrow>
                if c < 1 then Inl err_syntax else scan_options_loop P (opts\<lparr>so_count := c\<rparr>) args)
         else Inl err_syntax)"

definition parse_scan_options :: "'x platform \<Rightarrow> bytes list \<Rightarrow> 'f reply + scan_options" where
  "parse_scan_options P args = scan_options_loop P \<lparr>so_count = 0, so_match = MatchAllPattern\<rparr> args"

section \<open>Connection commands\<close>

definition ping_handler :: "('x, 'w, 'f) handler" where
  "ping_handler P t cmd s srv =
     (if length (cmd_args cmd) = 1 then (BulkString (cmd_args cmd ! 0), s, srv)
      else (SimpleString ''PONG'', s, srv))"

definition quit_handler :: "('x, 'w, 'f) handler" where
  "quit_handler P t cmd s srv = (SimpleString ''OK'', s, srv)"

definition echo_handler :: "('x, 'w, 'f) handler" where
  "echo_handler P t cmd s srv = (BulkString (cmd_args cmd ! 0), s, srv)"

definition command_handler :: "('x, 'w, 'f) handler" where
  "command_handler P t cmd s srv = (Array [], s, srv)"

definition auth_handler :: "('x, 'w, 'f) handler" where
  "auth_handler P t cmd s srv =
     (let args = cmd_args cmd;
          username = (if length args = 2 then args ! 0 else []);
          token = (if length args = 2 then args ! 1 else args ! 0)
      in case auth_verify (sha256 P) username token (srv_auth srv) of
           None \<Rightarrow> (SimpleString ''OK'', s\<lparr>authenticated := True\<rparr>, srv)
         | Some ErrAuthDisabled \<Rightarrow> (errorf ''Client sent AUTH, but no password is set'', s, srv)
         | Some ErrWrongPass \<Rightarrow> (err_wrong_pass, s, srv))"

definition cmdAuth :: bytes where "cmdAuth = ''AUTH''"

text \<open>The reply to send in place of the properties, or \<open>None\<close> when every option was applied.\<close>

function hello_options ::
    "'x platform \<Rightarrow> readings \<Rightarrow> bytes list \<Rightarrow> session \<Rightarrow> 'w server \<Rightarrow> 'f reply option \<times> session \<times> 'w server" where
  "hello_options P t args s srv =
     (case args of
        [] \<Rightarrow> (None, s, srv)
      | a # rest \<Rightarrow>
          if to_upper (unicode_upper P) a = cmdAuth \<and> length args \<ge> 3 then
            (case auth_handler P t \<lparr>cmd_name = cmdAuth, cmd_args = take 2 rest\<rparr> s srv of
               (SimpleString _, s', srv') \<Rightarrow> hello_options P t (drop 2 rest) s' srv'
             | (r, s', srv') \<Rightarrow> (Some r, s', srv'))
          else (Some (errorf (''syntax error in HELLO option '' @ sq @ a @ sq)), s, srv))"
  by pat_completeness auto
termination
  by (relation "measure (\<lambda>(P, t, args, s, srv). length args)") auto

declare hello_options.simps [simp del]

definition hello_properties :: "'x platform \<Rightarrow> 'f reply" where
  "hello_properties P = MapReply
     [(BulkString ''server'', BulkString serverName),
      (BulkString ''version'', BulkString (server_version P)),
      (BulkString ''proto'', Integer respVersion),
      (BulkString ''mode'', BulkString serverMode),
      (BulkString ''role'', BulkString serverRole),
      (BulkString ''modules'', Array [])]"

definition hello_handler :: "('x, 'w, 'f) handler" where
  "hello_handler P t cmd s srv =
     (case cmd_args cmd of
        [] \<Rightarrow> (hello_properties P, s, srv)
      | v # opts \<Rightarrow>
          if atoi v \<noteq> Some respVersion then (err_no_proto, s, srv)
          else case hello_options P t opts s srv of
                 (Some r, s', srv') \<Rightarrow> (r, s', srv')
               | (None, s', srv') \<Rightarrow> (hello_properties P, s', srv'))"

section \<open>Data commands\<close>

definition set_handler :: "('x, 'w, 'f) handler" where
  "set_handler P t cmd s srv =
     (let args = cmd_args cmd
      in case parse_set_expiry P (r_now t) (drop 2 args) of
           Inl bad \<Rightarrow> (bad, s, srv)
         | Inr ttl \<Rightarrow>
             (case on_store (\<lambda>st. kv_Set st (args ! 0) (args ! 1) ttl) srv of
                (Some e, srv) \<Rightarrow> (store_failure e, s, srv)
              | (None, srv) \<Rightarrow> (SimpleString ''OK'', s, srv)))"

definition setnx_handler :: "('x, 'w, 'f) handler" where
  "setnx_handler P t cmd s srv =
     (case on_store (\<lambda>st. kv_SetNX st (cmd_args cmd ! 0) (cmd_args cmd ! 1) 0) srv of
        ((stored, Some e), srv) \<Rightarrow> (store_failure e, s, srv)
      | ((stored, None), srv) \<Rightarrow> (applied stored, s, srv))"

definition get_handler :: "('x, 'w, 'f) handler" where
  "get_handler P t cmd s srv =
     (case on_store (\<lambda>st. kv_Get st (cmd_args cmd ! 0)) srv of
        (None, srv) \<Rightarrow> (NilReply, s, srv)
      | (Some v, srv) \<Rightarrow> (BulkString v, s, srv))"

text \<open>The loops of DEL and EXISTS, with what has been counted.\<close>

fun count_loop :: "('w store \<Rightarrow> bytes \<Rightarrow> 'w \<Rightarrow> bool \<times> 'w) \<Rightarrow> bytes list \<Rightarrow> int \<Rightarrow> 'w server \<Rightarrow> int \<times> 'w server" where
  "count_loop f [] n srv = (n, srv)"
| "count_loop f (k # ks) n srv =
     (case on_store (\<lambda>st. f st k) srv of (b, srv) \<Rightarrow> count_loop f ks (if b then n + 1 else n) srv)"

definition del_handler :: "('x, 'w, 'f) handler" where
  "del_handler P t cmd s srv =
     (case count_loop kv_Delete (cmd_args cmd) 0 srv of (n, srv) \<Rightarrow> (Integer n, s, srv))"

definition exists_handler :: "('x, 'w, 'f) handler" where
  "exists_handler P t cmd s srv =
     (case count_loop kv_Exists (cmd_args cmd) 0 srv of (n, srv) \<Rightarrow> (Integer n, s, srv))"

definition keys_handler :: "('x, 'w, 'f) handler" where
  "keys_handler P t cmd s srv =
     (case on_store (\<lambda>st. kv_Keys st (cmd_args cmd ! 0)) srv of
        (ks, srv) \<Rightarrow> (Array (map BulkString ks), s, srv))"

definition scan_handler :: "('x, 'w, 'f) handler" where
  "scan_handler P t cmd s srv =
     (case parse_scan_cursor (cmd_args cmd ! 0) of
        Inl bad \<Rightarrow> (bad, s, srv)
      | Inr cursor \<Rightarrow>
          (case parse_scan_options P (drop 1 (cmd_args cmd)) of
             Inl bad \<Rightarrow> (bad, s, srv)
           | Inr opts \<Rightarrow>
               (case on_store (\<lambda>st. kv_Scan st (sess_id s) cursor (so_count opts) (so_match opts)) srv of
                  (Inl e, srv) \<Rightarrow> (scan_failure e, s, srv)
                | (Inr (ks, nxt), srv) \<Rightarrow>
                    (Array [BulkString nxt, Array (map BulkString ks)], s, srv))))"

definition ttlNoExpiry :: int where "ttlNoExpiry = -1"
definition ttlNoKey :: int where "ttlNoKey = -2"

definition ttl_handler :: "('x, 'w, 'f) handler" where
  "ttl_handler P t cmd s srv =
     (case on_store (\<lambda>st. kv_GetTTL st (cmd_args cmd ! 0)) srv of
        (None, srv) \<Rightarrow> (Integer ttlNoKey, s, srv)
      | (Some remaining, srv) \<Rightarrow>
          if remaining < 0 then (Integer ttlNoExpiry, s, srv)
          else if remaining = 0 then (Integer ttlNoKey, s, srv)
          else (Integer (whole_seconds remaining), s, srv))"

definition expire_handler :: "('x, 'w, 'f) handler" where
  "expire_handler P t cmd s srv =
     (let key = cmd_args cmd ! 0
      in case parse_int (cmd_args cmd ! 1) of
           None \<Rightarrow> (err_not_an_integer, s, srv)
         | Some seconds \<Rightarrow>
             if seconds \<le> 0 then
               (case on_store (\<lambda>st. kv_Delete st key) srv of (b, srv) \<Rightarrow> (applied b, s, srv))
             else case expiry_for (r_now t) seconds second of
                    None \<Rightarrow> (err_expire_time ''expire'', s, srv)
                  | Some ttl \<Rightarrow>
                      (case on_store (\<lambda>st. kv_SetTTL st key ttl) srv of (b, srv) \<Rightarrow> (applied b, s, srv)))"

section \<open>Introspection\<close>

definition counter :: "bytes \<Rightarrow> u64 \<Rightarrow> 'f reply \<times> 'f reply" where
  "counter name v = (BulkString name, Integer (sint v))"

definition dbsize_handler :: "('x, 'w, 'f) handler" where
  "dbsize_handler P t cmd s srv =
     (case on_store kv_Stats srv of (st, srv) \<Rightarrow> (Integer (sint (sv_Keys st)), s, srv))"

definition stats_handler :: "('x, 'w, 'f) handler" where
  "stats_handler P t cmd s srv =
     (case on_store kv_Stats srv of
        (st, srv) \<Rightarrow>
          (MapReply
             [counter ''keys'' (sv_Keys st),
              counter ''keys_with_ttl'' (sv_KeysWithTTL st),
              counter ''memory_used'' (sv_MemoryUsed st),
              counter ''memory_max'' (sv_MemoryMax st),
              counter ''gets'' (sv_Gets st),
              counter ''sets'' (sv_Sets st),
              counter ''deletes'' (sv_Deletes st),
              counter ''hits'' (sv_Hits st),
              counter ''misses'' (sv_Misses st),
              counter ''evictions'' (sv_Evictions st),
              counter ''expirations'' (sv_Expirations st),
              counter ''oom_rejected'' (sv_OOMRejected st),
              counter ''scan_cursors'' (sv_ScanCursors st),
              counter ''scan_snapshot_bytes'' (sv_ScanSnapshotBytes st),
              counter ''connections_received'' (connectionsReceived (srv_conns srv)),
              counter ''commands_processed'' (commandsProcessed (srv_conns srv)),
              (BulkString ''connected_clients'', Integer (connected (srv_conns srv))),
              counter ''max_connections'' (of_int (MaxConnections (srv_limits srv))),
              counter ''rejected_connections'' (rejected (srv_conns srv)),
              counter ''idle_closed'' (idleClosed (srv_conns srv)),
              counter ''output_limit_closed'' (outputClosed (srv_conns srv)),
              counter ''stalled_closed'' (stalledClosed (srv_conns srv)),
              counter ''request_limit_closed'' (requestClosed (srv_conns srv)),
              counter ''handler_panics'' (panics (srv_conns srv)),
              counter ''uptime_seconds'' (r_uptime_seconds t)], s, srv))"

section \<open>Dispatch\<close>

definition unbounded :: int where "unbounded = -1"

record ('x, 'w, 'f) command_spec =
  minArgs :: int
  maxArgs :: int
  closes :: bool
  handler :: "('x, 'w, 'f) handler"

abbreviation row :: "int \<Rightarrow> int \<Rightarrow> bool \<Rightarrow> ('x, 'w, 'f) handler \<Rightarrow> ('x, 'w, 'f) command_spec" where
  "row lo hi cl h \<equiv> \<lparr>minArgs = lo, maxArgs = hi, closes = cl, handler = h\<rparr>"

definition commands :: "(bytes \<times> ('x, 'w, 'f) command_spec) list" where
  "commands =
     [(''PING'', row 0 1 False ping_handler),
      (''QUIT'', row 0 unbounded True quit_handler),
      (''SET'', row 2 unbounded False set_handler),
      (''SETNX'', row 2 2 False setnx_handler),
      (''GET'', row 1 1 False get_handler),
      (''DEL'', row 1 unbounded False del_handler),
      (''EXISTS'', row 1 unbounded False exists_handler),
      (''KEYS'', row 1 1 False keys_handler),
      (''TTL'', row 1 1 False ttl_handler),
      (''EXPIRE'', row 2 2 False expire_handler),
      (''SCAN'', row 1 unbounded False scan_handler),
      (''HELLO'', row 0 unbounded False hello_handler),
      (cmdAuth, row 1 2 False auth_handler),
      (''STATS'', row 0 0 False stats_handler),
      (''DBSIZE'', row 0 0 False dbsize_handler),
      (''ECHO'', row 1 1 False echo_handler),
      (''INFO'', row 0 unbounded False info_handler),
      (''COMMAND'', row 0 unbounded False command_handler)]"

definition noAuthCommands :: "bytes list" where
  "noAuthCommands = [cmdAuth, ''HELLO'', ''PING'', ''QUIT'']"

definition accepts :: "('x, 'w, 'f) command_spec \<Rightarrow> int \<Rightarrow> bool" where
  "accepts c args = (if args < minArgs c then False else maxArgs c = unbounded \<or> args \<le> maxArgs c)"

definition session_auth_required :: "session \<Rightarrow> 'w server \<Rightarrow> bool" where
  "session_auth_required s srv \<longleftrightarrow> auth_required (srv_auth srv) \<and> \<not> authenticated s"

definition count_command :: "'w server \<Rightarrow> 'w server" where
  "count_command srv =
     srv\<lparr>srv_conns := (srv_conns srv)\<lparr>commandsProcessed := commandsProcessed (srv_conns srv) + 1\<rparr>\<rparr>"

definition dispatch ::
    "'x platform \<Rightarrow> readings \<Rightarrow> command \<Rightarrow> session \<Rightarrow> 'w server \<Rightarrow> ('f reply \<times> bool) \<times> session \<times> 'w server" where
  "dispatch P t cmd s srv =
     (let srv = count_command srv
      in case map_of (commands :: (bytes \<times> ('x, 'w, 'f) command_spec) list) (cmd_name cmd) of
           None \<Rightarrow>
             if session_auth_required s srv then ((err_no_auth, False), s, srv)
             else ((errorf (''unknown command '' @ sq @ cmd_name cmd @ sq), False), s, srv)
         | Some spec \<Rightarrow>
             if \<not> accepts spec (int (length (cmd_args cmd))) then
               ((errorf (''wrong number of arguments for '' @ sq @ to_lower (unicode_lower P) (cmd_name cmd)
                   @ sq @ '' command''), False), s, srv)
             else if session_auth_required s srv \<and> cmd_name cmd \<notin> set noAuthCommands
               then ((err_no_auth, False), s, srv)
             else case handler spec P t cmd s srv of
                    (r, s', srv') \<Rightarrow> ((r, closes spec), s', srv'))"

end
