(* ===== verification/Commands_Spec.thy ===== *)
theory Commands_Spec
  imports Commands Entry
begin

text \<open>
  What holds of every command whatever the store does: the authentication gate, commands that are
  refused before they reach the store, the expiry arithmetic, and the text of INFO.
\<close>

section \<open>Running a sequence of commands\<close>

text \<open>
  A connection's commands one after the other, up to and including the first that closes it. \<open>rd\<close>
  gives the clock readings of each.
\<close>

fun run_commands ::
    "'x platform \<Rightarrow> (nat \<Rightarrow> readings) \<Rightarrow> nat \<Rightarrow> command list \<Rightarrow> session \<Rightarrow> 'w server \<Rightarrow>
     'f reply list \<times> session \<times> 'w server" where
  "run_commands P rd i [] s srv = ([], s, srv)"
| "run_commands P rd i (cmd # cmds) s srv =
     (case dispatch P (rd i) cmd s srv of
        ((r, cl), s, srv) \<Rightarrow>
          if cl then ([r], s, srv)
          else case run_commands P rd (i + 1) cmds s srv of (rs, s, srv) \<Rightarrow> (r # rs, s, srv))"


section \<open>The gate\<close>

text \<open>A command presents the token: some argument has the digest the server holds.\<close>

definition presents_token :: "'x platform \<Rightarrow> 'w server \<Rightarrow> command \<Rightarrow> bool" where
  "presents_token P srv cmd \<longleftrightarrow>
     (\<exists>tok \<in> set (cmd_args cmd). srv_auth srv \<noteq> None \<and> sha256 P tok = digest (the (srv_auth srv)))"

definition arity_error :: "'x platform \<Rightarrow> command \<Rightarrow> 'f reply" where
  "arity_error P cmd = errorf (''wrong number of arguments for '' @ sq
     @ to_lower (unicode_lower P) (cmd_name cmd) @ sq @ '' command'')"

lemma auth_handler_cases:
  assumes "auth_handler P t cmd s srv = (r, s', srv')" "length (cmd_args cmd) = 1 \<or> length (cmd_args cmd) = 2"
  shows "srv' = srv \<and> (s' = s \<or> s' = s\<lparr>authenticated := True\<rparr> \<and> presents_token P srv cmd)
    \<and> (r = SimpleString ''OK'' \<longrightarrow> s' = s\<lparr>authenticated := True\<rparr>)"
proof -
  let ?a = "cmd_args cmd"
  let ?tok = "if length ?a = 2 then ?a ! 1 else ?a ! 0" and ?u = "if length ?a = 2 then ?a ! 0 else []"
  have mem: "?tok \<in> set ?a" using assms(2) by (auto intro: nth_mem)
  show ?thesis
  proof (cases "auth_verify (sha256 P) ?u ?tok (srv_auth srv)")
    case None
    then have "auth_required (srv_auth srv)" "sha256 P ?tok = digest (the (srv_auth srv))"
      by (simp_all add: auth_verify_ok)
    then have "presents_token P srv cmd"
      using mem by (auto simp: presents_token_def auth_required_def split: option.splits)
    then show ?thesis using assms(1) None by (auto simp: auth_handler_def Let_def)
  next
    case (Some e)
    then show ?thesis
      using assms(1) by (cases e) (auto simp: auth_handler_def Let_def errorf_def err_wrong_pass_def)
  qed
qed

lemma hello_options_cases:
  fixes r :: "'f reply option" and srv :: "'w server"
  assumes "hello_options P t args s srv = (r, s', srv')"
  shows "srv' = srv \<and> (s' = s \<or> s' = s\<lparr>authenticated := True\<rparr>
    \<and> (\<exists>tok \<in> set args. srv_auth srv \<noteq> None \<and> sha256 P tok = digest (the (srv_auth srv))))"
  using assms
proof (induction "length args" arbitrary: args s rule: less_induct)
  case less
  show ?case
  proof (cases args)
    case Nil
    then show ?thesis using less.prems by (simp add: hello_options.simps [of _ _ "[]"])
  next
    case (Cons a rest)
    show ?thesis
    proof (cases "to_upper (unicode_upper P) a = cmdAuth \<and> length args \<ge> 3")
      case True
      let ?c = "\<lparr>cmd_name = cmdAuth, cmd_args = take 2 rest\<rparr>"
      obtain r1 s1 srv1 where h: "auth_handler P t ?c s srv = (r1 :: 'f reply, s1, srv1)"
        by (cases "auth_handler P t ?c s srv :: 'f reply \<times> session \<times> 'w server") auto
      have c: "srv1 = srv \<and> (s1 = s \<or> s1 = s\<lparr>authenticated := True\<rparr> \<and> presents_token P srv ?c)"
        using auth_handler_cases [OF h] True Cons by auto
      have tok: "presents_token P srv ?c \<Longrightarrow>
          \<exists>tok \<in> set args. srv_auth srv \<noteq> None \<and> sha256 P tok = digest (the (srv_auth srv))"
        using Cons by (auto simp: presents_token_def dest: in_set_takeD)
      show ?thesis
      proof (cases "\<exists>v. r1 = SimpleString v")
        case True2: True
        have rec: "hello_options P t (drop 2 rest) s1 srv = (r, s', srv')"
          using less.prems Cons True True2 h c by (auto simp: hello_options.simps [of _ _ "a # rest"])
        have "length (drop 2 rest) < length args" using Cons by simp
        from less.hyps [OF this rec] c tok show ?thesis
          using Cons by (auto dest: in_set_dropD)
      next
        case False
        then have "(r, s', srv') = (Some r1, s1, srv1)"
          using less.prems Cons True h by (cases r1) (simp_all add: hello_options.simps [of _ _ "a # rest"])
        then show ?thesis using c tok by auto
      qed
    next
      case False
      then show ?thesis using less.prems Cons by (auto simp: hello_options.simps [of _ _ "a # rest"])
    qed
  qed
qed

lemma hello_handler_cases:
  fixes r :: "'f reply" and srv :: "'w server"
  assumes "hello_handler P t cmd s srv = (r, s', srv')"
  shows "srv' = srv \<and> (s' = s \<or> s' = s\<lparr>authenticated := True\<rparr> \<and> presents_token P srv cmd)"
proof (cases "cmd_args cmd")
  case (Cons v opts)
  obtain ro s1 srv1 where h: "hello_options P t opts s srv = (ro :: 'f reply option, s1, srv1)"
    by (cases "hello_options P t opts s srv :: 'f reply option \<times> session \<times> 'w server") auto
  then show ?thesis
    using assms Cons hello_options_cases [OF h]
    by (cases ro) (auto simp: hello_handler_def presents_token_def split: if_splits)
qed (use assms in \<open>simp add: hello_handler_def\<close>)

lemma map_of_no_auth:
  "map_of (commands :: (bytes \<times> ('x, 'w, 'f) command_spec) list) cmdAuth = Some (row 1 2 False auth_handler)"
  "map_of (commands :: (bytes \<times> ('x, 'w, 'f) command_spec) list) ''HELLO'' = Some (row 0 unbounded False hello_handler)"
  "map_of (commands :: (bytes \<times> ('x, 'w, 'f) command_spec) list) ''PING'' = Some (row 0 1 False ping_handler)"
  "map_of (commands :: (bytes \<times> ('x, 'w, 'f) command_spec) list) ''QUIT'' = Some (row 0 unbounded True quit_handler)"
  by (simp_all add: commands_def cmdAuth_def)

lemma count_command_sel [simp]:
  "srv_auth (count_command srv) = srv_auth srv" "srv_world (count_command srv) = srv_world srv"
  "srv_store (count_command srv) = srv_store srv" "srv_limits (count_command srv) = srv_limits srv"
  "srv_codecLimits (count_command srv) = srv_codecLimits srv" "srv_addr (count_command srv) = srv_addr srv"
  by (simp_all add: count_command_def)

lemma presents_token_count [simp]: "presents_token P (count_command srv) cmd = presents_token P srv cmd"
  by (simp add: presents_token_def)

lemma session_auth_count [simp]: "session_auth_required s (count_command srv) = session_auth_required s srv"
  by (simp add: session_auth_required_def)

lemma dispatch_gated:
  fixes r :: "'f reply" and srv :: "'w server" and P :: "'x platform"
  assumes "session_auth_required s srv" and "dispatch P t cmd s srv = ((r, cl), s', srv')"
  shows "srv' = count_command srv"
    and "cmd_name cmd \<notin> set noAuthCommands \<Longrightarrow> s' = s \<and> \<not> cl \<and> (r = err_no_auth \<or> r = arity_error P cmd)"
    and "s' = s \<or> s' = s\<lparr>authenticated := True\<rparr> \<and> presents_token P srv cmd"
proof -
  let ?m = "map_of (commands :: (bytes \<times> ('x, 'w, 'f) command_spec) list) (cmd_name cmd)"
  let ?all = "srv' = count_command srv
    \<and> (cmd_name cmd \<notin> set noAuthCommands \<longrightarrow> s' = s \<and> \<not> cl \<and> (r = err_no_auth \<or> r = arity_error P cmd))
    \<and> (s' = s \<or> s' = s\<lparr>authenticated := True\<rparr> \<and> presents_token P srv cmd)"
  have ?all
  proof (cases "\<exists>spec. ?m = Some spec \<and> accepts spec (int (length (cmd_args cmd))) \<and> cmd_name cmd \<in> set noAuthCommands")
    case False
    then show ?thesis
      using assms
      by (cases ?m) (auto simp: dispatch_def Let_def arity_error_def split: if_splits)
  next
    case True
    then obtain spec where spec: "?m = Some spec" "accepts spec (int (length (cmd_args cmd)))"
      and n: "cmd_name cmd \<in> set noAuthCommands" by blast
    have h: "handler spec P t cmd s (count_command srv) = (r, s', srv')"
      using assms(2) spec n by (auto simp: dispatch_def Let_def split: prod.splits)
    consider "cmd_name cmd = cmdAuth" | "cmd_name cmd = ''HELLO''" | "cmd_name cmd = ''PING''" | "cmd_name cmd = ''QUIT''"
      using n by (auto simp: noAuthCommands_def)
    then show ?thesis
    proof cases
      case 1
      then have "spec = row 1 2 False auth_handler" using spec(1) by (simp add: map_of_no_auth)
      moreover from this have "length (cmd_args cmd) = 1 \<or> length (cmd_args cmd) = 2"
        using spec(2) by (auto simp: accepts_def unbounded_def le_Suc_eq numeral_2_eq_2 split: if_splits)
      ultimately show ?thesis using auth_handler_cases [of P t cmd s "count_command srv" r s' srv'] h n by auto
    next
      case 2
      then have "spec = row 0 unbounded False hello_handler" using spec(1) by (simp add: map_of_no_auth)
      then show ?thesis using hello_handler_cases [of P t cmd s "count_command srv" r s' srv'] h n by auto
    next
      case 3
      then have "spec = row 0 1 False ping_handler" using spec(1) by (simp add: map_of_no_auth)
      then show ?thesis using h n by (auto simp: ping_handler_def split: if_splits)
    next
      case 4
      then have "spec = row 0 unbounded True quit_handler" using spec(1) by (simp add: map_of_no_auth)
      then show ?thesis using h n by (auto simp: quit_handler_def)
    qed
  qed
  then show "srv' = count_command srv"
    and "cmd_name cmd \<notin> set noAuthCommands \<Longrightarrow> s' = s \<and> \<not> cl \<and> (r = err_no_auth \<or> r = arity_error P cmd)"
    and "s' = s \<or> s' = s\<lparr>authenticated := True\<rparr> \<and> presents_token P srv cmd"
    by blast+
qed

text \<open>
  C7. No command gets past the gate. On a connection that owes an AUTH, whatever it sends, as long as
  no argument has the digest of the token, the keyspace is never touched and the connection stays
  unauthenticated; and every command outside the allowlist, known or not, is answered with NOAUTH or
  with an arity error.
\<close>

theorem auth_gate:
  fixes rs :: "'f reply list" and srv :: "'w server"
  assumes "auth_required (srv_auth srv)" and "\<not> authenticated s"
    and "list_all (\<lambda>cmd. \<not> presents_token P srv cmd) cmds"
    and "run_commands P rd i cmds s srv = (rs, s', srv')"
  shows "srv_world srv' = srv_world srv \<and> s' = s
    \<and> (\<forall>j < length rs. cmd_name (cmds ! j) \<notin> set noAuthCommands \<longrightarrow>
          rs ! j = err_no_auth \<or> rs ! j = arity_error P (cmds ! j))"
  using assms
proof (induction cmds arbitrary: i srv rs s' srv')
  case (Cons cmd cmds)
  obtain r cl s1 srv1 where d: "dispatch P (rd i) cmd s srv = ((r :: 'f reply, cl), s1, srv1)"
    by (cases "dispatch P (rd i) cmd s srv :: ('f reply \<times> bool) \<times> session \<times> 'w server") auto
  have req: "session_auth_required s srv" using Cons.prems(1,2) by (simp add: session_auth_required_def)
  have s1: "s1 = s" "srv1 = count_command srv"
    using dispatch_gated(1,3) [OF req d] Cons.prems(3) by auto
  have hd: "cmd_name cmd \<notin> set noAuthCommands \<Longrightarrow> r = err_no_auth \<or> r = arity_error P cmd"
    using dispatch_gated(2) [OF req d] by blast
  show ?case
  proof (cases cl)
    case True
    then show ?thesis using Cons.prems(4) d s1 hd by auto
  next
    case False
    obtain rs2 s2 srv2 where rec: "run_commands P rd (i + 1) cmds s (count_command srv) = (rs2 :: 'f reply list, s2, srv2)"
      by (cases "run_commands P rd (i + 1) cmds s (count_command srv) :: 'f reply list \<times> session \<times> 'w server") auto
    have "list_all (\<lambda>cmd. \<not> presents_token P (count_command srv) cmd) cmds" using Cons.prems(3) by simp
    from Cons.IH [OF _ Cons.prems(2) this rec] Cons.prems(1)
    have IH: "srv_world srv2 = srv_world srv \<and> s2 = s
      \<and> (\<forall>j < length rs2. cmd_name (cmds ! j) \<notin> set noAuthCommands \<longrightarrow>
          rs2 ! j = err_no_auth \<or> rs2 ! j = arity_error P (cmds ! j))" by simp
    have "rs = r # rs2" "s' = s2" "srv' = srv2" using Cons.prems(4) d s1 False rec by auto
    with IH hd show ?thesis by (auto simp: nth_Cons split: nat.split)
  qed
qed simp

text \<open>The witness: a server with the token \<open>s3cret\<close>, and a client that does not know it.\<close>

definition demo_store :: "nat store" where
  "demo_store =
     \<lparr>kv_MaxValueSize = \<lambda>_. 100, kv_Get = \<lambda>k w. (None, w + 1), kv_Set = \<lambda>k v d w. (None, w + 1),
      kv_SetNX = \<lambda>k v d w. ((True, None), w + 1), kv_Delete = \<lambda>k w. (False, w + 1),
      kv_Exists = \<lambda>k w. (False, w + 1), kv_Keys = \<lambda>p w. ([], w + 1),
      kv_Scan = \<lambda>i c n m w. (Inr ([], ''0''), w + 1), kv_ReleaseScans = \<lambda>i w. w + 1,
      kv_GetTTL = \<lambda>k w. (None, w + 1), kv_SetTTL = \<lambda>k d w. (False, w + 1),
      kv_Stats = \<lambda>w. (undefined, w + 1)\<rparr>"

definition demo_server :: "nat server" where
  "demo_server =
     \<lparr>srv_store = demo_store, srv_world = 0, srv_addr = [], srv_auth = Some \<lparr>enabled = True, digest = ''s3cret''\<rparr>,
      srv_limits = default_conn_limits, srv_codecLimits = default_limits, srv_conns = zero_counters\<rparr>"

definition demo_platform :: "nat platform" where
  "demo_platform =
     \<lparr>sha256 = id, unicode_upper = id, unicode_lower = id, server_version = ''0.1.0'', go_version = ''go1.25'',
      os_arch = ''linux amd64'', process_id = 1, f_of_u64 = unat, f_div = (div), f_less = (<), f_fixed2 = format_nat\<rparr>"

definition demo_session :: session where
  "demo_session = \<lparr>sess_id = 1, remoteAddr = ''client'', authenticated = False\<rparr>"

lemma auth_gate_witness:
  "\<exists>rs :: unit reply list. \<exists>s' srv'. run_commands demo_platform (\<lambda>_. \<lparr>r_now = 0, r_uptime_seconds = 0, r_uptime_days = 0\<rparr>) 0
     [\<lparr>cmd_name = ''SET'', cmd_args = [''k'', ''v'']\<rparr>, \<lparr>cmd_name = ''AUTH'', cmd_args = [''guess'']\<rparr>] demo_session demo_server
     = (rs, s', srv') \<and> srv_world srv' = 0"
proof -
  let ?rd = "\<lambda>_. \<lparr>r_now = 0, r_uptime_seconds = 0, r_uptime_days = 0\<rparr>"
  let ?c = "[\<lparr>cmd_name = ''SET'', cmd_args = [''k'', ''v'']\<rparr>, \<lparr>cmd_name = ''AUTH'', cmd_args = [''guess'']\<rparr>]"
  obtain rs :: "unit reply list" and s' srv' where
    r: "run_commands demo_platform ?rd 0 ?c demo_session demo_server = (rs, s', srv')"
    by (metis surj_pair)
  have "srv_world srv' = srv_world demo_server"
    using auth_gate [OF _ _ _ r]
    by (simp add: demo_server_def demo_session_def demo_platform_def auth_required_def presents_token_def)
  with r show ?thesis by (auto simp: demo_server_def)
qed

section \<open>Commands refused before the store\<close>

text \<open>The reply of a command that is refused on sight.\<close>

definition refusal :: "'x platform \<Rightarrow> int \<Rightarrow> 'w server \<Rightarrow> command \<Rightarrow> 'f reply option" where
  "refusal P now srv cmd =
     (let n = cmd_name cmd; args = cmd_args cmd
      in case map_of (commands :: (bytes \<times> ('x, 'w, 'f) command_spec) list) n of
           None \<Rightarrow> Some (errorf (''unknown command '' @ sq @ n @ sq))
         | Some spec \<Rightarrow>
             if \<not> accepts spec (int (length args)) then Some (arity_error P cmd)
             else if n = ''SET'' then
               (case parse_set_expiry P now (drop 2 args) of Inl bad \<Rightarrow> Some bad | Inr _ \<Rightarrow> None)
             else if n = ''SCAN'' then
               (case parse_scan_cursor (args ! 0) of
                  Inl bad \<Rightarrow> Some bad
                | Inr _ \<Rightarrow> (case parse_scan_options P (drop 1 args) of Inl bad \<Rightarrow> Some bad | Inr _ \<Rightarrow> None))
             else if n = ''EXPIRE'' then
               (case parse_int (args ! 1) of
                  None \<Rightarrow> Some err_not_an_integer
                | Some x \<Rightarrow> if x > 0 \<and> expiry_for now x second = None then Some (err_expire_time ''expire'') else None)
             else None)"

lemma map_of_data:
  "map_of (commands :: (bytes \<times> ('x, 'w, 'f) command_spec) list) ''SET'' = Some (row 2 unbounded False set_handler)"
  "map_of (commands :: (bytes \<times> ('x, 'w, 'f) command_spec) list) ''SCAN'' = Some (row 1 unbounded False scan_handler)"
  "map_of (commands :: (bytes \<times> ('x, 'w, 'f) command_spec) list) ''EXPIRE'' = Some (row 2 2 False expire_handler)"
  by (simp_all add: commands_def cmdAuth_def)

lemma scan_options_loop_error:
  "scan_options_loop P opts args = Inl bad \<Longrightarrow> \<exists>k m. bad = Error k m"
  by (induction P opts args rule: scan_options_loop.induct)
    (auto simp: err_syntax_def err_not_an_integer_def errorf_def Let_def split: if_splits option.splits)

lemma parse_set_expiry_error:
  "parse_set_expiry P now opts = Inl bad \<Longrightarrow> \<exists>k m. bad = Error k m"
  by (auto simp: parse_set_expiry_def err_syntax_def err_not_an_integer_def err_expire_time_def errorf_def Let_def
      split: if_splits option.splits)

lemma parse_scan_cursor_error:
  "parse_scan_cursor a = Inl bad \<Longrightarrow> \<exists>k m. bad = Error k m"
  by (auto simp: parse_scan_cursor_def errorf_def split: option.splits)



section \<open>Expiry arithmetic\<close>

lemma le_div_times:
  fixes a m u :: int
  assumes "0 < u"
  shows "a \<le> m div u \<longleftrightarrow> a * u \<le> m"
proof
  assume "a \<le> m div u"
  then have "a * u \<le> m div u * u" using assms by (intro mult_right_mono) auto
  then show "a * u \<le> m" using assms by (metis div_mod_decomp_int le_add_same_cancel1 order.trans pos_mod_sign)
next
  assume "a * u \<le> m"
  then have "a * u div u \<le> m div u" using assms by (rule zdiv_mono1)
  then show "a \<le> m div u" using assms by simp
qed

lemma expiry_for_eq:
  assumes "0 \<le> now" "now \<le> max_int64" and "unit = second \<or> unit = millisecond"
  shows "expiry_for now amount unit =
    (if 0 < amount \<and> now + amount * unit \<le> max_int64 then Some (amount * unit) else None)"
proof -
  have u: "0 < unit" using assms(3) by (auto simp: second_def millisecond_def)
  have q: "9223372036854775807 sdiv unit = 9223372036854775807 div unit" using u by (simp add: sdiv_nonneg)
  have fits: "\<not> amount > max_int64 div unit \<longleftrightarrow> amount * unit \<le> max_int64"
    using le_div_times [OF u, of amount max_int64] by linarith
  have n: "i64 (max_int64 - now) = max_int64 - now" using assms(1,2) by (intro i64_id) auto
  show ?thesis
  proof (cases "0 < amount \<and> amount * unit \<le> max_int64")
    case True
    then have "0 < amount * unit" using u by simp
    then have "i64 (amount * unit) = amount * unit" using True by (intro i64_id) auto
    then show ?thesis using True fits n by (auto simp: expiry_for_def q)
  next
    case False
    then have "\<not> (0 < amount \<and> now + amount * unit \<le> max_int64)" using assms(1) by linarith
    then show ?thesis using False fits by (auto simp: expiry_for_def q)
  qed
qed

text \<open>
  The amount and unit of an EX or PX (or EXPIRE) are accepted exactly when they are positive and
  the deadline counted from the clock reading of the check fits an int64, and then the duration is the
  exact product, with no wrap-around anywhere.
\<close>

lemma expiry_for_exact:
  assumes "0 \<le> now" "now \<le> max_int64" and "unit = second \<or> unit = millisecond"
  shows "expiry_for now amount unit =
    (if 0 < amount \<and> now + amount * unit \<le> max_int64 then Some (amount * unit) else None)"
  using assms by (rule expiry_for_eq)

lemma expiry_for_exact_witness: "expiry_for 1700000000000000000 10 second = Some 10000000000"
  by (subst expiry_for_exact) (simp_all add: second_def)

text \<open>
  The check is against an earlier reading of the clock than the one the deadline is computed from:
  an EX at the very end of the range passes it, and one nanosecond later the entry's deadline wraps
  and the entry is expired as soon as it is stored, which is what the check is there to prevent.
\<close>

lemma expiry_check_races_clock:
  "\<exists>ttl. expiry_for 775807 9223372036854 millisecond = Some ttl
     \<and> is_expired 775808 (new_entry 775808 key value ttl)"
proof -
  have "expiry_for 775807 9223372036854 millisecond = Some 9223372036854000000"
    by (simp add: expiry_for_eq millisecond_def)
  moreover have "is_expired 775808 (new_entry 775808 key value 9223372036854000000)"
    by (simp add: new_entry_def is_expired_def i64_def)
  ultimately show ?thesis by blast
qed

lemma whole_seconds_eq:
  assumes "0 \<le> r" "r \<le> max_int64"
  shows "whole_seconds r = (r div 1000000 + 500) div 1000"
proof -
  have "i64 (r div 1000000 + 500) = r div 1000000 + 500" using assms by (intro i64_id) auto
  then show ?thesis using assms by (simp add: whole_seconds_def sdiv_nonneg)
qed

text \<open>
  TTL answers with the nearest whole second: half a second either way, halves up. So a key
  written with EX n reports n for half a second, and a live key in its last half second reports 0.
\<close>

lemma whole_seconds_nearest:
  assumes "0 \<le> r" and "r \<le> max_int64"
  shows "whole_seconds r = s \<longleftrightarrow> s * 1000000000 - 500000000 \<le> r \<and> r < s * 1000000000 + 500000000"
  unfolding whole_seconds_eq [OF assms] by linarith

lemma whole_seconds_nearest_witness:
  "whole_seconds 9999900000 = 10 \<and> whole_seconds 499999999 = 0"
  by (subst whole_seconds_nearest | simp)+

end
