(* ===== verification/Info_Spec.thy ===== *)
theory Info_Spec
  imports Commands_Spec
begin

text \<open>
  INFO can be read by a parser of Redis's format: \<open>parse_info\<close> of the reply gives every field of the
  sections asked for its value, and nothing else.
\<close>

definition clean :: "bytes \<Rightarrow> bool" where
  "clean s \<longleftrightarrow> LF \<notin> set s \<and> CR \<notin> set s"

lemma clean_simps [simp]:
  "clean []" "clean (c # s) \<longleftrightarrow> c \<noteq> LF \<and> c \<noteq> CR \<and> clean s" "clean (s @ t) \<longleftrightarrow> clean s \<and> clean t"
  by (auto simp: clean_def)

lemma is_digit_clean: "list_all is_digit s \<Longrightarrow> clean s"
  by (auto simp: clean_def list_all_iff is_digit_def)

section \<open>Splitting into lines\<close>

lemma split_lines_line: "LF \<notin> set l \<Longrightarrow> split_lines cur (l @ LF # rest) = (rev cur @ l) # split_lines [] rest"
  by (induction l arbitrary: cur) auto

lemma split_lines_concat:
  "list_all clean ls \<Longrightarrow>
     split_lines [] (concat (map (\<lambda>l. l @ CRLF) ls)) = map (\<lambda>l. l @ [CR]) ls @ [[]]"
proof (induction ls)
  case (Cons l ls)
  then have "LF \<notin> set (l @ [CR])" by (simp add: clean_def)
  from split_lines_line [OF this, of "[]" "concat (map (\<lambda>l. l @ CRLF) ls)"] Cons show ?case by simp
qed simp

lemma trim_right_cr_clean: "clean l \<Longrightarrow> trim_right_cr (l @ [CR]) = l"
proof -
  assume "clean l"
  then have "dropWhile (\<lambda>c. c = CR) (rev l) = rev l"
    by (cases "rev l") (auto simp: clean_def dest: arg_cong [of _ _ set])
  then show ?thesis by (simp add: trim_right_cr_def)
qed

definition parse_plain :: "bytes \<Rightarrow> (bytes \<rightharpoonup> bytes) \<Rightarrow> bytes \<rightharpoonup> bytes" where
  "parse_plain line m =
     (if line = [] \<or> hd line = CHR ''#'' then m
      else case cut_colon line of None \<Rightarrow> m | Some (n, v) \<Rightarrow> m(n \<mapsto> v))"

lemma parse_line_crlf: "clean l \<Longrightarrow> parse_line (l @ [CR]) m = parse_plain l m"
  by (simp add: parse_line_def parse_plain_def trim_right_cr_clean Let_def)

lemma parse_info_lines:
  "list_all clean ls \<Longrightarrow> parse_info (concat (map (\<lambda>l. l @ CRLF) ls)) = fold parse_plain ls Map.empty"
proof -
  assume c: "list_all clean ls"
  have "fold parse_line (map (\<lambda>l. l @ [CR]) ls @ [[]]) m = fold parse_plain ls m" for m
    using c by (induction ls arbitrary: m) (auto simp: parse_line_crlf, simp add: parse_line_def trim_right_cr_def)
  then show ?thesis by (simp add: parse_info_def split_lines_concat [OF c])
qed

section \<open>Fields\<close>

lemma cut_colon_field: "CHR '':'' \<notin> set n \<Longrightarrow> cut_colon (field n v) = Some (n, v)"
proof -
  assume "CHR '':'' \<notin> set n"
  then have "takeWhile (\<lambda>c. c \<noteq> CHR '':'') (n @ CHR '':'' # v) = n" by (induction n) auto
  then show ?thesis by (simp add: cut_colon_def field_def)
qed

text \<open>The names and values behind the lines of a section.\<close>

definition field_list :: "(bytes \<times> bytes) list \<Rightarrow> bytes list \<Rightarrow> bool" where
  "field_list ps ls \<longleftrightarrow> ls = map (\<lambda>(n, v). field n v) ps
     \<and> list_all (\<lambda>(n, v). n \<noteq> [] \<and> hd n \<noteq> CHR ''#'' \<and> CHR '':'' \<notin> set n) ps"

lemma field_list_simps [simp]:
  "field_list [] []" "field_list ps ls \<Longrightarrow> n \<noteq> [] \<Longrightarrow> hd n \<noteq> CHR ''#'' \<Longrightarrow> CHR '':'' \<notin> set n \<Longrightarrow>
     field_list ((n, v) # ps) (field n v # ls)"
  by (auto simp: field_list_def)

lemma parse_plain_fields:
  "field_list ps ls \<Longrightarrow> fold parse_plain ls m = fold (\<lambda>(n, v) m. m(n \<mapsto> v)) ps m"
proof (induction ps arbitrary: ls m)
  case (Cons p ps)
  then obtain n v where p: "p = (n, v)" "n \<noteq> []" "hd n \<noteq> CHR ''#''" "CHR '':'' \<notin> set n"
    "ls = field n v # map (\<lambda>(n, v). field n v) ps" "field_list ps (map (\<lambda>(n, v). field n v) ps)"
    by (cases p) (auto simp: field_list_def)
  have "parse_plain (field n v) m = m(n \<mapsto> v)"
    using p(2-4) by (cases n) (simp_all add: parse_plain_def cut_colon_field, simp add: field_def)
  then show ?case using Cons.IH [OF p(6)] p by simp
qed (simp add: field_list_def)

lemma fold_updates_map_of:
  "distinct (map fst ps) \<Longrightarrow> fold (\<lambda>(n, v) m. m(n \<mapsto> v)) ps m = m ++ map_of ps"
proof (induction ps arbitrary: m)
  case (Cons p ps)
  obtain n v where p: "p = (n, v)" by (cases p)
  then have "n \<notin> dom (map_of ps)" using Cons.prems by (simp add: dom_map_of_conv_image_fst)
  then have "m(n \<mapsto> v) ++ map_of ps = m ++ map_of (p # ps)"
    unfolding p by (auto simp: fun_eq_iff map_add_def split: option.split)
  moreover have "fold (\<lambda>(n, v) m. m(n \<mapsto> v)) ps (m(n \<mapsto> v)) = m(n \<mapsto> v) ++ map_of ps"
    by (rule Cons.IH) (use Cons.prems in simp)
  moreover have "fold (\<lambda>(n, v) m. m(n \<mapsto> v)) (p # ps) m = fold (\<lambda>(n, v) m. m(n \<mapsto> v)) ps (m(n \<mapsto> v))"
    unfolding p by simp
  ultimately show ?case by metis
qed simp

definition is_field :: "bytes \<Rightarrow> bool" where
  "is_field l \<longleftrightarrow> (\<exists>n v. l = field n v \<and> n \<noteq> [] \<and> hd n \<noteq> CHR ''#'' \<and> CHR '':'' \<notin> set n)"

lemma is_field_field [simp]: "n \<noteq> [] \<Longrightarrow> hd n \<noteq> CHR ''#'' \<Longrightarrow> CHR '':'' \<notin> set n \<Longrightarrow> is_field (field n v)"
  by (auto simp: is_field_def)

definition pairs_of :: "bytes list \<Rightarrow> (bytes \<times> bytes) list" where
  "pairs_of ls = map (\<lambda>l. the (cut_colon l)) ls"

lemma field_list_pairs: "list_all is_field ls \<Longrightarrow> field_list (pairs_of ls) ls"
  by (induction ls) (auto simp: pairs_of_def is_field_def cut_colon_field)

section \<open>Sections\<close>

lemma clean_format_nat [simp]: "clean (format_nat n)"
  by (intro is_digit_clean) (simp add: format_nat_digits)

lemma clean_format_int [simp]: "clean (format_int i)"
  by (simp add: format_int_def)

lemma clean_field [simp]: "clean (field n v) \<longleftrightarrow> clean n \<and> clean v"
  by (simp add: field_def)

definition clean_platform :: "'x platform \<Rightarrow> bytes \<Rightarrow> bool" where
  "clean_platform P addr \<longleftrightarrow> clean (server_version P) \<and> clean (go_version P) \<and> clean (os_arch P)
     \<and> clean (listen_port addr) \<and> (\<forall>x. clean (f_fixed2 P x))"

lemma clean_human: "\<forall>x. clean (f_fixed2 P x) \<Longrightarrow> clean (human_bytes P n)"
proof -
  assume f: "\<forall>x. clean (f_fixed2 P x)"
  then have "list_all clean ss \<Longrightarrow> clean (human_loop P u ss v)" for ss u v
    by (induction ss arbitrary: v) (auto simp: Let_def)
  then show ?thesis by (simp add: human_bytes_def del: human_loop.simps)
qed

lemmas info_defs = info_server_def info_clients_def info_memory_def info_stats_def info_keyspace_def

lemma db0_field:
  "''db0:keys='' @ a = field ''db0'' (''keys='' @ a)"
  by (simp add: field_def)

lemma info_fields_clean:
  "clean_platform P (srv_addr srv) \<Longrightarrow> list_all clean (info_fields P t srv name st)"
  by (simp add: info_fields_def info_defs clean_platform_def clean_human serverMode_def serverRole_def Let_def
      split: option.split)

lemma info_fields_fields: "list_all is_field (info_fields P t srv name st)"
  unfolding info_fields_def info_defs db0_field
  by (simp add: Let_def split: option.split)

text \<open>Within all the sections together no field occurs twice.\<close>

lemma info_names:
  "map fst (pairs_of (info_server P t srv)) = [''atlascache_version'', ''atlascache_mode'', ''atlascache_role'',
     ''go_version'', ''os'', ''arch_bits'', ''process_id'', ''tcp_port'', ''uptime_in_seconds'', ''uptime_in_days'']"
  "map fst (pairs_of (info_clients srv)) = [''connected_clients'', ''blocked_clients'', ''maxclients'',
     ''atlascache_client_idle_timeout_ms'', ''atlascache_max_request_size'', ''atlascache_max_request_elements'',
     ''atlascache_max_pipeline_commands'', ''atlascache_max_output_buffer'']"
  "map fst (pairs_of (info_memory P st)) =
     [''used_memory'', ''used_memory_human'', ''maxmemory'', ''maxmemory_human'', ''atlascache_scan_cursors'',
      ''atlascache_scan_snapshot_bytes''] @ (if SampledAt (sv_Process st) = None then [] else
     [''atlascache_heap_alloc'', ''atlascache_heap_sys'', ''atlascache_heap_inuse'', ''atlascache_heap_objects'',
      ''atlascache_stack_inuse'', ''atlascache_process_memory'', ''atlascache_num_gc'', ''atlascache_goroutines'',
      ''atlascache_memory_sampled_at''])"
  "map fst (pairs_of (info_stats srv st)) = [''total_connections_received'', ''total_commands_processed'',
     ''rejected_connections'', ''atlascache_idle_closed'', ''atlascache_output_limit_closed'',
     ''atlascache_stalled_closed'', ''atlascache_request_limit_closed'', ''atlascache_handler_panics'',
     ''keyspace_hits'', ''keyspace_misses'', ''expired_keys'', ''evicted_keys'', ''atlascache_gets'',
     ''atlascache_sets'', ''atlascache_deletes'', ''atlascache_oom_rejected'']"
  "map fst (pairs_of (info_keyspace st)) = (if sv_Keys st = 0 then [] else [''db0''])"
  unfolding info_defs db0_field
  by (simp_all add: pairs_of_def cut_colon_field Let_def split: option.split)

definition info_lines :: "'x platform \<Rightarrow> readings \<Rightarrow> 'w server \<Rightarrow> server_stats \<Rightarrow> bytes list \<Rightarrow> bytes list" where
  "info_lines P t srv st wanted = concat (map (\<lambda>name. info_fields P t srv name st) wanted)"

lemma info_names_distinct: "distinct (map fst (pairs_of (info_lines P t srv st infoSections)))"
  by (simp add: info_lines_def infoSections_def info_fields_def section_names pairs_of_def
      info_names [unfolded pairs_of_def] flip: map_map del: map_map)

lemma info_lines_filter:
  "distinct (map fst (pairs_of (info_lines P t srv st xs))) \<Longrightarrow>
     distinct (map fst (pairs_of (info_lines P t srv st (filter Q xs))))
     \<and> set (map fst (pairs_of (info_lines P t srv st (filter Q xs)))) \<subseteq> set (map fst (pairs_of (info_lines P t srv st xs)))"
  by (induction xs) (auto simp: info_lines_def pairs_of_def)

section \<open>The text\<close>

fun with_blanks :: "bytes list list \<Rightarrow> bytes list" where
  "with_blanks [] = []"
| "with_blanks [b] = b"
| "with_blanks (b # c # bs) = b @ [[]] @ with_blanks (c # bs)"

lemma join_lines:
  "join CRLF (map (\<lambda>ls. concat (map (\<lambda>l. l @ CRLF) ls)) bs) = concat (map (\<lambda>l. l @ CRLF) (with_blanks bs))"
  by (induction bs rule: with_blanks.induct) simp_all

lemma with_blanks_clean: "list_all (list_all clean) bs \<Longrightarrow> list_all clean (with_blanks bs)"
  by (induction bs rule: with_blanks.induct) simp_all

lemma parse_with_blanks: "fold parse_plain (with_blanks bs) m = fold parse_plain (concat bs) m"
  by (induction bs arbitrary: m rule: with_blanks.induct) (simp_all add: parse_plain_def [of "[]"])

definition wanted_sections :: "'x platform \<Rightarrow> command \<Rightarrow> bytes list" where
  "wanted_sections P cmd =
     (if length (cmd_args cmd) > 0 then requested_sections P (cmd_args cmd) else infoSections)"

lemma wanted_sections_filter: "\<exists>Q. wanted_sections P cmd = filter Q infoSections"
proof -
  have "\<exists>Q. infoSections = filter Q infoSections" by (rule exI [of _ "\<lambda>_. True"]) simp
  then show ?thesis
    by (auto simp: wanted_sections_def requested_sections_def split: option.split)
qed

lemma section_header:
  assumes "name \<in> set infoSections"
  shows "info_section P t srv name st
    = concat (map (\<lambda>l. l @ CRLF) ((''# '' @ to_upper (unicode_upper P) (take 1 name) @ drop 1 name)
        # info_fields P t srv name st))"
    and "clean (''# '' @ to_upper (unicode_upper P) (take 1 name) @ drop 1 name)"
proof -
  show "info_section P t srv name st
    = concat (map (\<lambda>l. l @ CRLF) ((''# '' @ to_upper (unicode_upper P) (take 1 name) @ drop 1 name)
        # info_fields P t srv name st))"
    by (simp add: info_section_def)
  have "to_upper u ''s'' = ''S''" "to_upper u ''c'' = ''C''" "to_upper u ''m'' = ''M''" "to_upper u ''k'' = ''K''" for u
  proof -
    have "is_ascii ''s''" "is_ascii ''c''" "is_ascii ''m''" "is_ascii ''k''" "map upper_char ''s'' = ''S''"
      "map upper_char ''c'' = ''C''" "map upper_char ''m'' = ''M''" "map upper_char ''k'' = ''K''"
      by code_simp+
    then show "to_upper u ''s'' = ''S''" "to_upper u ''c'' = ''C''" "to_upper u ''m'' = ''M''" "to_upper u ''k'' = ''K''"
      by (simp_all only: to_upper_def if_True)
  qed
  then show "clean (''# '' @ to_upper (unicode_upper P) (take 1 name) @ drop 1 name)"
    using assms by (auto simp: infoSections_def section_names)
qed

lemma parse_info_sections:
  assumes "clean_platform P (srv_addr srv)" and "set wanted \<subseteq> set infoSections"
  shows "parse_info (join CRLF (map (\<lambda>name. info_section P t srv name st) wanted))
    = fold (\<lambda>(n, v) m. m(n \<mapsto> v)) (pairs_of (info_lines P t srv st wanted)) Map.empty"
proof -
  let ?hd = "\<lambda>name. ''# '' @ to_upper (unicode_upper P) (take 1 name) @ drop 1 name"
  let ?bs = "map (\<lambda>name. ?hd name # info_fields P t srv name st) wanted"
  have "map (\<lambda>name. info_section P t srv name st) wanted = map (\<lambda>ls. concat (map (\<lambda>l. l @ CRLF) ls)) ?bs"
    unfolding map_map comp_def using assms(2) section_header(1) [of _ P t srv st] by (intro map_cong) blast+
  then have "join CRLF (map (\<lambda>name. info_section P t srv name st) wanted)
      = concat (map (\<lambda>l. l @ CRLF) (with_blanks ?bs))"
    by (simp only: join_lines)
  moreover have "list_all (list_all clean) ?bs"
    using assms section_header(2) [of _ P] info_fields_clean [OF assms(1)]
    by (auto simp: list_all_iff subset_iff simp del: clean_simps)
  ultimately have "parse_info (join CRLF (map (\<lambda>name. info_section P t srv name st) wanted))
      = fold parse_plain (concat ?bs) Map.empty"
    by (simp add: parse_info_lines with_blanks_clean parse_with_blanks)
  also have "fold parse_plain (concat ?bs) m = fold parse_plain (info_lines P t srv st wanted) m" for m
    by (induction wanted arbitrary: m) (simp_all add: info_lines_def parse_plain_def [of "_ # _"])
  also have "field_list (pairs_of (info_lines P t srv st wanted)) (info_lines P t srv st wanted)"
    by (intro field_list_pairs) (simp add: info_lines_def list_all_iff info_fields_fields [unfolded list_all_iff])
  then have "fold parse_plain (info_lines P t srv st wanted) Map.empty
      = fold (\<lambda>(n, v) m. m(n \<mapsto> v)) (pairs_of (info_lines P t srv st wanted)) Map.empty"
    by (rule parse_plain_fields)
  finally show ?thesis .
qed

text \<open>
  INFO is readable: parsing the reply the way a monitoring client does gives every line of every
  section that was asked for, in any case and any order and however often, its name and value, and
  no name that is not in one of those sections. (The version strings and the address hold no line
  ends, which are the only text of the reply that the server does not render itself.)
\<close>

lemma info_readable:
  assumes "info_handler P t cmd s srv = (Verbatim fm txt, s', srv')"
    and "clean_platform P (srv_addr srv)"
    and "st = fst (kv_Stats (srv_store srv) (srv_world srv))"
  shows "parse_info txt = map_of (map (\<lambda>l. the (cut_colon l))
    (concat (map (\<lambda>name. info_fields P t srv name st) (wanted_sections P cmd))))"
proof -
  obtain Q where w: "wanted_sections P cmd = filter Q infoSections" using wanted_sections_filter by blast
  let ?ls = "info_lines P t srv st (wanted_sections P cmd)"
  have "distinct (map fst (pairs_of ?ls))"
    unfolding w using info_lines_filter [OF info_names_distinct] by blast
  then have d: "fold (\<lambda>(n, v) m. m(n \<mapsto> v)) (pairs_of ?ls) Map.empty = map_of (pairs_of ?ls)"
    by (simp add: fold_updates_map_of)
  have "info_section P t (srv\<lparr>srv_world := x\<rparr>) name y = info_section P t srv name y" for x name y
    by (simp add: info_section_def info_fields_def info_defs)
  then have "txt = join CRLF (map (\<lambda>name. info_section P t srv name st) (wanted_sections P cmd))"
    using assms(1,3)
    by (auto simp: info_handler_def Let_def wanted_sections_def on_store_def split: if_splits prod.splits)
  then have "parse_info txt = map_of (pairs_of ?ls)"
    using parse_info_sections [OF assms(2), of "wanted_sections P cmd" t st] d w by auto
  then show ?thesis by (simp add: pairs_of_def info_lines_def)
qed

lemma info_readable_witness:
  "\<exists>txt s' srv'. info_handler demo_platform \<lparr>r_now = 0, r_uptime_seconds = 0, r_uptime_days = 0\<rparr>
      \<lparr>cmd_name = ''INFO'', cmd_args = [''clients'']\<rparr> demo_session demo_server
      = (Verbatim ''txt'' txt :: unit reply, s', srv') \<and> parse_info txt ''blocked_clients'' = Some ''0''"
proof -
  let ?rd = "\<lparr>r_now = 0, r_uptime_seconds = 0, r_uptime_days = 0\<rparr>"
  let ?c = "\<lparr>cmd_name = ''INFO'', cmd_args = [''clients'']\<rparr>"
  let ?st = "fst (kv_Stats (srv_store demo_server) (srv_world demo_server))"
  have "to_lower id ''clients'' = ''clients''" by code_simp
  then have w: "wanted_sections demo_platform ?c = [sectionClients]"
    by (simp add: wanted_sections_def requested_sections_def demo_platform_def infoSections_def section_names
        infoSectionAliases_def)
  then obtain tx s' srv' where h: "info_handler demo_platform ?rd ?c demo_session demo_server
      = (Verbatim ''txt'' tx :: unit reply, s', srv')"
    by (cases "on_store kv_Stats demo_server") (auto simp: info_handler_def Let_def wanted_sections_def)
  have "clean_platform demo_platform (srv_addr demo_server)"
    by (simp add: clean_platform_def demo_platform_def demo_server_def listen_port_def split_port_def)
  from info_readable [OF h this refl] w
  have "parse_info tx = map_of (map (\<lambda>l. the (cut_colon l))
      (concat (map (\<lambda>name. info_fields demo_platform ?rd demo_server name ?st) [sectionClients])))" by simp
  then have "parse_info tx ''blocked_clients'' = Some ''0''"
    by (simp add: info_fields_def section_names info_clients_def cut_colon_field)
  with h show ?thesis by blast
qed

end
