(* ===== verification/Keyspace.thy ===== *)
theory Keyspace
  imports Engine Session
begin

text \<open>
  \<open>cmd/atlascache/keyspace.go\<close>: the storage engine as the server's \<open>Store\<close>. The engine's operations
  read the clock, range over Go maps and draw random bytes; a \<open>world\<close> is the engine with what each
  of the calls to come will see of these (\<open>op_env\<close>), the first one next.
\<close>

record op_env =
  clock :: "nat \<Rightarrow> int"
  key_clock :: "nat \<Rightarrow> bytes \<Rightarrow> int"
  map_order :: "nat \<Rightarrow> range_ord"
  cursors_order :: cursor_ord
  random_bytes :: "nat \<Rightarrow> bytes option"
  random_error :: bytes
  process_sample :: process_stats

record world =
  w_engine :: engine
  w_env :: "nat \<Rightarrow> op_env"

definition with_env :: "(op_env \<Rightarrow> engine \<Rightarrow> 'a \<times> engine) \<Rightarrow> world \<Rightarrow> 'a \<times> world" where
  "with_env f w =
     (case f (w_env w 0) (w_engine w) of
        (r, e) \<Rightarrow> (r, \<lparr>w_engine = e, w_env = \<lambda>n. w_env w (Suc n)\<rparr>))"

section \<open>Errors\<close>

fun storage_error_text :: "storage_error \<Rightarrow> bytes" where
  "storage_error_text ErrKeyNotFound = ''key not found''"
| "storage_error_text ErrKeyExists = ''key already exists''"
| "storage_error_text ErrValueTooLarge = ''value exceeds maximum size''"
| "storage_error_text ErrOutOfMemory = ''out of memory''"
| "storage_error_text ErrEngineClosed = ''storage engine closed''"
| "storage_error_text ErrInvalidTTL = ''invalid TTL value''"
| "storage_error_text ErrInvalidKey = ''invalid key''"
| "storage_error_text ErrEvictionRequired = ''eviction required but no eviction policy configured''"

fun translate :: "storage_error \<Rightarrow> store_error" where
  "translate ErrValueTooLarge = StoreValueTooLarge"
| "translate ErrOutOfMemory = StoreOutOfMemory"
| "translate ErrInvalidKey = StoreInvalidKey"
| "translate e = StoreOther (storage_error_text e)"

text \<open>The same function on the errors of a scan; \<open>rnd\<close> is the text of a random source's failure.\<close>

fun translate_scan :: "bytes \<Rightarrow> scan_error \<Rightarrow> store_error" where
  "translate_scan rnd ErrScanCursorUnknown = StoreScanCursorUnknown"
| "translate_scan rnd ErrTooManyScanCursors = StoreTooManyScanCursors"
| "translate_scan rnd ErrScanMemoryExhausted = StoreScanMemoryExhausted"
| "translate_scan rnd ErrCursorIDUnavailable = StoreOther ''could not generate an unused scan cursor id''"
| "translate_scan rnd ErrRandom = StoreOther rnd"
| "translate_scan rnd ErrScanEngineClosed = StoreOther (storage_error_text ErrEngineClosed)"

section \<open>The adapter\<close>

definition ks_MaxValueSize :: "world \<Rightarrow> int" where
  "ks_MaxValueSize w =
     (let sz = int (unat (maxValueSize (w_engine w))) in if sz > max_int64 then max_int64 else sz)"

definition ks_Get :: "(bytes \<Rightarrow> u64) \<Rightarrow> bytes \<Rightarrow> world \<Rightarrow> bytes option \<times> world" where
  "ks_Get hash k = with_env (\<lambda>v e.
     case engine_get hash (clock v 0) (clock v 1) (clock v 2) (clock v 3) k e of
       (r, e') \<Rightarrow> (map_option fst r, e'))"

definition ks_Set :: "(bytes \<Rightarrow> u64) \<Rightarrow> bytes \<Rightarrow> bytes \<Rightarrow> int \<Rightarrow> world \<Rightarrow> store_error option \<times> world" where
  "ks_Set hash k x ttl = with_env (\<lambda>v e.
     case engine_set hash (clock v 0) (\<lambda>i. clock v (Suc i)) k x ttl e of
       (err, e') \<Rightarrow> (map_option translate err, e'))"

definition ks_SetNX ::
    "(bytes \<Rightarrow> u64) \<Rightarrow> bytes \<Rightarrow> bytes \<Rightarrow> int \<Rightarrow> world \<Rightarrow> (bool \<times> store_error option) \<times> world" where
  "ks_SetNX hash k x ttl = with_env (\<lambda>v e.
     case engine_setnx hash (clock v 0) (\<lambda>i. clock v (Suc i)) k x ttl e of
       ((stored, err), e') \<Rightarrow> ((stored, map_option translate err), e'))"

definition ks_Delete :: "(bytes \<Rightarrow> u64) \<Rightarrow> bytes \<Rightarrow> world \<Rightarrow> bool \<times> world" where
  "ks_Delete hash k = with_env (\<lambda>v e. engine_delete hash k e)"

definition ks_Exists :: "(bytes \<Rightarrow> u64) \<Rightarrow> bytes \<Rightarrow> world \<Rightarrow> bool \<times> world" where
  "ks_Exists hash k = with_env (\<lambda>v e. (engine_exists hash (clock v 0) k e, e))"

definition ks_Keys :: "bytes \<Rightarrow> world \<Rightarrow> bytes list \<times> world" where
  "ks_Keys pat = with_env (\<lambda>v e. (engine_keys (map_order v) (key_clock v 0) pat e, e))"

definition ks_Scan ::
    "u64 \<Rightarrow> bytes \<Rightarrow> int \<Rightarrow> bytes \<Rightarrow> world \<Rightarrow> (store_error + bytes list \<times> bytes) \<times> world" where
  "ks_Scan owner cursor cnt pat = with_env (\<lambda>v e.
     case engine_scan (random_bytes v) (map_order v) (clock v 0) (clock v 1) (key_clock v 0) (key_clock v 1)
            owner cursor cnt pat e of
       (Inl err, e') \<Rightarrow> (Inl (translate_scan (random_error v) err), e')
     | (Inr r, e') \<Rightarrow> (Inr r, e'))"

definition ks_ReleaseScans :: "u64 \<Rightarrow> world \<Rightarrow> world" where
  "ks_ReleaseScans owner w =
     snd (with_env (\<lambda>v e. ((), engine_release_scans (cursors_order v) owner e)) w)"

definition ks_GetTTL :: "(bytes \<Rightarrow> u64) \<Rightarrow> bytes \<Rightarrow> world \<Rightarrow> int option \<times> world" where
  "ks_GetTTL hash k = with_env (\<lambda>v e. (engine_get_ttl hash (clock v 0) (clock v 1) k e, e))"

definition ks_SetTTL :: "(bytes \<Rightarrow> u64) \<Rightarrow> bytes \<Rightarrow> int \<Rightarrow> world \<Rightarrow> bool \<times> world" where
  "ks_SetTTL hash k ttl = with_env (\<lambda>v e. engine_set_ttl hash (clock v 0) (clock v 1) k ttl e)"

definition ks_Stats :: "world \<Rightarrow> server_stats \<times> world" where
  "ks_Stats = with_env (\<lambda>v e.
     (let st = engine_stats e
      in \<lparr>sv_Keys = s_Keys st, sv_KeysWithTTL = s_KeysWithTTL st, sv_MemoryUsed = s_MemoryUsed st,
          sv_MemoryMax = s_MemoryMax st, sv_Gets = s_Gets st, sv_Sets = s_Sets st,
          sv_Deletes = s_Deletes st, sv_Hits = s_Hits st, sv_Misses = s_Misses st,
          sv_Evictions = s_Evictions st, sv_Expirations = s_Expirations st,
          sv_OOMRejected = s_OOMRejected st, sv_ScanCursors = s_ScanCursors st,
          sv_ScanSnapshotBytes = s_ScanSnapshotBytes st, sv_Process = process_sample v\<rparr>, e))"

definition keyspace :: "(bytes \<Rightarrow> u64) \<Rightarrow> world store" where
  "keyspace hash =
     \<lparr>kv_MaxValueSize = ks_MaxValueSize, kv_Get = ks_Get hash, kv_Set = ks_Set hash,
      kv_SetNX = ks_SetNX hash, kv_Delete = ks_Delete hash, kv_Exists = ks_Exists hash,
      kv_Keys = ks_Keys, kv_Scan = ks_Scan, kv_ReleaseScans = ks_ReleaseScans,
      kv_GetTTL = ks_GetTTL hash, kv_SetTTL = ks_SetTTL hash, kv_Stats = ks_Stats\<rparr>"

end
