(* ===== verification/Store_Contract.thy ===== *)
theory Store_Contract
  imports Commands_Spec
begin

text \<open>
  What the commands rely on in a store (\<open>binding_store\<close>): a notion of a key being bound for good, to a
  value without expiry or to nothing, that writes to the key establish and that everything else
  keeps. The laws are proved of the storage engine in \<open>Keyspace_Spec\<close>; here the commands of any
  number of connections, interleaved with background reclamation, are shown to keep a binding.
\<close>

locale binding_store =
  fixes S :: "'w store" and inv :: "'w \<Rightarrow> bool" and bound :: "bytes \<Rightarrow> bytes option \<Rightarrow> 'w \<Rightarrow> bool"
    and reclaim :: "'b \<Rightarrow> 'w \<Rightarrow> 'w"
  assumes set_binds: "inv w \<Longrightarrow> kv_Set S k v 0 w = (None, w') \<Longrightarrow> bound k (Some v) w'"
    and delete_binds: "inv w \<Longrightarrow> bound k None (snd (kv_Delete S k w))"
    and get_bound: "inv w \<Longrightarrow> bound k x w \<Longrightarrow> fst (kv_Get S k w) = x"
    and exists_bound: "inv w \<Longrightarrow> bound k x w \<Longrightarrow> fst (kv_Exists S k w) \<longleftrightarrow> x \<noteq> None"
    and keeps: "inv w \<Longrightarrow> w' \<in> {snd (kv_Get S j w), snd (kv_Exists S j w), snd (kv_Keys S p w),
          snd (kv_Scan S i c n p w), kv_ReleaseScans S i w, snd (kv_GetTTL S j w), snd (kv_Stats S w), reclaim b w} \<Longrightarrow>
        inv w' \<and> (bound k x w \<longrightarrow> bound k x w')"
    and writes: "inv w \<Longrightarrow> w' \<in> {snd (kv_Set S j v d w), snd (kv_SetNX S j v d w), snd (kv_Delete S j w),
          snd (kv_SetTTL S j d w)} \<Longrightarrow> inv w' \<and> (j \<noteq> k \<longrightarrow> bound k x w \<longrightarrow> bound k x w')"

text \<open>The commands that may change what a key is bound to.\<close>

definition writes_key :: "bytes \<Rightarrow> command \<Rightarrow> bool" where
  "writes_key k cmd \<longleftrightarrow>
     cmd_name cmd \<in> {''SET'', ''SETNX'', ''EXPIRE''} \<and> cmd_args cmd \<noteq> [] \<and> hd (cmd_args cmd) = k
     \<or> cmd_name cmd = ''DEL'' \<and> k \<in> set (cmd_args cmd)"

text \<open>
  What goes on at a server: commands of the connections, by the number of the connection, and
  background work on the store.
\<close>

datatype 'b event = Run nat command | Reclaim 'b

fun run_event ::
    "'x platform \<Rightarrow> readings \<Rightarrow> ('b \<Rightarrow> 'w \<Rightarrow> 'w) \<Rightarrow> 'b event \<Rightarrow> (nat \<Rightarrow> session) \<times> 'w server \<Rightarrow>
     (nat \<Rightarrow> session) \<times> 'w server" where
  "run_event P t bg (Run i cmd) (ss, srv) =
     (case dispatch P t cmd (ss i) srv :: (unit reply \<times> bool) \<times> session \<times> 'w server of
        (_, s, srv) \<Rightarrow> (ss(i := s), srv))"
| "run_event P t bg (Reclaim b) (ss, srv) = (ss, srv\<lparr>srv_world := bg b (srv_world srv)\<rparr>)"

fun run_events ::
    "'x platform \<Rightarrow> (nat \<Rightarrow> readings) \<Rightarrow> ('b \<Rightarrow> 'w \<Rightarrow> 'w) \<Rightarrow> 'b event list \<Rightarrow> (nat \<Rightarrow> session) \<times> 'w server \<Rightarrow>
     (nat \<Rightarrow> session) \<times> 'w server" where
  "run_events P rd bg [] st = st"
| "run_events P rd bg (ev # evs) st = run_events P (\<lambda>n. rd (Suc n)) bg evs (run_event P (rd 0) bg ev st)"

fun event_writes :: "bytes \<Rightarrow> 'b event \<Rightarrow> bool" where
  "event_writes k (Run i cmd) \<longleftrightarrow> writes_key k cmd"
| "event_writes k (Reclaim b) \<longleftrightarrow> False"

context binding_store
begin

text \<open>A step of the server that keeps a binding: the store is the same one and the worlds are related.\<close>

definition steady :: "bytes \<Rightarrow> bytes option \<Rightarrow> 'w server \<Rightarrow> 'w server \<Rightarrow> bool" where
  "steady k x srv srv' \<longleftrightarrow> srv_store srv' = srv_store srv \<and> srv_auth srv' = srv_auth srv
     \<and> (srv_store srv = S \<longrightarrow> inv (srv_world srv) \<longrightarrow>
          inv (srv_world srv') \<and> (bound k x (srv_world srv) \<longrightarrow> bound k x (srv_world srv')))"

lemma steady_refl: "steady k x srv srv"
  by (simp add: steady_def)

lemma steady_trans: "steady k x srv srv1 \<Longrightarrow> steady k x srv1 srv2 \<Longrightarrow> steady k x srv srv2"
  by (simp add: steady_def)

lemma steady_on_store:
  assumes "\<And>w. srv_store srv = S \<Longrightarrow> inv w \<Longrightarrow> inv (snd (f S w)) \<and> (bound k x w \<longrightarrow> bound k x (snd (f S w)))"
  shows "steady k x srv (snd (on_store f srv))"
proof -
  obtain r w where f: "f (srv_store srv) (srv_world srv) = (r, w)" by fastforce
  then show ?thesis using assms [of "srv_world srv"] by (auto simp: steady_def on_store_def)
qed

lemma keep_reads:
  assumes "inv w"
  shows "inv (snd (kv_Get S j w)) \<and> (bound k x w \<longrightarrow> bound k x (snd (kv_Get S j w)))"
    "inv (snd (kv_Exists S j w)) \<and> (bound k x w \<longrightarrow> bound k x (snd (kv_Exists S j w)))"
    "inv (snd (kv_Keys S p w)) \<and> (bound k x w \<longrightarrow> bound k x (snd (kv_Keys S p w)))"
    "inv (snd (kv_Scan S i c n p w)) \<and> (bound k x w \<longrightarrow> bound k x (snd (kv_Scan S i c n p w)))"
    "inv (kv_ReleaseScans S i w) \<and> (bound k x w \<longrightarrow> bound k x (kv_ReleaseScans S i w))"
    "inv (snd (kv_GetTTL S j w)) \<and> (bound k x w \<longrightarrow> bound k x (snd (kv_GetTTL S j w)))"
    "inv (snd (kv_Stats S w)) \<and> (bound k x w \<longrightarrow> bound k x (snd (kv_Stats S w)))"
    "inv (reclaim b w) \<and> (bound k x w \<longrightarrow> bound k x (reclaim b w))"
  using keeps [OF assms, of _ j p i c n b k x] by simp_all

lemma steady_reads:
  "steady k x srv (snd (on_store (\<lambda>st. kv_Get st j) srv))"
  "steady k x srv (snd (on_store (\<lambda>st. kv_Exists st j) srv))"
  "steady k x srv (snd (on_store (\<lambda>st. kv_Keys st p) srv))"
  "steady k x srv (snd (on_store (\<lambda>st. kv_Scan st i c n p) srv))"
  "steady k x srv (snd (on_store (\<lambda>st. kv_GetTTL st j) srv))"
  "steady k x srv (snd (on_store kv_Stats srv))"
  by (rule steady_on_store, erule keep_reads)+

lemma steady_writes:
  assumes "j \<noteq> k"
  shows "steady k x srv (snd (on_store (\<lambda>st. kv_Set st j v d) srv))"
    "steady k x srv (snd (on_store (\<lambda>st. kv_SetNX st j v d) srv))"
    "steady k x srv (snd (on_store (\<lambda>st. kv_Delete st j) srv))"
    "steady k x srv (snd (on_store (\<lambda>st. kv_SetTTL st j d) srv))"
  by (rule steady_on_store, use writes [of _ _ j v d k x] assms in simp)+

lemma steady_count: "steady k x srv (count_command srv)"
  by (simp add: steady_def)

lemma steady_loop:
  assumes "\<And>j srv. j \<in> set ks \<Longrightarrow> steady k x srv (snd (on_store (\<lambda>st. f st j) srv))"
  shows "steady k x srv (snd (count_loop f ks n srv))"
  using assms
proof (induction ks arbitrary: n srv)
  case (Cons j ks)
  obtain b srv1 where s: "on_store (\<lambda>st. f st j) srv = (b, srv1)" by fastforce
  have "steady k x srv srv1" using Cons.prems [of j srv] s by simp
  moreover have "steady k x srv1 (snd (count_loop f ks (if b then n + 1 else n) srv1))"
    by (rule Cons.IH) (simp add: Cons.prems)
  ultimately show ?case using s by (auto intro: steady_trans)
qed (simp add: steady_refl)

end

context binding_store
begin

text \<open>No handler of a command that does not write the key disturbs its binding.\<close>

lemma steady_read_handlers:
  "steady k x srv (snd (snd (get_handler P t cmd s srv)))"
  "steady k x srv (snd (snd (exists_handler P t cmd s srv)))"
  "steady k x srv (snd (snd (keys_handler P t cmd s srv)))"
  "steady k x srv (snd (snd (scan_handler P t cmd s srv)))"
  "steady k x srv (snd (snd (ttl_handler P t cmd s srv)))"
  "steady k x srv (snd (snd (dbsize_handler P t cmd s srv)))"
  "steady k x srv (snd (snd (stats_handler P t cmd s srv)))"
  "steady k x srv (snd (snd (info_handler P t cmd s srv)))"
proof -
  note r = steady_reads [of k x srv] steady_refl [of k x srv]
  show "steady k x srv (snd (snd (get_handler P t cmd s srv)))"
    by (simp add: get_handler_def split_beta r split: option.split)
  show "steady k x srv (snd (snd (exists_handler P t cmd s srv)))"
    by (simp add: exists_handler_def split_beta steady_loop steady_reads)
  show "steady k x srv (snd (snd (keys_handler P t cmd s srv)))"
    by (simp add: keys_handler_def split_beta r)
  show "steady k x srv (snd (snd (scan_handler P t cmd s srv)))"
    by (simp add: scan_handler_def split_beta r split: sum.split)
  show "steady k x srv (snd (snd (ttl_handler P t cmd s srv)))"
    by (simp add: ttl_handler_def split_beta r split: option.split)
  show "steady k x srv (snd (snd (dbsize_handler P t cmd s srv)))"
    by (simp add: dbsize_handler_def split_beta r)
  show "steady k x srv (snd (snd (stats_handler P t cmd s srv)))"
    by (simp add: stats_handler_def split_beta r)
  show "steady k x srv (snd (snd (info_handler P t cmd s srv)))"
    by (simp add: info_handler_def Let_def split_beta r)
qed

lemma steady_write_handlers:
  "cmd_args cmd ! 0 \<noteq> k \<Longrightarrow> steady k x srv (snd (snd (set_handler P t cmd s srv)))"
  "cmd_args cmd ! 0 \<noteq> k \<Longrightarrow> steady k x srv (snd (snd (setnx_handler P t cmd s srv)))"
  "cmd_args cmd ! 0 \<noteq> k \<Longrightarrow> steady k x srv (snd (snd (expire_handler P t cmd s srv)))"
  "k \<notin> set (cmd_args cmd) \<Longrightarrow> steady k x srv (snd (snd (del_handler P t cmd s srv)))"
proof -
  note r = steady_writes [of _ k x srv] steady_refl [of k x srv]
  assume k: "cmd_args cmd ! 0 \<noteq> k"
  show "steady k x srv (snd (snd (set_handler P t cmd s srv)))"
    using k by (simp add: set_handler_def Let_def split_beta r split: sum.split option.split)
  show "steady k x srv (snd (snd (setnx_handler P t cmd s srv)))"
    using k by (simp add: setnx_handler_def split_beta r split: option.split)
  show "steady k x srv (snd (snd (expire_handler P t cmd s srv)))"
    using k by (simp add: expire_handler_def Let_def split_beta r split: option.split)
next
  assume "k \<notin> set (cmd_args cmd)"
  then show "steady k x srv (snd (snd (del_handler P t cmd s srv)))"
    by (auto simp: del_handler_def split_beta intro!: steady_loop steady_writes)
qed

lemma steady_connection_handlers:
  "steady k x srv (snd (snd (ping_handler P t cmd s srv)))"
  "steady k x srv (snd (snd (quit_handler P t cmd s srv)))"
  "steady k x srv (snd (snd (echo_handler P t cmd s srv)))"
  "steady k x srv (snd (snd (command_handler P t cmd s srv)))"
  "steady k x srv (snd (snd (auth_handler P t cmd s srv)))"
  "steady k x srv (snd (snd (hello_handler P t cmd s srv)))"
proof -
  show "steady k x srv (snd (snd (hello_handler P t cmd s srv)))"
    using hello_handler_cases [of P t cmd s srv] steady_refl [of k x srv] by (metis prod.collapse)
qed (simp_all add: ping_handler_def quit_handler_def echo_handler_def command_handler_def auth_handler_def Let_def
    steady_refl split: option.split auth_error.split)

end

context binding_store
begin

lemma steady_handler:
  fixes spec :: "('x, 'w, 'f) command_spec"
  assumes "map_of commands (cmd_name cmd) = Some spec" and "accepts spec (int (length (cmd_args cmd)))"
    and "\<not> writes_key k cmd"
  shows "steady k x srv (snd (snd (handler spec P t cmd s srv)))"
proof -
  have m: "(cmd_name cmd, spec) \<in> set commands" using assms(1) by (rule map_of_SomeD)
  have args: "cmd_args cmd \<noteq> [] \<Longrightarrow> cmd_args cmd ! 0 = hd (cmd_args cmd)" by (simp add: hd_conv_nth)
  consider "handler spec \<in> {get_handler, exists_handler, keys_handler, scan_handler, ttl_handler, dbsize_handler,
        stats_handler, info_handler, ping_handler, quit_handler, echo_handler, command_handler, auth_handler,
        hello_handler}"
    | (first) "cmd_name cmd \<in> {''SET'', ''SETNX'', ''EXPIRE''}" "1 \<le> minArgs spec"
      "handler spec \<in> {set_handler, setnx_handler, expire_handler}"
    | (del) "cmd_name cmd = ''DEL''" "handler spec = del_handler"
    using m unfolding commands_def list.set insert_iff empty_iff prod.inject
    by (elim disjE conjE FalseE) simp_all
  then show ?thesis
  proof cases
    case first
    then have "cmd_args cmd \<noteq> []" using assms(2) by (auto simp: accepts_def)
    then have "cmd_args cmd ! 0 \<noteq> k" using args assms(3) first(1) by (auto simp: writes_key_def)
    then show ?thesis using first(3) steady_write_handlers(1-3) by auto
  next
    case del
    then have "k \<notin> set (cmd_args cmd)" using assms(3) by (simp add: writes_key_def)
    then show ?thesis using del(2) steady_write_handlers(4) by simp
  qed (auto simp: steady_read_handlers steady_connection_handlers)
qed

lemma steady_dispatch:
  fixes srv :: "'w server" and P :: "'x platform"
  assumes "\<not> writes_key k cmd"
  shows "steady k x srv (snd (snd (dispatch P t cmd s srv :: ('f reply \<times> bool) \<times> session \<times> 'w server)))"
proof (cases "map_of (commands :: (bytes \<times> ('x, 'w, 'f) command_spec) list) (cmd_name cmd)")
  case None
  then show ?thesis using steady_count [of k x srv] by (simp add: dispatch_def Let_def)
next
  case (Some spec)
  then show ?thesis
    using steady_count [of k x srv]
      steady_trans [OF steady_count steady_handler [OF Some _ assms, of x "count_command srv" P t s]]
    by (simp add: dispatch_def Let_def split_beta)
qed

lemma steady_run_event:
  assumes "\<not> event_writes k ev"
  shows "steady k x (snd st) (snd (run_event P t reclaim ev st))"
proof (cases ev)
  case (Run i cmd)
  then show ?thesis
    using steady_dispatch [of k cmd x "snd st" P t "fst st i"] assms by (cases st) (simp add: split_beta)
next
  case (Reclaim b)
  then show ?thesis using keep_reads(8) by (cases st) (simp add: steady_def)
qed

lemma steady_run_events:
  "list_all (\<lambda>ev. \<not> event_writes k ev) evs \<Longrightarrow> steady k x (snd st) (snd (run_events P rd reclaim evs st))"
proof (induction evs arbitrary: rd st)
  case (Cons ev evs)
  then have "steady k x (snd st) (snd (run_event P (rd 0) reclaim ev st))"
    by (intro steady_run_event) simp
  moreover have "steady k x (snd (run_event P (rd 0) reclaim ev st))
      (snd (run_events P (\<lambda>n. rd (Suc n)) reclaim evs (run_event P (rd 0) reclaim ev st)))"
    by (rule Cons.IH) (use Cons.prems in simp)
  ultimately show ?case by (simp only: run_events.simps) (rule steady_trans)
qed (simp add: steady_refl)

lemma dispatch_data:
  fixes srv :: "'w server"
  assumes "\<not> session_auth_required s srv"
  shows "dispatch P t \<lparr>cmd_name = ''GET'', cmd_args = [k]\<rparr> s srv
      = (case on_store (\<lambda>st. kv_Get st k) (count_command srv) of
           (r, srv') \<Rightarrow> ((case r of None \<Rightarrow> NilReply | Some v \<Rightarrow> BulkString v, False), s, srv'))"
    "dispatch P t \<lparr>cmd_name = ''SET'', cmd_args = [k, v]\<rparr> s srv
      = (case on_store (\<lambda>st. kv_Set st k v 0) (count_command srv) of
           (r, srv') \<Rightarrow> ((case r of None \<Rightarrow> SimpleString ''OK'' | Some e \<Rightarrow> store_failure e, False), s, srv'))"
    "dispatch P t \<lparr>cmd_name = ''DEL'', cmd_args = [k]\<rparr> s srv
      = (case on_store (\<lambda>st. kv_Delete st k) (count_command srv) of
           (b, srv') \<Rightarrow> ((Integer (if b then 1 else 0), False), s, srv'))"
  using assms
  by (simp_all add: dispatch_def Let_def commands_def cmdAuth_def accepts_def unbounded_def get_handler_def
      set_handler_def del_handler_def parse_set_expiry_def split_beta split: option.split)

lemma get_after:
  assumes "srv_store srv = S" "inv (srv_world srv)" "bound k x (srv_world srv)" "\<not> session_auth_required s srv"
  shows "fst (fst (dispatch P t \<lparr>cmd_name = ''GET'', cmd_args = [k]\<rparr> s srv))
    = (case x of None \<Rightarrow> NilReply | Some v \<Rightarrow> BulkString v)"
  using get_bound [OF assms(2,3)] assms(1)
  by (simp add: dispatch_data(1) [OF assms(4)] on_store_def split_beta)

text \<open>What a client sees: the binding a write has made, whatever else happens.\<close>

lemma stored_value_survives:
  assumes "srv_store srv = S" "inv (srv_world srv)" "\<not> session_auth_required s srv"
    and "dispatch P t \<lparr>cmd_name = ''SET'', cmd_args = [k, v]\<rparr> s srv
      = ((SimpleString ''OK'' :: unit reply, cl), s', srv')"
    and "list_all (\<lambda>ev. \<not> event_writes k ev) evs"
    and "run_events P rd reclaim evs (ss, srv') = (ss', srv2)" "\<not> session_auth_required s2 srv2"
  shows "fst (fst (dispatch P t' \<lparr>cmd_name = ''GET'', cmd_args = [k]\<rparr> s2 srv2)) = BulkString v"
proof -
  obtain r srv1 where r: "on_store (\<lambda>st. kv_Set st k v 0) (count_command srv) = (r, srv1)" by fastforce
  have "r = None" "srv' = srv1"
    using assms(4) r by (simp_all add: dispatch_data(2) [OF assms(3)] store_failure_def errorf_def
        split: option.splits store_error.splits)
  then have "kv_Set S k v 0 (srv_world srv) = (None, srv_world srv')" "srv_store srv' = S"
    using r assms(1) by (auto simp: on_store_def split: prod.splits)
  then have b: "bound k (Some v) (srv_world srv')" "inv (srv_world srv')"
    using set_binds [OF assms(2)] writes [OF assms(2), of "srv_world srv'" k v 0 k "Some v"] by auto
  have "steady k (Some v) srv' srv2" using steady_run_events [OF assms(5), of "Some v" "(ss, srv')" P rd] assms(6) by simp
  then show ?thesis
    using b \<open>srv_store srv' = S\<close> get_after [of srv2 k "Some v" s2] assms(7) by (simp add: steady_def)
qed

lemma deleted_key_misses:
  assumes "srv_store srv = S" "inv (srv_world srv)" "\<not> session_auth_required s srv"
    and "dispatch P t \<lparr>cmd_name = ''DEL'', cmd_args = [k]\<rparr> s srv = ((r :: unit reply, cl), s', srv')"
    and "list_all (\<lambda>ev. \<not> event_writes k ev) evs"
    and "run_events P rd reclaim evs (ss, srv') = (ss', srv2)" "\<not> session_auth_required s2 srv2"
  shows "fst (fst (dispatch P t' \<lparr>cmd_name = ''GET'', cmd_args = [k]\<rparr> s2 srv2)) = NilReply"
proof -
  have "srv_world srv' = snd (kv_Delete S k (srv_world srv))" "srv_store srv' = S"
    using assms(1,4) by (auto simp: dispatch_data(3) [OF assms(3)] on_store_def split: prod.splits)
  then have b: "bound k None (srv_world srv')" "inv (srv_world srv')"
    using delete_binds [OF assms(2), of k] writes [OF assms(2), of "srv_world srv'" k "[]" 0 k None] by auto
  have "steady k None srv' srv2" using steady_run_events [OF assms(5), of None "(ss, srv')" P rd] assms(6) by simp
  then show ?thesis
    using b \<open>srv_store srv' = S\<close> get_after [of srv2 k None s2] assms(7) by (simp add: steady_def)
qed

end

end
