(* ===== verification/Keyspace_Spec.thy ===== *)
theory Keyspace_Spec
  imports Keyspace Store_Contract Engine_Spec
begin

text \<open>
  The storage engine behind its adapter provides \<open>binding_store\<close>, as long as no memory limit makes it
  evict, so what is proved of the commands in \<open>Store_Contract\<close> holds of the server as it is wired.
\<close>

section \<open>What each engine operation does to one key\<close>

definition slot :: "(bytes \<Rightarrow> u64) \<Rightarrow> engine \<Rightarrow> bytes \<Rightarrow> entry option" where
  "slot hash e k = shard_lookup (shards e ! shard_for hash k e) k"

definition bound_to :: "(bytes \<Rightarrow> u64) \<Rightarrow> bytes \<Rightarrow> bytes option \<Rightarrow> engine \<Rightarrow> bool" where
  "bound_to hash k x e \<longleftrightarrow>
     (case slot hash e k of
        None \<Rightarrow> x = None
      | Some en \<Rightarrow> x = Some (Value en) \<and> ExpireAt en = 0)"

definition open_engine :: "(bytes \<Rightarrow> u64) \<Rightarrow> engine \<Rightarrow> bool" where
  "open_engine hash e \<longleftrightarrow> eng_inv False hash e \<and> \<not> closed e \<and> maxMemory (memory e) = 0"

lemma bound_to_cong: "slot hash e k = slot hash e' k \<Longrightarrow> bound_to hash k x e = bound_to hash k x e'"
  by (simp add: bound_to_def)

lemma slot_put_back:
  assumes "eng_inv books hash e" and "i = shard_for hash j e"
    and "\<And>k. k \<noteq> j \<Longrightarrow> shard_lookup (snd ms) k = shard_lookup (shards e ! i) k"
  shows "slot hash (put_back i ms e) k = (if k = j then shard_lookup (snd ms) j else slot hash e k)"
proof (cases "shard_for hash k e = i")
  case True
  then show ?thesis using eng_invD(1) [OF assms(1), of j] assms(2,3) by (auto simp: slot_def)
next
  case False
  then show ?thesis using assms(2) by (auto simp: slot_def)
qed

lemma slot_hints: "up_to_hints e e' \<Longrightarrow> slot hash e k = slot hash e' k"
  by (simp add: slot_def up_to_hints_sel [of e e'])

lemma open_hints:
  "up_to_hints e e' \<Longrightarrow> open_engine hash e = open_engine hash e'"
  using eng_inv_hints [of e e'] by (simp add: open_engine_def up_to_hints_sel [of e e'])

text \<open>A read leaves a bound slot alone but for its access statistics.\<close>

lemma slot_get:
  assumes "eng_inv books hash e"
  shows "bound_to hash k x e \<Longrightarrow> bound_to hash k x (snd (engine_get hash t1 t2 t3 t4 j e))"
proof -
  assume b: "bound_to hash k x e"
  show ?thesis
  proof (cases "closed e")
    case False
    let ?i = "shard_for hash j e" let ?s = "shards e ! ?i"
    let ?r = "shard_get t1 t2 t3 j (memory e, ?s)"
    have e: "snd (engine_get hash t1 t2 t3 t4 j e) = put_back ?i (snd ?r) e"
      using False by (simp add: engine_get_unfold Let_def at_shard_def)
    have y: "shard_lookup (snd (snd ?r)) k = shard_lookup ?s k" if "k \<noteq> j" for k
      using that shard_expire_data [of t2 j "memory e" ?s]
      by (auto simp: shard_get_unfold split_beta Let_def split: option.split)
    note sl = slot_put_back [OF assms refl y, of k]
    show ?thesis
    proof (cases "k = j")
      case False
      then show ?thesis using b unfolding e by (simp add: bound_to_def sl)
    next
      case True
      let ?y = "shard_lookup (snd (snd ?r)) j"
      have "?y = None \<and> slot hash e j = None \<or> (\<exists>en. slot hash e j = Some en \<and> ExpireAt en = 0
          \<and> ?y = Some (record_access t3 en))"
        using b True by (auto simp: bound_to_def slot_def shard_get_unfold is_expired_def split: option.splits)
      moreover have "slot hash (snd (engine_get hash t1 t2 t3 t4 j e)) j = ?y"
        using slot_put_back [OF assms refl y, of j] unfolding e by simp
      ultimately show ?thesis using b True by (auto simp: bound_to_def record_access_def)
    qed
  qed (use b in \<open>simp add: engine_get_def\<close>)
qed

lemma slot_expire:
  assumes "eng_inv books hash e"
  shows "bound_to hash k x e \<Longrightarrow> bound_to hash k x (snd (engine_expire now i j e))"
proof -
  assume b: "bound_to hash k x e"
  show ?thesis
  proof (cases "closed e \<or> shard_at i e = None")
    case False
    then have i: "nat i < length (shards e)" by (auto simp: shard_at_def split: if_splits)
    let ?r = "shard_expire now j (memory e, shards e ! nat i)"
    have e: "snd (engine_expire now i j e) = put_back (nat i) (snd ?r) e"
      using False by (auto simp: engine_expire_def expire_key_unfold Let_def at_shard_def split: option.splits)
    have "slot hash (put_back (nat i) (snd ?r) e) k = slot hash e k"
    proof (cases "shard_for hash k e = nat i \<and> k = j \<and> fst ?r")
      case True
      then obtain en where "slot hash e k = Some en" "is_expired now en"
        by (auto simp: shard_expire_True slot_def)
      then show ?thesis using b by (auto simp: bound_to_def is_expired_def)
    qed (use i shard_expire_data [of now j "memory e" "shards e ! nat i"] in \<open>auto simp: slot_def nth_list_update\<close>)
    then show ?thesis using b unfolding e by (simp add: bound_to_def)
  qed (use b in \<open>auto simp: engine_expire_def expire_key_def split: option.splits\<close>)
qed

lemma slot_delete:
  assumes "eng_inv books hash e" and "\<not> closed e"
  shows "slot hash (snd (engine_delete hash j e)) k = (if k = j then None else slot hash e k)"
proof -
  let ?i = "shard_for hash j e"
  have e: "snd (engine_delete hash j e) = put_back ?i (snd (shard_delete j (at_shard ?i e))) e"
    using assms(2) by (simp add: engine_delete_unfold Let_def)
  show ?thesis
    unfolding e using slot_put_back [OF assms(1) refl, of j "snd (shard_delete j (at_shard ?i e))" k]
    by (simp add: shard_removal_data at_shard_def)
qed

lemma slot_set_ttl:
  assumes "eng_inv books hash e" and "k \<noteq> j"
  shows "slot hash (snd (engine_set_ttl hash t1 t2 j ttl e)) k = slot hash e k"
proof (cases "closed e")
  case False
  let ?i = "shard_for hash j e" let ?r = "shard_set_ttl t1 t2 j ttl (shards e ! ?i)"
  have u: "up_to_hints (snd (engine_set_ttl hash t1 t2 j ttl e)) (put_back ?i (memory e, snd ?r) e)"
    by (rule engine_set_ttl_unfold(3) [OF False])
  have "shard_lookup (snd ?r) k = shard_lookup (shards e ! ?i) k" if "k \<noteq> j" for k
    using that by (simp add: shard_set_ttl_def Let_def split: option.split)
  from slot_put_back [OF assms(1) refl, of j "(memory e, snd ?r)" k] this show ?thesis
    using slot_hints [OF u, of hash k] assms(2) by simp
qed (simp add: engine_set_ttl_unfold)

section \<open>Stores without a memory limit\<close>

lemma admit_unlimited: "maxMemory (fst ms) = 0 \<Longrightarrow> admit ctl x ms = (None, ms)"
  by (simp add: admit_def)

lemma reserve_unlimited: "maxMemory m = 0 \<Longrightarrow> \<exists>m'. reserve sz credit m = (True, m') \<and> maxMemory m' = 0"
  by (simp add: reserve_def Let_def)

lemma store_unlimited:
  assumes "maxMemory (fst ms) = 0"
  obtains (blocked) "nx" "admit_and_store ctl now key x nx ms = ((False, None), ms)"
  | (stored) m' where "admit_and_store ctl now key x nx ms = ((True, None), m', put_shard key x (snd ms))" "maxMemory m' = 0"
proof (cases "put_blocked (now 0) key nx (snd ms)")
  case True
  then show ?thesis using admit_and_store_blocked by (intro blocked) (auto simp: put_blocked_def)
next
  case False
  obtain m' where "reserve (ucast (Size x)) (resident_size key (snd ms)) (fst ms) = (True, m')" "maxMemory m' = 0"
    using reserve_unlimited [OF assms] by blast
  then have "shard_put (now 0) key x nx ms = ((True, None), m', put_shard key x (snd ms))"
    using False by (cases ms) (simp add: shard_put_unfold)
  then show ?thesis using \<open>maxMemory m' = 0\<close> by (intro stored [of m']) (simp_all add: admit_and_store_first Let_def)
qed

lemma slot_set:
  assumes "open_engine hash e"
  shows "fst (engine_set hash t now j v ttl e) = None \<Longrightarrow>
      slot hash (snd (engine_set hash t now j v ttl e)) j = Some (new_entry t j v ttl)"
    and "k \<noteq> j \<Longrightarrow> slot hash (snd (engine_set hash t now j v ttl e)) k = slot hash e k"
    and "\<not> closed (snd (engine_set hash t now j v ttl e)) \<and> maxMemory (memory (snd (engine_set hash t now j v ttl e))) = 0"
proof -
  let ?i = "shard_for hash j e" let ?e' = "snd (engine_set hash t now j v ttl e)"
  have inv: "eng_inv False hash e" and cl: "\<not> closed e" and mx: "maxMemory (memory e) = 0"
    using assms by (simp_all add: open_engine_def)
  have "(fst (engine_set hash t now j v ttl e) = None \<longrightarrow> slot hash ?e' j = Some (new_entry t j v ttl))
      \<and> (k \<noteq> j \<longrightarrow> slot hash ?e' k = slot hash e k) \<and> \<not> closed ?e' \<and> maxMemory (memory ?e') = 0"
  proof (cases "validate_write t j v ttl e")
    case (Inl err)
    then show ?thesis using cl mx by (simp add: engine_set_unfold(1))
  next
    case (Inr x)
    then have x: "x = new_entry t j v ttl" by (simp add: validate_write_Inr)
    have "maxMemory (fst (at_shard ?i e)) = 0" using mx by (simp add: at_shard_def)
    then obtain m' where s: "admit_and_store (eviction e) now j x False (at_shard ?i e)
        = ((True, None), m', put_shard j x (shards e ! ?i))" "maxMemory m' = 0"
      by (cases rule: store_unlimited [of "at_shard ?i e" False "eviction e" now j x]) (auto simp: at_shard_def)
    have u: "up_to_hints ?e' (put_back ?i (m', put_shard j x (shards e ! ?i)) e)"
      using engine_set_unfold(3) [OF Inr, of hash now] s by simp
    have "slot hash (put_back ?i (m', put_shard j x (shards e ! ?i)) e) k
        = (if k = j then Some x else slot hash e k)" for k
      using slot_put_back [OF inv refl, of j "(m', put_shard j x (shards e ! ?i))" k] by simp
    then show ?thesis
      using slot_hints [OF u] x s(2) cl up_to_hints_sel [OF u] by simp
  qed
  then show "fst (engine_set hash t now j v ttl e) = None \<Longrightarrow> slot hash ?e' j = Some (new_entry t j v ttl)"
    and "k \<noteq> j \<Longrightarrow> slot hash ?e' k = slot hash e k" and "\<not> closed ?e' \<and> maxMemory (memory ?e') = 0" by simp_all
qed

lemma slot_setnx:
  assumes "open_engine hash e"
  shows "k \<noteq> j \<Longrightarrow> slot hash (snd (engine_setnx hash t now j v ttl e)) k = slot hash e k"
    and "\<not> closed (snd (engine_setnx hash t now j v ttl e)) \<and> maxMemory (memory (snd (engine_setnx hash t now j v ttl e))) = 0"
proof -
  let ?i = "shard_for hash j e" let ?e' = "snd (engine_setnx hash t now j v ttl e)"
  have inv: "eng_inv False hash e" and cl: "\<not> closed e" and mx: "maxMemory (memory e) = 0"
    using assms by (simp_all add: open_engine_def)
  have "(k \<noteq> j \<longrightarrow> slot hash ?e' k = slot hash e k) \<and> \<not> closed ?e' \<and> maxMemory (memory ?e') = 0"
  proof (cases "validate_write t j v ttl e")
    case (Inl err)
    then show ?thesis using cl mx by (simp add: engine_setnx_unfold(1))
  next
    case (Inr x)
    have "maxMemory (fst (at_shard ?i e)) = 0" using mx by (simp add: at_shard_def)
    then obtain ms where s: "snd (admit_and_store (eviction e) now j x True (at_shard ?i e)) = ms" "maxMemory (fst ms) = 0"
      and d: "\<And>k. k \<noteq> j \<Longrightarrow> shard_lookup (snd ms) k = shard_lookup (shards e ! ?i) k"
      by (cases rule: store_unlimited [of "at_shard ?i e" True "eviction e" now j x]) (use mx in \<open>auto simp: at_shard_def\<close>)
    have u: "up_to_hints ?e' (put_back ?i ms e)"
      using engine_setnx_unfold(3) [OF Inr, of hash now] s by simp
    from slot_put_back [OF inv refl d, of k] show ?thesis
      using slot_hints [OF u, of hash k] s(2) cl up_to_hints_sel [OF u] by simp
  qed
  then show "k \<noteq> j \<Longrightarrow> slot hash ?e' k = slot hash e k" and "\<not> closed ?e' \<and> maxMemory (memory ?e') = 0" by simp_all
qed

section \<open>The engine stays open and unlimited\<close>

lemma open_get: "open_engine hash e \<Longrightarrow> open_engine hash (snd (engine_get hash t1 t2 t3 t4 j e))"
  using engine_get_inv [of False hash e t1 t2 t3 t4 j]
  by (simp add: open_engine_def engine_get_unfold Let_def at_shard_def)

lemma open_delete: "open_engine hash e \<Longrightarrow> open_engine hash (snd (engine_delete hash j e))"
  using engine_delete_inv [of False hash e j]
  by (simp add: open_engine_def engine_delete_unfold Let_def at_shard_def)

lemma open_expire: "open_engine hash e \<Longrightarrow> open_engine hash (snd (engine_expire now i j e))"
  using engine_expire_inv [of False hash e now i j]
  by (simp add: open_engine_def engine_expire_def expire_key_unfold Let_def at_shard_def split: option.split)

lemma open_set_ttl: "open_engine hash e \<Longrightarrow> open_engine hash (snd (engine_set_ttl hash t1 t2 j d e))"
proof -
  assume o: "open_engine hash e"
  then have "\<not> closed e" by (simp add: open_engine_def)
  from up_to_hints_sel [OF engine_set_ttl_unfold(3) [OF this, of hash t1 t2 j d]] o
  show ?thesis using engine_set_ttl_inv [of False hash e t1 t2 j d] by (simp add: open_engine_def)
qed

lemma open_set: "open_engine hash e \<Longrightarrow> open_engine hash (snd (engine_set hash t now j v d e))"
  using slot_set(3) engine_set_inv [of False hash e t now j v d] by (simp add: open_engine_def)

lemma open_setnx: "open_engine hash e \<Longrightarrow> open_engine hash (snd (engine_setnx hash t now j v d e))"
  using slot_setnx(2) engine_setnx_inv [of False hash e t now j v d] by (simp add: open_engine_def)

lemma open_scans:
  "open_engine hash (e\<lparr>scans := r\<rparr>) = open_engine hash e" "slot hash (e\<lparr>scans := r\<rparr>) k = slot hash e k"
  by (simp_all add: open_engine_def slot_def shard_for_def)

lemma engine_scan_scans: "\<exists>r. snd (engine_scan rnd ord t1 t2 sn ln owner c n p e) = e\<lparr>scans := r\<rparr>"
  by (cases "closed e") (auto simp: engine_scan_def Let_def split: prod.split intro: exI [of _ "scans e"])

section \<open>The contract\<close>

lemma with_env_sel:
  "fst (with_env f w) = fst (f (w_env w 0) (w_engine w))"
  "w_engine (snd (with_env f w)) = snd (f (w_env w 0) (w_engine w))"
  by (simp_all add: with_env_def split_beta)

text \<open>What the expiry scheduler does to the engine behind the commands' backs.\<close>

definition ks_reclaim :: "int \<times> bytes \<Rightarrow> world \<Rightarrow> world" where
  "ks_reclaim b w = snd (with_env (\<lambda>v e. engine_expire (clock v 0) (fst b) (snd b) e) w)"

interpretation engine_store: binding_store "keyspace hash" "\<lambda>w. open_engine hash (w_engine w)"
    "\<lambda>k x w. bound_to hash k x (w_engine w)" ks_reclaim for hash
proof (unfold_locales, goal_cases)
  case (1 w k v w')
  let ?r = "engine_set hash (clock (w_env w 0) 0) (\<lambda>i. clock (w_env w 0) (Suc i)) k v 0 (w_engine w)"
  have "fst ?r = None" "w_engine w' = snd ?r"
    using 1(2) with_env_sel [of _ w] by (auto simp: keyspace_def ks_Set_def split_beta with_env_def)
  then show ?case
    using slot_set(1) [OF 1(1)] by (simp add: bound_to_def new_entry_def)
next
  case (2 w k)
  then show ?case
    using slot_delete [of False hash "w_engine w" k k]
    by (simp add: keyspace_def ks_Delete_def with_env_sel bound_to_def open_engine_def)
next
  case (3 w k x)
  have "\<not> closed (w_engine w)" using 3(1) by (simp add: open_engine_def)
  then show ?case
    using 3(2)
    by (auto simp: keyspace_def ks_Get_def with_env_sel split_beta engine_get_unfold Let_def at_shard_def
        bound_to_def slot_def shard_get_unfold is_expired_def record_access_def split: option.splits)
next
  case (4 w k x)
  have "\<not> closed (w_engine w)" using 4(1) by (simp add: open_engine_def)
  then show ?case
    using 4(2)
    by (auto simp: keyspace_def ks_Exists_def with_env_sel engine_exists_def shard_exists_def
        bound_to_def slot_def is_expired_def split: option.splits)
next
  case (5 w w' j p i c n b k x)
  have inv: "eng_inv False hash (w_engine w)" using 5(1) by (simp add: open_engine_def)
  have scan: "w_engine (snd (ks_Scan i c n p w)) \<in> range (\<lambda>r. (w_engine w)\<lparr>scans := r\<rparr>)"
  proof -
    let ?v = "w_env w 0"
    have "w_engine (snd (ks_Scan i c n p w)) = snd (engine_scan (random_bytes ?v) (map_order ?v) (clock ?v 0)
        (clock ?v 1) (key_clock ?v 0) (key_clock ?v 1) i c n p (w_engine w))"
      by (simp add: ks_Scan_def with_env_sel split_beta split: sum.split)
    then show ?thesis using engine_scan_scans by (metis rangeI)
  qed
  show ?case
    using 5(2) unfolding insert_iff empty_iff
  proof (elim disjE FalseE)
    assume "w' = snd (kv_Get (keyspace hash) j w)"
    then show ?thesis
      using open_get [OF 5(1)] slot_get [OF inv]
      by (simp add: keyspace_def ks_Get_def with_env_sel split_beta)
  next
    assume "w' = snd (kv_Scan (keyspace hash) i c n p w)"
    then show ?thesis using scan 5(1) by (auto simp: keyspace_def open_scans bound_to_def)
  next
    assume "w' = kv_ReleaseScans (keyspace hash) i w"
    then show ?thesis
      using 5(1) by (simp add: keyspace_def ks_ReleaseScans_def with_env_sel engine_release_scans_def open_scans bound_to_def)
  next
    assume "w' = ks_reclaim b w"
    then show ?thesis
      using open_expire [OF 5(1)] slot_expire [OF inv] by (simp add: ks_reclaim_def with_env_sel)
  qed (use 5(1) in \<open>simp_all add: keyspace_def ks_Exists_def ks_Keys_def ks_GetTTL_def ks_Stats_def with_env_sel Let_def\<close>)
next
  case (6 w w' j v d k x)
  have inv: "eng_inv False hash (w_engine w)" and cl: "\<not> closed (w_engine w)" using 6(1) by (simp_all add: open_engine_def)
  show ?case
    using 6(2) unfolding insert_iff empty_iff
  proof (elim disjE FalseE)
    assume "w' = snd (kv_Set (keyspace hash) j v d w)"
    then show ?thesis
      using open_set [OF 6(1)] slot_set(2) [OF 6(1)]
      by (simp add: keyspace_def ks_Set_def with_env_sel split_beta bound_to_def)
  next
    assume "w' = snd (kv_SetNX (keyspace hash) j v d w)"
    then show ?thesis
      using open_setnx [OF 6(1)] slot_setnx(1) [OF 6(1)]
      by (simp add: keyspace_def ks_SetNX_def with_env_sel split_beta bound_to_def)
  next
    assume "w' = snd (kv_Delete (keyspace hash) j w)"
    then show ?thesis
      using open_delete [OF 6(1)] slot_delete [OF inv cl]
      by (simp add: keyspace_def ks_Delete_def with_env_sel bound_to_def)
  next
    assume "w' = snd (kv_SetTTL (keyspace hash) j d w)"
    then show ?thesis
      using open_set_ttl [OF 6(1)] slot_set_ttl [OF inv]
      by (simp add: keyspace_def ks_SetTTL_def with_env_sel bound_to_def)
  qed
qed

lemma reach_open:
  assumes "eng_reach hash cfg e" "ShardCount cfg \<le> 2 ^ 32" "\<not> closed e" "maxMemory (memory e) = 0"
  shows "open_engine hash e"
  using eng_inv_weaken [OF eng_reach_inv [OF assms(1,2)]] assms(3,4) by (simp add: open_engine_def)

section \<open>End to end\<close>

text \<open>
  A stored value is there. On a server over an engine in any reachable state with no memory
  limit, once a SET without expiry has been answered OK, a GET of the key on any connection that may
  read answers with exactly those bytes, whatever commands any number of connections ran in between
  and whatever the expiry scheduler reclaimed, as long as no command wrote that key.
\<close>

lemma set_then_get:
  assumes "srv_store srv = keyspace hash" and "eng_reach hash cfg (w_engine (srv_world srv))"
    and "ShardCount cfg \<le> 2 ^ 32" and "\<not> closed (w_engine (srv_world srv))"
    and "maxMemory (memory (w_engine (srv_world srv))) = 0"
    and "\<not> session_auth_required s srv"
    and "dispatch P t \<lparr>cmd_name = ''SET'', cmd_args = [k, v]\<rparr> s srv
      = ((SimpleString ''OK'' :: unit reply, cl), s', srv')"
    and "list_all (\<lambda>ev. \<not> event_writes k ev) evs"
    and "run_events P rd ks_reclaim evs (ss, srv') = (ss', srv2)" and "\<not> session_auth_required s2 srv2"
  shows "fst (fst (dispatch P t' \<lparr>cmd_name = ''GET'', cmd_args = [k]\<rparr> s2 srv2)) = BulkString v"
  using engine_store.stored_value_survives [OF assms(1) reach_open [OF assms(2-5)] assms(6-10)] .

text \<open>
  A deleted key is gone: after a DEL, a GET of the key on any connection that may read answers
  null, whatever happened in between, as long as no command wrote that key.
\<close>

lemma del_then_get:
  assumes "srv_store srv = keyspace hash" and "eng_reach hash cfg (w_engine (srv_world srv))"
    and "ShardCount cfg \<le> 2 ^ 32" and "\<not> closed (w_engine (srv_world srv))"
    and "maxMemory (memory (w_engine (srv_world srv))) = 0"
    and "\<not> session_auth_required s srv"
    and "dispatch P t \<lparr>cmd_name = ''DEL'', cmd_args = [k]\<rparr> s srv = ((r :: unit reply, cl), s', srv')"
    and "list_all (\<lambda>ev. \<not> event_writes k ev) evs"
    and "run_events P rd ks_reclaim evs (ss, srv') = (ss', srv2)" and "\<not> session_auth_required s2 srv2"
  shows "fst (fst (dispatch P t' \<lparr>cmd_name = ''GET'', cmd_args = [k]\<rparr> s2 srv2)) = NilReply"
  using engine_store.deleted_key_misses [OF assms(1) reach_open [OF assms(2-5)] assms(6-10)] .

section \<open>The properties on a concrete server\<close>

definition demo_world :: world where
  "demo_world =
     \<lparr>w_engine = new_sharded_engine default_engine_config,
      w_env = \<lambda>_. \<lparr>clock = \<lambda>n. 100 + int n, key_clock = \<lambda>_ _. 100, map_order = \<lambda>_. id, cursors_order = id,
        random_bytes = \<lambda>_. Some ''12345678'', random_error = [], process_sample = undefined\<rparr>\<rparr>"

definition demo_node :: "world server" where
  "demo_node =
     \<lparr>srv_store = keyspace demo_hash, srv_world = demo_world, srv_addr = [], srv_auth = None,
      srv_limits = default_conn_limits, srv_codecLimits = default_limits, srv_conns = zero_counters\<rparr>"

lemma demo_node_sel:
  "srv_store demo_node = keyspace demo_hash" "w_engine (srv_world demo_node) = new_sharded_engine default_engine_config"
  "\<not> session_auth_required s demo_node"
  by (simp_all add: demo_node_def demo_world_def session_auth_required_def auth_required_def)

lemma demo_node_open:
  "\<not> closed (w_engine (srv_world demo_node))" "maxMemory (memory (w_engine (srv_world demo_node))) = 0"
  "ShardCount default_engine_config \<le> 2 ^ 32"
  "eng_reach demo_hash default_engine_config (w_engine (srv_world demo_node))"
  by (simp_all add: demo_node_sel new_engine_sel default_engine_config_def new_memory_tracker_def er_new)

lemma engine_set_ok:
  assumes "open_engine hash e" and "of_nat (length v) \<le> maxValueSize e" and "0 \<le> ttl"
  shows "fst (engine_set hash t now k v ttl e) = None"
proof -
  have v: "validate_write t k v ttl e = Inr (new_entry t k v ttl)"
    using assms by (simp add: validate_write_Inr open_engine_def)
  have "maxMemory (fst (at_shard (shard_for hash k e) e)) = 0" using assms(1) by (simp add: open_engine_def at_shard_def)
  then have "snd (fst (admit_and_store (eviction e) now k (new_entry t k v ttl) False (at_shard (shard_for hash k e) e))) = None"
    by (cases rule: store_unlimited [of "at_shard (shard_for hash k e) e" False "eviction e" now k "new_entry t k v ttl"]) auto
  then show ?thesis using engine_set_unfold(2) [OF v] by simp
qed

abbreviation "demo_rd \<equiv> \<lparr>r_now = 0, r_uptime_seconds = 0, r_uptime_days = 0\<rparr>"

lemma demo_set:
  "\<exists>srv'. dispatch demo_platform demo_rd \<lparr>cmd_name = ''SET'', cmd_args = [''k'', ''v'']\<rparr> demo_session demo_node
     = ((SimpleString ''OK'' :: unit reply, False), demo_session, srv') \<and> srv_auth srv' = None"
proof -
  have "maxValueSize (new_sharded_engine default_engine_config) = 1048576"
    by (simp add: new_sharded_engine_def default_engine_config_def Let_def)
  then have "fst (engine_set demo_hash t now ''k'' ''v'' 0 (new_sharded_engine default_engine_config)) = None" for t now
    using reach_open [OF demo_node_open(4,3,1,2)] by (intro engine_set_ok) (simp_all add: demo_node_sel)
  then have "fst (on_store (\<lambda>st. kv_Set st ''k'' ''v'' 0) (count_command demo_node)) = None"
    by (simp add: on_store_def demo_node_sel keyspace_def ks_Set_def with_env_sel split_beta)
  moreover have "srv_auth (snd (on_store f (count_command demo_node))) = None" for f :: "world store \<Rightarrow> world \<Rightarrow> store_error option \<times> world"
    by (simp add: on_store_def split_beta) (simp add: demo_node_def)
  ultimately show ?thesis
    by (simp add: engine_store.dispatch_data(2) [OF demo_node_sel(3)] split_beta)
qed

lemma demo_node_after:
  assumes "srv_auth srv = None" "list_all (\<lambda>ev. \<not> event_writes k ev) evs"
    and "run_events P rd ks_reclaim evs (ss, srv) = (ss', srv2)"
  shows "\<not> session_auth_required s srv2"
  using engine_store.steady_run_events [OF assms(2), of demo_hash None "(ss, srv)" P rd] assms(1,3)
  by (simp add: engine_store.steady_def session_auth_required_def auth_required_def)

abbreviation "demo_events \<equiv> [Reclaim (0, ''k''), Run 1 \<lparr>cmd_name = ''DEL'', cmd_args = [''other'']\<rparr>]"

lemma demo_events_elsewhere: "list_all (\<lambda>ev. \<not> event_writes ''k'' ev) demo_events"
  by (simp add: writes_key_def)

lemma set_then_get_witness:
  "\<exists>srv' ss' srv2.
     snd (snd (dispatch demo_platform demo_rd \<lparr>cmd_name = ''SET'', cmd_args = [''k'', ''v'']\<rparr> demo_session demo_node
        :: (unit reply \<times> bool) \<times> session \<times> world server)) = srv'
     \<and> run_events demo_platform (\<lambda>_. demo_rd) ks_reclaim demo_events (\<lambda>_. demo_session, srv') = (ss', srv2)
     \<and> fst (fst (dispatch demo_platform demo_rd \<lparr>cmd_name = ''GET'', cmd_args = [''k'']\<rparr> demo_session srv2))
        = (BulkString ''v'' :: unit reply)"
proof -
  obtain srv' where d: "dispatch demo_platform demo_rd \<lparr>cmd_name = ''SET'', cmd_args = [''k'', ''v'']\<rparr> demo_session demo_node
     = ((SimpleString ''OK'' :: unit reply, False), demo_session, srv')" "srv_auth srv' = None"
    using demo_set by blast
  obtain ss' srv2 where r: "run_events demo_platform (\<lambda>_. demo_rd) ks_reclaim demo_events (\<lambda>_. demo_session, srv')
      = (ss', srv2)" by fastforce
  from set_then_get [OF demo_node_sel(1) demo_node_open(4,3,1,2) demo_node_sel(3) d(1) demo_events_elsewhere r
      demo_node_after [OF d(2) demo_events_elsewhere r], of demo_rd demo_session] d(1) r
  show ?thesis by auto
qed

lemma del_then_get_witness:
  "\<exists>srv' ss' srv2.
     snd (snd (dispatch demo_platform demo_rd \<lparr>cmd_name = ''DEL'', cmd_args = [''k'']\<rparr> demo_session demo_node
        :: (unit reply \<times> bool) \<times> session \<times> world server)) = srv'
     \<and> run_events demo_platform (\<lambda>_. demo_rd) ks_reclaim demo_events (\<lambda>_. demo_session, srv') = (ss', srv2)
     \<and> fst (fst (dispatch demo_platform demo_rd \<lparr>cmd_name = ''GET'', cmd_args = [''k'']\<rparr> demo_session srv2))
        = (NilReply :: unit reply)"
proof -
  obtain r cl s' srv' where d: "dispatch demo_platform demo_rd \<lparr>cmd_name = ''DEL'', cmd_args = [''k'']\<rparr> demo_session demo_node
     = ((r :: unit reply, cl), s', srv')"
    by (metis prod.collapse)
  have a: "srv_auth srv' = None"
  proof -
    have "srv_auth (snd (snd (dispatch demo_platform demo_rd \<lparr>cmd_name = ''DEL'', cmd_args = [''k'']\<rparr> demo_session demo_node
        :: (unit reply \<times> bool) \<times> session \<times> world server))) = srv_auth demo_node"
      unfolding engine_store.dispatch_data(3) [OF demo_node_sel(3)] by (simp add: on_store_def split_beta)
    then show ?thesis by (simp add: d) (simp add: demo_node_def)
  qed
  obtain ss' srv2 where run: "run_events demo_platform (\<lambda>_. demo_rd) ks_reclaim demo_events (\<lambda>_. demo_session, srv')
      = (ss', srv2)" by fastforce
  from del_then_get [OF demo_node_sel(1) demo_node_open(4,3,1,2) demo_node_sel(3) d demo_events_elsewhere run
      demo_node_after [OF a demo_events_elsewhere run], of demo_rd demo_session] d run
  show ?thesis by auto
qed

end
