(* ===== verification/Resp_Prefix.thy ===== *)
theory Resp_Prefix
  imports Resp
begin

text \<open>
  Where a request ends (\<open>Decode\<close> of \<open>internal/protocol/resp.go\<close>): what blocks while bytes may still
  come fails once the stream ends, and a request is decoded from its own bytes alone, whatever
  follows them.
\<close>

section \<open>Blocking and the end of the stream\<close>

lemma decode_consumes:
  "decode uni B lim fin inp = Got cmd rest \<Longrightarrow> length rest < length inp"
proof (induction "length inp" arbitrary: inp rule: less_induct)
  case less
  note unf = decode.simps [of uni B lim fin inp]
  obtain line crlf r where l: "read_line B fin (MaxInlineLength lim) False [] inp = Got (line, crlf) r"
    using less.prems by (auto simp: unf split: read.splits)
  have r: "length r < length inp" by (rule read_line_consumes [OF l])
  have IH: "length r' \<le> length r \<Longrightarrow> decode uni B lim fin r' = Got cmd rest \<Longrightarrow> length rest < length inp" for r'
    using less.hyps [of r'] r by simp
  show ?case
    using less.prems IH r decode_multi_bulk_consumes
    by (fastforce simp: unf l Let_def split: if_splits read.splits)
qed

lemma read_line_blocked:
  "read_line B None mx mid line inp = Blocks \<Longrightarrow> \<exists>e'. read_line B (Some e) mx mid line inp = Fail e'"
proof (induction B "None :: io_error option" mx mid line inp rule: read_line.induct)
  case (1 B mx mid line inp)
  note unf = read_line.simps [of B _ mx mid line inp]
  show ?case
  proof (cases "read_slice B None inp")
    case (BufferFull c rest)
    then have "read_slice B (Some e) inp = BufferFull c rest"
      by (auto simp: read_slice_def Let_def split: if_splits)
    then show ?thesis using 1 BufferFull by (simp add: unf split: if_splits)
  next
    case NoData
    then have "read_slice B (Some e) inp = AtEnd inp e"
      by (auto simp: read_slice_def Let_def split: if_splits)
    then show ?thesis by (simp add: unf)
  qed (use "1.prems" in \<open>auto simp: unf split: if_splits sum.splits dest: read_slice_AtEnd\<close>)
qed

lemma more_nil [simp]: "more [] r = r"
  by (cases r) auto

lemma read_line_determined:
  "read_line B None mx mid line inp \<noteq> Blocks \<Longrightarrow>
     read_line B fin mx mid line inp = read_line B None mx mid line inp"
  using read_line_more [of B mx mid line inp fin "[]"] by simp

lemma read_full_determined: "read_full n None inp \<noteq> Blocks \<Longrightarrow> read_full n fin inp = read_full n None inp"
  using read_full_more [of n inp fin "[]"] by simp

lemma decode_bulk_determined:
  "decode_bulk B lim None inp \<noteq> Blocks \<Longrightarrow> decode_bulk B lim fin inp = decode_bulk B lim None inp"
  using decode_bulk_more [of B lim inp fin "[]"] by simp

lemma decode_bulk_blocked:
  "decode_bulk B lim None inp = Blocks \<Longrightarrow> \<exists>e'. decode_bulk B lim (Some e) inp = Fail e'"
proof (cases "read_line B None (MaxInlineLength lim) True [] inp")
  case Blocks
  then show ?thesis using read_line_blocked [OF Blocks, of e] by (auto simp: decode_bulk_def)
next
  case (Got r rest)
  assume b: "decode_bulk B lim None inp = Blocks"
  have l: "read_line B (Some e) (MaxInlineLength lim) True [] inp = Got r rest"
    using read_line_determined [of B _ _ _ inp "Some e"] Got by simp
  obtain len where "read_full (nat len + 2) None rest = Blocks" and len: "atoi (tl (fst r)) = Some len"
    using b Got by (auto simp: decode_bulk_def split: prod.splits if_splits option.splits read.splits)
  then have "\<exists>e'. read_full (nat len + 2) (Some e) rest = Fail e'"
    by (auto simp: read_full_def split: if_splits)
  then show ?thesis using l len b Got
    by (auto simp: decode_bulk_def split: prod.splits if_splits option.splits)
qed (simp add: decode_bulk_def)

lemma decode_elements_blocked:
  "decode_elements n B lim None parts inp = Blocks \<Longrightarrow> \<exists>e'. decode_elements n B lim (Some e) parts inp = Fail e'"
proof (induction n arbitrary: parts inp)
  case (Suc n)
  show ?case
  proof (cases "decode_bulk B lim None inp")
    case Blocks
    then show ?thesis using decode_bulk_blocked [OF Blocks, of e] by auto
  next
    case (Got a r)
    then show ?thesis using Suc decode_bulk_determined [of B lim inp "Some e"] by simp
  qed (use Suc.prems in simp)
qed simp

lemma decode_multi_bulk_blocked:
  assumes "decode_multi_bulk uni B lim None header inp = Blocks"
  shows "\<exists>e'. decode_multi_bulk uni B lim (Some e) header inp = Fail e'"
proof -
  obtain n where "atoi (tl header) = Some n" "decode_elements (nat n) B lim None [] inp = Blocks"
    using assms by (auto simp: decode_multi_bulk_def split: option.splits if_splits read.splits)
  then show ?thesis using decode_elements_blocked [of "nat n" B lim "[]" inp e] assms
    by (auto simp: decode_multi_bulk_def split: if_splits)
qed

lemma decode_blocked:
  "decode uni B lim None inp = Blocks \<Longrightarrow> \<exists>e'. decode uni B lim (Some e) inp = Fail e'"
proof (induction "length inp" arbitrary: inp rule: less_induct)
  case less
  note unf = decode.simps [of uni B lim _ inp]
  show ?case
  proof (cases "read_line B None (MaxInlineLength lim) False [] inp")
    case Blocks
    then show ?thesis using read_line_blocked [OF Blocks, of e] by (auto simp: unf)
  next
    case (Got r rest)
    obtain line hadCRLF where r: "r = (line, hadCRLF)" by fastforce
    have sh: "length rest < length inp" by (rule read_line_consumes [OF Got])
    have l: "read_line B (Some e) (MaxInlineLength lim) False [] inp = Got r rest"
      using read_line_determined [of B _ _ _ inp "Some e"] Got by simp
    show ?thesis
    proof (cases "line \<noteq> [] \<and> hd line = CHR ''*'' \<and> hadCRLF")
      case True
      then consider "decode_multi_bulk uni B lim None line rest = Blocks"
        | cmd rest' where "decode_multi_bulk uni B lim None line rest = Got cmd rest'" "cmd_name cmd = []"
            "decode uni B lim None rest' = Blocks"
        using less.prems Got r by (auto simp: unf split: read.splits if_splits)
      then show ?thesis
      proof cases
        case 1
        then show ?thesis using decode_multi_bulk_blocked [OF 1, of e] True l r by (auto simp: unf)
      next
        case 2
        have "decode_multi_bulk uni B lim (Some e) line rest = Got cmd rest'"
          using decode_multi_bulk_more [of uni B lim line rest "Some e" "[]"] 2(1) by simp
        moreover have "length rest' < length inp" using decode_multi_bulk_consumes [OF 2(1)] sh by simp
        ultimately show ?thesis using less.hyps [of rest'] 2 True l r by (simp add: unf)
      qed
    next
      case False
      then show ?thesis using less.prems less.hyps [OF sh] Got r l
        by (auto simp: unf Let_def split: if_splits)
    qed
  qed (use less.prems in \<open>simp add: unf\<close>)
qed

section \<open>A request is its own bytes\<close>

lemma read_slice_prefix:
  "read_slice B fin inp = Line l rest \<Longrightarrow> read_slice B None l = Line l []"
  "read_slice B fin inp = BufferFull c rest \<Longrightarrow> read_slice B None (c @ xs) = BufferFull c xs"
proof -
  assume l: "read_slice B fin inp = Line l rest"
  then obtain s where s: "inp = l @ rest" "l = s @ [LF]" "LF \<notin> set s" using read_slice_Line by blast
  then have "length s < buf_size B"
    using l by (auto simp: read_slice_def Let_def takeWhile_line split: if_splits option.splits)
  then show "read_slice B None l = Line l []" using s read_slice_line [of s B None "[]"] by simp
next
  assume f: "read_slice B fin inp = BufferFull c rest"
  then have "inp = c @ rest" "length c = buf_size B" "LF \<notin> set c" using read_slice_Full by auto
  then show "read_slice B None (c @ xs) = BufferFull c xs"
    using read_slice_full [of B "c @ xs" None] by simp
qed

lemma read_line_prefix:
  "read_line B fin mx mid line inp = Got r rest \<Longrightarrow>
     \<exists>p. inp = p @ rest \<and> read_line B None mx mid line p = Got r []"
proof (induction B fin mx mid line inp rule: read_line.induct)
  case (1 B fin mx mid line inp)
  note unf = read_line.simps [of B fin mx mid line inp]
  show ?case
  proof (cases "read_slice B fin inp")
    case (Line l rest')
    then have "rest = rest'" and "\<not> int (length line) + int (length l) > mx" and "trim_terminator (line @ l) = Inr r"
      using "1.prems" by (simp_all add: unf split: if_splits sum.splits)
    then have "read_line B None mx mid line l = Got r []"
      using read_slice_prefix(1) [OF Line] by (simp add: read_line.simps [of B None mx mid line l])
    then show ?thesis using read_slice_Line [OF Line] \<open>rest = rest'\<close> by blast
  next
    case (BufferFull c rest')
    then obtain p where p: "rest' = p @ rest" "read_line B None mx mid (line @ c) p = Got r []"
      using 1 by (auto simp: unf split: if_splits)
    then have "read_line B None mx mid line (c @ p) = Got r []"
      using "1.prems" BufferFull read_slice_prefix(2) [OF BufferFull, of p]
      by (auto simp: unf read_line.simps [of B None mx mid line "c @ p"] split: if_splits)
    then show ?thesis using read_slice_Full [OF BufferFull] p by auto
  qed (use "1.prems" in \<open>auto simp: unf split: if_splits\<close>)
qed

lemma decode_bulk_prefix:
  assumes "decode_bulk B lim fin inp = Got arg rest"
  shows "\<exists>p. inp = p @ rest \<and> decode_bulk B lim None p = Got arg []"
proof -
  obtain line r len a where l: "read_line B fin (MaxInlineLength lim) True [] inp = Got (line, True) r"
    and n: "line \<noteq> []" "hd line = CHR ''$''" "atoi (tl line) = Some len" "0 \<le> len" "len \<le> MaxBulkLength lim"
    and f: "read_full (nat len + 2) fin r = Got a rest" "drop (nat len) a = CRLF" "arg = take (nat len) a"
    using assms by (auto simp: decode_bulk_def split: read.splits if_splits option.splits prod.splits)
  obtain p where p: "inp = p @ r" "read_line B None (MaxInlineLength lim) True [] p = Got (line, True) []"
    using read_line_prefix [OF l] by blast
  have a: "r = a @ rest" "length a = nat len + 2" using read_full_Got [OF f(1)] by auto
  have "read_line B None (MaxInlineLength lim) True [] (p @ a) = Got (line, True) a"
    using read_line_more [of B "MaxInlineLength lim" True "[]" p None a] p(2) by simp
  moreover have "read_full (nat len + 2) None a = Got a []" using a(2) by (simp add: read_full_def)
  ultimately have "decode_bulk B lim None (p @ a) = Got arg []"
    using n f by (simp add: decode_bulk_def)
  then show ?thesis using p(1) a(1) by auto
qed

lemma decode_elements_prefix:
  "decode_elements n B lim fin parts inp = Got ps rest \<Longrightarrow>
     \<exists>p. inp = p @ rest \<and> decode_elements n B lim None parts p = Got ps []"
proof (induction n arbitrary: parts inp)
  case (Suc n)
  obtain arg r where b: "decode_bulk B lim fin inp = Got arg r"
    and e: "decode_elements n B lim fin (parts @ [arg]) r = Got ps rest"
    using Suc.prems by (auto split: read.splits)
  obtain p where p: "inp = p @ r" "decode_bulk B lim None p = Got arg []" using decode_bulk_prefix [OF b] by blast
  obtain q where q: "r = q @ rest" "decode_elements n B lim None (parts @ [arg]) q = Got ps []"
    using Suc.IH [OF e] by blast
  have "decode_bulk B lim None (p @ q) = Got arg q"
    using decode_bulk_more [of B lim p None q] p(2) by simp
  then show ?case using p q by (intro exI [of _ "p @ q"]) simp
qed auto

lemma decode_multi_bulk_prefix:
  assumes "decode_multi_bulk uni B lim fin header inp = Got cmd rest"
  shows "\<exists>p. inp = p @ rest \<and> decode_multi_bulk uni B lim None header p = Got cmd []"
  using assms decode_elements_prefix [of "nat (the (atoi (tl header)))" B lim fin "[]" inp]
  by (fastforce simp: decode_multi_bulk_def split: option.splits if_splits read.splits)

lemma decode_prefix:
  "decode uni B lim fin inp = Got cmd rest \<Longrightarrow> \<exists>p. inp = p @ rest \<and> decode uni B lim None p = Got cmd []"
proof (induction "length inp" arbitrary: inp rule: less_induct)
  case less
  note unf = decode.simps [of uni B lim fin inp]
  obtain line crlf r where l: "read_line B fin (MaxInlineLength lim) False [] inp = Got (line, crlf) r"
    using less.prems by (auto simp: unf split: read.splits)
  have r: "length r < length inp" by (rule read_line_consumes [OF l])
  obtain p where p: "inp = p @ r" "read_line B None (MaxInlineLength lim) False [] p = Got (line, crlf) []"
    using read_line_prefix [OF l] by blast
  have lp: "read_line B None (MaxInlineLength lim) False [] (p @ q) = Got (line, crlf) q" for q
    using read_line_more [of B "MaxInlineLength lim" False "[]" p None q] p(2) by simp
  show ?case
  proof (cases "line \<noteq> [] \<and> hd line = CHR ''*''")
    case True
    then obtain cmd' r' where m: "decode_multi_bulk uni B lim fin line r = Got cmd' r'" and c: "crlf"
      and k: "cmd_name cmd' = [] \<and> decode uni B lim fin r' = Got cmd rest \<or> cmd_name cmd' \<noteq> [] \<and> cmd' = cmd \<and> r' = rest"
      using less.prems l by (auto simp: unf split: read.splits if_splits)
    obtain q where q: "r = q @ r'" "decode_multi_bulk uni B lim None line q = Got cmd' []"
      using decode_multi_bulk_prefix [OF m] by blast
    have mq: "decode_multi_bulk uni B lim None line (q @ x) = Got cmd' x" for x
      using decode_multi_bulk_more [of uni B lim line q None x] q(2) by simp
    have sh: "length r' < length inp" using r q(1) by simp
    from k show ?thesis
    proof
      assume k: "cmd_name cmd' = [] \<and> decode uni B lim fin r' = Got cmd rest"
      then obtain z where z: "r' = z @ rest" "decode uni B lim None z = Got cmd []"
        using less.hyps [OF sh] by blast
      then have "decode uni B lim None (p @ q @ z) = Got cmd []"
        using lp [of "q @ z"] mq [of z] True c k by (simp add: decode.simps [of uni B lim None "p @ q @ z"])
      then show ?thesis using p(1) q(1) z(1) by (intro exI [of _ "p @ q @ z"]) simp
    next
      assume k: "cmd_name cmd' \<noteq> [] \<and> cmd' = cmd \<and> r' = rest"
      then have "decode uni B lim None (p @ q) = Got cmd []"
        using lp [of q] q(2) True c by (auto simp: decode.simps [of uni B lim None "p @ q"])
      then show ?thesis using p(1) q(1) k by (intro exI [of _ "p @ q"]) simp
    qed
  next
    case False
    have skip: ?thesis
      if s: "decode uni B lim fin r = Got cmd rest"
        and t: "line = [] \<or> cmd_name (decode_inline uni line) = []"
    proof -
      obtain z where z: "r = z @ rest" "decode uni B lim None z = Got cmd []"
        using less.hyps [OF r s] by blast
      then have "decode uni B lim None (p @ z) = Got cmd []"
        using lp [of z] t False by (auto simp: decode.simps [of uni B lim None "p @ z"] Let_def)
      then show ?thesis using p(1) z(1) by (intro exI [of _ "p @ z"]) simp
    qed
    show ?thesis
    proof (cases "line = [] \<or> cmd_name (decode_inline uni line) = []")
      case True
      then have "decode uni B lim fin r = Got cmd rest" using less.prems l False by (auto simp: unf Let_def split: if_splits)
      then show ?thesis using skip True by blast
    next
      case f: False
      then have "cmd = decode_inline uni line \<and> r = rest" using less.prems l False by (auto simp: unf Let_def)
      moreover have "decode uni B lim None p = Got (decode_inline uni line) []"
        using f False p(2) by (simp add: decode.simps [of uni B lim None p] Let_def)
      ultimately show ?thesis using p(1) by auto
    qed
  qed
qed

end
