(* ===== verification/Serve.thy ===== *)
theory Serve
  imports Commands Framing Resp_Prefix
begin

text \<open>
  \<open>internal/server/server.go\<close> and the connection of \<open>net_transport.go\<close>: the loop that serves a
  connection. The socket is the list of what its reads will deliver (any split of the stream into
  reads), and how it goes on after them (\<open>None\<close>: nothing more arrives, and a read blocks). A write
  succeeds or fails after some bytes. \<open>turn\<close> holds what one iteration reads from outside: the clock,
  and the two polls of the context it may make.
\<close>

section \<open>The connection\<close>

record conn =
  c_buf :: bytes
  c_input :: "bytes list"
  c_end :: "io_error option"
  c_limit :: int
  c_spent :: int
  c_write :: "nat \<Rightarrow> (nat \<times> io_error) option"
  c_writes :: nat
  c_sent :: bytes

definition new_conn :: "bytes list \<Rightarrow> io_error option \<Rightarrow> (nat \<Rightarrow> (nat \<times> io_error) option) \<Rightarrow> conn_limits \<Rightarrow> conn" where
  "new_conn input fin wr l =
     \<lparr>c_buf = [], c_input = input, c_end = fin, c_limit = MaxRequestBytes l, c_spent = 0,
      c_write = wr, c_writes = 0, c_sent = []\<rparr>"

text \<open>A read of the budgeted socket: what it delivers, or why it delivers nothing.\<close>

definition budget_read :: "conn \<Rightarrow> bytes read \<times> conn" where
  "budget_read c =
     (let remaining = c_limit c - c_spent c
      in if c_limit c > 0 \<and> remaining \<le> 0 then (Fail RequestTooLarge, c)
         else case c_input c of
                [] \<Rightarrow> ((case c_end c of None \<Rightarrow> Blocks | Some e \<Rightarrow> Fail e), c)
              | p # ps \<Rightarrow>
                  if c_limit c > 0 then
                    (let got = take (nat remaining) p; left = drop (nat remaining) p
                     in (Got got [], c\<lparr>c_input := (if left = [] then ps else left # ps),
                                       c_spent := c_spent c + int (length got)\<rparr>))
                  else (Got p [], c\<lparr>c_input := ps\<rparr>))"

definition budget_reset :: "conn \<Rightarrow> conn" where
  "budget_reset c = c\<lparr>c_spent := 0\<rparr>"

definition touch :: "conn \<Rightarrow> conn" where
  "touch c = budget_reset c"

definition conn_left :: "conn \<Rightarrow> nat" where
  "conn_left c = length (c_buf c) + sum_list (map length (c_input c))"

lemma budget_read_Got:
  assumes "budget_read c = (Got got rest, c')"
  shows "length (c_input c') + sum_list (map length (c_input c')) < length (c_input c) + sum_list (map length (c_input c))"
    and "concat (c_input c) = got @ concat (c_input c')"
    and "c_buf c' = c_buf c" "c_end c' = c_end c" "c_limit c' = c_limit c" "c_write c' = c_write c"
    "c_writes c' = c_writes c" "c_sent c' = c_sent c"
    and "c_spent c' = (if c_limit c > 0 then c_spent c + int (length got) else c_spent c)"
    and "c_limit c > 0 \<Longrightarrow> c_spent c' \<le> c_limit c"
proof -
  obtain p ps where p: "c_input c = p # ps"
    using assms by (cases "c_input c") (auto simp: budget_read_def Let_def split: if_splits option.splits)
  have r: "\<not> (c_limit c > 0 \<and> c_limit c - c_spent c \<le> 0)"
    using assms by (auto simp: budget_read_def Let_def)
  note b = assms [unfolded budget_read_def Let_def p if_not_P [OF r] list.case]
  show "length (c_input c') + sum_list (map length (c_input c')) < length (c_input c) + sum_list (map length (c_input c))"
  proof (cases "c_limit c > 0")
    case True
    have "length (drop (nat (c_limit c - c_spent c)) p) < length p \<or> p = []" using True r by auto
    then show ?thesis using b True p by (auto split: if_splits)
  qed (use b p in auto)
  have "take n p @ (if drop n p = [] then [] else drop n p) = p" for n
    by (simp add: append_take_drop_id [symmetric] del: append_take_drop_id) (metis append_take_drop_id append.right_neutral)
  then show "concat (c_input c) = got @ concat (c_input c')"
    using b p by (auto split: if_splits simp flip: append_assoc)
qed (use assms in \<open>auto simp: budget_read_def Let_def split: if_splits option.splits list.splits\<close>)

text \<open>\<open>Decode\<close> on the connection's reader: it reads as long as it must.\<close>

function decode_conn :: "(bytes \<Rightarrow> bytes) \<Rightarrow> limits \<Rightarrow> conn \<Rightarrow> command read \<times> conn" where
  "decode_conn uni lim c =
     (case decode uni (nat connBufferSize) lim None (c_buf c) of
        Got cmd rest \<Rightarrow> (Got cmd [], c\<lparr>c_buf := rest\<rparr>)
      | Fail e \<Rightarrow> (Fail e, c)
      | Blocks \<Rightarrow>
          (case budget_read c of
             (Got got _, c') \<Rightarrow> decode_conn uni lim (c'\<lparr>c_buf := c_buf c' @ got\<rparr>)
           | (Blocks, c') \<Rightarrow> (Blocks, c')
           | (Fail e, c') \<Rightarrow> (decode uni (nat connBufferSize) lim (Some e) (c_buf c'), c')))"
  by pat_completeness auto
termination
  by (relation "measure (\<lambda>(uni, lim, c). length (c_input c) + sum_list (map length (c_input c)))")
    (auto dest: budget_read_Got(1) [OF sym])

declare decode_conn.simps [simp del]

section \<open>The batch\<close>

record output_buffer =
  ob_buf :: bytes
  ob_commands :: int
  ob_limit :: int

definition new_output_buffer :: "int \<Rightarrow> output_buffer" where
  "new_output_buffer limit = \<lparr>ob_buf = [], ob_commands = 0, ob_limit = limit\<rparr>"

definition out_append :: "'f float_ops \<Rightarrow> output_buffer \<Rightarrow> 'f reply \<Rightarrow> bytes option \<times> output_buffer" where
  "out_append F ob r =
     (case encode F r of
        Inl e \<Rightarrow> (Some e, ob)
      | Inr b \<Rightarrow>
          (let ob = ob\<lparr>ob_buf := ob_buf ob @ b, ob_commands := ob_commands ob + 1\<rparr>
           in if ob_limit ob > 0 \<and> int (length (ob_buf ob)) > ob_limit ob
              then (Some ''buffered reply exceeds the connection output limit'', ob) else (None, ob)))"

definition out_reset :: "output_buffer \<Rightarrow> output_buffer" where
  "out_reset ob = ob\<lparr>ob_buf := [], ob_commands := 0\<rparr>"

text \<open>\<open>flush\<close>: the write and the flush of the connection, as one outcome.\<close>

definition out_flush :: "conn \<Rightarrow> output_buffer \<Rightarrow> io_error option \<times> conn \<times> output_buffer" where
  "out_flush c ob =
     (if ob_buf ob = [] then (None, c, ob\<lparr>ob_commands := 0\<rparr>)
      else case c_write c (c_writes c) of
             None \<Rightarrow> (None, c\<lparr>c_writes := c_writes c + 1, c_sent := c_sent c @ ob_buf ob\<rparr>, out_reset ob)
           | Some (n, e) \<Rightarrow>
               (Some e, c\<lparr>c_writes := c_writes c + 1, c_sent := c_sent c @ take n (ob_buf ob)\<rparr>, out_reset ob))"

section \<open>The loop\<close>

definition pipelineFlushBytes :: int where "pipelineFlushBytes = connBufferSize"

record turn =
  tn_readings :: readings
  tn_ctx1 :: bool
  tn_ctx2 :: bool

record 'w serving =
  ls_sess :: session
  ls_srv :: "'w server"
  ls_conn :: conn
  ls_out :: output_buffer

datatype progress = Continue | Finished | Waiting

definition bump :: "(conn_counters \<Rightarrow> conn_counters) \<Rightarrow> 'w server \<Rightarrow> 'w server" where
  "bump f srv = srv\<lparr>srv_conns := f (srv_conns srv)\<rparr>"

definition batch_ends :: "bool \<Rightarrow> 'w serving \<Rightarrow> bool \<Rightarrow> bool" where
  "batch_ends ctx st closeConn =
     (if closeConn \<or> ctx then True
      else if ob_commands (ls_out st) \<ge> MaxPipelineCommands (srv_limits (ls_srv st)) then True
      else if int (length (ob_buf (ls_out st))) \<ge> pipelineFlushBytes then True
      else \<not> request_buffered (c_buf (ls_conn st)))"

definition note_write_failure :: "bool \<Rightarrow> io_error \<Rightarrow> 'w server \<Rightarrow> 'w server" where
  "note_write_failure ctx e srv =
     (if e = DeadlineExceeded \<and> \<not> ctx then bump (\<lambda>c. c\<lparr>stalledClosed := stalledClosed c + 1\<rparr>) srv else srv)"

definition decode_error_reply :: "bool \<Rightarrow> io_error \<Rightarrow> 'w server \<Rightarrow> 'f reply option \<times> 'w server" where
  "decode_error_reply ctx e srv =
     (case e of
        Protocol m \<Rightarrow> (Some (errorf (protocol_error_text m)), srv)
      | RequestTooLarge \<Rightarrow>
          (Some (errorf ''Protocol error: request is too large''),
           bump (\<lambda>c. c\<lparr>requestClosed := requestClosed c + 1\<rparr>) srv)
      | EOF \<Rightarrow> (None, srv)
      | NetClosed \<Rightarrow> (None, srv)
      | _ \<Rightarrow>
          if ctx then (None, srv)
          else if e = DeadlineExceeded then (None, bump (\<lambda>c. c\<lparr>idleClosed := idleClosed c + 1\<rparr>) srv)
          else (None, srv))"

definition handle_decode_error :: "'f float_ops \<Rightarrow> turn \<Rightarrow> io_error \<Rightarrow> 'w serving \<Rightarrow> 'w serving" where
  "handle_decode_error F tn e st =
     (case decode_error_reply (tn_ctx1 tn) e (ls_srv st) of
        (r, srv) \<Rightarrow>
          (let ob = (case r of None \<Rightarrow> ls_out st | Some reply \<Rightarrow> snd (out_append F (ls_out st) reply))
           in case out_flush (ls_conn st) ob of
                (None, c, ob) \<Rightarrow> st\<lparr>ls_srv := srv, ls_conn := c, ls_out := ob\<rparr>
              | (Some we, c, ob) \<Rightarrow>
                  st\<lparr>ls_srv := note_write_failure (tn_ctx2 tn) we srv, ls_conn := c, ls_out := ob\<rparr>))"

text \<open>One iteration of the loop of \<open>Handle\<close>.\<close>

definition handle_turn ::
    "'x platform \<Rightarrow> 'f float_ops \<Rightarrow> turn \<Rightarrow> 'w serving \<Rightarrow> progress \<times> 'w serving" where
  "handle_turn P F tn st =
     (case decode_conn (unicode_upper P) (srv_codecLimits (ls_srv st)) (ls_conn st) of
        (Blocks, c) \<Rightarrow> (Waiting, st\<lparr>ls_conn := c\<rparr>)
      | (Fail e, c) \<Rightarrow> (Finished, handle_decode_error F tn e (st\<lparr>ls_conn := c\<rparr>))
      | (Got cmd _, c) \<Rightarrow>
          (case dispatch P (tn_readings tn) cmd (ls_sess st) (ls_srv st) of
             ((reply, closeConn), s, srv) \<Rightarrow>
               (case out_append F (ls_out st) reply of
                  (Some e, ob) \<Rightarrow>
                    (Finished, st\<lparr>ls_sess := s, ls_conn := touch c, ls_out := ob,
                        ls_srv := bump (\<lambda>k. k\<lparr>outputClosed := outputClosed k + 1\<rparr>) srv\<rparr>)
                | (None, ob) \<Rightarrow>
                    (let st' = st\<lparr>ls_sess := s, ls_srv := srv, ls_conn := touch c, ls_out := ob\<rparr>
                     in if \<not> batch_ends (tn_ctx1 tn) st' closeConn then (Continue, st')
                        else case out_flush (ls_conn st') ob of
                               (Some we, c', ob') \<Rightarrow>
                                 (Finished, st'\<lparr>ls_conn := c', ls_out := ob',
                                     ls_srv := note_write_failure (tn_ctx2 tn) we srv\<rparr>)
                             | (None, c', ob') \<Rightarrow>
                                 ((if closeConn \<or> tn_ctx2 tn then Finished else Continue),
                                  st'\<lparr>ls_conn := c', ls_out := ob'\<rparr>)))))"

lemma decode_conn_left:
  "decode_conn uni lim c = (Got cmd r, c') \<Longrightarrow> conn_left c' < conn_left c"
proof (induction uni lim c rule: decode_conn.induct)
  case (1 uni lim c)
  note unf = decode_conn.simps [of uni lim c]
  show ?case
  proof (cases "decode uni (nat connBufferSize) lim None (c_buf c)")
    case (Got cmd' rest)
    then show ?thesis using "1.prems" decode_consumes [OF Got] by (auto simp: unf conn_left_def)
  next
    case Blocks
    obtain x c1 where b: "budget_read c = (x, c1)" by fastforce
    show ?thesis
    proof (cases x)
      case (Got got r')
      have "conn_left (c1\<lparr>c_buf := c_buf c1 @ got\<rparr>) = conn_left c"
        using budget_read_Got(2,3) [OF b [unfolded Got]] by (simp add: conn_left_def length_concat [symmetric])
      moreover have "decode_conn uni lim (c1\<lparr>c_buf := c_buf c1 @ got\<rparr>) = (Got cmd r, c')"
        using "1.prems" Blocks b Got by (simp add: unf)
      ultimately show ?thesis using "1.IH" [OF Blocks b [symmetric] Got] by simp
    next
      case (Fail e)
      then have "c1 = c" using b by (auto simp: budget_read_def Let_def split: if_splits list.splits option.splits)
      moreover obtain e' where "decode uni (nat connBufferSize) lim (Some e) (c_buf c) = Fail e'"
        using decode_blocked [OF Blocks] by blast
      ultimately show ?thesis using "1.prems" Blocks b Fail by (simp add: unf)
    qed (use "1.prems" Blocks b in \<open>simp add: unf\<close>)
  qed (use "1.prems" in \<open>simp add: unf\<close>)
qed

text \<open>\<open>Handle\<close>'s loop: every turn that goes on has consumed a request, so the loop ends.\<close>

lemma handle_turn_left:
  assumes "handle_turn P F tn st = (Continue, st')"
  shows "conn_left (ls_conn st') < conn_left (ls_conn st)"
proof -
  obtain x c where d: "decode_conn (unicode_upper P) (srv_codecLimits (ls_srv st)) (ls_conn st) = (x, c)" by fastforce
  then obtain cmd r where x: "x = Got cmd r"
    using assms by (cases x) (auto simp: handle_turn_def)
  have "conn_left c < conn_left (ls_conn st)" by (rule decode_conn_left [OF d [unfolded x]])
  moreover have "conn_left (ls_conn st') = conn_left c"
    using assms unfolding handle_turn_def d x
    by (auto simp: conn_left_def touch_def budget_reset_def out_flush_def Let_def
        split: prod.splits option.splits if_splits)
  ultimately show ?thesis by simp
qed

function handle_loop ::
    "'x platform \<Rightarrow> 'f float_ops \<Rightarrow> (nat \<Rightarrow> turn) \<Rightarrow> nat \<Rightarrow> 'w serving \<Rightarrow> progress \<times> 'w serving" where
  "handle_loop P F tns i st =
     (case handle_turn P F (tns i) st of
        (Continue, st') \<Rightarrow> handle_loop P F tns (i + 1) st'
      | (p, st') \<Rightarrow> (p, st'))"
  by pat_completeness auto
termination
  by (relation "measure (\<lambda>(P, F, tns, i, st). conn_left (ls_conn st))") (auto intro!: handle_turn_left [OF sym])

declare handle_loop.simps [simp del]

text \<open>\<open>Handle\<close>: the session is opened and, once the loop is over, closed.\<close>

definition handle ::
    "'x platform \<Rightarrow> 'f float_ops \<Rightarrow> (nat \<Rightarrow> turn) \<Rightarrow> bytes \<Rightarrow> conn \<Rightarrow> 'w server \<Rightarrow> progress \<times> 'w serving" where
  "handle P F tns addr c srv =
     (case new_session addr srv of
        (s, srv) \<Rightarrow>
          (case handle_loop P F tns 0
              \<lparr>ls_sess = s, ls_srv = srv, ls_conn = c, ls_out = new_output_buffer (MaxOutputBytes (srv_limits srv))\<rparr> of
             (Finished, st) \<Rightarrow> (Finished, st\<lparr>ls_srv := close_session (ls_sess st) (ls_srv st)\<rparr>)
           | (p, st) \<Rightarrow> (p, st)))"

end
