(* ===== verification/Commands_Frame.thy ===== *)
theory Commands_Frame
  imports Commands_Spec
begin

text \<open>
  What holds of every handler of \<open>internal/server/commands.go\<close>: its reply can be encoded, and it
  leaves the server's configuration alone, whatever it does to the keyspace and the counters.
\<close>

section \<open>Every reply can be encoded\<close>

fun no_holes :: "'f reply \<Rightarrow> bool" where
  "no_holes NoReply = False"
| "no_holes (Array rs) = list_all no_holes rs"
| "no_holes (SetReply rs) = list_all no_holes rs"
| "no_holes (Push rs) = list_all no_holes rs"
| "no_holes (MapReply kvs) = list_all (\<lambda>kv. no_holes (fst kv) \<and> no_holes (snd kv)) kvs"
| "no_holes (Attribute _ r) = (r = NoReply \<or> no_holes r)"
| "no_holes _ = True"

lemma append_reply_total:
  "no_holes r \<Longrightarrow> \<exists>b. append_reply F dst r = Inr b"
  "list_all no_holes rs \<Longrightarrow> \<exists>b. append_elements F dst rs = Inr b"
  "list_all (\<lambda>kv. no_holes (fst kv) \<and> no_holes (snd kv)) kvs \<Longrightarrow> \<exists>b. append_kvs F dst kvs = Inr b"
proof (induction F dst r and F dst rs and F dst kvs rule: append_reply_append_elements_append_kvs.induct)
  case (8 F dst x xs)
  then show ?case by (auto split: sum.split)
next
  case (10 F dst k v kvs)
  then show ?case by (fastforce split: sum.split)
qed (auto simp: append_scalar_def)

lemma no_holes_basic [simp]:
  "no_holes (errorf m)" "no_holes err_no_auth" "no_holes err_wrong_pass" "no_holes err_no_proto"
  "no_holes err_syntax" "no_holes err_not_an_integer" "no_holes (err_expire_time n)" "no_holes (applied b)"
  "no_holes (store_failure e)" "no_holes (scan_failure e)"
  by (simp_all add: errorf_def err_no_auth_def err_wrong_pass_def err_no_proto_def err_syntax_def
      err_not_an_integer_def err_expire_time_def applied_def store_failure_def scan_failure_def split: store_error.split)

lemma no_holes_parsers:
  "scan_options_loop P opts args = Inl bad \<Longrightarrow> no_holes bad"
  "parse_scan_options P args = Inl bad \<Longrightarrow> no_holes bad"
  "parse_scan_cursor arg = Inl bad \<Longrightarrow> no_holes bad"
  "parse_set_expiry P now args = Inl bad \<Longrightarrow> no_holes bad"
proof -
  show loop: "scan_options_loop P opts args = Inl bad \<Longrightarrow> no_holes bad" for opts args bad
    by (induction P opts args rule: scan_options_loop.induct) (auto simp: Let_def split: if_splits option.splits)
  show "parse_scan_options P args = Inl bad \<Longrightarrow> no_holes bad"
    by (auto simp: parse_scan_options_def dest: loop)
qed (auto simp: parse_scan_cursor_def parse_set_expiry_def Let_def split: option.splits if_splits)

lemma no_holes_auth: "no_holes (fst (auth_handler P t cmd s srv))"
  by (simp add: auth_handler_def Let_def split: option.split auth_error.split)

lemma no_holes_hello_options:
  fixes r :: "'f reply" and srv :: "'w server"
  assumes "hello_options P t args s srv = (Some r, s', srv')"
  shows "no_holes r"
  using assms
proof (induction "length args" arbitrary: args s srv rule: less_induct)
  case less
  show ?case
  proof (cases args)
    case (Cons a rest)
    let ?c = "\<lparr>cmd_name = cmdAuth, cmd_args = take 2 rest\<rparr>"
    obtain x s1 srv1 where h: "auth_handler P t ?c s srv = (x :: 'f reply, s1, srv1)"
      by (cases "auth_handler P t ?c s srv :: 'f reply \<times> session \<times> 'w server") auto
    have "no_holes x" by (metis no_holes_auth h fst_conv)
    then show ?thesis
      using less.prems less.hyps [of "drop 2 rest" s1 srv1] h Cons
      by (cases x) (auto simp: hello_options.simps [of P t "a # rest"] split: if_splits)
  qed (use less.prems in \<open>simp add: hello_options.simps\<close>)
qed

lemma no_holes_hello: "no_holes (fst (hello_handler P t cmd s srv))"
  by (auto simp: hello_handler_def hello_properties_def split: list.split option.split prod.split
      dest: no_holes_hello_options)

lemma no_holes_data:
  "no_holes (fst (set_handler P t cmd s srv))" "no_holes (fst (setnx_handler P t cmd s srv))"
  "no_holes (fst (get_handler P t cmd s srv))" "no_holes (fst (del_handler P t cmd s srv))"
  "no_holes (fst (exists_handler P t cmd s srv))" "no_holes (fst (keys_handler P t cmd s srv))"
  "no_holes (fst (ttl_handler P t cmd s srv))" "no_holes (fst (expire_handler P t cmd s srv))"
  by (simp_all add: set_handler_def setnx_handler_def get_handler_def del_handler_def exists_handler_def
      keys_handler_def ttl_handler_def expire_handler_def Let_def list_all_iff no_holes_parsers
      split: option.split sum.split prod.split)

lemma no_holes_scan: "no_holes (fst (scan_handler P t cmd s srv))"
  by (simp add: scan_handler_def list_all_iff no_holes_parsers split: sum.split prod.split)

lemma no_holes_stats: "no_holes (fst (stats_handler P t cmd s srv))"
  by (simp add: stats_handler_def counter_def split: prod.split)

lemma no_holes_others:
  "no_holes (fst (ping_handler P t cmd s srv))" "no_holes (fst (quit_handler P t cmd s srv))"
  "no_holes (fst (echo_handler P t cmd s srv))" "no_holes (fst (command_handler P t cmd s srv))"
  "no_holes (fst (dbsize_handler P t cmd s srv))" "no_holes (fst (info_handler P t cmd s srv))"
  by (simp_all add: ping_handler_def quit_handler_def echo_handler_def command_handler_def dbsize_handler_def
      info_handler_def Let_def split: prod.split)

lemma dispatch_no_holes:
  fixes P :: "'x platform" and srv :: "'w server"
  shows "no_holes (fst (fst (dispatch P t cmd s srv :: ('f reply \<times> bool) \<times> session \<times> 'w server)))"
proof -
  have l: "list_all (\<lambda>row. no_holes (fst (handler (snd row) P t cmd s srv)))
      (commands :: (bytes \<times> ('x, 'w, 'f) command_spec) list)" for srv
    by (simp add: commands_def no_holes_auth no_holes_hello no_holes_data no_holes_scan no_holes_stats no_holes_others)
  have h: "no_holes (fst (handler spec P t cmd s srv))"
    if "map_of (commands :: (bytes \<times> ('x, 'w, 'f) command_spec) list) n = Some spec" for n spec srv
    using l [of srv] map_of_SomeD [OF that] by (auto simp: list_all_iff)
  show ?thesis
  proof (cases "map_of (commands :: (bytes \<times> ('x, 'w, 'f) command_spec) list) (cmd_name cmd)")
    case (Some spec)
    then show ?thesis using h [OF Some, of "count_command srv"] by (auto simp: dispatch_def Let_def split: prod.split)
  qed (simp add: dispatch_def Let_def)
qed

lemma dispatch_encodes:
  "\<exists>b. encode F (fst (fst (dispatch P t cmd s srv))) = Inr b"
  unfolding encode_def by (rule append_reply_total(1) [OF dispatch_no_holes])


section \<open>What a command leaves alone\<close>

definition same_server :: "'w server \<Rightarrow> 'w server \<Rightarrow> bool" where
  "same_server a b \<longleftrightarrow> srv_store b = srv_store a \<and> srv_addr b = srv_addr a \<and> srv_auth b = srv_auth a
     \<and> srv_limits b = srv_limits a \<and> srv_codecLimits b = srv_codecLimits a"

lemma same_server_basic [simp]:
  "same_server a a" "same_server a (count_command b) = same_server a b" "same_server (count_command a) b = same_server a b"
  by (auto simp: same_server_def)

lemma same_server_trans: "same_server a b \<Longrightarrow> same_server b c \<Longrightarrow> same_server a c"
  by (simp add: same_server_def)

lemma on_store_same: "on_store f a = (x, b) \<Longrightarrow> same_server a b"
  by (auto simp: on_store_def same_server_def split: prod.splits)

lemma count_loop_same: "count_loop f ks n a = (m, b) \<Longrightarrow> same_server a b"
  by (induction f ks n a rule: count_loop.induct)
    (auto split: prod.splits dest: on_store_same intro: same_server_trans)

definition keeps_server :: "('x, 'w, 'f) handler \<Rightarrow> bool" where
  "keeps_server h \<longleftrightarrow> (\<forall>P t cmd s srv. same_server srv (snd (snd (h P t cmd s srv))))"

lemma keeps_server_store:
  "keeps_server set_handler" "keeps_server setnx_handler" "keeps_server get_handler" "keeps_server keys_handler"
  "keeps_server ttl_handler" "keeps_server expire_handler" "keeps_server scan_handler" "keeps_server stats_handler"
  "keeps_server dbsize_handler" "keeps_server info_handler"
  by (auto simp: keeps_server_def set_handler_def setnx_handler_def get_handler_def keys_handler_def ttl_handler_def
      expire_handler_def scan_handler_def stats_handler_def dbsize_handler_def info_handler_def Let_def
      split: option.split sum.split prod.split dest: on_store_same)

lemma keeps_server_others:
  "keeps_server del_handler" "keeps_server exists_handler" "keeps_server ping_handler" "keeps_server quit_handler"
  "keeps_server echo_handler" "keeps_server command_handler" "keeps_server auth_handler"
  by (auto simp: keeps_server_def del_handler_def exists_handler_def ping_handler_def quit_handler_def echo_handler_def
      command_handler_def auth_handler_def Let_def split: option.split prod.split auth_error.split dest: count_loop_same)

lemma keeps_server_hello: "keeps_server (hello_handler :: ('x, 'w, 'f) handler)"
proof -
  have "snd (snd (hello_handler P t cmd s srv :: 'f reply \<times> session \<times> 'w server)) = srv"
    for P :: "'x platform" and t cmd s and srv :: "'w server"
    by (cases "hello_handler P t cmd s srv :: 'f reply \<times> session \<times> 'w server") (auto dest: hello_handler_cases)
  then show ?thesis by (simp add: keeps_server_def)
qed

lemma dispatch_same:
  fixes P :: "'x platform" and srv :: "'w server" and r :: "'f reply"
  assumes "dispatch P t cmd s srv = ((r, cl), s', srv')"
  shows "same_server srv srv'"
proof -
  have l: "list_all (\<lambda>row. keeps_server (handler (snd row))) (commands :: (bytes \<times> ('x, 'w, 'f) command_spec) list)"
    by (simp add: commands_def keeps_server_store keeps_server_others keeps_server_hello)
  show ?thesis
  proof (cases "map_of (commands :: (bytes \<times> ('x, 'w, 'f) command_spec) list) (cmd_name cmd)")
    case (Some spec)
    have "keeps_server (handler spec)"
      using l map_of_SomeD [OF Some] by (auto simp: list_all_iff)
    then have "same_server srv (snd (snd (handler spec P t cmd s (count_command srv))))"
      by (metis keeps_server_def same_server_basic(3))
    then show ?thesis using assms Some by (auto simp: dispatch_def Let_def split: if_splits prod.splits)
  qed (use assms in \<open>auto simp: dispatch_def Let_def split: if_splits\<close>)
qed

end
