(* ===== verification/Serve_Spec.thy ===== *)
theory Serve_Spec
  imports Serve Commands_Frame
begin

text \<open>
  What the connection loop promises (\<open>internal/server/server.go\<close>): a request within the byte budget is
  never refused, however its bytes are packed with others; the loop's batching is invisible in the
  bytes the client receives; replies are not held back over a read that blocks; and what waits in
  the batch is bounded.
\<close>

section \<open>Reading a request under the budget\<close>

lemma budget_read_other:
  "budget_read c = (Blocks, c') \<Longrightarrow> c' = c \<and> c_input c = [] \<and> c_end c = None"
  "budget_read c = (Fail e, c') \<Longrightarrow> c' = c \<and>
     (c_limit c > 0 \<and> c_limit c \<le> c_spent c \<and> e = RequestTooLarge \<or> c_input c = [] \<and> c_end c = Some e)"
  by (auto simp: budget_read_def Let_def split: if_splits list.splits option.splits)

definition same_socket :: "conn \<Rightarrow> conn \<Rightarrow> bool" where
  "same_socket c c' \<longleftrightarrow> c_end c' = c_end c \<and> c_limit c' = c_limit c \<and> c_write c' = c_write c
     \<and> c_writes c' = c_writes c \<and> c_sent c' = c_sent c"

lemma same_socket_trans: "same_socket a b \<Longrightarrow> same_socket b c \<Longrightarrow> same_socket a c"
  by (simp add: same_socket_def)

lemma budget_read_same: "budget_read c = (x, c') \<Longrightarrow> same_socket c c'"
  by (cases x) (auto simp: same_socket_def dest: budget_read_Got(4-8) budget_read_other)

text \<open>What is left to read for a request that ends where \<open>rest\<close> begins, against what may be read.\<close>

definition within_budget :: "conn \<Rightarrow> int \<Rightarrow> bool" where
  "within_budget c n \<longleftrightarrow> c_limit c \<le> 0 \<or> n - int (length (c_buf c)) \<le> c_limit c - c_spent c"

lemma within_budget_step:
  assumes "budget_read c = (Got got r, c')" "within_budget c n"
  shows "within_budget (c'\<lparr>c_buf := c_buf c' @ got\<rparr>) n"
  using assms(2) budget_read_Got(3,5,9) [OF assms(1)] by (auto simp: within_budget_def)

abbreviation pending :: "conn \<Rightarrow> bytes" where
  "pending c \<equiv> c_buf c @ concat (c_input c)"

lemma pending_step:
  "budget_read c = (Got got r, c') \<Longrightarrow> pending (c'\<lparr>c_buf := c_buf c' @ got\<rparr>) = pending c"
  using budget_read_Got(2,3) by simp

lemma decode_conn_Got:
  assumes "decode uni (nat connBufferSize) lim None (pending c) = Got cmd rest"
    and "within_budget c (int (length (pending c)) - int (length rest))"
  shows "\<exists>c'. decode_conn uni lim c = (Got cmd [], c') \<and> pending c' = rest \<and> same_socket c c'"
  using assms
proof (induction uni lim c rule: decode_conn.induct)
  case (1 uni lim c)
  note unf = decode_conn.simps [of uni lim c]
  note more = decode_more [of uni "nat connBufferSize" lim "c_buf c" None "concat (c_input c)"]
  show ?case
  proof (cases "decode uni (nat connBufferSize) lim None (c_buf c)")
    case (Got cmd' rest')
    then show ?thesis using more "1.prems"(1) by (auto simp: unf same_socket_def)
  next
    case (Fail e)
    then show ?thesis using more "1.prems"(1) by simp
  next
    case Blocks
    obtain p where p: "pending c = p @ rest" "decode uni (nat connBufferSize) lim None p = Got cmd []"
      using decode_prefix [OF "1.prems"(1)] by blast
    have short: "length (c_buf c) < length p"
    proof (rule ccontr)
      assume "\<not> ?thesis"
      then have "c_buf c = p @ drop (length p) (c_buf c)"
        using p(1) by (metis append_eq_append_conv_if append_take_drop_id not_less)
      then show False
        using decode_more [of uni "nat connBufferSize" lim p None "drop (length p) (c_buf c)"] p(2) Blocks by simp
    qed
    obtain x c1 where b: "budget_read c = (x, c1)" by fastforce
    show ?thesis
    proof (cases x)
      case (Got got r)
      note g = b [unfolded Got]
      have "\<exists>c'. decode_conn uni lim (c1\<lparr>c_buf := c_buf c1 @ got\<rparr>) = (Got cmd [], c') \<and> pending c' = rest
          \<and> same_socket (c1\<lparr>c_buf := c_buf c1 @ got\<rparr>) c'"
        by (rule "1.IH" [OF Blocks b [symmetric] Got, unfolded pending_step [OF g], OF "1.prems"(1)
            within_budget_step [OF g "1.prems"(2)]])
      moreover have "same_socket c (c1\<lparr>c_buf := c_buf c1 @ got\<rparr>)"
        using budget_read_same [OF g] by (simp add: same_socket_def)
      ultimately show ?thesis using Blocks g by (auto simp: unf intro: same_socket_trans)
    next
      case Blocks: Blocks
      then have "c_input c = []" using b budget_read_other(1) by blast
      then show ?thesis using p(1) short by simp
    next
      case (Fail e)
      then have "c_limit c > 0 \<and> c_limit c \<le> c_spent c \<or> c_input c = []" using b budget_read_other(2) by blast
      then show ?thesis using p(1) short "1.prems"(2) by (auto simp: within_budget_def)
    qed
  qed
qed

lemma decode_conn_end:
  assumes "decode uni (nat connBufferSize) lim None (pending c) = d" "\<forall>cmd r. d \<noteq> Got cmd r"
    and "c_end c = None" "within_budget c (int (length (pending c)) + 1)"
  shows "\<exists>c'. decode_conn uni lim c = (d, c') \<and> same_socket c c'
    \<and> (d = Blocks \<longrightarrow> c_buf c' = pending c \<and> c_input c' = [])"
  using assms
proof (induction uni lim c rule: decode_conn.induct)
  case (1 uni lim c)
  note unf = decode_conn.simps [of uni lim c]
  note more = decode_more [of uni "nat connBufferSize" lim "c_buf c" None "concat (c_input c)"]
  show ?case
  proof (cases "decode uni (nat connBufferSize) lim None (c_buf c)")
    case (Got cmd' rest')
    then show ?thesis using more "1.prems"(1,2) by simp
  next
    case (Fail e)
    then show ?thesis using more "1.prems"(1) by (auto simp: unf same_socket_def)
  next
    case Blocks
    obtain x c1 where b: "budget_read c = (x, c1)" by fastforce
    show ?thesis
    proof (cases x)
      case (Got got r)
      note g = b [unfolded Got]
      have e: "c_end (c1\<lparr>c_buf := c_buf c1 @ got\<rparr>) = None" using "1.prems"(3) budget_read_Got(4) [OF g] by simp
      have "\<exists>c'. decode_conn uni lim (c1\<lparr>c_buf := c_buf c1 @ got\<rparr>) = (d, c')
          \<and> same_socket (c1\<lparr>c_buf := c_buf c1 @ got\<rparr>) c'
          \<and> (d = Blocks \<longrightarrow> c_buf c' = pending c \<and> c_input c' = [])"
        by (rule "1.IH" [OF Blocks b [symmetric] Got, unfolded pending_step [OF g], OF "1.prems"(1,2) e
            within_budget_step [OF g "1.prems"(4)]])
      moreover have "same_socket c (c1\<lparr>c_buf := c_buf c1 @ got\<rparr>)"
        using budget_read_same [OF g] by (simp add: same_socket_def)
      ultimately show ?thesis using Blocks g by (auto simp: unf intro: same_socket_trans)
    next
      case x: Blocks
      then have "c1 = c" "c_input c = []" using b budget_read_other(1) by blast+
      then show ?thesis using Blocks b x "1.prems"(1) by (auto simp: unf same_socket_def)
    next
      case (Fail e)
      then have "c_limit c > 0 \<and> c_limit c \<le> c_spent c" using b budget_read_other(2) "1.prems"(3) by fastforce
      then show ?thesis using "1.prems"(4) by (simp add: within_budget_def)
    qed
  qed
qed

text \<open>
  A request is never refused for arriving in company. When the bytes a connection still has to
  deliver begin with a request that is no longer than the byte budget, \<open>Decode\<close> returns it and leaves
  exactly what follows it, however the bytes are split over reads and whatever comes after; although
  a read that brings later requests along is charged to this one.
\<close>

lemma budget_spares_fitting_request:
  assumes "decode uni (nat connBufferSize) lim None (c_buf c @ concat (c_input c)) = Got cmd rest"
    and "int (length (c_buf c @ concat (c_input c))) - int (length rest) \<le> c_limit c" and "c_spent c = 0"
  shows "\<exists>c'. decode_conn uni lim c = (Got cmd [], c') \<and> c_buf c' @ concat (c_input c') = rest"
proof -
  have "within_budget c (int (length (pending c)) - int (length rest))"
    using assms(2,3) by (simp add: within_budget_def)
  from decode_conn_Got [OF assms(1) this] show ?thesis by auto
qed

section \<open>One turn\<close>

text \<open>A reply as the bytes that are sent for it.\<close>

definition rendered :: "'f float_ops \<Rightarrow> 'f reply \<Rightarrow> bytes" where
  "rendered F r = (case encode F r of Inl _ \<Rightarrow> [] | Inr b \<Rightarrow> b)"

lemma encode_dispatch:
  "dispatch P t cmd s srv = ((r, cl), s', srv') \<Longrightarrow> encode F r = Inr (rendered F r)"
  using dispatch_encodes [of F P t cmd s srv] by (auto simp: rendered_def)

lemma encode_errorf [simp]: "encode F (errorf m) = Inr (rendered F (errorf m))"
  using append_reply_total(1) [of "errorf m" F "[]"] by (auto simp: encode_def rendered_def)

text \<open>What has been sent and what waits to be.\<close>

definition delivered :: "'w serving \<Rightarrow> bytes" where
  "delivered st = c_sent (ls_conn st) @ ob_buf (ls_out st)"

text \<open>A client that stays connected and reads what it is sent, and a server that is not shutting down.\<close>

definition steady_client :: "'w serving \<Rightarrow> bool" where
  "steady_client st \<longleftrightarrow> c_end (ls_conn st) = None \<and> c_write (ls_conn st) = (\<lambda>_. None)"

definition output_room :: "'w serving \<Rightarrow> nat \<Rightarrow> bool" where
  "output_room st n \<longleftrightarrow> ob_limit (ls_out st) \<le> 0 \<or> int (length (ob_buf (ls_out st))) + int n \<le> ob_limit (ls_out st)"

lemma out_flush_steady:
  assumes "c_write c = (\<lambda>_. None)"
  shows "\<exists>c' ob'. out_flush c ob = (None, c', ob') \<and> c_sent c' = c_sent c @ ob_buf ob \<and> ob_buf ob' = []
    \<and> ob_limit ob' = ob_limit ob \<and> c_buf c' = c_buf c \<and> c_input c' = c_input c \<and> c_end c' = c_end c
    \<and> c_limit c' = c_limit c \<and> c_spent c' = c_spent c \<and> c_write c' = c_write c"
  using assms by (simp add: out_flush_def out_reset_def)

lemma turn_request:
  assumes d: "decode_conn (unicode_upper P) (srv_codecLimits (ls_srv st)) (ls_conn st) = (Got cmd r0, c)"
    and x: "dispatch P (tn_readings tn) cmd (ls_sess st) (ls_srv st) = ((r :: 'f reply, cl), s, srv)"
    and same: "same_socket (ls_conn st) c" and "steady_client st" "output_room st (length (rendered F r))"
    and "\<not> tn_ctx2 tn"
  shows "\<exists>st'. handle_turn P F tn st = ((if cl then Finished else Continue), st') \<and> ls_sess st' = s \<and> ls_srv st' = srv
    \<and> delivered st' = delivered st @ rendered F r \<and> steady_client st' \<and> pending (ls_conn st') = pending c
    \<and> c_limit (ls_conn st') = c_limit (ls_conn st) \<and> c_spent (ls_conn st') = 0
    \<and> (cl \<longrightarrow> ob_buf (ls_out st') = [])
    \<and> (\<forall>n. output_room st (length (rendered F r) + n) \<longrightarrow> output_room st' n)"
proof -
  let ?ob = "(ls_out st)\<lparr>ob_buf := ob_buf (ls_out st) @ rendered F r, ob_commands := ob_commands (ls_out st) + 1\<rparr>"
  let ?st = "st\<lparr>ls_sess := s, ls_srv := srv, ls_conn := touch c, ls_out := ?ob\<rparr>"
  have oa: "out_append F (ls_out st) r = (None, ?ob)"
    using assms(5) encode_dispatch [OF x] by (auto simp: out_append_def output_room_def Let_def)
  have c: "c_end c = None" "c_write c = (\<lambda>_. None)" "c_sent c = c_sent (ls_conn st)" "c_limit c = c_limit (ls_conn st)"
    using same assms(4) by (simp_all add: same_socket_def steady_client_def)
  note t = handle_turn_def [of P F tn st] d x oa touch_def budget_reset_def
  show ?thesis
  proof (cases "batch_ends (tn_ctx1 tn) ?st cl")
    case False
    then have "\<not> cl" by (cases cl) (simp_all add: batch_ends_def)
    then show ?thesis using False c
      by (simp add: t delivered_def steady_client_def output_room_def)
  next
    case True
    obtain c' ob' where f: "out_flush (touch c) ?ob = (None, c', ob')" and
      p: "c_sent c' = c_sent (touch c) @ ob_buf ?ob" "ob_buf ob' = []" "ob_limit ob' = ob_limit ?ob"
        "c_buf c' = c_buf (touch c)" "c_input c' = c_input (touch c)" "c_end c' = c_end (touch c)"
        "c_limit c' = c_limit (touch c)" "c_spent c' = c_spent (touch c)" "c_write c' = c_write (touch c)"
      using out_flush_steady [of "touch c" ?ob] c by (auto simp: touch_def budget_reset_def)
    have "handle_turn P F tn st = ((if cl then Finished else Continue), ?st\<lparr>ls_conn := c', ls_out := ob'\<rparr>)"
      using True f assms(6) by (simp add: t)
    then show ?thesis
      using p c by (auto simp: delivered_def steady_client_def output_room_def touch_def budget_reset_def)
  qed
qed

text \<open>The end of what can be decoded: the client waits, or its stream is refused.\<close>

definition last_words :: "'f float_ops \<Rightarrow> io_error option \<Rightarrow> 'w server \<Rightarrow> bytes \<times> 'w server" where
  "last_words F e srv =
     (case e of
        None \<Rightarrow> ([], srv)
      | Some e \<Rightarrow>
          (case decode_error_reply False e srv of
             (None, srv) \<Rightarrow> ([], srv)
           | (Some r, srv) \<Rightarrow> (rendered F (r :: 'f reply), srv)))"

lemma decode_error_reply_text:
  "fst (decode_error_reply ctx e srv) = Some r \<Longrightarrow> \<exists>m. r = errorf m"
  by (auto simp: decode_error_reply_def split: io_error.splits if_splits)

lemma turn_end:
  fixes st :: "'w serving" and F :: "'f float_ops"
  assumes d: "decode_conn (unicode_upper P) (srv_codecLimits (ls_srv st)) (ls_conn st) = (x, c)"
    and x: "x = (case e of None \<Rightarrow> Blocks | Some e \<Rightarrow> Fail e)"
    and same: "same_socket (ls_conn st) c" and "steady_client st" and "\<not> tn_ctx1 tn"
  shows "\<exists>st'. handle_turn P F tn st = ((if e = None then Waiting else Finished), st') \<and> ls_sess st' = ls_sess st
    \<and> delivered st' = delivered st @ fst (last_words F e (ls_srv st)) \<and> ls_srv st' = snd (last_words F e (ls_srv st))
    \<and> (e \<noteq> None \<longrightarrow> ob_buf (ls_out st') = [])"
proof (cases e)
  case None
  then show ?thesis using d x same
    by (simp add: handle_turn_def last_words_def delivered_def same_socket_def)
next
  case (Some e')
  obtain ro srv where ro: "decode_error_reply False e' (ls_srv st) = ((ro :: 'f reply option), srv)"
    by (cases "decode_error_reply False e' (ls_srv st) :: 'f reply option \<times> 'w server") auto
  let ?ob = "case ro of None \<Rightarrow> ls_out st | Some reply \<Rightarrow> snd (out_append F (ls_out st) reply)"
  have ob: "ob_buf ?ob = ob_buf (ls_out st) @ fst (last_words F e (ls_srv st))"
  proof (cases ro)
    case (Some r)
    then obtain m where "r = errorf m" using decode_error_reply_text [of False e' "ls_srv st" r] ro by auto
    then show ?thesis using ro Some \<open>e = Some e'\<close> by (simp add: last_words_def out_append_def Let_def)
  qed (use ro Some in \<open>simp add: last_words_def\<close>)
  have w: "snd (last_words F e (ls_srv st)) = srv"
    using ro Some by (auto simp: last_words_def split: option.split)
  have "c_write c = (\<lambda>_. None)" "c_sent c = c_sent (ls_conn st)"
    using same assms(4) by (simp_all add: same_socket_def steady_client_def)
  moreover obtain c' ob' where f: "out_flush c ?ob = (None, c', ob')" and
    "c_sent c' = c_sent c @ ob_buf ?ob" "ob_buf ob' = []"
    using out_flush_steady [of c ?ob] calculation(1) by blast
  ultimately show ?thesis
    using d x Some ro assms(5) ob w
    by (cases ro) (simp_all add: handle_turn_def handle_decode_error_def delivered_def Let_def)
qed

section \<open>The whole stream\<close>

text \<open>The requests of a stream, each with its length, how it ends and what is left then.\<close>

function requests :: "(bytes \<Rightarrow> bytes) \<Rightarrow> limits \<Rightarrow> bytes \<Rightarrow> (command \<times> nat) list \<times> io_error option \<times> nat" where
  "requests uni lim inp =
     (case decode uni (nat connBufferSize) lim None inp of
        Got cmd rest \<Rightarrow>
          (case requests uni lim rest of (rs, e, left) \<Rightarrow> ((cmd, length inp - length rest) # rs, e, left))
      | Fail e \<Rightarrow> ([], Some e, length inp)
      | Blocks \<Rightarrow> ([], None, length inp))"
  by pat_completeness auto
termination
  by (relation "measure (\<lambda>(uni, lim, inp). length inp)") (auto dest: decode_consumes)

declare requests.simps [simp del]

text \<open>
  The specification: each request executed and answered before the next is looked at, with no
  batches, buffers or flushes. \<open>QUIT\<close> ends it.
\<close>

fun serve_in_order ::
    "'x platform \<Rightarrow> 'f float_ops \<Rightarrow> (nat \<Rightarrow> turn) \<Rightarrow> nat \<Rightarrow> (command \<times> nat) list \<Rightarrow> io_error option \<Rightarrow>
     session \<Rightarrow> 'w server \<Rightarrow> bytes \<times> session \<times> 'w server" where
  "serve_in_order P F tns i [] e s srv = (case last_words F e srv of (b, srv) \<Rightarrow> (b, s, srv))"
| "serve_in_order P F tns i ((cmd, _) # rs) e s srv =
     (case dispatch P (tn_readings (tns i)) cmd s srv of
        ((r, cl), s, srv) \<Rightarrow>
          if cl then (rendered F r, s, srv)
          else (case serve_in_order P F tns (i + 1) rs e s srv of (b, s, srv) \<Rightarrow> (rendered F r @ b, s, srv)))"

lemma output_room_mono: "output_room st n \<Longrightarrow> m \<le> n \<Longrightarrow> output_room st m"
  by (auto simp: output_room_def)

text \<open>The stream keeps within the byte budget: each request, and what is left at the end.\<close>

definition fits_budget :: "int \<Rightarrow> (command \<times> nat) list \<times> io_error option \<times> nat \<Rightarrow> bool" where
  "fits_budget limit = (\<lambda>(rs, e, left). limit \<le> 0 \<or> list_all (\<lambda>(cmd, n). int n \<le> limit) rs \<and> int left < limit)"

lemma requests_Got:
  assumes "decode uni (nat connBufferSize) lim None inp = Got cmd rest"
    and "requests uni lim inp = (rs, e, left)"
  obtains rs' where "requests uni lim rest = (rs', e, left)" "rs = (cmd, length inp - length rest) # rs'"
  using assms by (auto simp: requests.simps [of uni lim inp] split: prod.splits)

lemma requests_end:
  assumes "\<forall>cmd r. decode uni (nat connBufferSize) lim None inp \<noteq> Got cmd r"
    and "requests uni lim inp = (rs, e, left)"
  shows "rs = [] \<and> left = length inp
    \<and> decode uni (nat connBufferSize) lim None inp = (case e of None \<Rightarrow> Blocks | Some e \<Rightarrow> Fail e)"
  using assms by (cases "decode uni (nat connBufferSize) lim None inp")
    (auto simp: requests.simps [of uni lim inp])

lemma handle_loop_in_order:
  fixes F :: "'f float_ops" and st :: "'w serving"
  assumes "requests (unicode_upper P) (srv_codecLimits (ls_srv st)) (pending (ls_conn st)) = (rs, e, left)"
    and "serve_in_order P F tns i rs e (ls_sess st) (ls_srv st) = (out, s', srv')"
    and "\<And>j. \<not> tn_ctx1 (tns j) \<and> \<not> tn_ctx2 (tns j)"
    and "steady_client st" "c_spent (ls_conn st) = 0"
    and "fits_budget (c_limit (ls_conn st)) (rs, e, left)" "output_room st (length out)"
  shows "\<exists>p st'. handle_loop P F tns i st = (p, st') \<and> delivered st' = delivered st @ out
    \<and> ls_sess st' = s' \<and> ls_srv st' = srv' \<and> p \<noteq> Continue \<and> (p = Finished \<longrightarrow> ob_buf (ls_out st') = [])"
  using assms
proof (induction "length (pending (ls_conn st))" arbitrary: st i rs out rule: less_induct)
  case less
  let ?uni = "unicode_upper P" and ?lim = "srv_codecLimits (ls_srv st)" and ?c = "ls_conn st"
  note unf = handle_loop.simps [of P F tns i st]
  have b: "within_budget ?c n" if "c_limit ?c \<le> 0 \<or> n - int (length (c_buf ?c)) \<le> c_limit ?c" for n
    using that less.prems(5) by (simp add: within_budget_def)
  show ?case
  proof (cases "\<exists>cmd rest. decode ?uni (nat connBufferSize) ?lim None (pending ?c) = Got cmd rest")
    case True
    then obtain cmd rest where g: "decode ?uni (nat connBufferSize) ?lim None (pending ?c) = Got cmd rest" by blast
    have sh: "length rest < length (pending ?c)" by (rule decode_consumes [OF g])
    obtain rs' where rq: "requests ?uni ?lim rest = (rs', e, left)" "rs = (cmd, length (pending ?c) - length rest) # rs'"
      using requests_Got [OF g less.prems(1)] by blast
    have "c_limit ?c \<le> 0 \<or> int (length (pending ?c) - length rest) \<le> c_limit ?c"
      using less.prems(6) rq(2) by (auto simp: fits_budget_def)
    then have "within_budget ?c (int (length (pending ?c)) - int (length rest))"
      using sh by (intro b) (auto simp: of_nat_diff)
    from decode_conn_Got [OF g this] obtain c where
      c: "decode_conn ?uni ?lim ?c = (Got cmd [], c)" "pending c = rest" "same_socket ?c c" by blast
    obtain r cl s srv where x: "dispatch P (tn_readings (tns i)) cmd (ls_sess st) (ls_srv st) = ((r :: 'f reply, cl), s, srv)"
      by (cases "dispatch P (tn_readings (tns i)) cmd (ls_sess st) (ls_srv st) :: ('f reply \<times> bool) \<times> session \<times> 'w server") auto
    have room: "output_room st (length (rendered F r))"
      using less.prems(2,7) rq(2) x by (auto split: if_splits prod.splits elim: output_room_mono)
    from turn_request [OF c(1) x c(3) less.prems(4) room conjunct2 [OF less.prems(3)]] obtain st' where
      t: "handle_turn P F (tns i) st = ((if cl then Finished else Continue), st')" and
      st': "ls_sess st' = s" "ls_srv st' = srv" "delivered st' = delivered st @ rendered F r" "steady_client st'"
        "pending (ls_conn st') = pending c" "c_limit (ls_conn st') = c_limit ?c" "c_spent (ls_conn st') = 0"
        "cl \<Longrightarrow> ob_buf (ls_out st') = []"
        "\<And>n. output_room st (length (rendered F r) + n) \<Longrightarrow> output_room st' n" by blast
    show ?thesis
    proof (cases cl)
      case True
      then show ?thesis using t st' x less.prems(2) rq(2) by (simp add: unf)
    next
      case False
      obtain b where so: "serve_in_order P F tns (i + 1) rs' e s srv = (b, s', srv')" "out = rendered F r @ b"
        using less.prems(2) rq(2) x False by (auto split: prod.splits)
      have "srv_codecLimits srv = ?lim" using dispatch_same [OF x] by (simp add: same_server_def)
      then have rq': "requests ?uni (srv_codecLimits (ls_srv st')) (pending (ls_conn st')) = (rs', e, left)"
        using rq(1) c(2) st'(2,5) by simp
      have "\<exists>p st''. handle_loop P F tns (i + 1) st' = (p, st'') \<and> delivered st'' = delivered st' @ b
          \<and> ls_sess st'' = s' \<and> ls_srv st'' = srv' \<and> p \<noteq> Continue \<and> (p = Finished \<longrightarrow> ob_buf (ls_out st'') = [])"
      proof (rule less.hyps [OF _ rq' _ less.prems(3) st'(4,7)])
        show "length (pending (ls_conn st')) < length (pending ?c)" using sh c(2) st'(5) by simp
        show "serve_in_order P F tns (i + 1) rs' e (ls_sess st') (ls_srv st') = (b, s', srv')" using so(1) st' by simp
        show "fits_budget (c_limit (ls_conn st')) (rs', e, left)"
          using less.prems(6) rq(2) st'(6) by (auto simp: fits_budget_def)
        show "output_room st' (length b)" using less.prems(7) so(2) by (intro st'(9)) simp
      qed
      then show ?thesis using t False st'(3) so(2) by (simp add: unf)
    qed
  next
    case False
    then have fin: "\<forall>cmd r. decode ?uni (nat connBufferSize) ?lim None (pending ?c) \<noteq> Got cmd r" by blast
    note e = requests_end [OF fin less.prems(1)]
    have "within_budget ?c (int (length (pending ?c)) + 1)"
      using less.prems(6) e by (intro b) (auto simp: fits_budget_def)
    from decode_conn_end [OF refl fin _ this] less.prems(4) obtain c where
      c: "decode_conn ?uni ?lim ?c = (case e of None \<Rightarrow> Blocks | Some e \<Rightarrow> Fail e, c)" "same_socket ?c c"
      using e by (auto simp: steady_client_def)
    from turn_end [OF c(1) refl c(2) less.prems(4) conjunct1 [OF less.prems(3)]] obtain st' where
      "handle_turn P F (tns i) st = ((if e = None then Waiting else Finished), st')" "ls_sess st' = ls_sess st"
      "delivered st' = delivered st @ fst (last_words F e (ls_srv st))" "ls_srv st' = snd (last_words F e (ls_srv st))"
      "e \<noteq> None \<longrightarrow> ob_buf (ls_out st') = []" by blast
    then show ?thesis using less.prems(2) e by (auto simp: unf split: prod.splits)
  qed
qed


section \<open>What waits in the batch\<close>

text \<open>The states between two turns of the loop.\<close>

inductive turns :: "'x platform \<Rightarrow> 'f float_ops \<Rightarrow> 'w serving \<Rightarrow> 'w serving \<Rightarrow> bool" for P F st0 where
  start: "turns P F st0 st0"
| turn: "turns P F st0 st \<Longrightarrow> handle_turn P F tn st = (Continue, st') \<Longrightarrow> turns P F st0 st'"

definition batch_ok :: "'w serving \<Rightarrow> bool" where
  "batch_ok st \<longleftrightarrow> ob_buf (ls_out st) = []
     \<or> int (length (ob_buf (ls_out st))) < pipelineFlushBytes
       \<and> ob_commands (ls_out st) < MaxPipelineCommands (srv_limits (ls_srv st))
       \<and> request_buffered (c_buf (ls_conn st))"

lemma handle_turn_batch:
  fixes F :: "'f float_ops" and st :: "'w serving"
  assumes "handle_turn P F tn st = (Continue, st')"
  shows "batch_ok st' \<and> same_server (ls_srv st) (ls_srv st')"
proof -
  obtain x c where d: "decode_conn (unicode_upper P) (srv_codecLimits (ls_srv st)) (ls_conn st) = (x, c)" by fastforce
  then obtain cmd r0 where g: "x = Got cmd r0"
    using assms by (cases x) (auto simp: handle_turn_def)
  obtain r cl s srv where x: "dispatch P (tn_readings tn) cmd (ls_sess st) (ls_srv st) = ((r :: 'f reply, cl), s, srv)"
    by (cases "dispatch P (tn_readings tn) cmd (ls_sess st) (ls_srv st) :: ('f reply \<times> bool) \<times> session \<times> 'w server") auto
  obtain oe ob where oa: "out_append F (ls_out st) r = (oe, ob)" by fastforce
  have "oe = None" using assms d g x oa by (cases oe) (auto simp: handle_turn_def)
  then have h: "(let st' = st\<lparr>ls_sess := s, ls_srv := srv, ls_conn := touch c, ls_out := ob\<rparr>
                     in if \<not> batch_ends (tn_ctx1 tn) st' cl then (Continue, st')
                        else case out_flush (ls_conn st') ob of
                               (Some we, c', ob') \<Rightarrow>
                                 (Finished, st'\<lparr>ls_conn := c', ls_out := ob',
                                     ls_srv := note_write_failure (tn_ctx2 tn) we srv\<rparr>)
                             | (None, c', ob') \<Rightarrow>
                                 ((if cl \<or> tn_ctx2 tn then Finished else Continue),
                                  st'\<lparr>ls_conn := c', ls_out := ob'\<rparr>)) = (Continue, st')"
    using assms d g x oa by (simp add: handle_turn_def)
  have srv: "same_server (ls_srv st) srv" by (rule dispatch_same [OF x])
  obtain we c' ob' where f: "out_flush (touch c) ob = (we, c', ob')" by (cases "out_flush (touch c) ob") auto
  have ob': "ob_buf ob' = []" using f by (auto simp: out_flush_def out_reset_def split: if_splits option.splits)
  show ?thesis
  proof (cases "batch_ends (tn_ctx1 tn) (st\<lparr>ls_sess := s, ls_srv := srv, ls_conn := touch c, ls_out := ob\<rparr>) cl")
    case True
    then show ?thesis using h f ob' srv by (cases we) (auto simp: batch_ok_def)
  next
    case False
    then show ?thesis using h srv
      by (auto simp: batch_ok_def batch_ends_def Let_def split: if_splits)
  qed
qed

lemma turns_batch: "turns P F st0 st \<Longrightarrow> batch_ok st0 \<Longrightarrow> batch_ok st \<and> same_server (ls_srv st0) (ls_srv st)"
  by (induction rule: turns.induct) (auto dest: handle_turn_batch intro: same_server_trans)

text \<open>
  What one client can make the server hold is bounded: between any two turns of the loop, from a
  connection that starts with an empty batch, the replies waiting are under 16 KiB and belong to
  fewer commands than the batch limit, however fast the client sends and whether or not it reads.
\<close>

lemma batch_bounded:
  assumes "turns P F st0 st" and "ob_buf (ls_out st0) = []"
  shows "ob_buf (ls_out st) = []
    \<or> length (ob_buf (ls_out st)) < 16384 \<and> ob_commands (ls_out st) < MaxPipelineCommands (srv_limits (ls_srv st0))"
  using turns_batch [OF assms(1)] assms(2)
  by (auto simp: batch_ok_def same_server_def pipelineFlushBytes_def connBufferSize_def)

text \<open>
  No reply is held back over a read: whenever replies are waiting, the next turn decodes its
  request from the buffer without touching the socket and does not block. (The buffered headers
  being plain, which is where the framing scan is exact enough.)
\<close>

lemma no_reply_held_back:
  assumes "turns P F st0 st" and "ob_buf (ls_out st0) = []"
    and "ob_buf (ls_out st) \<noteq> []" and "plain_buffer (c_buf (ls_conn st))"
    and "0 \<le> MaxInlineLength (srv_codecLimits (ls_srv st))" and "\<And>s. s \<noteq> [] \<Longrightarrow> unicode_upper P s \<noteq> []"
  shows "c_input (snd (decode_conn (unicode_upper P) (srv_codecLimits (ls_srv st)) (ls_conn st))) = c_input (ls_conn st)
    \<and> fst (handle_turn P F tn st) \<noteq> Waiting"
proof -
  let ?d = "decode (unicode_upper P) (nat connBufferSize) (srv_codecLimits (ls_srv st)) None (c_buf (ls_conn st))"
  have "scan_request (c_buf (ls_conn st)) > 0"
    using turns_batch [OF assms(1)] assms(2,3) by (auto simp: batch_ok_def request_buffered_def split: if_splits)
  then have nb: "?d \<noteq> Blocks" by (rule scan_request_complete [OF _ assms(4,5,6)])
  then show ?thesis
    by (cases ?d)
      (auto simp: decode_conn.simps [of _ _ "ls_conn st"] handle_turn_def Let_def split: prod.splits option.splits)
qed

section \<open>Witnesses\<close>

text \<open>A client that sends \<open>PING\<close>, the server of the other witnesses, and a clock that stands still.\<close>

definition still_turn :: turn where
  "still_turn = \<lparr>tn_readings = \<lparr>r_now = 0, r_uptime_seconds = 0, r_uptime_days = 0\<rparr>, tn_ctx1 = False, tn_ctx2 = False\<rparr>"

definition ping :: bytes where "ping = ''PING'' @ CRLF"

abbreviation ping_command :: command where "ping_command \<equiv> \<lparr>cmd_name = ''PING'', cmd_args = []\<rparr>"

lemma decode_ping [simp]:
  "decode id (nat connBufferSize) default_limits None (ping @ xs) = Got ping_command xs"
proof -
  have "decode_inline id ''PING'' = ping_command" by code_simp
  then have "decode id (nat connBufferSize) default_limits None ping = Got ping_command []"
    by (simp add: ping_def decode.simps read_eval connBufferSize_def default_limits_def defaultMaxInlineLength_def)
  then show ?thesis using decode_more [of id "nat connBufferSize" default_limits ping None xs] by simp
qed

lemma decode_empty [simp]: "decode id (nat connBufferSize) default_limits None [] = Blocks"
  by (simp add: decode.simps read_eval connBufferSize_def)

lemma dispatch_ping:
  "dispatch demo_platform t ping_command s demo_server = ((SimpleString ''PONG'', False), s, count_command demo_server)"
  by (simp add: dispatch_def map_of_no_auth accepts_def noAuthCommands_def ping_handler_def)

lemma rendered_pong: "rendered F (SimpleString ''PONG'') = ''+PONG'' @ CRLF"
  by (simp add: rendered_def encode_def append_scalar_def append_single_line_def append_crlf_def)

lemma demo_uni [simp]: "unicode_upper demo_platform = id" "srv_codecLimits demo_server = default_limits"
  by (simp_all add: demo_platform_def demo_server_def)

lemma budget_spares_fitting_request_witness:
  "\<exists>c'. decode_conn id default_limits
      \<lparr>c_buf = [], c_input = [''PI'', ''NG'' @ CRLF @ ping], c_end = None, c_limit = 6, c_spent = 0,
       c_write = \<lambda>_. None, c_writes = 0, c_sent = []\<rparr> = (Got ping_command [], c')
    \<and> c_buf c' @ concat (c_input c') = ping"
proof -
  have p: "''PI'' @ (''NG'' @ CRLF @ ping) @ [] = ping @ ping" by (simp add: ping_def)
  show ?thesis
    using budget_spares_fitting_request [of id default_limits "\<lparr>c_buf = [], c_input = [''PI'', ''NG'' @ CRLF @ ping],
        c_end = None, c_limit = 6, c_spent = 0, c_write = \<lambda>_. None, c_writes = 0, c_sent = []\<rparr>" ping_command ping]
      p decode_ping [of ping] by (simp add: ping_def)
qed

text \<open>Two requests in the buffer: after the first turn, one reply waits.\<close>

definition two_pings :: "nat serving" where
  "two_pings = \<lparr>ls_sess = demo_session, ls_srv = demo_server,
     ls_conn = \<lparr>c_buf = [], c_input = [ping @ ping], c_end = None, c_limit = 0, c_spent = 0,
       c_write = \<lambda>_. None, c_writes = 0, c_sent = []\<rparr>, ls_out = new_output_buffer 0\<rparr>"

definition one_waiting :: "nat serving" where
  "one_waiting = two_pings\<lparr>ls_srv := count_command demo_server,
     ls_conn := (ls_conn two_pings)\<lparr>c_buf := ping, c_input := []\<rparr>,
     ls_out := \<lparr>ob_buf = ''+PONG'' @ CRLF, ob_commands = 1, ob_limit = 0\<rparr>\<rparr>"

lemma ping_buffered: "request_buffered ping" "plain_buffer ping"
proof -
  show "request_buffered ping" unfolding ping_def by code_simp
  show "plain_buffer ping"
    by (simp add: ping_def plain_buffer_def lines_of.simps scan_line_def Let_def plain_header_def)
qed

lemma demo_turn: "handle_turn demo_platform F still_turn two_pings = (Continue, one_waiting)"
proof -
  have c: "decode_conn id default_limits (ls_conn two_pings) = (Got ping_command [], ls_conn one_waiting)"
    by (simp add: two_pings_def one_waiting_def decode_conn.simps [of id default_limits] budget_read_def)
  have "ls_srv two_pings = demo_server" "ls_sess two_pings = demo_session"
    "out_append F (ls_out two_pings) (SimpleString ''PONG'') = (None, ls_out one_waiting)"
    using encode_dispatch [OF dispatch_ping, of F] rendered_pong [of F]
    by (simp_all add: two_pings_def one_waiting_def new_output_buffer_def out_append_def Let_def)
  with c ping_buffered show ?thesis
    by (simp add: handle_turn_def dispatch_ping still_turn_def batch_ends_def touch_def budget_reset_def)
      (simp add: one_waiting_def two_pings_def pipelineFlushBytes_def connBufferSize_def demo_server_def
        default_conn_limits_def defaultMaxPipelineCommands_def)
qed

lemma demo_turns: "turns demo_platform F two_pings one_waiting"
  by (rule turns.turn [OF turns.start demo_turn])

lemma batch_bounded_witness:
  "\<forall>F :: unit float_ops. turns demo_platform F two_pings one_waiting \<and> ob_commands (ls_out one_waiting) < 1024"
proof
  fix F :: "unit float_ops"
  show "turns demo_platform F two_pings one_waiting \<and> ob_commands (ls_out one_waiting) < 1024"
    using batch_bounded [OF demo_turns [of F]] demo_turns [of F]
    by (simp add: two_pings_def one_waiting_def new_output_buffer_def demo_server_def default_conn_limits_def
        defaultMaxPipelineCommands_def)
qed

lemma no_reply_held_back_witness:
  "\<forall>F :: unit float_ops. ob_buf (ls_out one_waiting) \<noteq> [] \<and> fst (handle_turn demo_platform F still_turn one_waiting) \<noteq> Waiting"
proof
  fix F :: "unit float_ops"
  have "ob_buf (ls_out two_pings) = []" "ob_buf (ls_out one_waiting) \<noteq> []" "c_buf (ls_conn one_waiting) = ping"
    "0 \<le> MaxInlineLength (srv_codecLimits (ls_srv one_waiting))" "unicode_upper demo_platform = id"
    by (simp_all add: two_pings_def one_waiting_def new_output_buffer_def default_limits_def defaultMaxInlineLength_def)
  then show "ob_buf (ls_out one_waiting) \<noteq> [] \<and> fst (handle_turn demo_platform F still_turn one_waiting) \<noteq> Waiting"
    using no_reply_held_back [OF demo_turns [of F], of still_turn] ping_buffered(2) by simp
qed


end
