(* ===== verification/Transport.thy ===== *)
theory Transport
  imports Serve
begin

text \<open>
  \<open>internal/server/net_transport.go\<close>: the accept loop, the goroutine of each connection and
  \<open>Shutdown\<close>, as a step relation. One step is what a goroutine does between two points where another
  may interfere: a critical section of \<open>mu\<close>, an operation on the wait group, the context or the
  socket. A connection is a number. \<open>in_flight\<close> counts what the wait group counts; \<open>expired\<close> holds
  the connections whose read deadline has passed because \<open>drain\<close> set it. What a handler does is
  left open (\<open>Handle\<close> is \<open>Serve.handle\<close>): it ends, or it panics.
\<close>

section \<open>The transport\<close>

datatype admission = Admitted | OverLimit | ShuttingDown

text \<open>Where the accept loop is, with the connection it holds.\<close>

datatype accept_loop = Accepting | Deciding nat | Counting nat | Decided nat admission | Stopped

text \<open>Where the goroutine of a connection is.\<close>

datatype conn_phase =
    NoGoroutine | Handshaking | Arming | ArmingUndrained | Handling | Leaving | ClosedSocket | Untracked
  | Refusing | Gone

datatype shutdown_phase = Running | Cancelled | ListenerClosed | Drained | Returned | TimedOut

record transport =
  live_conns :: "nat set"
  cancelled :: bool
  listening :: bool
  loop :: accept_loop
  phase :: "nat \<Rightarrow> conn_phase"
  closed :: "nat set"
  draining :: "nat set"
  expired :: "nat set"
  in_flight :: int
  shutdown :: shutdown_phase
  refusals :: u64
  handler_panics :: u64

definition new_transport :: transport where
  "new_transport =
     \<lparr>live_conns = {}, cancelled = False, listening = True, loop = Accepting, phase = (\<lambda>_. NoGoroutine),
      closed = {}, draining = {}, expired = {}, in_flight = 0, shutdown = Running, refusals = 0, handler_panics = 0\<rparr>"

section \<open>Operations\<close>

text \<open>\<open>admit\<close> reads the context first, and then counts and registers under the lock.\<close>

definition admit_check :: "nat \<Rightarrow> transport \<Rightarrow> transport" where
  "admit_check c t =
     (if cancelled t then t\<lparr>loop := Decided c ShuttingDown\<rparr> else t\<lparr>loop := Counting c\<rparr>)"

definition admit_locked :: "int \<Rightarrow> nat \<Rightarrow> transport \<Rightarrow> transport" where
  "admit_locked maxConnections c t =
     (if int (card (live_conns t)) \<ge> maxConnections then t\<lparr>loop := Decided c OverLimit\<rparr>
      else t\<lparr>live_conns := insert c (live_conns t), loop := Decided c Admitted\<rparr>)"

definition untrack :: "nat \<Rightarrow> transport \<Rightarrow> transport" where
  "untrack c t = t\<lparr>live_conns := live_conns t - {c}\<rparr>"

definition close_conn :: "nat \<Rightarrow> transport \<Rightarrow> transport" where
  "close_conn c t = t\<lparr>closed := insert c (closed t)\<rparr>"

definition close_all :: "transport \<Rightarrow> transport" where
  "close_all t = t\<lparr>closed := closed t \<union> live_conns t\<rparr>"

text \<open>The loop of \<open>Shutdown\<close> that calls \<open>drain\<close> on every connection, under the lock.\<close>

definition drain_all :: "transport \<Rightarrow> transport" where
  "drain_all t = t\<lparr>draining := draining t \<union> live_conns t, expired := expired t \<union> live_conns t\<rparr>"

definition at_phase :: "nat \<Rightarrow> conn_phase \<Rightarrow> transport \<Rightarrow> transport" where
  "at_phase c p t = t\<lparr>phase := (phase t)(c := p)\<rparr>"

text \<open>
  \<open>armRead\<close> reads the draining flag first and sets the deadline afterwards; in between the connection
  is \<open>ArmingUndrained\<close>.
\<close>

definition arm_check :: "conn_limits \<Rightarrow> nat \<Rightarrow> transport \<Rightarrow> transport" where
  "arm_check l c t =
     at_phase c (if IdleTimeout l \<le> 0 \<or> c \<in> draining t then Handling else ArmingUndrained) t"

definition arm_set :: "nat \<Rightarrow> transport \<Rightarrow> transport" where
  "arm_set c t = at_phase c Handling (t\<lparr>expired := expired t - {c}\<rparr>)"

text \<open>What the accept loop does with a decision: \<open>serve\<close>, \<open>refuse\<close> or close.\<close>

fun on_decision :: "nat \<Rightarrow> admission \<Rightarrow> transport \<Rightarrow> transport" where
  "on_decision c Admitted t = at_phase c Handshaking (t\<lparr>in_flight := in_flight t + 1, loop := Accepting\<rparr>)"
| "on_decision c OverLimit t =
     at_phase c Refusing (t\<lparr>refusals := refusals t + 1, in_flight := in_flight t + 1, loop := Accepting\<rparr>)"
| "on_decision c ShuttingDown t = at_phase c Gone (close_conn c (t\<lparr>loop := Accepting\<rparr>))"

section \<open>Steps\<close>

inductive transport_step :: "conn_limits \<Rightarrow> transport \<Rightarrow> transport \<Rightarrow> bool" for l where
  accept: "loop t = Accepting \<Longrightarrow> listening t \<Longrightarrow> phase t c = NoGoroutine \<Longrightarrow>
     transport_step l t (t\<lparr>loop := Deciding c\<rparr>)"
| accept_fails: "loop t = Accepting \<Longrightarrow> \<not> listening t \<Longrightarrow> transport_step l t (t\<lparr>loop := Stopped\<rparr>)"
| check: "loop t = Deciding c \<Longrightarrow> transport_step l t (admit_check c t)"
| admit: "loop t = Counting c \<Longrightarrow> transport_step l t (admit_locked (MaxConnections l) c t)"
| decide: "loop t = Decided c a \<Longrightarrow> transport_step l t (on_decision c a t)"
| handshake: "phase t c = Handshaking \<Longrightarrow> transport_step l t (at_phase c Arming t)"
| handshake_fails: "phase t c = Handshaking \<Longrightarrow> transport_step l t (at_phase c Leaving t)"
| arm_checks: "phase t c = Arming \<Longrightarrow>
     transport_step l t (arm_check l c t)"
| arm_sets: "phase t c = ArmingUndrained \<Longrightarrow>
     transport_step l t (arm_set c t)"
| handler_returns: "phase t c = Handling \<Longrightarrow> transport_step l t (at_phase c Leaving t)"
| handler_panics: "phase t c = Handling \<Longrightarrow>
     transport_step l t (at_phase c Leaving (t\<lparr>handler_panics := handler_panics t + 1\<rparr>))"
| closes: "phase t c = Leaving \<Longrightarrow> transport_step l t (at_phase c ClosedSocket (close_conn c t))"
| untracks: "phase t c = ClosedSocket \<Longrightarrow> transport_step l t (at_phase c Untracked (untrack c t))"
| done_waiting: "phase t c = Untracked \<Longrightarrow>
     transport_step l t (at_phase c Gone (t\<lparr>in_flight := in_flight t - 1\<rparr>))"
| refused: "phase t c = Refusing \<Longrightarrow>
     transport_step l t (at_phase c Gone (close_conn c (t\<lparr>in_flight := in_flight t - 1\<rparr>)))"
| cancels: "shutdown t = Running \<Longrightarrow> transport_step l t (t\<lparr>cancelled := True, shutdown := Cancelled\<rparr>)"
| closes_listener: "shutdown t = Cancelled \<Longrightarrow>
     transport_step l t (t\<lparr>listening := False, shutdown := ListenerClosed\<rparr>)"
| drains: "shutdown t = ListenerClosed \<Longrightarrow> transport_step l t ((drain_all t)\<lparr>shutdown := Drained\<rparr>)"
| all_done: "shutdown t = Drained \<Longrightarrow> in_flight t = 0 \<Longrightarrow> transport_step l t (t\<lparr>shutdown := Returned\<rparr>)"
| times_out: "shutdown t = Drained \<Longrightarrow> transport_step l t ((close_all t)\<lparr>shutdown := TimedOut\<rparr>)"

inductive reachable :: "conn_limits \<Rightarrow> transport \<Rightarrow> bool" for l where
  start: "reachable l new_transport"
| step: "reachable l t \<Longrightarrow> transport_step l t t' \<Longrightarrow> reachable l t'"

end
