(* ===== verification/Transport_Spec.thy ===== *)
theory Transport_Spec
  imports Transport
begin

text \<open>
  What the transport promises (\<open>internal/server/net_transport.go\<close>): the connection limit, the exactness
  of the connection map and of the wait group, and what \<open>Shutdown\<close> can miss.
\<close>

declare arm_check_def [simp] arm_set_def [simp]

inductive_cases stepE: "transport_step l t t'"

definition goroutines :: "transport \<Rightarrow> nat set" where
  "goroutines t = {c. phase t c \<noteq> NoGoroutine \<and> phase t c \<noteq> Gone}"

definition registered :: "conn_phase \<Rightarrow> bool" where
  "registered p \<longleftrightarrow> p \<in> {Handshaking, Arming, ArmingUndrained, Handling, Leaving, ClosedSocket}"

lemma registered_simps [simp]:
  "registered Handshaking" "registered Arming" "registered ArmingUndrained" "registered Handling"
  "registered Leaving" "registered ClosedSocket" "\<not> registered Untracked" "\<not> registered Gone"
  "\<not> registered NoGoroutine" "\<not> registered Refusing"
  by (simp_all add: registered_def)

text \<open>The connection the accept loop holds.\<close>

fun held :: "accept_loop \<Rightarrow> nat option" where
  "held (Deciding c) = Some c"
| "held (Counting c) = Some c"
| "held (Decided c _) = Some c"
| "held _ = None"

definition transport_ok :: "int \<Rightarrow> transport \<Rightarrow> bool" where
  "transport_ok m t \<longleftrightarrow>
     finite (live_conns t) \<and> int (card (live_conns t)) \<le> m
     \<and> (\<forall>c. c \<in> live_conns t \<longleftrightarrow> registered (phase t c) \<or> loop t = Decided c Admitted)
     \<and> (\<forall>c. held (loop t) = Some c \<longrightarrow> phase t c = NoGoroutine)
     \<and> finite (goroutines t) \<and> in_flight t = int (card (goroutines t))
     \<and> (\<forall>c. phase t c \<in> {ClosedSocket, Untracked, Gone} \<longrightarrow> c \<in> closed t)"

lemma goroutines_at_phase:
  "goroutines (at_phase c p t) =
     (if p \<noteq> NoGoroutine \<and> p \<noteq> Gone then insert c (goroutines t) else goroutines t - {c})"
  by (auto simp: goroutines_def at_phase_def)

lemma goroutines_frame [simp]:
  "goroutines (t\<lparr>loop := l\<rparr>) = goroutines t" "goroutines (t\<lparr>in_flight := n\<rparr>) = goroutines t"
  "goroutines (t\<lparr>refusals := r\<rparr>) = goroutines t" "goroutines (close_conn c t) = goroutines t"
  "goroutines (untrack c t) = goroutines t" "goroutines (t\<lparr>expired := e\<rparr>) = goroutines t"
  "goroutines (t\<lparr>handler_panics := r\<rparr>) = goroutines t" "goroutines (t\<lparr>live_conns := s\<rparr>) = goroutines t"
  "goroutines (t\<lparr>cancelled := b\<rparr>) = goroutines t" "goroutines (t\<lparr>listening := b\<rparr>) = goroutines t"
  "goroutines (t\<lparr>shutdown := p\<rparr>) = goroutines t" "goroutines (drain_all t) = goroutines t"
  "goroutines (close_all t) = goroutines t" "goroutines (t\<lparr>closed := s\<rparr>) = goroutines t"
  "goroutines (t\<lparr>draining := s\<rparr>) = goroutines t"
  by (simp_all add: goroutines_def close_conn_def untrack_def drain_all_def close_all_def)

lemma step_sel [simp]:
  "phase (at_phase c p t) = (phase t)(c := p)" "live_conns (at_phase c p t) = live_conns t"
  "loop (at_phase c p t) = loop t" "closed (at_phase c p t) = closed t" "in_flight (at_phase c p t) = in_flight t"
  "shutdown (at_phase c p t) = shutdown t" "listening (at_phase c p t) = listening t"
  "cancelled (at_phase c p t) = cancelled t" "draining (at_phase c p t) = draining t" "expired (at_phase c p t) = expired t"
  by (simp_all add: at_phase_def)

lemmas transport_ops = admit_check_def admit_locked_def untrack_def close_conn_def close_all_def drain_all_def

lemma in_goroutines: "c \<in> goroutines t \<longleftrightarrow> phase t c \<noteq> NoGoroutine \<and> phase t c \<noteq> Gone"
  by (simp add: goroutines_def)

lemma transport_step_ok: "transport_step l t t' \<Longrightarrow> transport_ok (MaxConnections l) t \<Longrightarrow> transport_ok (MaxConnections l) t'"
proof (induction rule: transport_step.induct)
  case (decide t c a)
  then have "c \<notin> goroutines t" by (simp add: transport_ok_def in_goroutines)
  with decide show ?case
    by (cases a) (auto simp: transport_ok_def goroutines_at_phase close_conn_def)
next
  case (untracks t c)
  then have "c \<in> goroutines t" "c \<in> live_conns t" by (auto simp: in_goroutines transport_ok_def)
  with untracks show ?case
    by (auto simp: transport_ok_def goroutines_at_phase untrack_def insert_absorb card_Diff_singleton)
next
  case (done_waiting t c)
  then have "c \<in> goroutines t" by (simp add: in_goroutines)
  moreover from this have "card (goroutines t) > 0"
    using done_waiting by (auto simp: transport_ok_def card_gt_0_iff)
  ultimately show ?case using done_waiting
    by (auto simp: transport_ok_def goroutines_at_phase card_Diff_singleton)
next
  case (refused t c)
  then have "c \<in> goroutines t" by (simp add: in_goroutines)
  moreover from this have "card (goroutines t) > 0"
    using refused by (auto simp: transport_ok_def card_gt_0_iff)
  ultimately show ?case using refused
    by (auto simp: transport_ok_def goroutines_at_phase card_Diff_singleton close_conn_def)
qed (auto simp: transport_ok_def transport_ops goroutines_at_phase insert_absorb in_goroutines)

lemma reachable_ok: "reachable l t \<Longrightarrow> 0 \<le> MaxConnections l \<Longrightarrow> transport_ok (MaxConnections l) t"
proof (induction rule: reachable.induct)
  case start
  then show ?case by (simp add: transport_ok_def new_transport_def goroutines_def)
qed (rule transport_step_ok)

text \<open>
  C17. The connection limit holds and its count cannot drift. Whatever the interleaving of the accept
  loop, the connections' goroutines, panics, failed handshakes and shutdown, there are never more
  than \<open>MaxConnections\<close> registered connections, each registered connection is one the accept loop has
  just admitted or one whose goroutine has not yet given it back, the wait group counts exactly the
  goroutines that run, and a connection that is finished with is closed and not registered.
\<close>

theorem connection_limit:
  assumes "reachable l t" and "0 \<le> MaxConnections l"
  shows "int (card (live_conns t)) \<le> MaxConnections l
    \<and> (\<forall>c. c \<in> live_conns t \<longleftrightarrow> registered (phase t c) \<or> loop t = Decided c Admitted)
    \<and> in_flight t = int (card {c. phase t c \<noteq> NoGoroutine \<and> phase t c \<noteq> Gone})
    \<and> (\<forall>c. phase t c = Gone \<longrightarrow> c \<in> closed t \<and> c \<notin> live_conns t)"
proof -
  have ok: "transport_ok (MaxConnections l) t" by (rule reachable_ok [OF assms])
  then have "c \<notin> live_conns t" if "phase t c = Gone" for c
    using that by (auto simp: transport_ok_def)
  with ok show ?thesis by (auto simp: transport_ok_def goroutines_def)
qed

section \<open>Shutting down\<close>

text \<open>What a shutdown has missed: connections registered after the drain, goroutines started after the wait.\<close>

definition late :: "transport \<Rightarrow> nat set" where
  "late t = live_conns t - draining t"

text \<open>At most one connection, and while the accept loop holds one, no other.\<close>

definition at_most_held :: "accept_loop \<Rightarrow> nat set \<Rightarrow> bool" where
  "at_most_held l s \<longleftrightarrow> (\<exists>c. s \<subseteq> {c}) \<and> (\<forall>d. held l = Some d \<longrightarrow> s \<subseteq> {d})"

definition after_drain :: "transport \<Rightarrow> bool" where
  "after_drain t \<longleftrightarrow> shutdown t \<in> {Drained, Returned, TimedOut}"

definition drained_ok :: "transport \<Rightarrow> bool" where
  "drained_ok t \<longleftrightarrow>
     (after_drain t \<or> shutdown t = ListenerClosed \<longrightarrow> \<not> listening t)
     \<and> (after_drain t \<longrightarrow> at_most_held (loop t) (late t))
     \<and> (shutdown t = Returned \<longrightarrow> at_most_held (loop t) (goroutines t))"

lemma late_frame [simp]:
  "late (at_phase c p t) = late t" "late (t\<lparr>loop := l\<rparr>) = late t" "late (t\<lparr>in_flight := n\<rparr>) = late t"
  "late (t\<lparr>refusals := r\<rparr>) = late t" "late (t\<lparr>expired := e\<rparr>) = late t" "late (t\<lparr>handler_panics := r\<rparr>) = late t"
  "late (t\<lparr>cancelled := b\<rparr>) = late t" "late (t\<lparr>listening := b\<rparr>) = late t" "late (t\<lparr>shutdown := q\<rparr>) = late t"
  "late (t\<lparr>closed := s\<rparr>) = late t" "late (untrack c t) = late t - {c}" "late (drain_all t) = {}"
  "late (close_conn c t) = late t" "late (close_all t) = late t"
  by (auto simp: late_def at_phase_def untrack_def drain_all_def close_conn_def close_all_def)

lemma at_most_held_intros:
  "at_most_held l s \<Longrightarrow> at_most_held l (s - {c})" "at_most_held l {}"
  "at_most_held (Counting c) s \<Longrightarrow> at_most_held (Decided c a) (insert c s)"
  "at_most_held (Deciding c) s \<Longrightarrow> at_most_held (Counting c) s"
  "held l = Some c \<Longrightarrow> at_most_held l s \<Longrightarrow> at_most_held (Decided c a) s"
  "held l = Some c \<Longrightarrow> at_most_held l s \<Longrightarrow> at_most_held Accepting (insert c s)"
  "at_most_held l s \<Longrightarrow> at_most_held Accepting s" "at_most_held l s \<Longrightarrow> at_most_held Stopped s"
  by (auto simp: at_most_held_def)

lemma sel_ops [simp]:
  "loop (close_conn c t) = loop t" "shutdown (close_conn c t) = shutdown t" "listening (close_conn c t) = listening t"
  "loop (untrack c t) = loop t" "shutdown (untrack c t) = shutdown t" "listening (untrack c t) = listening t"
  "loop (drain_all t) = loop t" "shutdown (drain_all t) = shutdown t" "listening (drain_all t) = listening t"
  "loop (close_all t) = loop t" "shutdown (close_all t) = shutdown t" "listening (close_all t) = listening t"
  "shutdown (admit_check c t) = shutdown t" "listening (admit_check c t) = listening t"
  "shutdown (admit_locked m c t) = shutdown t" "listening (admit_locked m c t) = listening t"
  by (simp_all add: transport_ops)

lemma drained_step:
  "transport_step l t t' \<Longrightarrow> transport_ok (MaxConnections l) t \<Longrightarrow> drained_ok t \<Longrightarrow> drained_ok t'"
proof (induction rule: transport_step.induct)
  case (check t c)
  then show ?case
    by (simp add: drained_ok_def after_drain_def admit_check_def)
      (metis at_most_held_intros(4,5) held.simps(1))
next
  case (admit t c)
  let ?t = "t\<lparr>live_conns := insert c (live_conns t), loop := Decided c Admitted\<rparr>"
  have "late ?t \<subseteq> insert c (late t)" by (auto simp: late_def)
  moreover have "at_most_held (Decided c a) s" if "at_most_held (Counting c) s'" "s \<subseteq> insert c s'" for a s s'
    using that by (auto simp: at_most_held_def)
  ultimately have "drained_ok ?t" "drained_ok (t\<lparr>loop := Decided c OverLimit\<rparr>)"
    using admit by (simp_all add: drained_ok_def after_drain_def) (blast | metis subset_insertI)+
  then show ?case by (simp add: admit_locked_def)
next
  case (decide t c a)
  then show ?case
    using at_most_held_intros(6) [of "loop t" c] at_most_held_intros(1) [of "loop t" "goroutines t" c]
      at_most_held_intros(7) [of "loop t"]
    by (cases a) (simp_all add: drained_ok_def after_drain_def goroutines_at_phase)
next
  case (all_done t)
  then have "goroutines t = {}" by (auto simp: transport_ok_def)
  then show ?case using all_done by (simp add: drained_ok_def after_drain_def at_most_held_intros(2))
qed (auto simp: drained_ok_def after_drain_def goroutines_at_phase in_goroutines insert_absorb
      intro: at_most_held_intros)

lemma reachable_drained: "reachable l t \<Longrightarrow> 0 \<le> MaxConnections l \<Longrightarrow> drained_ok t"
proof (induction rule: reachable.induct)
  case start
  then show ?case by (simp add: drained_ok_def after_drain_def new_transport_def)
qed (use drained_step reachable_ok in blast)

text \<open>
  What \<open>Shutdown\<close> can miss is bounded. Once it has drained the registered connections, at most one
  connection is registered that was not told to stop, and when it has returned because every
  goroutine had ended, at most one goroutine has been started since; and that is whichever connection
  the accept loop had already taken.
\<close>

lemma shutdown_misses_at_most_one:
  assumes "reachable l t" and "0 \<le> MaxConnections l"
  shows "(shutdown t \<in> {Drained, Returned, TimedOut} \<longrightarrow> (\<exists>c. live_conns t - draining t \<subseteq> {c}))
    \<and> (shutdown t = Returned \<longrightarrow> (\<exists>c. goroutines t \<subseteq> {c}))"
  using reachable_drained [OF assms]
  by (auto simp: drained_ok_def after_drain_def at_most_held_def late_def)

text \<open>A connection the accept loop had checked before the shutdown, and admits after it.\<close>

definition stopped :: transport where
  "stopped = new_transport\<lparr>cancelled := True, listening := False, shutdown := Returned\<rparr>"

lemma demo_limits: "MaxConnections default_conn_limits = 10000" "IdleTimeout default_conn_limits = 30000000000"
  by (simp_all add: default_conn_limits_def defaultMaxConnections_def defaultIdleTimeout_def)

lemma reach_stopped: "reachable default_conn_limits (stopped\<lparr>loop := Counting 0\<rparr>)"
proof -
  let ?t1 = "new_transport\<lparr>loop := Deciding 0\<rparr>" and ?t2 = "new_transport\<lparr>loop := Counting 0\<rparr>"
  let ?t3 = "?t2\<lparr>cancelled := True, shutdown := Cancelled\<rparr>"
  let ?t4 = "?t3\<lparr>listening := False, shutdown := ListenerClosed\<rparr>"
  let ?t5 = "(drain_all ?t4)\<lparr>shutdown := Drained\<rparr>"
  have "transport_step default_conn_limits new_transport ?t1" by (rule transport_step.accept) (simp_all add: new_transport_def)
  moreover have "transport_step default_conn_limits ?t1 ?t2"
    using transport_step.check [of ?t1 0 default_conn_limits] by (simp add: admit_check_def new_transport_def)
  moreover have "transport_step default_conn_limits ?t2 ?t3" by (rule transport_step.cancels) (simp add: new_transport_def)
  moreover have "transport_step default_conn_limits ?t3 ?t4" by (rule transport_step.closes_listener) simp
  moreover have "transport_step default_conn_limits ?t4 ?t5" by (rule transport_step.drains) simp
  moreover have "transport_step default_conn_limits ?t5 (?t5\<lparr>shutdown := Returned\<rparr>)"
    by (rule transport_step.all_done) (simp_all add: drain_all_def new_transport_def)
  moreover have "?t5\<lparr>shutdown := Returned\<rparr> = stopped\<lparr>loop := Counting 0\<rparr>"
    by (simp add: stopped_def drain_all_def new_transport_def)
  ultimately show ?thesis by (metis reachable.intros)
qed

text \<open>
  The one connection can be missed for good: \<open>admit\<close> reads the context before it takes the lock,
  so a connection can be admitted and served after \<open>Shutdown\<close> has drained the others, waited for all
  of them and returned, and nothing will tell it to stop. And a connection that was told to stop can
  lose it: \<open>armRead\<close> tests the flag before it sets the deadline, and sets it back if \<open>drain\<close> ran in
  between, so its first read blocks until the idle timeout.
\<close>

lemma shutdown_can_be_missed:
  "(\<exists>t. reachable default_conn_limits t \<and> shutdown t = Returned \<and> phase t 0 = Handling \<and> 0 \<in> live_conns t \<and> 0 \<notin> draining t)
    \<and> (\<exists>t. reachable default_conn_limits t \<and> shutdown t = Drained \<and> phase t 0 = Handling \<and> 0 \<in> draining t \<and> 0 \<notin> expired t)"
proof
  let ?s = "stopped\<lparr>loop := Counting 0\<rparr>"
  let ?a = "stopped\<lparr>loop := Decided 0 Admitted, live_conns := {0}\<rparr>"
  let ?b = "on_decision 0 Admitted ?a"
  have "transport_step default_conn_limits ?s ?a"
    using transport_step.admit [of ?s 0 default_conn_limits] by (simp add: admit_locked_def stopped_def new_transport_def demo_limits)
  moreover have "transport_step default_conn_limits ?a ?b" by (rule transport_step.decide) simp
  moreover have "transport_step default_conn_limits ?b (at_phase 0 Arming ?b)" by (rule transport_step.handshake) simp
  moreover have "transport_step default_conn_limits (at_phase 0 Arming ?b) (at_phase 0 ArmingUndrained (at_phase 0 Arming ?b))"
    using transport_step.arm_checks [of "at_phase 0 Arming ?b" 0 default_conn_limits] by (simp add: stopped_def new_transport_def demo_limits)
  moreover have "transport_step default_conn_limits (at_phase 0 ArmingUndrained (at_phase 0 Arming ?b))
      (at_phase 0 Handling ((at_phase 0 ArmingUndrained (at_phase 0 Arming ?b))
        \<lparr>expired := expired (at_phase 0 ArmingUndrained (at_phase 0 Arming ?b)) - {0}\<rparr>))"
    using transport_step.arm_sets [of "at_phase 0 ArmingUndrained (at_phase 0 Arming ?b)" 0 default_conn_limits] by simp
  ultimately have "reachable default_conn_limits (at_phase 0 Handling ((at_phase 0 ArmingUndrained (at_phase 0 Arming ?b))
        \<lparr>expired := expired (at_phase 0 ArmingUndrained (at_phase 0 Arming ?b)) - {0}\<rparr>))"
    using reach_stopped by (meson reachable.step)
  then show "\<exists>t. reachable default_conn_limits t \<and> shutdown t = Returned \<and> phase t 0 = Handling \<and> 0 \<in> live_conns t \<and> 0 \<notin> draining t"
    by (intro exI conjI) (assumption, simp_all add: stopped_def new_transport_def)
next
  let ?t1 = "new_transport\<lparr>loop := Deciding 0\<rparr>" and ?t2 = "new_transport\<lparr>loop := Counting 0\<rparr>"
  let ?t3 = "new_transport\<lparr>loop := Decided 0 Admitted, live_conns := {0}\<rparr>"
  let ?t4 = "on_decision 0 Admitted ?t3"
  let ?t5 = "at_phase 0 Arming ?t4" let ?t6 = "at_phase 0 ArmingUndrained ?t5"
  let ?t7 = "?t6\<lparr>cancelled := True, shutdown := Cancelled\<rparr>"
  let ?t8 = "?t7\<lparr>listening := False, shutdown := ListenerClosed\<rparr>"
  let ?t9 = "(drain_all ?t8)\<lparr>shutdown := Drained\<rparr>"
  have "transport_step default_conn_limits new_transport ?t1" by (rule transport_step.accept) (simp_all add: new_transport_def)
  moreover have "transport_step default_conn_limits ?t1 ?t2"
    using transport_step.check [of ?t1 0 default_conn_limits] by (simp add: admit_check_def new_transport_def)
  moreover have "transport_step default_conn_limits ?t2 ?t3"
    using transport_step.admit [of ?t2 0 default_conn_limits] by (simp add: admit_locked_def new_transport_def demo_limits)
  moreover have "transport_step default_conn_limits ?t3 ?t4" by (rule transport_step.decide) simp
  moreover have "transport_step default_conn_limits ?t4 ?t5" by (rule transport_step.handshake) simp
  moreover have "transport_step default_conn_limits ?t5 ?t6"
    using transport_step.arm_checks [of ?t5 0 default_conn_limits] by (simp add: new_transport_def demo_limits)
  moreover have "transport_step default_conn_limits ?t6 ?t7" by (rule transport_step.cancels) (simp add: new_transport_def)
  moreover have "transport_step default_conn_limits ?t7 ?t8" by (rule transport_step.closes_listener) simp
  moreover have "transport_step default_conn_limits ?t8 ?t9" by (rule transport_step.drains) simp
  moreover have "transport_step default_conn_limits ?t9 (at_phase 0 Handling (?t9\<lparr>expired := expired ?t9 - {0}\<rparr>))"
    using transport_step.arm_sets [of ?t9 0 default_conn_limits] by (simp add: drain_all_def)
  ultimately have "reachable default_conn_limits (at_phase 0 Handling (?t9\<lparr>expired := expired ?t9 - {0}\<rparr>))"
    by (meson reachable.intros)
  then show "\<exists>t. reachable default_conn_limits t \<and> shutdown t = Drained \<and> phase t 0 = Handling \<and> 0 \<in> draining t \<and> 0 \<notin> expired t"
    by (intro exI conjI) (assumption, simp_all add: drain_all_def new_transport_def)
qed

lemma connection_limit_witness: "int (card (live_conns (stopped\<lparr>loop := Counting 0\<rparr>))) \<le> 10000"
  using connection_limit [OF reach_stopped] by (simp add: demo_limits)

lemma shutdown_misses_at_most_one_witness:
  "\<exists>c. goroutines (stopped\<lparr>loop := Counting 0\<rparr>) \<subseteq> {c}"
  using shutdown_misses_at_most_one [OF reach_stopped] by (simp add: stopped_def demo_limits)

end
