(* ===== verification/Client_Pool.thy ===== *)
theory Client_Pool
  imports Prelude
begin

text \<open>
  \<open>pkg/client/pool.go\<close>: the connection pool of the Go client, shared by any number of callers, as a
  step relation. One step is what a caller does between two points where another may interfere: a
  critical section of \<open>mu\<close>, an operation on the channel of slots, or one on a connection it owns.
  Callers and connections are numbers. \<open>broken\<close> is the field of \<open>conn\<close>; \<open>owed\<close> is what it stands
  for: how many replies, or parts of one, the server still has to send on a connection. Whether a
  connection is found alive, a dial works or an exchange succeeds is the environment's choice, within
  what \<open>alive\<close> and \<open>exchange\<close> of \<open>conn.go\<close> guarantee.
\<close>

section \<open>The pool\<close>

text \<open>Where a caller is between its call of \<open>get\<close> and the end of its \<open>put\<close>.\<close>

datatype caller =
    Outside | Waiting | HasSlot | Probing nat | Forgetting | Deciding | Dialing | Opened nat | Using nat
  | Returning nat | Dropping nat | Releasing

record pool =
  p_slots :: nat
  p_idle :: "nat list"
  p_closed :: bool
  p_live :: int
  callers :: "nat \<Rightarrow> caller"
  broken :: "nat \<Rightarrow> bool"
  owed :: "nat \<Rightarrow> nat"
  sockets :: "nat set"
  used_ids :: "nat set"

definition new_pool :: "nat \<Rightarrow> pool" where
  "new_pool poolSize =
     \<lparr>p_slots = poolSize, p_idle = [], p_closed = False, p_live = 0, callers = (\<lambda>_. Outside),
      broken = (\<lambda>_. False), owed = (\<lambda>_. 0), sockets = {}, used_ids = {}\<rparr>"

definition now_at :: "nat \<Rightarrow> caller \<Rightarrow> pool \<Rightarrow> pool" where
  "now_at i s p = p\<lparr>callers := (callers p)(i := s)\<rparr>"

section \<open>Operations\<close>

definition take_idle :: "pool \<Rightarrow> nat option \<times> pool" where
  "take_idle p =
     (if p_idle p = [] then (None, p)
      else (Some (last (p_idle p)), p\<lparr>p_idle := butlast (p_idle p)\<rparr>))"

definition forget :: "pool \<Rightarrow> pool" where
  "forget p = p\<lparr>p_live := p_live p - 1\<rparr>"

definition count_live :: "pool \<Rightarrow> pool" where
  "count_live p = p\<lparr>p_live := p_live p + 1\<rparr>"

definition close_socket :: "nat \<Rightarrow> pool \<Rightarrow> pool" where
  "close_socket c p = p\<lparr>sockets := sockets p - {c}\<rparr>"

text \<open>The send of a slot has a default arm for a channel that is full.\<close>

definition release_slot :: "nat \<Rightarrow> pool \<Rightarrow> pool" where
  "release_slot poolSize p = (if p_slots p < poolSize then p\<lparr>p_slots := p_slots p + 1\<rparr> else p)"

text \<open>\<open>put\<close> up to the unlock: the connection goes back, or is to be closed.\<close>

definition put_locked :: "nat \<Rightarrow> nat \<Rightarrow> pool \<Rightarrow> pool" where
  "put_locked i c p =
     (if p_closed p \<or> broken p c then now_at i (Dropping c) (forget p)
      else now_at i Releasing (p\<lparr>p_idle := p_idle p @ [c]\<rparr>))"

definition close_pool :: "pool \<Rightarrow> pool" where
  "close_pool p =
     (if p_closed p then p
      else p\<lparr>p_closed := True, p_idle := [], p_live := p_live p - int (length (p_idle p)),
             sockets := sockets p - set (p_idle p)\<rparr>)"

text \<open>
  What a connection \<open>alive\<close> accepts is certain of: it is not marked. That nothing is left to read is
  not: \<open>alive\<close> looks at its buffer, and at the socket only of a connection idle for a while.
\<close>

definition fit_for_reuse :: "pool \<Rightarrow> nat \<Rightarrow> bool" where
  "fit_for_reuse p c \<longleftrightarrow> \<not> broken p c"

text \<open>
  \<open>exchange\<close>: the reply was read to its end, or the context was done before anything was written, or
  the call failed or was interrupted, and then the connection is marked.
\<close>

definition exchange_fails :: "nat \<Rightarrow> nat \<Rightarrow> pool \<Rightarrow> pool" where
  "exchange_fails c n p = p\<lparr>broken := (broken p)(c := True), owed := (owed p)(c := n)\<rparr>"

section \<open>Steps\<close>

text \<open>
  A connection found dead may be so for any reason. \<open>close\<close> closes the sockets it took out of the idle
  list after it has unlocked; nothing else can reach them, so that is part of its step.
\<close>

inductive pool_step :: "nat \<Rightarrow> pool \<Rightarrow> pool \<Rightarrow> bool" for poolSize where
  enters: "callers p i = Outside \<Longrightarrow> \<not> p_closed p \<Longrightarrow> pool_step poolSize p (now_at i Waiting p)"
| gives_up: "callers p i = Waiting \<Longrightarrow> pool_step poolSize p (now_at i Outside p)"
| takes_slot: "callers p i = Waiting \<Longrightarrow> p_slots p > 0 \<Longrightarrow>
     pool_step poolSize p (now_at i HasSlot (p\<lparr>p_slots := p_slots p - 1\<rparr>))"
| takes_idle: "callers p i = HasSlot \<Longrightarrow> take_idle p = (Some c, p') \<Longrightarrow> pool_step poolSize p (now_at i (Probing c) p')"
| finds_none: "callers p i = HasSlot \<Longrightarrow> take_idle p = (None, p') \<Longrightarrow> pool_step poolSize p (now_at i Deciding p')"
| alive: "callers p i = Probing c \<Longrightarrow> fit_for_reuse p c \<Longrightarrow> pool_step poolSize p (now_at i (Using c) p)"
| not_alive: "callers p i = Probing c \<Longrightarrow> pool_step poolSize p (now_at i Forgetting (close_socket c p))"
| forgets: "callers p i = Forgetting \<Longrightarrow> pool_step poolSize p (now_at i HasSlot (forget p))"
| refuses: "callers p i = Deciding \<Longrightarrow> p_closed p \<Longrightarrow> pool_step poolSize p (now_at i Releasing p)"
| dials: "callers p i = Deciding \<Longrightarrow> \<not> p_closed p \<Longrightarrow> pool_step poolSize p (now_at i Dialing p)"
| dial_fails: "callers p i = Dialing \<Longrightarrow> pool_step poolSize p (now_at i Releasing p)"
| dialed: "callers p i = Dialing \<Longrightarrow> c \<notin> used_ids p \<Longrightarrow>
     pool_step poolSize p (now_at i (Opened c) (p\<lparr>sockets := insert c (sockets p), used_ids := insert c (used_ids p)\<rparr>))"
| counted: "callers p i = Opened c \<Longrightarrow> pool_step poolSize p (now_at i (Using c) (count_live p))"
| answered: "callers p i = Using c \<Longrightarrow> pool_step poolSize p (now_at i (Returning c) p)"
| failed: "callers p i = Using c \<Longrightarrow> pool_step poolSize p (now_at i (Returning c) (exchange_fails c n p))"
| puts: "callers p i = Returning c \<Longrightarrow> pool_step poolSize p (put_locked i c p)"
| drops: "callers p i = Dropping c \<Longrightarrow> pool_step poolSize p (now_at i Releasing (close_socket c p))"
| releases: "callers p i = Releasing \<Longrightarrow> pool_step poolSize p (now_at i Outside (release_slot poolSize p))"
| closes: "pool_step poolSize p (close_pool p)"

inductive pool_reachable :: "nat \<Rightarrow> pool \<Rightarrow> bool" for poolSize where
  start: "pool_reachable poolSize (new_pool poolSize)"
| step: "pool_reachable poolSize p \<Longrightarrow> pool_step poolSize p p' \<Longrightarrow> pool_reachable poolSize p'"

end
