(* ===== verification/Client_Pool_Spec.thy ===== *)
theory Client_Pool_Spec
  imports Client_Pool
begin

text \<open>
  What the pool of \<open>pkg/client/pool.go\<close> promises, in every state its callers can reach: the ceiling on
  connections, the accounting of slots and of \<open>live\<close>, one owner per connection, a clean stream for
  every new owner, and nothing left after \<open>close\<close>.
\<close>

section \<open>Counting callers\<close>

definition callers_in :: "(caller \<Rightarrow> bool) \<Rightarrow> pool \<Rightarrow> nat set" where
  "callers_in P p = {i. P (callers p i)}"

lemma callers_now_at [simp]: "callers (now_at i s p) = (callers p)(i := s)"
  by (simp add: now_at_def)

lemma those_now_at:
  "callers_in P (now_at i s p) = (if P s then insert i (callers_in P p) else callers_in P p - {i})"
  by (auto simp: callers_in_def)

lemma those_card:
  assumes "finite (callers_in P p)"
  shows "finite (callers_in P (now_at i s p))
    \<and> int (card (callers_in P (now_at i s p))) = int (card (callers_in P p)) + of_bool (P s) - of_bool (P (callers p i))"
proof -
  have m: "i \<in> callers_in P p \<longleftrightarrow> P (callers p i)" by (simp add: callers_in_def)
  have "card (callers_in P p) > 0" if "P (callers p i)" using assms that m card_gt_0_iff by blast
  then show ?thesis
    using assms m by (auto simp: those_now_at card_insert_if card_Diff_singleton_if of_nat_diff)
qed

lemma those_frame [simp]:
  "callers_in P (p\<lparr>p_slots := n\<rparr>) = callers_in P p" "callers_in P (p\<lparr>p_idle := xs\<rparr>) = callers_in P p" "callers_in P (forget p) = callers_in P p"
  "callers_in P (count_live p) = callers_in P p" "callers_in P (close_socket c p) = callers_in P p" "callers_in P (release_slot k p) = callers_in P p"
  "callers_in P (exchange_fails c m p) = callers_in P p" "callers_in P (close_pool p) = callers_in P p"
  "callers_in P (p\<lparr>sockets := s, used_ids := u\<rparr>) = callers_in P p"
  by (simp_all add: callers_in_def forget_def count_live_def close_socket_def release_slot_def exchange_fails_def close_pool_def)

definition has_slot :: "caller \<Rightarrow> bool" where
  "has_slot s \<longleftrightarrow> s \<noteq> Outside \<and> s \<noteq> Waiting"

text \<open>A caller that has a connection counted in \<open>live\<close>, and one that has a connection or may yet open one.\<close>

fun counts :: "caller \<Rightarrow> bool" where
  "counts (Probing _) = True" | "counts Forgetting = True" | "counts (Using _) = True"
| "counts (Returning _) = True" | "counts _ = False"

fun claims :: "caller \<Rightarrow> bool" where
  "claims Outside = False" | "claims Waiting = False" | "claims HasSlot = False" | "claims Releasing = False"
| "claims _ = True"

definition counts_ok :: "nat \<Rightarrow> pool \<Rightarrow> bool" where
  "counts_ok n p \<longleftrightarrow>
     finite (callers_in has_slot p) \<and> int (p_slots p) + int (card (callers_in has_slot p)) = int n
     \<and> finite (callers_in counts p) \<and> p_live p = int (length (p_idle p)) + int (card (callers_in counts p))
     \<and> finite (callers_in claims p) \<and> int (length (p_idle p)) + int (card (callers_in claims p)) \<le> int n
     \<and> (p_closed p \<longrightarrow> p_idle p = [])"

lemma claims_has_slot: "finite (callers_in has_slot p) \<Longrightarrow> card (callers_in claims p) \<le> card (callers_in has_slot p)"
  by (rule card_mono) (auto simp: callers_in_def has_slot_def elim: claims.elims)

lemma sel_now_at [simp]:
  "p_slots (now_at i s p) = p_slots p" "p_idle (now_at i s p) = p_idle p" "p_closed (now_at i s p) = p_closed p"
  "p_live (now_at i s p) = p_live p" "broken (now_at i s p) = broken p" "owed (now_at i s p) = owed p"
  "sockets (now_at i s p) = sockets p" "used_ids (now_at i s p) = used_ids p"
  by (simp_all add: now_at_def)

lemma counts_move:
  assumes "counts_ok n p" "callers q = callers p"
    and "int (p_slots q) = int (p_slots p) + of_bool (has_slot (callers p i)) - of_bool (has_slot s)"
    and "p_live q - int (length (p_idle q)) = p_live p - int (length (p_idle p)) + of_bool (counts s) - of_bool (counts (callers p i))"
    and "int (length (p_idle q)) + of_bool (claims s) \<le> int (length (p_idle p)) + of_bool (claims (callers p i))
      \<or> p_idle q = [] \<and> has_slot s"
    and "p_closed q \<longrightarrow> p_idle q = []"
  shows "counts_ok n (now_at i s q)"
proof -
  have t: "callers_in P q = callers_in P p" for P using assms(2) by (simp add: callers_in_def)
  have c: "finite (callers_in P p) \<Longrightarrow> finite (callers_in P (now_at i s q))
      \<and> int (card (callers_in P (now_at i s q))) = int (card (callers_in P p)) + of_bool (P s) - of_bool (P (callers p i))" for P
    using those_card [of P q i s] assms(2) by (simp add: t)
  note h = c [of has_slot] c [of counts] c [of claims]
  have "p_idle q = [] \<and> has_slot s \<Longrightarrow> card (callers_in claims (now_at i s q)) \<le> n"
    using claims_has_slot [of "now_at i s q"] h(1) assms(1,3) by (auto simp: counts_ok_def)
  then show ?thesis using assms(1,3-6) h unfolding counts_ok_def by (auto simp: counts_ok_def)
qed

lemma pool_step_counts: "pool_step n p p' \<Longrightarrow> counts_ok n p \<Longrightarrow> counts_ok n p'"
proof (induction rule: pool_step.induct)
  case (releases p i)
  have "i \<in> callers_in has_slot p" using releases by (simp add: callers_in_def has_slot_def)
  then have "card (callers_in has_slot p) > 0" using releases card_gt_0_iff by (auto simp: counts_ok_def)
  then have "p_slots p < n" using releases by (auto simp: counts_ok_def)
  then show ?case
    by (intro counts_move [of n p]) (use releases in \<open>auto simp: release_slot_def has_slot_def counts_ok_def\<close>)
next
  case (closes p)
  then show ?case by (auto simp: counts_ok_def close_pool_def callers_in_def)
next
  case (puts p i c)
  show ?case
  proof (cases "p_closed p \<or> broken p c")
    case True
    have "counts_ok n (now_at i (Dropping c) (forget p))"
      by (rule counts_move) (use puts in \<open>auto simp: forget_def has_slot_def counts_ok_def\<close>)
    then show ?thesis using True by (simp add: put_locked_def)
  next
    case False
    have "counts_ok n (now_at i Releasing (p\<lparr>p_idle := p_idle p @ [c]\<rparr>))"
      by (rule counts_move) (use puts False in \<open>auto simp: has_slot_def counts_ok_def\<close>)
    then show ?thesis using False by (simp add: put_locked_def)
  qed
next
  case (takes_idle p i c p')
  then have "p_idle p \<noteq> []" "p' = p\<lparr>p_idle := butlast (p_idle p)\<rparr>"
    by (auto simp: take_idle_def split: if_splits)
  then show ?case
    by (intro counts_move [of n p]) (use takes_idle in \<open>auto simp: has_slot_def counts_ok_def of_nat_diff Suc_le_eq\<close>)
next
  case (finds_none p i p')
  then have "p_idle p = []" "p' = p" by (auto simp: take_idle_def split: if_splits)
  then show ?case
    by (intro counts_move [of n p]) (use finds_none in \<open>auto simp: has_slot_def counts_ok_def\<close>)
qed ((rule counts_move, assumption); auto simp: has_slot_def counts_ok_def forget_def count_live_def close_socket_def
    exchange_fails_def)+

section \<open>Owners\<close>

fun owns :: "caller \<Rightarrow> nat option" where
  "owns (Probing c) = Some c" | "owns (Opened c) = Some c" | "owns (Using c) = Some c"
| "owns (Returning c) = Some c" | "owns (Dropping c) = Some c" | "owns _ = None"

definition owned :: "pool \<Rightarrow> nat set" where
  "owned p = {c. \<exists>i. owns (callers p i) = Some c}"

definition owners_ok :: "pool \<Rightarrow> bool" where
  "owners_ok p \<longleftrightarrow>
     distinct (p_idle p) \<and> set (p_idle p) \<subseteq> used_ids p
     \<and> (\<forall>i c. owns (callers p i) = Some c \<longrightarrow> c \<notin> set (p_idle p) \<and> c \<in> used_ids p)
     \<and> (\<forall>i j c. owns (callers p i) = Some c \<longrightarrow> owns (callers p j) = Some c \<longrightarrow> i = j)
     \<and> sockets p = set (p_idle p) \<union> owned p"

lemma owned_now_at:
  assumes "\<forall>j c. owns (callers p i) = Some c \<longrightarrow> owns (callers p j) = Some c \<longrightarrow> i = j"
  shows "owned (now_at i s p) = (owned p - set_option (owns (callers p i))) \<union> set_option (owns s)"
  using assms by (auto simp: owned_def split: if_splits)

lemma owned_cong: "callers q = callers p \<Longrightarrow> owned q = owned p"
  by (simp add: owned_def)

text \<open>A caller moves, and what it owned and what it owns then are one connection, or it goes to or comes from elsewhere.\<close>

lemma owners_move:
  assumes "owners_ok p" "callers q = callers p"
    and "distinct (p_idle q)" "set (p_idle q) \<subseteq> used_ids q" "used_ids p \<subseteq> used_ids q"
    and "\<And>c. owns s = Some c \<Longrightarrow> c \<notin> set (p_idle q) \<and> c \<in> used_ids q \<and> (\<forall>j. j \<noteq> i \<longrightarrow> owns (callers p j) \<noteq> Some c)"
    and "\<And>j c. j \<noteq> i \<Longrightarrow> owns (callers p j) = Some c \<Longrightarrow> c \<notin> set (p_idle q)"
    and "sockets q = set (p_idle q) \<union> ((owned p - set_option (owns (callers p i))) \<union> set_option (owns s))"
  shows "owners_ok (now_at i s q)"
proof -
  have o: "owned (now_at i s q) = (owned p - set_option (owns (callers p i))) \<union> set_option (owns s)"
    using owned_now_at [of q i s] assms(1,2) owned_cong [OF assms(2)] by (simp add: owners_ok_def)
  have used: "owns (callers p j) = Some c \<Longrightarrow> c \<in> used_ids q" for j c
    using assms(1,5) unfolding owners_ok_def by (meson subsetD)
  have one: "owns (callers p j) = Some c \<Longrightarrow> owns (callers p k) = Some c \<Longrightarrow> j = k" for j k c
    using assms(1) unfolding owners_ok_def by meson
  have "c \<notin> set (p_idle q) \<and> c \<in> used_ids q" if "owns (((callers q)(i := s)) j) = Some c" for j c
    using that assms(6) [of c] assms(7) [of j c] used [of j c] by (auto simp: assms(2) split: if_splits)
  moreover have "j = k" if "owns (((callers q)(i := s)) j) = Some c" "owns (((callers q)(i := s)) k) = Some c" for j k c
    using that assms(6) [of c] one [of j c k] by (auto simp: assms(2) split: if_splits)
  ultimately show ?thesis
    using assms(3,4,8) o unfolding owners_ok_def by (simp only: callers_now_at sel_now_at) blast
qed

lemma owner_alone:
  assumes "owners_ok p" "owns (callers p i) = Some c"
  shows "c \<notin> set (p_idle p)" "c \<in> used_ids p" "c \<in> owned p" "owns (callers p j) = Some c \<longleftrightarrow> j = i"
  using assms by (auto simp: owners_ok_def owned_def)

lemma owned_member: "c \<in> owned p \<longleftrightarrow> (\<exists>i. owns (callers p i) = Some c)"
  by (simp add: owned_def)

lemma pool_step_owners: "pool_step n p p' \<Longrightarrow> owners_ok p \<Longrightarrow> owners_ok p'"
proof (induction rule: pool_step.induct)
  case (takes_idle p i c p')
  then have t: "p_idle p \<noteq> []" "c = last (p_idle p)" "p' = p\<lparr>p_idle := butlast (p_idle p)\<rparr>"
    by (auto simp: take_idle_def split: if_splits)
  then have s: "p_idle p = butlast (p_idle p) @ [c]" by simp
  have d: "distinct (butlast (p_idle p))" "c \<notin> set (butlast (p_idle p))" "set (p_idle p) = insert c (set (butlast (p_idle p)))"
    using takes_idle(3) s by (metis distinct_append owners_ok_def distinct.simps(2) distinct_butlast
        not_distinct_conv_prefix, metis distinct_append owners_ok_def disjoint_insert(1) list.set(2),
        metis list.simps(15) rotate1.simps(2) set_rotate1)
  show ?case
    by (rule owners_move [OF takes_idle(3)])
      (use takes_idle t(3) d in \<open>auto simp: owners_ok_def\<close>)
next
  case (finds_none p i p')
  then have "p' = p" by (auto simp: take_idle_def split: if_splits)
  then show ?case by (intro owners_move [OF finds_none(3)]) (use finds_none in \<open>auto simp: owners_ok_def\<close>)
next
  case (puts p i c)
  note o = owner_alone [OF puts(2), of i c]
  show ?case
  proof (cases "p_closed p \<or> broken p c")
    case True
    have "owners_ok (now_at i (Dropping c) (forget p))"
      by (rule owners_move [OF puts(2)]) (use puts o in \<open>auto simp: forget_def owners_ok_def\<close>)
    then show ?thesis using True by (simp add: put_locked_def)
  next
    case False
    have "owners_ok (now_at i Releasing (p\<lparr>p_idle := p_idle p @ [c]\<rparr>))"
      by (rule owners_move [OF puts(2)]) (use puts o in \<open>auto simp: owners_ok_def\<close>)
    then show ?thesis using False by (simp add: put_locked_def)
  qed
next
  case (closes p)
  then show ?case by (auto simp: owners_ok_def close_pool_def owned_def)
next
  case (alive p i c)
  show ?case
    by (rule owners_move [OF alive(3)]) (use alive owner_alone [OF alive(3), of i c] in \<open>auto simp: owners_ok_def\<close>)
next
  case (not_alive p i c)
  show ?case
    by (rule owners_move [OF not_alive(2)])
      (use not_alive owner_alone [OF not_alive(2), of i c] in \<open>auto simp: owners_ok_def close_socket_def\<close>)
next
  case (dialed p i c)
  then have "owns (callers p j) \<noteq> Some c" for j by (auto simp: owners_ok_def)
  then show ?case
    by (intro owners_move [OF dialed(3)]) (use dialed in \<open>auto simp: owners_ok_def\<close>)
next
  case (counted p i c)
  show ?case
    by (rule owners_move [OF counted(2)])
      (use counted owner_alone [OF counted(2), of i c] in \<open>auto simp: owners_ok_def count_live_def\<close>)
next
  case (answered p i c)
  show ?case
    by (rule owners_move [OF answered(2)]) (use answered owner_alone [OF answered(2), of i c] in \<open>auto simp: owners_ok_def\<close>)
next
  case (failed p i c)
  show ?case
    by (rule owners_move [OF failed(2)])
      (use failed owner_alone [OF failed(2), of i c] in \<open>auto simp: owners_ok_def exchange_fails_def\<close>)
next
  case (drops p i c)
  show ?case
    by (rule owners_move [OF drops(2)])
      (use drops owner_alone [OF drops(2), of i c] in \<open>auto simp: owners_ok_def close_socket_def\<close>)
qed ((rule owners_move, assumption); auto simp: owners_ok_def forget_def release_slot_def)+

section \<open>Clean streams\<close>

definition clean :: "pool \<Rightarrow> nat \<Rightarrow> bool" where
  "clean p c \<longleftrightarrow> \<not> broken p c \<and> owed p c = 0"

definition streams_ok :: "pool \<Rightarrow> bool" where
  "streams_ok p \<longleftrightarrow>
     (\<forall>c \<in> set (p_idle p). clean p c)
     \<and> (\<forall>i c. callers p i \<in> {Probing c, Opened c, Using c} \<longrightarrow> clean p c)
     \<and> (\<forall>i c. callers p i = Returning c \<longrightarrow> broken p c \<or> owed p c = 0)
     \<and> (\<forall>c. c \<notin> used_ids p \<longrightarrow> clean p c)"

lemma fit_frame [simp]:
  "clean (now_at i s p) = clean p" "clean (close_socket c p) = clean p"
  "clean (forget p) = clean p" "clean (count_live p) = clean p"
  "clean (release_slot n p) = clean p" "clean (p\<lparr>p_idle := xs\<rparr>) = clean p"
  "clean (p\<lparr>p_slots := m\<rparr>) = clean p" "clean (close_pool p) = clean p"
  "clean (p\<lparr>sockets := t, used_ids := u\<rparr>) = clean p"
  by (auto simp: clean_def fun_eq_iff close_socket_def forget_def count_live_def release_slot_def close_pool_def)

lemma fit_fails: "clean (exchange_fails c n p) d \<longleftrightarrow> d \<noteq> c \<and> clean p d"
  by (auto simp: clean_def exchange_fails_def)

lemma pool_step_streams: "pool_step n p p' \<Longrightarrow> owners_ok p \<Longrightarrow> streams_ok p \<Longrightarrow> streams_ok p'"
proof (induction rule: pool_step.induct)
  case (failed p i c m)
  have a: "c \<notin> set (p_idle p)" "c \<in> used_ids p" "owns (callers p j) = Some c \<longleftrightarrow> j = i" for j
    using owner_alone [OF failed(2), of i c] failed(1) by simp_all
  have b: "callers p j = Probing c \<or> callers p j = Opened c \<or> callers p j = Using c \<or> callers p j = Returning c \<Longrightarrow> j = i" for j
    using a(3) [of j] by auto
  show ?case
    using failed a(1,2) b
    by (simp add: streams_ok_def fit_fails) (auto simp: exchange_fails_def)
next
  case (puts p i c)
  then show ?case
    by (auto simp: streams_ok_def put_locked_def clean_def forget_def)
next
  case (takes_idle p i c p')
  then have t: "p' = p\<lparr>p_idle := butlast (p_idle p)\<rparr>" by (auto simp: take_idle_def split: if_splits)
  show ?case
    using takes_idle(2,4) unfolding t streams_ok_def
    by (auto simp: take_idle_def dest: in_set_butlastD split: if_splits)
next
  case (finds_none p i p')
  then have "p' = p" by (auto simp: take_idle_def split: if_splits)
  then show ?case using finds_none(4) by (auto simp: streams_ok_def)
next
  case (closes p)
  then show ?case by (simp add: streams_ok_def) (auto simp: close_pool_def)
next
  case (dialed p i c)
  then show ?case by (auto simp: streams_ok_def)
qed (simp add: streams_ok_def; auto simp: clean_def close_socket_def forget_def count_live_def release_slot_def)+

section \<open>Reachable pools\<close>

lemma pool_reachable_ok:
  "pool_reachable n p \<Longrightarrow> counts_ok n p \<and> owners_ok p \<and> streams_ok p"
proof (induction rule: pool_reachable.induct)
  case start
  show ?case
    by (simp add: counts_ok_def owners_ok_def streams_ok_def new_pool_def callers_in_def has_slot_def owned_def clean_def)
qed (blast intro: pool_step_counts pool_step_owners pool_step_streams)

lemma owned_count: "finite (callers_in claims p) \<Longrightarrow> finite (owned p) \<and> card (owned p) \<le> card (callers_in claims p)"
proof -
  assume f: "finite (callers_in claims p)"
  have "owned p \<subseteq> (\<lambda>i. the (owns (callers p i))) ` callers_in claims p"
  proof
    fix c assume "c \<in> owned p"
    then obtain i where i: "owns (callers p i) = Some c" by (auto simp: owned_def)
    then have "claims (callers p i)" by (cases "callers p i") auto
    then show "c \<in> (\<lambda>i. the (owns (callers p i))) ` callers_in claims p"
      using i by (force simp: callers_in_def)
  qed
  then show ?thesis using f surj_card_le finite_surj by metis
qed

text \<open>
  C16. The pool size is a hard ceiling. Whatever the interleaving of callers, failed dials, dead
  connections and \<open>close\<close>, no more than \<open>poolSize\<close> connections are ever open, the slots held and free
  add up to the pool size, \<open>live\<close> is the number of connections that are idle or checked out (counting
  one found dead until it is forgotten), and no connection belongs to two callers or to a caller and
  the idle list.
\<close>

theorem pool_hard_ceiling:
  assumes "pool_reachable poolSize p"
  shows "card (sockets p) \<le> poolSize
    \<and> p_slots p + card {i. has_slot (callers p i)} = poolSize
    \<and> p_live p = int (length (p_idle p)) + int (card {i. counts (callers p i)}) \<and> p_live p \<le> int poolSize
    \<and> (\<forall>i j c. owns (callers p i) = Some c \<longrightarrow> c \<notin> set (p_idle p) \<and> (owns (callers p j) = Some c \<longrightarrow> i = j))"
proof -
  have c: "counts_ok poolSize p" and o: "owners_ok p" using pool_reachable_ok [OF assms] by blast+
  have "card (sockets p) \<le> length (p_idle p) + card (callers_in claims p)"
    using o c owned_count [of p] card_Un_le [of "set (p_idle p)" "owned p"] card_length [of "p_idle p"]
    by (auto simp: owners_ok_def counts_ok_def)
  moreover have "card (callers_in counts p) \<le> card (callers_in claims p)"
    using c by (intro card_mono) (auto simp: counts_ok_def callers_in_def elim: counts.elims)
  moreover have "\<forall>i j c. owns (callers p i) = Some c \<longrightarrow> c \<notin> set (p_idle p) \<and> (owns (callers p j) = Some c \<longrightarrow> i = j)"
    using o unfolding owners_ok_def by meson
  ultimately show ?thesis
    using c by (simp add: counts_ok_def) (auto simp: callers_in_def)
qed

text \<open>
  C8. No caller reads another caller's reply. A connection a caller has been handed, and every one
  waiting in the pool, has no reply outstanding, whatever failed or was interrupted on it before, and
  each of them is open.
\<close>

theorem pool_hands_out_clean_streams:
  assumes "pool_reachable poolSize p" and "callers p i = Using c \<or> c \<in> set (p_idle p)"
  shows "owed p c = 0 \<and> \<not> broken p c \<and> c \<in> sockets p"
proof -
  have o: "owners_ok p" and s: "streams_ok p" using pool_reachable_ok [OF assms(1)] by blast+
  have "c \<in> sockets p" using assms(2) o by (auto simp: owners_ok_def owned_def intro!: exI [of _ i])
  then show ?thesis using assms(2) s by (auto simp: streams_ok_def clean_def)
qed

text \<open>
  A closed pool drains. Once \<open>close\<close> has run and every call has returned, no connection is open,
  none is counted and every slot is free, including for connections that were being dialed while it
  ran.
\<close>

lemma closed_pool_drains:
  assumes "pool_reachable poolSize p" and "p_closed p" and "\<And>i. callers p i = Outside"
  shows "sockets p = {} \<and> p_idle p = [] \<and> p_live p = 0 \<and> p_slots p = poolSize"
  using pool_reachable_ok [OF assms(1)] assms(2,3)
  by (auto simp: counts_ok_def owners_ok_def callers_in_def has_slot_def owned_def)

section \<open>Witnesses\<close>

text \<open>A pool of one whose connection is checked out.\<close>

definition busy_pool :: pool where
  "busy_pool = (new_pool 1)\<lparr>p_slots := 0, p_live := 1, callers := (\<lambda>_. Outside)(0 := Using 0), sockets := {0}, used_ids := {0}\<rparr>"

lemma reach_busy: "pool_reachable 1 busy_pool"
proof -
  let ?p0 = "new_pool 1" let ?p1 = "now_at 0 Waiting ?p0"
  let ?p2 = "now_at 0 HasSlot (?p1\<lparr>p_slots := p_slots ?p1 - 1\<rparr>)"
  let ?p3 = "now_at 0 Deciding ?p2" let ?p4 = "now_at 0 Dialing ?p3"
  let ?p5 = "now_at 0 (Opened 0) (?p4\<lparr>sockets := insert 0 (sockets ?p4), used_ids := insert 0 (used_ids ?p4)\<rparr>)"
  have "pool_step 1 ?p0 ?p1" by (rule pool_step.enters) (simp_all add: new_pool_def)
  moreover have "pool_step 1 ?p1 ?p2" by (rule pool_step.takes_slot) (simp_all add: new_pool_def)
  moreover have "pool_step 1 ?p2 ?p3" by (rule pool_step.finds_none) (simp_all add: new_pool_def take_idle_def)
  moreover have "pool_step 1 ?p3 ?p4" by (rule pool_step.dials) (simp_all add: new_pool_def)
  moreover have "pool_step 1 ?p4 ?p5" by (rule pool_step.dialed) (simp_all add: new_pool_def)
  moreover have "pool_step 1 ?p5 (now_at 0 (Using 0) (count_live ?p5))" by (rule pool_step.counted) simp
  moreover have "now_at 0 (Using 0) (count_live ?p5) = busy_pool"
    by (simp add: busy_pool_def new_pool_def now_at_def count_live_def fun_eq_iff)
  ultimately show ?thesis by (metis pool_reachable.intros)
qed

lemma pool_hard_ceiling_witness: "p_live busy_pool \<le> 1 \<and> p_live busy_pool = 1"
  using pool_hard_ceiling [OF reach_busy] by (simp add: busy_pool_def)

lemma pool_hands_out_clean_streams_witness: "owed busy_pool 0 = 0 \<and> 0 \<in> sockets busy_pool"
  using pool_hands_out_clean_streams [OF reach_busy, of 0 0] by (simp add: busy_pool_def)

lemma closed_pool_drains_witness: "p_slots (close_pool (new_pool 3)) = 3"
proof -
  have "pool_reachable 3 (close_pool (new_pool 3))"
    using pool_reachable.intros pool_step.closes by blast
  from closed_pool_drains [OF this] show ?thesis by (simp add: close_pool_def new_pool_def)
qed

end
