(* ===== verification/Client_Errors.thy ===== *)
theory Client_Errors
  imports Client_Resp "HOL-Library.Signed_Division"
begin

text \<open>
  \<open>pkg/client/errors.go\<close>: the categories of the Go client, the one error type it returns, and how a
  failure is classified. A \<open>cause\<close> is an error of the standard library as far as the classification
  tells them apart.
\<close>

section \<open>Errors\<close>

datatype category = ErrNetwork | ErrTimeout | ErrProtocol | ErrServer | ErrAuth | ErrClosed

fun category_text :: "category \<Rightarrow> bytes" where
  "category_text ErrNetwork = ''network failure''"
| "category_text ErrTimeout = ''deadline exceeded''"
| "category_text ErrProtocol = ''protocol error''"
| "category_text ErrServer = ''server error''"
| "category_text ErrAuth = ''authentication failed''"
| "category_text ErrClosed = ''client is closed''"

datatype cause =
    ContextCanceled | ContextDeadlineExceeded | OsDeadlineExceeded | NetError bool bytes | PlainError bytes

fun cause_text :: "cause \<Rightarrow> bytes" where
  "cause_text ContextCanceled = ''context canceled''"
| "cause_text ContextDeadlineExceeded = ''context deadline exceeded''"
| "cause_text OsDeadlineExceeded = ''i/o timeout''"
| "cause_text (NetError _ m) = m"
| "cause_text (PlainError m) = m"

record client_error =
  Category :: "category option"
  Op :: bytes
  Addr :: bytes
  Kind :: bytes
  Message :: bytes
  Err :: "cause option"

definition error_string :: "client_error \<Rightarrow> bytes" where
  "error_string e =
     ''atlascache'' @ (if Op e \<noteq> [] then '': '' @ Op e else []) @ (if Addr e \<noteq> [] then '' '' @ Addr e else []) @ '': ''
     @ (if Message e \<noteq> [] then Message e
        else case Err e of
               Some c \<Rightarrow> cause_text c
             | None \<Rightarrow> (case Category e of Some k \<Rightarrow> category_text k | None \<Rightarrow> ''unknown failure''))"

text \<open>\<open>Unwrap\<close>, and \<open>errors.Is\<close> against a category over what it returns.\<close>

definition unwrap :: "client_error \<Rightarrow> (category + cause) list" where
  "unwrap e =
     (case (Category e, Err e) of
        (Some k, Some c) \<Rightarrow> [Inl k, Inr c]
      | (Some k, None) \<Rightarrow> [Inl k]
      | (None, Some c) \<Rightarrow> [Inr c]
      | (None, None) \<Rightarrow> [])"

definition is_category :: "client_error \<Rightarrow> category \<Rightarrow> bool" where
  "is_category e k \<longleftrightarrow> Inl k \<in> set (unwrap e)"

definition retryable :: "client_error \<Rightarrow> bool" where
  "retryable e \<longleftrightarrow> is_category e ErrNetwork \<or> is_category e ErrTimeout"

section \<open>Classification\<close>

definition new_error :: "category option \<Rightarrow> bytes \<Rightarrow> bytes \<Rightarrow> bytes \<Rightarrow> cause option \<Rightarrow> client_error" where
  "new_error k op addr msg c = \<lparr>Category = k, Op = op, Addr = addr, Kind = [], Message = msg, Err = c\<rparr>"

definition wire_error :: "bytes \<Rightarrow> bytes \<Rightarrow> cause \<Rightarrow> client_error" where
  "wire_error op addr c =
     (case c of
        ContextCanceled \<Rightarrow> new_error None op addr ''canceled'' (Some c)
      | ContextDeadlineExceeded \<Rightarrow> new_error (Some ErrTimeout) op addr [] (Some c)
      | OsDeadlineExceeded \<Rightarrow> new_error (Some ErrTimeout) op addr [] (Some c)
      | NetError timeout _ \<Rightarrow> new_error (Some (if timeout then ErrTimeout else ErrNetwork)) op addr [] (Some c)
      | PlainError _ \<Rightarrow> new_error (Some ErrNetwork) op addr [] (Some c))"

definition context_error :: "bytes \<Rightarrow> bytes \<Rightarrow> cause \<Rightarrow> client_error" where
  "context_error op addr c =
     (if c = ContextCanceled then new_error None op addr ''canceled'' (Some c)
      else new_error (Some ErrTimeout) op addr [] (Some c))"

definition protocol_error :: "bytes \<Rightarrow> bytes \<Rightarrow> bytes \<Rightarrow> client_error" where
  "protocol_error op addr msg = new_error (Some ErrProtocol) op addr msg None"

definition closed_error :: "bytes \<Rightarrow> client_error" where
  "closed_error op = new_error (Some ErrClosed) op [] [] None"

definition config_error :: "bytes \<Rightarrow> client_error" where
  "config_error msg = new_error None ''New'' [] msg None"

definition authErrorKinds :: "bytes list" where
  "authErrorKinds = [''NOAUTH'', ''WRONGPASS'', ''NOPERM'']"

definition reply_error :: "bytes \<Rightarrow> bytes \<Rightarrow> 'f creply \<Rightarrow> client_error" where
  "reply_error op addr r =
     \<lparr>Category = Some (if rKind r \<in> set authErrorKinds then ErrAuth else ErrServer), Op = op, Addr = addr,
      Kind = rKind r, Message = rStr r, Err = None\<rparr>"

text \<open>\<open>conn.fail\<close>: a failure of the codec or of the socket, named after the call.\<close>

fun io_cause :: "io_error \<Rightarrow> cause" where
  "io_cause EOF = PlainError ''EOF''"
| "io_cause UnexpectedEOF = PlainError ''unexpected EOF''"
| "io_cause DeadlineExceeded = OsDeadlineExceeded"
| "io_cause NetClosed = NetError False ''use of closed network connection''"
| "io_cause RequestTooLarge = PlainError ''request exceeds the per-request byte budget''"
| "io_cause (OtherError m) = PlainError m"
| "io_cause (Protocol m) = PlainError m"

definition conn_fail :: "bytes \<Rightarrow> bytes \<Rightarrow> io_error \<Rightarrow> client_error" where
  "conn_fail op addr e =
     (case e of Protocol m \<Rightarrow> protocol_error op addr m | _ \<Rightarrow> wire_error op addr (io_cause e))"

lemma retryable_simps [simp]:
  "retryable (new_error k op addr msg c) \<longleftrightarrow> k = Some ErrNetwork \<or> k = Some ErrTimeout"
  "\<not> retryable (reply_error op addr r)"
  by (auto simp: retryable_def is_category_def unwrap_def new_error_def reply_error_def split: option.splits)

end
