(* ===== verification/Client_Values.thy ===== *)
theory Client_Values
  imports Client_Errors
begin

text \<open>
  \<open>pkg/client/reply.go\<close> and \<open>args.go\<close>: reading a reply as bytes, text, numbers, slices and maps, and
  rendering the arguments of \<open>Do\<close>. \<open>quote\<close> is \<open>strconv.Quote\<close>; \<open>of_int64\<close> converts to floating point.
\<close>

section \<open>Reading a reply\<close>

definition opReply :: bytes where "opReply = ''reply''"

fun type_name :: "reply_type \<Rightarrow> bytes" where
  "type_name TypeNil = ''nil''"
| "type_name TypeStatus = ''status''"
| "type_name TypeError = ''error''"
| "type_name TypeInteger = ''integer''"
| "type_name TypeBulk = ''bulk string''"
| "type_name TypeArray = ''array''"
| "type_name TypeMap = ''map''"
| "type_name TypeBool = ''boolean''"
| "type_name TypeDouble = ''double''"
| "type_name TypeBigNumber = ''big number''"
| "type_name TypePush = ''push''"

definition mismatch :: "'f creply \<Rightarrow> bytes \<Rightarrow> client_error" where
  "mismatch r want = protocol_error opReply [] (''cannot read a '' @ type_name (rType r) @ '' reply as '' @ want)"

definition is_nil :: "'f creply \<Rightarrow> bool" where
  "is_nil r \<longleftrightarrow> rType r = TypeNil"

text \<open>\<open>Bytes\<close>: \<open>None\<close> is the nil slice.\<close>

definition reply_bytes :: "'f creply \<Rightarrow> client_error + bytes option" where
  "reply_bytes r =
     (case rType r of
        TypeNil \<Rightarrow> Inr None
      | TypeBulk \<Rightarrow> Inr (Some (rStr r)) | TypeStatus \<Rightarrow> Inr (Some (rStr r)) | TypeBigNumber \<Rightarrow> Inr (Some (rStr r))
      | TypeInteger \<Rightarrow> Inr (Some (format_int (rInt r)))
      | TypeDouble \<Rightarrow> Inr (Some (rStr r))
      | TypeBool \<Rightarrow> Inr (Some (format_int (rInt r)))
      | TypeError \<Rightarrow> Inl (reply_error opReply [] r)
      | _ \<Rightarrow> Inl (mismatch r ''bytes''))"

definition reply_text :: "'f creply \<Rightarrow> client_error + bytes" where
  "reply_text r = map_sum id (\<lambda>b. case b of None \<Rightarrow> [] | Some s \<Rightarrow> s) (reply_bytes r)"

definition reply_int64 :: "(bytes \<Rightarrow> bytes) \<Rightarrow> 'f creply \<Rightarrow> client_error + int" where
  "reply_int64 quote r =
     (if rType r \<in> {TypeInteger, TypeBool} then Inr (rInt r)
      else if rType r \<in> {TypeBulk, TypeStatus, TypeBigNumber} then
        (case parse_int (rStr r) of
           None \<Rightarrow> Inl (protocol_error opReply [] (''reply '' @ quote (rStr r) @ '' is not an integer''))
         | Some n \<Rightarrow> Inr n)
      else if rType r = TypeError then Inl (reply_error opReply [] r)
      else Inl (mismatch r ''integer''))"

definition reply_bool :: "'f creply \<Rightarrow> client_error + bool" where
  "reply_bool r =
     (case rType r of
        TypeInteger \<Rightarrow> Inr (rInt r \<noteq> 0) | TypeBool \<Rightarrow> Inr (rInt r \<noteq> 0)
      | TypeNil \<Rightarrow> Inr False
      | TypeStatus \<Rightarrow> Inr (rStr r = statusOK)
      | TypeError \<Rightarrow> Inl (reply_error opReply [] r)
      | _ \<Rightarrow> Inl (mismatch r ''boolean''))"

definition reply_float64 ::
    "'f float_ops \<Rightarrow> (int \<Rightarrow> 'f) \<Rightarrow> (bytes \<Rightarrow> bytes) \<Rightarrow> 'f creply \<Rightarrow> client_error + 'f" where
  "reply_float64 F of_int64 quote r =
     (if rType r = TypeDouble then Inr (rFloat r)
      else if rType r = TypeInteger then Inr (of_int64 (rInt r))
      else if rType r \<in> {TypeBulk, TypeStatus} then
        (case parse_float F (rStr r) of
           None \<Rightarrow> Inl (protocol_error opReply [] (''reply '' @ quote (rStr r) @ '' is not a number''))
         | Some f \<Rightarrow> Inr f)
      else if rType r = TypeError then Inl (reply_error opReply [] r)
      else Inl (mismatch r ''number''))"

definition reply_slice :: "'f creply \<Rightarrow> client_error + 'f creply list" where
  "reply_slice r =
     (case rType r of
        TypeArray \<Rightarrow> Inr (rArr r) | TypeMap \<Rightarrow> Inr (rArr r)
      | TypeNil \<Rightarrow> Inr []
      | TypeError \<Rightarrow> Inl (reply_error opReply [] r)
      | _ \<Rightarrow> Inl (mismatch r ''array''))"

text \<open>The loops over the elements stop at the first that cannot be read.\<close>

fun map_until :: "('a \<Rightarrow> 'e + 'b) \<Rightarrow> 'a list \<Rightarrow> 'e + 'b list" where
  "map_until f [] = Inr []"
| "map_until f (x # xs) =
     (case f x of
        Inl e \<Rightarrow> Inl e
      | Inr y \<Rightarrow> (case map_until f xs of Inl e \<Rightarrow> Inl e | Inr ys \<Rightarrow> Inr (y # ys)))"

definition reply_byte_slices :: "'f creply \<Rightarrow> client_error + bytes option list" where
  "reply_byte_slices r = (case reply_slice r of Inl e \<Rightarrow> Inl e | Inr items \<Rightarrow> map_until reply_bytes items)"

definition reply_strings :: "'f creply \<Rightarrow> client_error + bytes list" where
  "reply_strings r = (case reply_slice r of Inl e \<Rightarrow> Inl e | Inr items \<Rightarrow> map_until reply_text items)"

fun pairs_loop :: "'f creply list \<Rightarrow> (bytes \<times> 'f creply) list \<Rightarrow> client_error + (bytes \<times> 'f creply) list" where
  "pairs_loop (k # v # rest) out =
     (case reply_text k of Inl e \<Rightarrow> Inl e | Inr key \<Rightarrow> pairs_loop rest (AList.update key v out))"
| "pairs_loop _ out = Inr out"

definition reply_map :: "'f creply \<Rightarrow> client_error + (bytes \<times> 'f creply) list" where
  "reply_map r =
     (case reply_slice r of
        Inl e \<Rightarrow> Inl e
      | Inr items \<Rightarrow>
          if odd (length items)
          then Inl (protocol_error opReply []
                 (''map has '' @ format_int (int (length items)) @ '' elements, which is not an even number of pairs''))
          else pairs_loop items [])"

section \<open>Arguments of Do\<close>

text \<open>The dynamic types \<open>encodeArg\<close> accepts; a signed or unsigned integer of any width is its value.\<close>

datatype 'f arg =
    ANil | ABytes bytes | AString bytes | ABool bool | ADuration int | ASigned int | AUnsigned nat
  | AFloat32 'f | AFloat64 'f | AOther

definition encode_arg :: "('f \<Rightarrow> bytes) \<Rightarrow> ('f \<Rightarrow> bytes) \<Rightarrow> 'f arg \<Rightarrow> bytes + bytes" where
  "encode_arg fmt32 fmt64 a =
     (case a of
        ANil \<Rightarrow> Inl ''nil is not a command argument''
      | ABytes b \<Rightarrow> Inr b
      | AString s \<Rightarrow> Inr s
      | ABool b \<Rightarrow> Inr (if b then ''1'' else ''0'')
      | ADuration d \<Rightarrow> Inr (format_int (d sdiv 1000000000))
      | ASigned n \<Rightarrow> Inr (format_int n)
      | AUnsigned n \<Rightarrow> Inr (format_nat n)
      | AFloat32 f \<Rightarrow> Inr (fmt32 f)
      | AFloat64 f \<Rightarrow> Inr (fmt64 f)
      | AOther \<Rightarrow> Inl ''unsupported argument type'')"

end
