(* ===== verification/Client_Calls.thy ===== *)
theory Client_Calls
  imports Client_Values
begin

text \<open>
  \<open>pkg/client/options.go\<close>, \<open>client.go\<close> and the backoff of \<open>pool.go\<close>: building a client, the commands
  it wraps and the loop that retries them. What one attempt comes to (a connection from the pool, an
  exchange on it) is a parameter of the loop, \<open>outcome\<close>; a wrapped command is a function of the call
  it makes. Durations are nanoseconds, \<open>rnd n\<close> stands for \<open>rand.Int64N(n)\<close>.
\<close>

section \<open>Options\<close>

record client_options =
  o_addr :: bytes
  o_username :: bytes
  o_token :: bytes
  o_tls :: bool
  o_poolSize :: int
  o_maxIdleTime :: int
  o_dialTimeout :: int
  o_readTimeout :: int
  o_writeTimeout :: int
  o_reconnectWindow :: int
  o_backoffBase :: int
  o_backoffMax :: int

abbreviation secs :: "int \<Rightarrow> int" where "secs n \<equiv> n * 1000000000"
abbreviation millis :: "int \<Rightarrow> int" where "millis n \<equiv> n * 1000000"

definition default_options :: client_options where
  "default_options =
     \<lparr>o_addr = ''127.0.0.1:6379'', o_username = [], o_token = [], o_tls = False, o_poolSize = 10,
      o_maxIdleTime = 5 * secs 60, o_dialTimeout = secs 5, o_readTimeout = secs 3, o_writeTimeout = secs 3,
      o_reconnectWindow = secs 5, o_backoffBase = millis 20, o_backoffMax = secs 1\<rparr>"

type_synonym client_option = "client_options \<Rightarrow> client_error + client_options"

definition with_addr :: "bytes \<Rightarrow> client_option" where
  "with_addr addr o' = (if addr = [] then Inl (config_error ''the address must not be empty'') else Inr (o'\<lparr>o_addr := addr\<rparr>))"

definition with_auth :: "bytes \<Rightarrow> client_option" where
  "with_auth token o' =
     (if token = [] then Inl (config_error ''the auth token must not be empty'')
      else Inr (o'\<lparr>o_username := [], o_token := token\<rparr>))"

definition with_user_auth :: "bytes \<Rightarrow> bytes \<Rightarrow> client_option" where
  "with_user_auth username token o' =
     (if username = [] then Inl (config_error ''the auth username must not be empty'')
      else if token = [] then Inl (config_error ''the auth token must not be empty'')
      else Inr (o'\<lparr>o_username := username, o_token := token\<rparr>))"

text \<open>Of the TLS configuration only whether there is one matters here.\<close>

definition with_tls :: "bool \<Rightarrow> client_option" where
  "with_tls given o' =
     (if \<not> given then Inl (config_error ''the TLS configuration must not be nil'') else Inr (o'\<lparr>o_tls := True\<rparr>))"

definition with_pool_size :: "int \<Rightarrow> client_option" where
  "with_pool_size n o' =
     (if n < 1 then Inl (config_error ''the pool size must be at least 1'') else Inr (o'\<lparr>o_poolSize := n\<rparr>))"

definition with_max_idle_time :: "int \<Rightarrow> client_option" where
  "with_max_idle_time d o' =
     (if d < 0 then Inl (config_error ''the maximum idle time must not be negative'') else Inr (o'\<lparr>o_maxIdleTime := d\<rparr>))"

definition with_dial_timeout :: "int \<Rightarrow> client_option" where
  "with_dial_timeout d o' =
     (if d < 0 then Inl (config_error ''the dial timeout must not be negative'') else Inr (o'\<lparr>o_dialTimeout := d\<rparr>))"

definition with_read_timeout :: "int \<Rightarrow> client_option" where
  "with_read_timeout d o' =
     (if d < 0 then Inl (config_error ''the read timeout must not be negative'') else Inr (o'\<lparr>o_readTimeout := d\<rparr>))"

definition with_write_timeout :: "int \<Rightarrow> client_option" where
  "with_write_timeout d o' =
     (if d < 0 then Inl (config_error ''the write timeout must not be negative'') else Inr (o'\<lparr>o_writeTimeout := d\<rparr>))"

definition with_reconnect_window :: "int \<Rightarrow> client_option" where
  "with_reconnect_window d o' =
     (if d < 0 then Inl (config_error ''the reconnect window must not be negative'')
      else Inr (o'\<lparr>o_reconnectWindow := d\<rparr>))"

definition with_backoff :: "int \<Rightarrow> int \<Rightarrow> client_option" where
  "with_backoff base maximum o' =
     (if base < 0 \<or> maximum < 0 then Inl (config_error ''the backoff durations must not be negative'')
      else if maximum > 0 \<and> base > maximum then Inl (config_error ''the backoff base must not exceed the maximum'')
      else Inr (o'\<lparr>o_backoffBase := base, o_backoffMax := maximum\<rparr>))"

text \<open>The loop of \<open>New\<close>; a nil option is skipped.\<close>

fun apply_options :: "client_option option list \<Rightarrow> client_options \<Rightarrow> client_error + client_options" where
  "apply_options [] o' = Inr o'"
| "apply_options (None # opts) o' = apply_options opts o'"
| "apply_options (Some opt # opts) o' = (case opt o' of Inl e \<Rightarrow> Inl e | Inr o'' \<Rightarrow> apply_options opts o'')"

record client =
  cl_opts :: client_options
  cl_retries :: int

definition new_client :: "client_option option list \<Rightarrow> client_error + client" where
  "new_client opts =
     (case apply_options opts default_options of
        Inl e \<Rightarrow> Inl e
      | Inr o' \<Rightarrow> Inr \<lparr>cl_opts = o', cl_retries = 0\<rparr>)"

definition with_retries :: "int \<Rightarrow> client \<Rightarrow> client" where
  "with_retries n c = c\<lparr>cl_retries := (if n < 0 then 0 else n)\<rparr>"

section \<open>Backoff\<close>

fun backoff_loop :: "int \<Rightarrow> nat \<Rightarrow> int \<Rightarrow> int" where
  "backoff_loop maximum 0 window = window"
| "backoff_loop maximum (Suc n) window =
     (let window = i64 (window * 2)
      in if maximum > 0 \<and> window \<ge> maximum then maximum
         else if window \<le> 0 then maximum
         else backoff_loop maximum n window)"

definition backoff_window :: "int \<Rightarrow> int \<Rightarrow> nat \<Rightarrow> int" where
  "backoff_window base maximum attempt =
     (let window = backoff_loop maximum attempt base
      in if maximum > 0 \<and> window > maximum then maximum else window)"

definition backoff_delay :: "(int \<Rightarrow> int) \<Rightarrow> int \<Rightarrow> int \<Rightarrow> nat \<Rightarrow> int" where
  "backoff_delay rnd base maximum attempt =
     (if base \<le> 0 then 0
      else let window = backoff_window base maximum attempt
           in if window \<le> 0 then 0 else rnd window)"

section \<open>Calls\<close>

definition idempotent :: bool where "idempotent = True"
definition unsafeToRetry :: bool where "unsafeToRetry = False"

definition cmdDo :: bytes where "cmdDo = ''DO''"

text \<open>
  What a call meets: how each attempt to send a command comes out, whether the wait before it is
  cut short, and whether the context is done after it.
\<close>

record 'f call_env =
  outcome :: "bytes list \<Rightarrow> nat \<Rightarrow> client_error + 'f creply"
  wait_error :: "nat \<Rightarrow> cause option"
  ctx_done :: "nat \<Rightarrow> bool"

text \<open>\<open>attempt\<close>, after the exchange: an error reply becomes an error.\<close>

definition attempt_result :: "bytes \<Rightarrow> bytes \<Rightarrow> client_error + 'f creply \<Rightarrow> client_error + 'f creply" where
  "attempt_result op addr x =
     (case x of Inl e \<Rightarrow> Inl e
      | Inr r \<Rightarrow> if rType r = TypeError then Inl (reply_error op addr r) else Inr r)"

text \<open>The loop of \<open>call\<close>: the result, and how many attempts were made.\<close>

function call_loop ::
    "'f float_ops \<Rightarrow> 'f call_env \<Rightarrow> bytes \<Rightarrow> bytes \<Rightarrow> bytes list \<Rightarrow> int \<Rightarrow> nat \<Rightarrow> client_error option \<Rightarrow>
     (client_error + 'f creply) \<times> nat" where
  "call_loop F env addr op command attempts attempt lastErr =
     (if int attempt < attempts then
        (case (if attempt > 0 then wait_error env attempt else None) of
           Some c \<Rightarrow> (Inl (context_error op addr c), attempt)
         | None \<Rightarrow>
             (case attempt_result op addr (outcome env command attempt) of
                Inr r \<Rightarrow> (Inr r, attempt + 1)
              | Inl e \<Rightarrow>
                  if \<not> retryable e \<or> ctx_done env attempt then (Inl e, attempt + 1)
                  else call_loop F env addr op command attempts (attempt + 1) (Some e)))
      else ((case lastErr of None \<Rightarrow> Inr (blank F TypeNil) | Some e \<Rightarrow> Inl e), attempt))"
  by pat_completeness auto
termination
  by (relation "measure (\<lambda>(F, env, addr, op, command, attempts, attempt, lastErr). nat (attempts - int attempt))") auto

declare call_loop.simps [simp del]

definition client_call ::
    "'f float_ops \<Rightarrow> 'f call_env \<Rightarrow> client \<Rightarrow> bool \<Rightarrow> bytes \<Rightarrow> bytes list \<Rightarrow> (client_error + 'f creply) \<times> nat" where
  "client_call F env c policy op args =
     (let command = (if op \<noteq> cmdDo then op # args else args);
          op = (if op \<noteq> cmdDo then op else hd args);
          attempts = (if policy = idempotent then i64 (1 + cl_retries c) else 1)
      in call_loop F env (o_addr (cl_opts c)) op command attempts 0 None)"

section \<open>The wrapped commands\<close>

type_synonym 'f call_fn = "bool \<Rightarrow> bytes \<Rightarrow> bytes list \<Rightarrow> client_error + 'f creply"

definition expiry_args :: "int \<Rightarrow> client_error + bytes list" where
  "expiry_args ttl =
     (if ttl = 0 then Inr []
      else if ttl < 0 then Inl (config_error ''the TTL must not be negative'')
      else if ttl smod 1000000000 = 0 then Inr [''EX'', format_int (ttl sdiv 1000000000)]
      else let ms = ttl sdiv 1000000
           in Inr [''PX'', format_int (if ms = 0 then 1 else ms)])"

definition client_get :: "'f call_fn \<Rightarrow> bytes \<Rightarrow> client_error + bytes option" where
  "client_get call key =
     (case call idempotent ''GET'' [key] of
        Inl e \<Rightarrow> Inl e
      | Inr reply \<Rightarrow>
          if is_nil reply then Inr None
          else case reply_bytes reply of
                 Inl e \<Rightarrow> Inl e
               | Inr v \<Rightarrow> Inr (Some (case v of None \<Rightarrow> [] | Some s \<Rightarrow> s)))"

definition client_set :: "'f call_fn \<Rightarrow> bytes \<Rightarrow> bytes \<Rightarrow> int \<Rightarrow> client_error + unit" where
  "client_set call key v ttl =
     (case expiry_args ttl of
        Inl e \<Rightarrow> Inl e
      | Inr expiry \<Rightarrow>
          (case call idempotent ''SET'' ([key, v] @ expiry) of Inl e \<Rightarrow> Inl e | Inr _ \<Rightarrow> Inr ()))"

definition client_setnx :: "'f call_fn \<Rightarrow> bytes \<Rightarrow> bytes \<Rightarrow> client_error + bool" where
  "client_setnx call key v =
     (case call unsafeToRetry ''SETNX'' [key, v] of Inl e \<Rightarrow> Inl e | Inr reply \<Rightarrow> reply_bool reply)"

definition client_del :: "(bytes \<Rightarrow> bytes) \<Rightarrow> 'f call_fn \<Rightarrow> bytes list \<Rightarrow> client_error + int" where
  "client_del quote call keys =
     (if keys = [] then Inl (config_error ''DEL needs at least one key'')
      else case call unsafeToRetry ''DEL'' keys of Inl e \<Rightarrow> Inl e | Inr reply \<Rightarrow> reply_int64 quote reply)"

definition client_exists :: "(bytes \<Rightarrow> bytes) \<Rightarrow> 'f call_fn \<Rightarrow> bytes list \<Rightarrow> client_error + int" where
  "client_exists quote call keys =
     (if keys = [] then Inl (config_error ''EXISTS needs at least one key'')
      else case call idempotent ''EXISTS'' keys of Inl e \<Rightarrow> Inl e | Inr reply \<Rightarrow> reply_int64 quote reply)"

definition expire_seconds :: "int \<Rightarrow> int" where
  "expire_seconds ttl =
     (let seconds = ttl sdiv 1000000000 in if ttl > 0 \<and> seconds = 0 then 1 else seconds)"

definition client_expire :: "'f call_fn \<Rightarrow> bytes \<Rightarrow> int \<Rightarrow> client_error + bool" where
  "client_expire call key ttl =
     (case call idempotent ''EXPIRE'' [key, format_int (expire_seconds ttl)] of
        Inl e \<Rightarrow> Inl e | Inr reply \<Rightarrow> reply_bool reply)"

definition TTLNoExpiry :: int where "TTLNoExpiry = -1"
definition TTLNoKey :: int where "TTLNoKey = -2"

definition client_ttl :: "(bytes \<Rightarrow> bytes) \<Rightarrow> 'f call_fn \<Rightarrow> bytes \<Rightarrow> client_error + int" where
  "client_ttl quote call key =
     (case call idempotent ''TTL'' [key] of
        Inl e \<Rightarrow> Inl e
      | Inr reply \<Rightarrow>
          (case reply_int64 quote reply of
             Inl e \<Rightarrow> Inl e
           | Inr s \<Rightarrow> Inr (if s = -1 then TTLNoExpiry else if s = -2 then TTLNoKey else i64 (s * 1000000000))))"

definition client_keys :: "'f call_fn \<Rightarrow> bytes \<Rightarrow> client_error + bytes list" where
  "client_keys call pattern =
     (case call idempotent ''KEYS'' [pattern] of Inl e \<Rightarrow> Inl e | Inr reply \<Rightarrow> reply_strings reply)"

definition ScanStart :: bytes where "ScanStart = ''0''"

definition client_scan ::
    "bytes \<Rightarrow> 'f call_fn \<Rightarrow> bytes \<Rightarrow> bytes \<Rightarrow> int \<Rightarrow> client_error + bytes \<times> bytes list" where
  "client_scan addr call cursor pattern n =
     (let cursor = (if cursor = [] then ScanStart else cursor);
          args = [cursor] @ (if pattern \<noteq> [] then [''MATCH'', pattern] else [])
            @ (if n > 0 then [''COUNT'', format_int n] else [])
      in case call unsafeToRetry ''SCAN'' args of
           Inl e \<Rightarrow> Inl e
         | Inr reply \<Rightarrow>
             (case reply_slice reply of
                Inl e \<Rightarrow> Inl e
              | Inr page \<Rightarrow>
                  if length page \<noteq> 2
                  then Inl (protocol_error ''SCAN'' addr (''SCAN answered with '' @ format_int (int (length page))
                         @ '' elements, want a cursor and a page''))
                  else case reply_text (page ! 0) of
                         Inl e \<Rightarrow> Inl e
                       | Inr nxt \<Rightarrow>
                           (case reply_strings (page ! 1) of Inl e \<Rightarrow> Inl e | Inr ks \<Rightarrow> Inr (nxt, ks))))"

definition scan_done :: "bytes \<times> bytes list \<Rightarrow> bool" where
  "scan_done r \<longleftrightarrow> fst r = ScanStart"

definition client_ping :: "'f call_fn \<Rightarrow> client_error + unit" where
  "client_ping call = (case call idempotent ''PING'' [] of Inl e \<Rightarrow> Inl e | Inr _ \<Rightarrow> Inr ())"

definition client_echo :: "'f call_fn \<Rightarrow> bytes \<Rightarrow> client_error + bytes option" where
  "client_echo call message = (case call idempotent ''ECHO'' [message] of Inl e \<Rightarrow> Inl e | Inr reply \<Rightarrow> reply_bytes reply)"

definition client_info :: "'f call_fn \<Rightarrow> bytes list \<Rightarrow> client_error + bytes" where
  "client_info call sections' = (case call idempotent ''INFO'' sections' of Inl e \<Rightarrow> Inl e | Inr reply \<Rightarrow> reply_text reply)"

definition client_dbsize :: "(bytes \<Rightarrow> bytes) \<Rightarrow> 'f call_fn \<Rightarrow> client_error + int" where
  "client_dbsize quote call = (case call idempotent ''DBSIZE'' [] of Inl e \<Rightarrow> Inl e | Inr reply \<Rightarrow> reply_int64 quote reply)"

text \<open>\<open>Stats\<close> ranges over a Go map: \<open>ord\<close> is the order it does so in.\<close>

definition client_stats ::
    "(bytes \<Rightarrow> bytes) \<Rightarrow> ((bytes \<times> 'f creply) list \<Rightarrow> (bytes \<times> 'f creply) list) \<Rightarrow> 'f call_fn \<Rightarrow>
     client_error + (bytes \<times> int) list" where
  "client_stats quote ord call =
     (case call idempotent ''STATS'' [] of
        Inl e \<Rightarrow> Inl e
      | Inr reply \<Rightarrow>
          (case reply_map reply of
             Inl e \<Rightarrow> Inl e
           | Inr pairs \<Rightarrow> map_until (\<lambda>(name, v). map_sum id (Pair name) (reply_int64 quote v)) (ord pairs)))"

fun encode_args :: "('f \<Rightarrow> bytes) \<Rightarrow> ('f \<Rightarrow> bytes) \<Rightarrow> nat \<Rightarrow> 'f arg list \<Rightarrow> client_error + bytes list" where
  "encode_args fmt32 fmt64 i [] = Inr []"
| "encode_args fmt32 fmt64 i (a # as) =
     (case encode_arg fmt32 fmt64 a of
        Inl m \<Rightarrow> Inl (config_error (''Do argument '' @ format_nat i @ '': '' @ m))
      | Inr b \<Rightarrow> (case encode_args fmt32 fmt64 (i + 1) as of Inl e \<Rightarrow> Inl e | Inr bs \<Rightarrow> Inr (b # bs)))"

definition client_do :: "('f \<Rightarrow> bytes) \<Rightarrow> ('f \<Rightarrow> bytes) \<Rightarrow> 'f call_fn \<Rightarrow> 'f arg list \<Rightarrow> client_error + 'f creply" where
  "client_do fmt32 fmt64 call args =
     (if args = [] then Inl (config_error ''Do needs at least a command name'')
      else case encode_args fmt32 fmt64 0 args of
             Inl e \<Rightarrow> Inl e
           | Inr encoded \<Rightarrow> call unsafeToRetry cmdDo encoded)"

end
