(* ===== verification/Client_Conn.thy ===== *)
theory Client_Conn
  imports Client_Calls
begin

text \<open>
  \<open>pkg/client/conn.go\<close> and the dialing of \<open>pool.go\<close>: one connection of the Go client. The stream of
  the server is what the connection has received and not read (\<open>cc_unread\<close>) and what arrives during an
  exchange. What the socket, the clock and the context do during one is a record, \<open>trip\<close>; a result of
  \<open>None\<close> is a call that never returns. Opening the socket and the TLS handshake on it are one parameter.
\<close>

section \<open>The connection\<close>

record cconn =
  cc_unread :: bytes
  cc_sent :: bytes
  cc_proto :: int
  cc_broken :: bool
  cc_usedAt :: int

text \<open>
  One exchange: \<open>ctx.Err()\<close> on entry, the errors of setting the deadlines and clearing them, what the
  write does (how much of it, and its error), what arrives and how the stream ends after it, whether
  the watcher fired and with what error, and the clock afterwards.
\<close>

record trip =
  tr_before :: "cause option"
  tr_set_write :: "io_error option"
  tr_write :: "(nat \<times> io_error) option"
  tr_set_read :: "io_error option"
  tr_input :: bytes
  tr_end :: "io_error option"
  tr_clear :: "io_error option"
  tr_interrupted :: "cause option"
  tr_now :: int

section \<open>Exchanges\<close>

text \<open>\<open>deadline\<close>: the earlier of the context's and the timeout's, the zero time being \<open>None\<close>.\<close>

definition deadline :: "int \<Rightarrow> int option \<Rightarrow> int \<Rightarrow> int option" where
  "deadline now fromContext timeout =
     (let fromTimeout = (if timeout > 0 then Some (now + timeout) else None)
      in case fromTimeout of
           None \<Rightarrow> fromContext
         | Some a \<Rightarrow> (case fromContext of None \<Rightarrow> Some a | Some b \<Rightarrow> if b < a then Some b else Some a))"

text \<open>\<open>roundTrip\<close>. A reply that cannot be decoded leaves the stream at an unknown position.\<close>

definition round_trip ::
    "'f float_ops \<Rightarrow> (bytes \<Rightarrow> bytes) \<Rightarrow> bytes list \<Rightarrow> trip \<Rightarrow> cconn \<Rightarrow> (io_error + 'f creply) option \<times> cconn" where
  "round_trip F quote args tr c =
     (let wbuf = append_command [] args
      in case tr_set_write tr of
           Some e \<Rightarrow> (Some (Inl e), c)
         | None \<Rightarrow>
             (case tr_write tr of
                Some (n, e) \<Rightarrow> (Some (Inl e), c\<lparr>cc_sent := cc_sent c @ take n wbuf\<rparr>)
              | None \<Rightarrow>
                  (let c = c\<lparr>cc_sent := cc_sent c @ wbuf\<rparr>
                   in case tr_set_read tr of
                        Some e \<Rightarrow> (Some (Inl e), c)
                      | None \<Rightarrow>
                          (case decode_reply F quote (tr_end tr) 0 (cc_unread c @ tr_input tr) of
                             Blocks \<Rightarrow> (None, c)
                           | Fail e \<Rightarrow> (Some (Inl e), c\<lparr>cc_unread := []\<rparr>)
                           | Got reply rest \<Rightarrow>
                               (case tr_clear tr of
                                  Some e \<Rightarrow> (Some (Inl e), c\<lparr>cc_unread := rest\<rparr>)
                                | None \<Rightarrow> (Some (Inr reply), c\<lparr>cc_unread := rest\<rparr>))))))"

definition exchange ::
    "'f float_ops \<Rightarrow> (bytes \<Rightarrow> bytes) \<Rightarrow> bytes \<Rightarrow> bytes \<Rightarrow> bytes list \<Rightarrow> trip \<Rightarrow> cconn \<Rightarrow>
     (client_error + 'f creply) option \<times> cconn" where
  "exchange F quote addr op args tr c =
     (case tr_before tr of
        Some e \<Rightarrow> (Some (Inl (context_error op addr e)), c)
      | None \<Rightarrow>
          (case round_trip F quote args tr c of
             (None, c) \<Rightarrow> (None, c)
           | (Some x, c) \<Rightarrow>
               (case tr_interrupted tr of
                  Some e \<Rightarrow> (Some (Inl (context_error op addr e)), c\<lparr>cc_broken := True\<rparr>)
                | None \<Rightarrow>
                    (case x of
                       Inl e \<Rightarrow> (Some (Inl (conn_fail op addr e)), c\<lparr>cc_broken := True\<rparr>)
                     | Inr reply \<Rightarrow>
                         if rType reply = TypePush
                         then (Some (Inl (protocol_error op addr ''unsolicited push message'')), c\<lparr>cc_broken := True\<rparr>)
                         else (Some (Inr reply), c\<lparr>cc_usedAt := tr_now tr\<rparr>)))))"

section \<open>Reuse\<close>

definition probeIdleAfter :: int where "probeIdleAfter = millis 25"

text \<open>
  What \<open>alive\<close> meets: how much is buffered, the clock, the errors of setting and clearing the deadline,
  and the error of the one-byte read, \<open>None\<close> being a byte.
\<close>

record probe =
  pr_buffered :: nat
  pr_now :: int
  pr_set :: "io_error option"
  pr_read :: "io_error option"
  pr_reset :: "io_error option"

definition alive :: "int \<Rightarrow> probe \<Rightarrow> cconn \<Rightarrow> bool" where
  "alive maxIdleTime pr c =
     (let idle = pr_now pr - cc_usedAt c
      in if cc_broken c then False
         else if pr_buffered pr > 0 then False
         else if maxIdleTime > 0 \<and> idle > maxIdleTime then False
         else if idle < probeIdleAfter then True
         else if pr_set pr \<noteq> None then False
         else if pr_reset pr \<noteq> None then False
         else pr_read pr = Some DeadlineExceeded)"

section \<open>Opening a connection\<close>

definition opDial :: bytes where "opDial = ''dial''"
definition opHello :: bytes where "opHello = ''HELLO''"
definition opAuth :: bytes where "opAuth = ''AUTH''"

text \<open>\<open>handshake\<close>: \<open>HELLO 3\<close>, whose refusal is an answer, and then \<open>AUTH\<close> when there is a token.\<close>

definition handshake ::
    "'f float_ops \<Rightarrow> (bytes \<Rightarrow> bytes) \<Rightarrow> client_options \<Rightarrow> trip \<Rightarrow> trip \<Rightarrow> cconn \<Rightarrow> client_error option option \<times> cconn" where
  "handshake F quote opts tr1 tr2 c =
     (case exchange F quote (o_addr opts) opHello [''HELLO'', ''3''] tr1 c of
        (None, c) \<Rightarrow> (None, c)
      | (Some (Inl e), c) \<Rightarrow> (Some (Some e), c)
      | (Some (Inr reply), c) \<Rightarrow>
          (let c = c\<lparr>cc_proto := if rType reply = TypeError then 2 else 3\<rparr>
           in if o_token opts = [] then (Some None, c)
              else let args = (if o_username opts \<noteq> [] then [''AUTH'', o_username opts, o_token opts] else [''AUTH'', o_token opts])
                   in case exchange F quote (o_addr opts) opAuth args tr2 c of
                        (None, c) \<Rightarrow> (None, c)
                      | (Some (Inl e), c) \<Rightarrow> (Some (Some e), c)
                      | (Some (Inr reply), c) \<Rightarrow>
                          if rType reply = TypeError
                          then (Some (Some \<lparr>Category = Some ErrAuth, Op = opAuth, Addr = o_addr opts, Kind = rKind reply,
                                  Message = rStr reply, Err = None\<rparr>), c)
                          else (Some None, c)))"

definition fresh_cconn :: "int \<Rightarrow> cconn" where
  "fresh_cconn now = \<lparr>cc_unread = [], cc_sent = [], cc_proto = 2, cc_broken = False, cc_usedAt = now\<rparr>"

text \<open>\<open>newConn\<close>: \<open>dialed\<close> is what opening the socket came to.\<close>

definition new_cconn ::
    "'f float_ops \<Rightarrow> (bytes \<Rightarrow> bytes) \<Rightarrow> client_options \<Rightarrow> cause option \<Rightarrow> int \<Rightarrow> trip \<Rightarrow> trip \<Rightarrow>
     (client_error + cconn) option" where
  "new_cconn F quote opts dialed now tr1 tr2 =
     (case dialed of
        Some e \<Rightarrow> Some (Inl (wire_error opDial (o_addr opts) e))
      | None \<Rightarrow>
          (case handshake F quote opts tr1 tr2 (fresh_cconn now) of
             (None, _) \<Rightarrow> None
           | (Some (Some e), _) \<Rightarrow> Some (Inl e)
           | (Some None, c) \<Rightarrow> Some (Inr c)))"

section \<open>Dialing with backoff\<close>

text \<open>
  The pool's \<open>dial\<close> retries until its window or the context's deadline is over. What attempt \<open>i\<close> comes
  to, the clock after it, the random numbers and whether the context ends the sleep are parameters.
  The loop has no bound of its own: it ends by the clock.
\<close>

record 'c dialing =
  dl_attempt :: "nat \<Rightarrow> client_error + 'c"
  dl_now :: "nat \<Rightarrow> int"
  dl_rnd :: "nat \<Rightarrow> int \<Rightarrow> int"
  dl_wait :: "nat \<Rightarrow> cause option"

definition dial_deadline :: "int \<Rightarrow> int \<Rightarrow> int option \<Rightarrow> int" where
  "dial_deadline start reconnectWindow ctx =
     (let d = start + reconnectWindow in case ctx of None \<Rightarrow> d | Some e \<Rightarrow> if e < d then e else d)"

partial_function (option) dial_loop ::
    "client_options \<Rightarrow> 'c dialing \<Rightarrow> int \<Rightarrow> nat \<Rightarrow> (client_error + 'c) option" where
  "dial_loop opts dl until attempt =
     (case dl_attempt dl attempt of
        Inr c \<Rightarrow> Some (Inr c)
      | Inl e \<Rightarrow>
          if \<not> retryable e then Some (Inl e)
          else let delay = backoff_delay (dl_rnd dl attempt) (o_backoffBase opts) (o_backoffMax opts) attempt
               in if dl_now dl attempt + delay > until then Some (Inl e)
                  else case dl_wait dl attempt of
                         Some w \<Rightarrow> Some (Inl (context_error opDial (o_addr opts) w))
                       | None \<Rightarrow> dial_loop opts dl until (attempt + 1))"

definition dial :: "client_options \<Rightarrow> 'c dialing \<Rightarrow> int \<Rightarrow> int option \<Rightarrow> (client_error + 'c) option" where
  "dial opts dl start ctx = dial_loop opts dl (dial_deadline start (o_reconnectWindow opts) ctx) 0"

end
