(* ===== verification/Client_Spec.thy ===== *)
theory Client_Spec
  imports Client_Calls
begin

text \<open>
  What the Go client promises (\<open>pkg/client\<close>): the options of a client, the backoff, and what is sent
  again and how often. A number of retries that overflows the loop's bound is shown to report success
  for a command that was never sent.
\<close>

section \<open>Options\<close>

definition valid_options :: "client_options \<Rightarrow> bool" where
  "valid_options o' \<longleftrightarrow>
     o_addr o' \<noteq> [] \<and> o_poolSize o' \<ge> 1 \<and> o_maxIdleTime o' \<ge> 0 \<and> o_dialTimeout o' \<ge> 0 \<and> o_readTimeout o' \<ge> 0
     \<and> o_writeTimeout o' \<ge> 0 \<and> o_reconnectWindow o' \<ge> 0 \<and> o_backoffBase o' \<ge> 0 \<and> o_backoffMax o' \<ge> 0
     \<and> (o_backoffMax o' > 0 \<longrightarrow> o_backoffBase o' \<le> o_backoffMax o')
     \<and> (o_username o' \<noteq> [] \<longrightarrow> o_token o' \<noteq> [])"

text \<open>The options a caller can build.\<close>

inductive_set option_values :: "client_option set" where
  "with_addr a \<in> option_values" | "with_auth t \<in> option_values" | "with_user_auth u t \<in> option_values"
| "with_tls b \<in> option_values" | "with_pool_size n \<in> option_values" | "with_max_idle_time d \<in> option_values"
| "with_dial_timeout d \<in> option_values" | "with_read_timeout d \<in> option_values"
| "with_write_timeout d \<in> option_values" | "with_reconnect_window d \<in> option_values"
| "with_backoff b m \<in> option_values"

lemmas option_defs = with_addr_def with_auth_def with_user_auth_def with_tls_def with_pool_size_def
  with_max_idle_time_def with_dial_timeout_def with_read_timeout_def with_write_timeout_def
  with_reconnect_window_def with_backoff_def

lemma option_valid: "opt \<in> option_values \<Longrightarrow> valid_options o' \<Longrightarrow> opt o' = Inr o'' \<Longrightarrow> valid_options o''"
  by (erule option_values.cases) (auto simp: option_defs valid_options_def split: if_splits)

lemma apply_options_valid:
  "apply_options opts o' = Inr o'' \<Longrightarrow> valid_options o' \<Longrightarrow> set opts \<subseteq> insert None (Some ` option_values) \<Longrightarrow> valid_options o''"
proof (induction opts o' rule: apply_options.induct)
  case (3 opt opts o')
  then show ?case by (auto split: sum.splits dest: option_valid)
qed auto

text \<open>
  A client that \<open>New\<close> builds is usable, whatever options it is given and in whatever order: it has
  an address, a pool of at least one connection, no negative duration, a backoff base within its
  maximum, and never a username without a token; and it never retries until asked to.
\<close>

lemma new_client_valid:
  assumes "new_client opts = Inr c" and "set opts \<subseteq> insert None (Some ` option_values)"
  shows "valid_options (cl_opts c) \<and> cl_retries c = 0 \<and> cl_retries (with_retries n c) \<ge> 0"
proof -
  have "valid_options default_options" by (simp add: valid_options_def default_options_def)
  then show ?thesis
    using assms apply_options_valid [of opts default_options]
    by (auto simp: new_client_def with_retries_def split: sum.splits)
qed

lemma new_client_valid_witness:
  "\<exists>c. new_client [Some (with_backoff 5 9), None, Some (with_pool_size 1)] = Inr c \<and> o_poolSize (cl_opts c) = 1
    \<and> valid_options (cl_opts c)"
proof -
  obtain c where c: "new_client [Some (with_backoff 5 9), None, Some (with_pool_size 1)] = Inr c" "o_poolSize (cl_opts c) = 1"
    by (simp add: new_client_def option_defs)
  have "set [Some (with_backoff 5 9), None, Some (with_pool_size 1)] \<subseteq> insert None (Some ` option_values)"
    by (auto intro: option_values.intros)
  from new_client_valid [OF c(1) this] c show ?thesis by blast
qed

section \<open>Backoff\<close>

lemma backoff_loop_min:
  assumes "0 < window" "window \<le> max_int64" "0 < maximum" "maximum \<le> max_int64"
  shows "min (backoff_loop maximum n window) maximum = min (window * 2 ^ n) maximum \<and> 0 < backoff_loop maximum n window"
  using assms
proof (induction n arbitrary: window)
  case (Suc n)
  have grow: "window * 2 \<le> window * 2 ^ Suc n" using Suc.prems(1) by simp
  show ?case
  proof (cases "window * 2 \<le> max_int64")
    case True
    then have w: "i64 (window * 2) = window * 2" using Suc.prems(1) by simp
    show ?thesis
    proof (cases "window * 2 \<ge> maximum")
      case True
      then have "min (window * 2 ^ Suc n) maximum = maximum" using grow by linarith
      then show ?thesis using True w Suc.prems(3) by (simp add: Let_def)
    next
      case False
      then show ?thesis
        using Suc.IH [of "window * 2"] Suc.prems \<open>window * 2 \<le> max_int64\<close> w by (simp add: Let_def mult.assoc)
    qed
  next
    case False
    then have "i64 (window * 2) = window * 2 - 2 ^ 64" using Suc.prems(2) by (intro i64_over) simp_all
    moreover have "min (window * 2 ^ Suc n) maximum = maximum" using False grow Suc.prems(4) by linarith
    ultimately show ?thesis using False Suc.prems by (simp add: Let_def)
  qed
qed simp

text \<open>
  The backoff window is the one documented, \<open>min(base * 2^n, max)\<close>, for every attempt number,
  although it is computed by doubling a 64-bit duration that may overflow, so a delay is always below
  it and never negative.
\<close>

lemma backoff_window_exact:
  assumes "0 < base" and "base \<le> max_int64" and "0 < maximum" and "maximum \<le> max_int64"
    and "\<And>n. 0 < n \<Longrightarrow> 0 \<le> rnd n \<and> rnd n < n"
  shows "backoff_window base maximum attempt = min (base * 2 ^ attempt) maximum
    \<and> 0 \<le> backoff_delay rnd base maximum attempt
    \<and> backoff_delay rnd base maximum attempt < min (base * 2 ^ attempt) maximum"
proof -
  have w: "backoff_window base maximum attempt = min (base * 2 ^ attempt) maximum"
    using backoff_loop_min [OF assms(1-4), of attempt] assms(3) by (auto simp: backoff_window_def Let_def min_def split: if_splits)
  moreover from this have p: "0 < min (base * 2 ^ attempt) maximum" using assms(1,3) by simp
  ultimately have "backoff_delay rnd base maximum attempt = rnd (backoff_window base maximum attempt)"
    using assms(1) by (simp add: backoff_delay_def Let_def del: min_less_iff_conj)
  then show ?thesis using w assms(5) [OF p] by simp
qed

lemma backoff_window_exact_witness: "backoff_window 20000000 1000000000 100 = 1000000000"
  using backoff_window_exact [of 20000000 1000000000 "\<lambda>n. n - 1" 100] by simp

section \<open>Retries\<close>

lemma call_loop_run:
  assumes "call_loop F env addr op command attempts i le = (res, sent)"
    and "int i < attempts" "i > 0 \<Longrightarrow> wait_error env i = None"
  shows "i < sent \<and> int sent \<le> attempts
    \<and> (\<forall>j. i \<le> j \<and> j + 1 < sent \<longrightarrow> \<not> ctx_done env j
          \<and> (\<exists>e. attempt_result op addr (outcome env command j) = Inl e \<and> retryable e))
    \<and> (res = attempt_result op addr (outcome env command (sent - 1))
       \<or> (\<exists>c. wait_error env sent = Some c \<and> res = Inl (context_error op addr c)))"
  using assms
proof (induction F env addr op command attempts i le rule: call_loop.induct)
  case (1 F env addr op command attempts i le)
  note unf = call_loop.simps [of F env addr op command attempts i le]
  have w: "(if i > 0 then wait_error env i else None) = None" using "1.prems"(3) by simp
  let ?r = "attempt_result op addr (outcome env command i)"
  show ?case
  proof (cases "\<exists>e. ?r = Inl e \<and> retryable e \<and> \<not> ctx_done env i")
    case False
    then have "(res, sent) = (?r, i + 1)"
      using "1.prems"(1,2) w by (auto simp: unf split: sum.splits if_splits)
    then show ?thesis using "1.prems"(2) by auto
  next
    case True
    then obtain e where e: "?r = Inl e" "retryable e" "\<not> ctx_done env i" by blast
    then have next': "call_loop F env addr op command attempts (i + 1) (Some e) = (res, sent)"
      using "1.prems"(1,2) w by (simp add: unf)
    consider "int (i + 1) \<ge> attempts" | c where "int (i + 1) < attempts" "wait_error env (i + 1) = Some c"
      | "int (i + 1) < attempts" "wait_error env (i + 1) = None"
      by (metis not_less option.exhaust)
    then show ?thesis
    proof cases
      case 1
      then have "(res, sent) = (Inl e, i + 1)" using next' by (simp add: call_loop.simps [of _ _ _ _ _ _ "Suc i"])
      then show ?thesis using "1.prems"(2) e by auto
    next
      case 2
      then have "(res, sent) = (Inl (context_error op addr c), i + 1)"
        using next' by (simp add: call_loop.simps [of _ _ _ _ _ _ "Suc i"])
      then show ?thesis using 2 "1.prems"(2) by auto
    next
      case 3
      have IH: "i + 1 < sent \<and> int sent \<le> attempts
        \<and> (\<forall>j. i + 1 \<le> j \<and> j + 1 < sent \<longrightarrow> \<not> ctx_done env j
              \<and> (\<exists>e. attempt_result op addr (outcome env command j) = Inl e \<and> retryable e))
        \<and> (res = attempt_result op addr (outcome env command (sent - 1))
           \<or> (\<exists>c. wait_error env sent = Some c \<and> res = Inl (context_error op addr c)))"
        using "1.IH" [OF "1.prems"(2) w e(1) _ next' 3(1) 3(2)] e by simp
      have "\<not> ctx_done env j \<and> (\<exists>e. attempt_result op addr (outcome env command j) = Inl e \<and> retryable e)"
        if "i \<le> j" "j + 1 < sent" for j
        using that IH e by (cases "j = i") auto
      with IH show ?thesis by auto
    qed
  qed
qed

text \<open>
  C18. What is sent again, and how often. A command whose reply does not survive repetition is sent
  once, whatever \<open>WithRetries\<close> was asked for; any other at most once more per retry; every attempt but
  the last failed with an error that may be retried while the caller was still waiting; and the
  caller hears the outcome of the last attempt, unless its context ended a wait.
\<close>

theorem retry_discipline:
  assumes "client_call F env c policy op args = (res, sent)"
    and "0 \<le> cl_retries c" and "cl_retries c < max_int64"
  shows "1 \<le> sent \<and> int sent \<le> 1 + cl_retries c \<and> (policy = unsafeToRetry \<longrightarrow> sent = 1)
    \<and> (let command = (if op \<noteq> cmdDo then op # args else args); name = (if op \<noteq> cmdDo then op else hd args);
           result = (\<lambda>j. attempt_result name (o_addr (cl_opts c)) (outcome env command j))
       in (\<forall>j. j + 1 < sent \<longrightarrow> \<not> ctx_done env j \<and> (\<exists>e. result j = Inl e \<and> retryable e))
          \<and> (res = result (sent - 1)
             \<or> (\<exists>cs. wait_error env sent = Some cs \<and> res = Inl (context_error name (o_addr (cl_opts c)) cs))))"
proof -
  let ?n = "if policy = idempotent then i64 (1 + cl_retries c) else 1"
  let ?command = "if op \<noteq> cmdDo then op # args else args" and ?name = "if op \<noteq> cmdDo then op else hd args"
  have n: "?n = (if policy then 1 + cl_retries c else 1)" using assms(2,3) by (simp add: idempotent_def)
  have "call_loop F env (o_addr (cl_opts c)) ?name ?command ?n 0 None = (res, sent)"
    using assms(1) by (simp add: client_call_def Let_def)
  from call_loop_run [OF this] n assms(2) show ?thesis
    by (auto simp: unsafeToRetry_def Let_def split: if_splits)
qed

lemma retry_discipline_witness:
  "\<exists>sent. client_call \<lparr>is_pos_inf = (\<lambda>_. False), is_neg_inf = (\<lambda>_. False), is_nan = (\<lambda>_. False),
        format_shortest = (\<lambda>_. []), parse_float = (\<lambda>_. None), zero_float = ()\<rparr>
      \<lparr>outcome = (\<lambda>_ _. Inl (closed_error [])), wait_error = (\<lambda>_. None), ctx_done = (\<lambda>_. False)\<rparr>
      \<lparr>cl_opts = default_options, cl_retries = 5\<rparr> unsafeToRetry ''DEL'' [''k''] = (Inl (closed_error []), sent) \<and> sent = 1"
proof -
  let ?F = "\<lparr>is_pos_inf = (\<lambda>_. False), is_neg_inf = (\<lambda>_. False), is_nan = (\<lambda>_. False),
        format_shortest = (\<lambda>_. []), parse_float = (\<lambda>_. None), zero_float = ()\<rparr>"
  let ?env = "\<lparr>outcome = (\<lambda>_ _. Inl (closed_error [])), wait_error = (\<lambda>_. None), ctx_done = (\<lambda>_. False)\<rparr>"
  obtain res sent where c: "client_call ?F ?env \<lparr>cl_opts = default_options, cl_retries = 5\<rparr> unsafeToRetry ''DEL'' [''k''] = (res, sent)"
    by fastforce
  from retry_discipline [OF c] c show ?thesis
    by (simp add: Let_def attempt_result_def cmdDo_def)
qed

text \<open>
  With the largest number of retries the bound of the loop overflows to a negative number: nothing
  is sent, and the call returns without an error, as if the server had answered null. A GET then
  misses and a SET reports success.
\<close>

lemma retries_overflow:
  "client_call F env (with_retries max_int64 c) idempotent op args = (Inr (blank F TypeNil), 0)"
  by (simp add: client_call_def with_retries_def Let_def idempotent_def call_loop.simps i64_def)

end
