(* ===== verification/Client_Conn_Spec.thy ===== *)
theory Client_Conn_Spec
  imports Client_Conn Client_Spec Wire_Spec "HOL-Library.Sublist"
begin

text \<open>
  What a connection of the Go client guarantees: one that is not marked broken is between frames, so
  the next exchange reads its own reply; and dialing ends.
\<close>

section \<open>A decoded reply does not depend on what follows\<close>

lemma client_read_line_extends:
  "client_read_line fin inp = Got l rest \<Longrightarrow> client_read_line fin' (inp @ ext) = Got l (rest @ ext)"
proof -
  assume g: "client_read_line fin inp = Got l rest"
  then obtain raw where s: "read_slice readBufferSize fin inp = Line raw rest"
    and r: "\<not> (length raw < 2 \<or> raw ! (length raw - 2) \<noteq> CR)" "l = take (length raw - 2) raw"
    by (auto simp: client_read_line_def split: slice.splits if_splits)
  obtain x where x: "inp = x @ LF # rest" "LF \<notin> set x" "raw = x @ [LF]"
    using read_slice_Line [OF s] by auto
  then have "length x < buf_size readBufferSize"
    using s by (auto simp: read_slice_def takeWhile_line Let_def split: if_splits)
  then have "read_slice readBufferSize fin' (inp @ ext) = Line raw (rest @ ext)"
    using x read_slice_line [of x readBufferSize fin' "rest @ ext"] by simp
  then show ?thesis using r by (simp add: client_read_line_def)
qed

lemma decode_client_bulk_extends:
  "decode_client_bulk F q fin l v inp = Got r rest \<Longrightarrow> decode_client_bulk F q fin' l v (inp @ ext) = Got r (rest @ ext)"
  by (auto simp: decode_client_bulk_def Let_def dest!: read_full_Got split: sum.splits if_splits read.splits)

lemma decode_reply_extends_both:
  "decode_reply F q fin d inp = Got r rest \<Longrightarrow> decode_reply F q fin' d (inp @ ext) = Got r (rest @ ext)"
  "decode_items F q fin d n items inp = Got rs rest \<Longrightarrow>
     decode_items F q fin' d n items (inp @ ext) = Got rs (rest @ ext)"
proof (induction F q fin d inp and F q fin d n items inp arbitrary: r rest and rs rest
    rule: decode_reply_decode_items.induct)
  case (1 F q fin d inp)
  note u = decode_reply.simps [of F q _ d]
  obtain c inp1 where c: "\<not> d > maxReplyDepth" "inp = c # inp1" and b: "read_byte fin inp = Got c inp1"
    using "1.prems" by (auto simp: u read_byte_Got split: if_splits read.splits)
  obtain l inp2 where l: "client_read_line fin inp1 = Got l inp2"
    using "1.prems" c by (auto simp: u read_byte_def split: read.splits)
  have dec: "decode_reply F q g d (c # i1) =
    (if c = CHR ''$'' then decode_client_bulk F q g l False i2
     else if c = CHR ''='' then decode_client_bulk F q g l True i2
     else if c = CHR ''!'' then
       (case decode_client_bulk F q g l False i2 of
          Blocks \<Rightarrow> Blocks | Fail e \<Rightarrow> Fail e | Got r rest \<Rightarrow> Got (error_reply F (rStr r)) rest)
     else if c = CHR ''*'' \<or> c = CHR ''~'' \<or> c = CHR ''>'' then
       (case client_parse_int q l ''array length'' of
          Inl e \<Rightarrow> Fail e
        | Inr n \<Rightarrow> if n < 0 then Got (blank F TypeNil) i2
            else if n > maxAggregate then Fail (Protocol (''array of '' @ format_int n @ '' elements exceeds the limit''))
            else case decode_items F q g d (nat n) [] i2 of
                   Blocks \<Rightarrow> Blocks | Fail e \<Rightarrow> Fail e
                 | Got rs rest \<Rightarrow> Got (arr_reply F (if c = CHR ''>'' then TypePush else TypeArray) rs) rest)
     else if c = CHR ''%'' then
       (case client_parse_int q l ''map length'' of
          Inl e \<Rightarrow> Fail e
        | Inr n \<Rightarrow> if n < 0 then Got (blank F TypeNil) i2
            else if n > maxAggregate then Fail (Protocol (''map of '' @ format_int n @ '' pairs exceeds the limit''))
            else case decode_items F q g d (nat (n * 2)) [] i2 of
                   Blocks \<Rightarrow> Blocks | Fail e \<Rightarrow> Fail e | Got rs rest \<Rightarrow> Got (arr_reply F TypeMap rs) rest)
     else lift_sum i2 (decode_scalar F q c l))"
    if "client_read_line g i1 = Got l i2" for g i1 i2
    using that c(1) by (simp add: u read_byte_def)
  note old = dec [OF l] and new = dec [OF client_read_line_extends [OF l, of fin' ext]]
  note goal = "1.prems" [unfolded c(2) old]
  consider (bulk) "c \<in> {CHR ''$'', CHR ''='', CHR ''!''}" | (arr) "c \<in> {CHR ''*'', CHR ''~'', CHR ''>''}"
    | (map) "c = CHR ''%''" | (scalar) "c \<notin> {CHR ''$'', CHR ''='', CHR ''!'', CHR ''*'', CHR ''~'', CHR ''>'', CHR ''%''}"
    by auto
  then show ?case
  proof cases
    case bulk
    then show ?thesis
      using goal unfolding c(2) append_Cons new
      by (auto split: read.splits if_splits dest: decode_client_bulk_extends [where fin' = fin' and ext = ext])
  next
    case arr
    obtain n where n: "client_parse_int q l ''array length'' = Inr n"
      using arr goal by (auto split: sum.splits)
    show ?thesis
    proof (cases "n < 0")
      case False
      then have "\<not> maxAggregate < n" using arr goal n by (auto split: if_splits)
      then show ?thesis
        using arr goal n False "1.IH"(1) [OF c(1) b l _ _ _ _ n False] unfolding c(2) append_Cons new
        by (auto split: read.splits if_splits)
    qed (use arr goal n in \<open>auto simp: c(2) new\<close>)
  next
    case map
    obtain n where n: "client_parse_int q l ''map length'' = Inr n"
      using map goal by (auto split: sum.splits)
    show ?thesis
    proof (cases "n < 0")
      case False
      then have "\<not> maxAggregate < n" using map goal n by (auto split: if_splits)
      then show ?thesis
        using map goal n False "1.IH"(2) [OF c(1) b l _ _ _ _ _ n False] unfolding c(2) append_Cons new
        by (auto split: read.splits if_splits)
    next
      case True
      then show ?thesis using map goal n unfolding c(2) append_Cons new by auto
    qed
  next
    case scalar
    then show ?thesis
      using goal unfolding c(2) append_Cons new by (auto simp: lift_sum_def split: sum.splits)
  qed
next
  case (2 F q fin d n items inp)
  then show ?case
    by (auto simp: decode_items.simps [of F q _ d n] split: if_splits read.splits)
qed

section \<open>Exchanges\<close>

lemma reply_decodes:
  assumes "fits F r 0" and "encode F r = Inr b"
  shows "decode_reply F quote fin 0 (b @ rest) = Got (as_client F r) rest"
proof -
  have "decodes_as F quote 0 b (as_client F r)"
    using append_reply_roundtrip(1) [OF assms(1), of "[]" quote] assms(2) by (auto simp: encode_def)
  then show ?thesis by blast
qed

lemma decoded_reply_is_it:
  assumes "fits F r 0" and "encode F r = Inr b" and "prefix s b"
    and "decode_reply F quote fin 0 s = Got x rest"
  shows "x = as_client F r \<and> rest = [] \<and> s = b"
proof -
  obtain t where t: "b = s @ t" using assms(3) by (auto elim: prefixE)
  have all: "decode_reply F quote fin 0 (b @ []) = Got (as_client F r) []"
    by (rule reply_decodes [OF assms(1,2)])
  have "decode_reply F quote fin 0 (s @ t) = Got x (rest @ t)"
    by (rule decode_reply_extends_both(1) [OF assms(4)])
  then show ?thesis using all t by simp
qed

text \<open>
  C9. An exchange that leaves the connection unmarked leaves it between frames. On a connection with
  nothing left to read, against a server that has sent no more than its reply to this request (all of
  it or a part, in any pieces, at any time), whatever the deadlines, the socket and the context do:
  either the context was done beforehand and nothing was sent, or the request was sent whole, the
  result is that reply, and nothing is left to read for whoever uses the connection next.
\<close>

theorem exchange_in_step:
  assumes "exchange F quote addr op args tr c = (Some x, c')" and "\<not> cc_broken c'"
    and "cc_unread c = []" and "fits F r 0" and "encode F r = Inr b" and "prefix (tr_input tr) b"
  shows "cc_unread c' = [] \<and>
    (x = Inr (as_client F r) \<and> tr_input tr = b \<and> cc_sent c' = cc_sent c @ append_command [] args
     \<or> (\<exists>e. tr_before tr = Some e \<and> x = Inl (context_error op addr e) \<and> c' = c))"
proof (cases "tr_before tr")
  case None
  obtain y c1 where rt: "round_trip F quote args tr c = (Some y, c1)" and i: "tr_interrupted tr = None"
    using assms(1,2) None by (auto simp: exchange_def split: prod.splits option.splits)
  obtain reply where y: "y = Inr reply" "x = Inr reply" "c' = c1\<lparr>cc_usedAt := tr_now tr\<rparr>"
    using assms(1,2) None rt i by (auto simp: exchange_def split: sum.splits if_splits)
  obtain rest where d: "decode_reply F quote (tr_end tr) 0 (tr_input tr) = Got reply rest"
    and c1: "c1 = c\<lparr>cc_sent := cc_sent c @ append_command [] args, cc_unread := rest\<rparr>"
    using rt assms(3) y(1) by (auto simp: round_trip_def Let_def split: option.splits read.splits)
  from decoded_reply_is_it [OF assms(4-6) d] show ?thesis using y c1 by simp
next
  case (Some e)
  then show ?thesis using assms(1,3) by (auto simp: exchange_def)
qed

section \<open>Dialing\<close>

lemma dial_loop_ends:
  assumes "\<And>j. 0 \<le> backoff_delay (dl_rnd dl j) (o_backoffBase opts) (o_backoffMax opts) j"
    and "until < dl_now dl N" and "attempt \<le> N"
  shows "\<exists>n x. dial_loop opts dl until attempt = Some x \<and> attempt \<le> n \<and> n \<le> N
    \<and> (\<forall>j. attempt \<le> j \<and> j < n \<longrightarrow> (\<exists>e. dl_attempt dl j = Inl e \<and> retryable e \<and> dl_now dl j \<le> until \<and> dl_wait dl j = None))
    \<and> (x = dl_attempt dl n
       \<or> (\<exists>e w. dl_attempt dl n = Inl e \<and> retryable e \<and> dl_wait dl n = Some w \<and> x = Inl (context_error opDial (o_addr opts) w)))"
  using assms(3)
proof (induction "N - attempt" arbitrary: attempt rule: less_induct)
  case less
  note u = dial_loop.simps [of opts dl until attempt]
  let ?d = "backoff_delay (dl_rnd dl attempt) (o_backoffBase opts) (o_backoffMax opts) attempt"
  show ?case
  proof (cases "dl_attempt dl attempt")
    case (Inl e)
    show ?thesis
    proof (cases "retryable e \<and> dl_now dl attempt + ?d \<le> until \<and> dl_wait dl attempt = None")
      case True
      have "attempt \<noteq> N"
        using True assms(1) [of attempt] assms(2) by auto
      then have "Suc attempt \<le> N" "N - Suc attempt < N - attempt" using less.prems by auto
      from less.hyps [OF this(2,1)]
      obtain n x where n: "dial_loop opts dl until (Suc attempt) = Some x" "Suc attempt \<le> n" "n \<le> N"
        "\<forall>j. Suc attempt \<le> j \<and> j < n \<longrightarrow> (\<exists>e. dl_attempt dl j = Inl e \<and> retryable e \<and> dl_now dl j \<le> until \<and> dl_wait dl j = None)"
        "x = dl_attempt dl n \<or> (\<exists>e w. dl_attempt dl n = Inl e \<and> retryable e \<and> dl_wait dl n = Some w
           \<and> x = Inl (context_error opDial (o_addr opts) w))"
        by blast
      have j: "\<exists>e. dl_attempt dl attempt = Inl e \<and> retryable e \<and> dl_now dl attempt \<le> until \<and> dl_wait dl attempt = None"
        using Inl True assms(1) [of attempt] by auto
      have "dial_loop opts dl until attempt = Some x"
        using Inl True n(1) by (simp add: u Let_def)
      moreover have "\<forall>j. attempt \<le> j \<and> j < n \<longrightarrow> (\<exists>e. dl_attempt dl j = Inl e \<and> retryable e \<and> dl_now dl j \<le> until \<and> dl_wait dl j = None)"
        using n(4) j by (metis Suc_leI le_neq_implies_less)
      ultimately show ?thesis using n(2,3,5) by (intro exI [of _ n] exI [of _ x]) auto
    next
      case False
      then show ?thesis
        using Inl less.prems by (intro exI [of _ attempt]) (auto simp: u Let_def split: option.split)
    qed
  qed (use less.prems in \<open>auto simp: u intro!: exI [of _ attempt]\<close>)
qed

text \<open>
  C29. Dialing ends, and retries only what may be retried. As soon as the clock after some attempt is
  past the reconnect window (or the context's deadline), that attempt is the last at the latest;
  every attempt before the last failed with an error that may be retried, inside the window; and the
  caller hears what the last attempt came to, unless its context ended the wait after it.
\<close>

theorem dial_gives_up:
  assumes "\<And>j n. 0 < n \<Longrightarrow> 0 \<le> dl_rnd dl j n \<and> dl_rnd dl j n < n"
    and "dial_deadline start (o_reconnectWindow opts) ctx < dl_now dl N"
  shows "\<exists>n x. dial opts dl start ctx = Some x \<and> n \<le> N
    \<and> (\<forall>j < n. \<exists>e. dl_attempt dl j = Inl e \<and> retryable e
         \<and> dl_now dl j \<le> dial_deadline start (o_reconnectWindow opts) ctx \<and> dl_wait dl j = None)
    \<and> (x = dl_attempt dl n
       \<or> (\<exists>e w. dl_attempt dl n = Inl e \<and> retryable e \<and> dl_wait dl n = Some w \<and> x = Inl (context_error opDial (o_addr opts) w)))"
proof -
  have "0 \<le> backoff_delay (dl_rnd dl j) (o_backoffBase opts) (o_backoffMax opts) j" for j
    using assms(1) by (simp add: backoff_delay_def Let_def)
  from dial_loop_ends [OF this assms(2), of 0] show ?thesis by (simp add: dial_def)
qed

lemma dial_gives_up_witness:
  "\<exists>x. dial default_options \<lparr>dl_attempt = \<lambda>i. if i = 2 then Inl (closed_error ''dial'') else Inl (wire_error ''dial'' [] OsDeadlineExceeded) :: client_error + nat,
     dl_now = \<lambda>i. 4000000000 * int i, dl_rnd = \<lambda>_ n. n - 1, dl_wait = \<lambda>_. None\<rparr> 0 None = Some x"
  using dial_gives_up [of "\<lparr>dl_attempt = \<lambda>i. if i = 2 then Inl (closed_error ''dial'') else Inl (wire_error ''dial'' [] OsDeadlineExceeded) :: client_error + nat,
     dl_now = \<lambda>i. 4000000000 * int i, dl_rnd = \<lambda>_ n. n - 1, dl_wait = \<lambda>_. None\<rparr>" 0 default_options None 2]
  by (auto simp: dial_deadline_def default_options_def)

lemma exchange_in_step_witness:
  "\<exists>x c'. exchange demo_floats id [] ''PING'' [''PING'']
      \<lparr>tr_before = None, tr_set_write = None, tr_write = None, tr_set_read = None, tr_input = ''+PONG'' @ CRLF,
       tr_end = Some DeadlineExceeded, tr_clear = None, tr_interrupted = None, tr_now = 1\<rparr> (fresh_cconn 0) = (Some x, c')
    \<and> x = Inr (str_reply demo_floats TypeStatus ''PONG'') \<and> cc_unread c' = []"
proof -
  let ?tr = "\<lparr>tr_before = None, tr_set_write = None, tr_write = None, tr_set_read = None, tr_input = ''+PONG'' @ CRLF,
       tr_end = Some DeadlineExceeded, tr_clear = None, tr_interrupted = None, tr_now = 1\<rparr>"
  let ?r = "SimpleString ''PONG'' :: int reply"
  have f: "fits demo_floats ?r 0" by (simp add: line_fits_def client_limits)
  have e: "encode demo_floats ?r = Inr (''+PONG'' @ CRLF)"
    by (simp add: encode_def append_scalar_def append_single_line_eq append_crlf_def fold_line_def)
  have d: "decode_reply demo_floats id (Some DeadlineExceeded) 0 (''+PONG'' @ CRLF) = Got (str_reply demo_floats TypeStatus ''PONG'') []"
    using reply_decodes [OF f e, of id _ "[]"] by (simp add: fold_line_def)
  then have x: "exchange demo_floats id [] ''PING'' [''PING''] ?tr (fresh_cconn 0)
      = (Some (Inr (str_reply demo_floats TypeStatus ''PONG'')),
         (fresh_cconn 0)\<lparr>cc_sent := append_command [] [''PING''], cc_unread := [], cc_usedAt := 1\<rparr>)"
    by (simp add: exchange_def round_trip_def fresh_cconn_def str_reply_def)
  from exchange_in_step [OF x _ _ f e] x show ?thesis by (simp add: fresh_cconn_def fold_line_def)
qed

end
