(* ===== verification/Client_Wire.thy ===== *)
theory Client_Wire
  imports Client_Conn_Spec Serve_Spec Keyspace_Spec
begin

text \<open>
  The Go client and the server end to end: what a wrapped command of \<open>pkg/client\<close> returns when its
  request bytes go to the server's decoder, the command is dispatched on the keyspace, and the bytes
  of the reply come back to the client's decoder.
\<close>

section \<open>A call over the wire\<close>

text \<open>What the server sends for the bytes of a request, and what it is afterwards.\<close>

definition server_answer ::
    "'x platform \<Rightarrow> 'f float_ops \<Rightarrow> turn \<Rightarrow> bytes \<Rightarrow> session \<Rightarrow> 'w server \<Rightarrow> bytes \<times> session \<times> 'w server" where
  "server_answer P F tn inp s srv =
     (case requests (unicode_upper P) (srv_codecLimits srv) inp of
        (rs, e, left) \<Rightarrow> serve_in_order P F (\<lambda>_. tn) 0 rs e s srv)"

text \<open>An exchange nothing goes wrong in.\<close>

definition calm_trip :: "bytes \<Rightarrow> trip" where
  "calm_trip b =
     \<lparr>tr_before = None, tr_set_write = None, tr_write = None, tr_set_read = None, tr_input = b,
      tr_end = Some DeadlineExceeded, tr_clear = None, tr_interrupted = None, tr_now = 0\<rparr>"

text \<open>A call of the client on a connection to the server, an attempt that never returns being a timeout.\<close>

definition wire_call ::
    "'x platform \<Rightarrow> 'f float_ops \<Rightarrow> (bytes \<Rightarrow> bytes) \<Rightarrow> turn \<Rightarrow> client \<Rightarrow> session \<Rightarrow> 'w server \<Rightarrow> 'f call_fn" where
  "wire_call P F quote tn c s srv policy op args =
     fst (client_call F
       \<lparr>outcome = \<lambda>command _.
          (case fst (exchange F quote (o_addr (cl_opts c)) op command
                  (calm_trip (fst (server_answer P F tn (append_command [] command) s srv))) (fresh_cconn 0)) of
             None \<Rightarrow> Inl (wire_error op (o_addr (cl_opts c)) OsDeadlineExceeded)
           | Some x \<Rightarrow> x),
        wait_error = \<lambda>_. None, ctx_done = \<lambda>_. False\<rparr> c policy op args)"

text \<open>The limits a request has to keep on the server's side.\<close>

definition request_fits :: "limits \<Rightarrow> bytes list \<Rightarrow> bool" where
  "request_fits lim command \<longleftrightarrow>
     int (length command) \<le> MaxMultiBulkLength lim \<and> MaxMultiBulkLength lim \<le> max_int64
     \<and> (\<forall>a \<in> set command. int (length a) \<le> MaxBulkLength lim) \<and> MaxBulkLength lim \<le> max_int64
     \<and> 23 \<le> MaxInlineLength lim"

lemma request_of_command:
  assumes "request_fits lim (name # args)" and "to_upper uni name \<noteq> []"
  shows "\<exists>n. requests uni lim (append_command [] (name # args)) = ([(\<lparr>cmd_name = to_upper uni name, cmd_args = args\<rparr>, n)], None, 0)"
proof -
  have d: "decode uni (nat connBufferSize) lim None (append_command [] (name # args) @ [])
      = Got \<lparr>cmd_name = to_upper uni name, cmd_args = args\<rparr> []"
    using assms decode_append_command [of "name # args" uni lim "nat connBufferSize" None "[]"]
    by (simp add: request_fits_def)
  have "read_slice (nat connBufferSize) None [] = NoData" by (simp add: read_slice_def buf_size_def)
  then have "decode uni (nat connBufferSize) lim None [] = Blocks"
    by (simp add: decode.simps [of uni "nat connBufferSize" lim None "[]"] read_line.simps [of "nat connBufferSize"])
  then have "requests uni lim [] = ([], None, 0)" by (simp add: requests.simps [of uni lim "[]"])
  then show ?thesis using d by (simp add: requests.simps [of uni lim "append_command [] (name # args)"])
qed

lemma server_answers_command:
  fixes r :: "'f reply"
  assumes "request_fits (srv_codecLimits srv) (name # args)" and "to_upper (unicode_upper P) name \<noteq> []"
    and "dispatch P (tn_readings tn) \<lparr>cmd_name = to_upper (unicode_upper P) name, cmd_args = args\<rparr> s srv = ((r, cl), s', srv')"
  shows "server_answer P F tn (append_command [] (name # args)) s srv = (rendered F r, s', srv')"
  using request_of_command [OF assms(1,2)] assms(3) by (auto simp: server_answer_def last_words_def)

lemma as_client_no_push: "rType (as_client F r) \<noteq> TypePush"
  by (induction r) (simp_all add: str_reply_def int_reply_def arr_reply_def error_reply_def blank_def)

section \<open>What the client makes of it\<close>

lemma call_loop_first:
  "0 < attempts \<Longrightarrow> attempt_result op addr (outcome env command 0) = x \<Longrightarrow> (\<And>e. x = Inl e \<Longrightarrow> \<not> retryable e) \<Longrightarrow>
     fst (call_loop F env addr op command attempts 0 None) = x"
  by (cases x) (simp_all add: call_loop.simps [of F env addr op command attempts 0])

lemma call_loop_never:
  "0 < attempts - int i \<or> le \<noteq> None \<Longrightarrow> (\<And>j. \<exists>e. attempt_result op addr (outcome env command j) = Inl e) \<Longrightarrow>
     (\<exists>e. fst (call_loop F env addr op command attempts i le) = Inl e)"
proof (induction "nat (attempts - int i)" arbitrary: i le)
  case 0
  then show ?case by (auto simp: call_loop.simps [of F env addr op command attempts i])
next
  case (Suc n)
  obtain e where e: "attempt_result op addr (outcome env command i) = Inl e" using Suc.prems(2) by blast
  have "\<exists>e'. fst (call_loop F env addr op command attempts (i + 1) (Some e)) = Inl e'"
    using Suc.hyps(2) Suc.prems(2) by (intro Suc.hyps(1)) auto
  moreover have "int i < attempts" using Suc.hyps(2) by simp
  ultimately show ?case using e
    by (auto simp: call_loop.simps [of F env addr op command attempts i] split: option.split)
qed

lemma exchange_calm:
  "exchange F quote addr op args (calm_trip b) (fresh_cconn now) =
     (case decode_reply F quote (Some DeadlineExceeded) 0 b of
        Blocks \<Rightarrow> (None, (fresh_cconn now)\<lparr>cc_sent := append_command [] args\<rparr>)
      | Fail e \<Rightarrow> (Some (Inl (conn_fail op addr e)),
          (fresh_cconn now)\<lparr>cc_sent := append_command [] args, cc_broken := True\<rparr>)
      | Got reply rest \<Rightarrow>
          if rType reply = TypePush
          then (Some (Inl (protocol_error op addr ''unsolicited push message'')),
             (fresh_cconn now)\<lparr>cc_sent := append_command [] args, cc_unread := rest, cc_broken := True\<rparr>)
          else (Some (Inr reply), (fresh_cconn now)\<lparr>cc_sent := append_command [] args, cc_unread := rest, cc_usedAt := 0\<rparr>))"
  by (simp add: exchange_def round_trip_def calm_trip_def fresh_cconn_def Let_def split: read.split)

lemma wire_call_answers:
  fixes r :: "'f reply"
  assumes "request_fits (srv_codecLimits srv) (op # args)" and "to_upper (unicode_upper P) op \<noteq> []" and "op \<noteq> cmdDo"
    and "dispatch P (tn_readings tn) \<lparr>cmd_name = to_upper (unicode_upper P) op, cmd_args = args\<rparr> s srv = ((r, cl), s', srv')"
    and "fits F r 0" and "0 \<le> cl_retries c" "cl_retries c < max_int64"
  shows "wire_call P F quote tn c s srv policy op args
    = (if rType (as_client F r) = TypeError then Inl (reply_error op (o_addr (cl_opts c)) (as_client F r)) else Inr (as_client F r))"
proof -
  have e: "encode F r = Inr (rendered F r)" using assms(4) by (rule encode_dispatch)
  have d: "decode_reply F quote fin 0 (rendered F r) = Got (as_client F r) []" for fin
    using reply_decodes [OF assms(5) e, of quote fin "[]"] by simp
  note a = server_answers_command [OF assms(1,2,4), of F]
  let ?addr = "o_addr (cl_opts c)"
  let ?env = "\<lparr>outcome = \<lambda>command _.
      (case fst (exchange F quote ?addr op command
              (calm_trip (fst (server_answer P F tn (append_command [] command) s srv))) (fresh_cconn 0)) of
         None \<Rightarrow> Inl (wire_error op ?addr OsDeadlineExceeded) | Some x \<Rightarrow> x),
      wait_error = \<lambda>_. None, ctx_done = \<lambda>_. False\<rparr> :: 'f call_env"
  let ?n = "if policy = idempotent then i64 (1 + cl_retries c) else 1"
  have n: "0 < ?n" using assms(6,7) by simp
  have x: "attempt_result op ?addr (outcome ?env (op # args) 0)
      = (if rType (as_client F r) = TypeError then Inl (reply_error op ?addr (as_client F r)) else Inr (as_client F r))"
    using as_client_no_push [of F r] by (simp add: attempt_result_def exchange_calm a d)
  have "wire_call P F quote tn c s srv policy op args = fst (call_loop F ?env ?addr op (op # args) ?n 0 None)"
    using assms(3) by (simp add: wire_call_def client_call_def Let_def)
  also have "\<dots> = (if rType (as_client F r) = TypeError then Inl (reply_error op ?addr (as_client F r)) else Inr (as_client F r))"
    by (rule call_loop_first [where env = ?env and attempts = ?n, OF n x]) (auto split: if_splits)
  finally show ?thesis .
qed

text \<open>An error reply, however long, is an error of the call.\<close>

lemma decoded_error: "decode_reply F quote fin d (CHR ''-'' # inp) = Got r rest \<Longrightarrow> rType r = TypeError"
  by (auto simp: decode_reply.simps [of F quote fin d] read_byte_def lift_sum_def decode_scalar_def error_reply_def
      split: if_splits read.splits)

lemma rendered_error: "\<exists>b. rendered F (Error k m) = CHR ''-'' # b"
  by (simp add: rendered_def encode_def append_scalar_def append_single_line_eq append_crlf_def)

lemma wire_call_refused:
  assumes "request_fits (srv_codecLimits srv) (op # args)" and "to_upper (unicode_upper P) op \<noteq> []" and "op \<noteq> cmdDo"
    and "dispatch P (tn_readings tn) \<lparr>cmd_name = to_upper (unicode_upper P) op, cmd_args = args\<rparr> s srv
      = ((Error k m :: 'f reply, cl), s', srv')"
    and "0 \<le> cl_retries c" "cl_retries c < max_int64"
  shows "\<exists>e. wire_call P (F :: 'f float_ops) quote tn c s srv policy op args = Inl e"
proof -
  note a = server_answers_command [OF assms(1,2,4), of F]
  obtain b where b: "rendered F (Error k m) = CHR ''-'' # b" using rendered_error by blast
  let ?addr = "o_addr (cl_opts c)"
  let ?env = "\<lparr>outcome = \<lambda>command _.
      (case fst (exchange F quote ?addr op command
              (calm_trip (fst (server_answer P F tn (append_command [] command) s srv))) (fresh_cconn 0)) of
         None \<Rightarrow> Inl (wire_error op ?addr OsDeadlineExceeded) | Some x \<Rightarrow> x),
      wait_error = \<lambda>_. None, ctx_done = \<lambda>_. False\<rparr> :: 'f call_env"
  let ?n = "if policy = idempotent then i64 (1 + cl_retries c) else 1"
  have "0 < ?n" using assms(5,6) by simp
  then have n: "0 < ?n - int 0 \<or> None \<noteq> (None :: client_error option)" by simp
  have x: "\<exists>e. attempt_result op ?addr (outcome ?env (op # args) j) = Inl e" for j
    by (auto simp: attempt_result_def exchange_calm a b dest: decoded_error split: read.split if_splits)
  have "wire_call P F quote tn c s srv policy op args = fst (call_loop F ?env ?addr op (op # args) ?n 0 None)"
    using assms(3) by (simp add: wire_call_def client_call_def Let_def)
  then show ?thesis using call_loop_never [where env = ?env and attempts = ?n, OF n x] by simp
qed

section \<open>SET and GET\<close>

lemma upper_names [simp]: "to_upper uni ''SET'' = ''SET''" "to_upper uni ''GET'' = ''GET''"
  by (simp_all add: to_upper_def is_ascii_def upper_char_def)

lemma run_events_same:
  "run_events P rd bg evs (ss, srv) = (ss', srv') \<Longrightarrow> same_server srv srv'"
proof (induction evs arbitrary: rd ss srv)
  case (Cons ev evs)
  obtain ss1 srv1 where e: "run_event P (rd 0) bg ev (ss, srv) = (ss1, srv1)" by fastforce
  have "same_server srv srv1"
    using e by (cases ev) (auto simp: same_server_def split: prod.splits dest!: dispatch_same)
  moreover have "same_server srv1 srv'" using Cons.prems e by (intro Cons.IH) simp
  ultimately show ?case by (rule same_server_trans)
qed simp

lemma store_failure_error: "\<exists>k m. store_failure e = Error k m"
  by (cases e) (simp_all add: store_failure_def errorf_def)

lemma store_failure_not_ok: "SimpleString m \<noteq> store_failure e"
  by (cases e) (simp_all add: store_failure_def errorf_def)

lemma dispatch_set:
  fixes srv :: "world server"
  assumes "\<not> session_auth_required s srv" and "on_store (\<lambda>st. kv_Set st k v 0) (count_command srv) = (r, srv1)"
  shows "dispatch P t \<lparr>cmd_name = ''SET'', cmd_args = [k, v]\<rparr> s srv
    = (((case r of None \<Rightarrow> SimpleString ''OK'' | Some e \<Rightarrow> store_failure e) :: 'h reply, False), s, srv1)"
  using assms(2) by (simp add: engine_store.dispatch_data(2) [OF assms(1)])

lemma dispatch_get:
  fixes srv :: "world server"
  assumes "\<not> session_auth_required s srv" and "on_store (\<lambda>st. kv_Get st k) (count_command srv) = (r, srv1)"
  shows "dispatch P t \<lparr>cmd_name = ''GET'', cmd_args = [k]\<rparr> s srv
    = (((case r of None \<Rightarrow> NilReply | Some v \<Rightarrow> BulkString v) :: 'h reply, False), s, srv1)"
  using assms(2) by (simp add: engine_store.dispatch_data(1) [OF assms(1)])

text \<open>What a successful \<open>Set\<close> of the client means at the server.\<close>

lemma client_set_stored:
  fixes F :: "'f float_ops" and srv :: "world server"
  assumes "request_fits (srv_codecLimits srv) [''SET'', k, v]" and "0 \<le> cl_retries c" "cl_retries c < max_int64"
    and "\<not> session_auth_required s srv"
    and "client_set (wire_call P F quote tn c s srv) k v 0 = Inr ()"
    and "server_answer P F tn (append_command [] [''SET'', k, v]) s srv = (out, s', srv')"
  shows "dispatch P (tn_readings tn) \<lparr>cmd_name = ''SET'', cmd_args = [k, v]\<rparr> s srv = ((SimpleString ''OK'' :: 'g reply, False), s', srv')"
proof -
  obtain r srv1 where r: "on_store (\<lambda>st. kv_Set st k v 0) (count_command srv) = (r, srv1)" by fastforce
  note d = dispatch_set [OF assms(4) r, of P "tn_readings tn"]
  have "r = None"
  proof (rule ccontr)
    assume "r \<noteq> None"
    then obtain e where "r = Some e" by blast
    moreover obtain kd m where "store_failure e = (Error kd m :: 'f reply)" using store_failure_error by blast
    ultimately have "dispatch P (tn_readings tn) \<lparr>cmd_name = ''SET'', cmd_args = [k, v]\<rparr> s srv = ((Error kd m :: 'f reply, False), s, srv1)"
      using d [where 'h = 'f] by simp
    then have "\<exists>e. wire_call P F quote tn c s srv idempotent ''SET'' [k, v] = Inl e"
      using assms(1-3)
      by (intro wire_call_refused [where k = kd and m = m and cl = False and s' = s and srv' = srv1]) (simp_all add: cmdDo_def)
    then show False using assms(5) by (auto simp: client_set_def expiry_args_def)
  qed
  moreover have "s' = s \<and> srv' = srv1"
    using server_answers_command [of srv "''SET''" "[k, v]" P tn s _ False s srv1 F] d [where 'h = 'f] assms(1,6) by simp
  ultimately show ?thesis using d [where 'h = 'g] by simp
qed


abbreviation "demo_turn \<equiv> \<lparr>tn_readings = demo_rd, tn_ctx1 = False, tn_ctx2 = False\<rparr>"
abbreviation "demo_client \<equiv> \<lparr>cl_opts = default_options, cl_retries = 3\<rparr>"

lemma demo_request: "request_fits (srv_codecLimits demo_node) [''SET'', ''k'', ''v'']"
  by (simp add: request_fits_def demo_node_def default_limits_def defaultMaxInlineLength_def
      defaultMaxMultiBulkLength_def maxValueSizeCeiling_def bulkMargin_def)


section \<open>The handshake\<close>

lemma upper_auth [simp]: "to_upper uni ''HELLO'' = ''HELLO''" "to_upper uni ''AUTH'' = ''AUTH''"
  by (simp_all add: to_upper_def is_ascii_def upper_char_def)

lemma dispatch_hello3:
  "dispatch P t \<lparr>cmd_name = ''HELLO'', cmd_args = [''3'']\<rparr> s srv = ((err_no_proto, False), s, count_command srv)"
proof -
  have "atoi ''3'' = Some 3"
    by (simp add: parse_int_def parse_digits_def is_digit_def digits_val_def digit_val_def)
  then show ?thesis
    by (simp add: dispatch_def Let_def commands_def cmdAuth_def accepts_def unbounded_def hello_handler_def
        noAuthCommands_def respVersion_def)
qed

abbreviation auth_args :: "bytes \<Rightarrow> bytes \<Rightarrow> bytes list" where
  "auth_args username token \<equiv> (if username \<noteq> [] then [username, token] else [token])"

lemma dispatch_auth:
  "dispatch P t \<lparr>cmd_name = ''AUTH'', cmd_args = auth_args username token\<rparr> s srv
    = (case auth_verify (sha256 P) username token (srv_auth srv) of
         None \<Rightarrow> ((SimpleString ''OK'', False), s\<lparr>authenticated := True\<rparr>, count_command srv)
       | Some ErrAuthDisabled \<Rightarrow> ((errorf ''Client sent AUTH, but no password is set'', False), s, count_command srv)
       | Some ErrWrongPass \<Rightarrow> ((err_wrong_pass, False), s, count_command srv))"
  by (simp add: dispatch_def Let_def commands_def cmdAuth_def accepts_def auth_handler_def noAuthCommands_def
      split: option.split auth_error.split)

lemma exchange_answered:
  fixes r :: "'f reply"
  assumes "request_fits (srv_codecLimits srv) (op # args)" and "to_upper (unicode_upper P) op \<noteq> []"
    and "dispatch P (tn_readings tn) \<lparr>cmd_name = to_upper (unicode_upper P) op, cmd_args = args\<rparr> s srv = ((r, cl), s', srv')"
    and "fits F r 0" and "server_answer P F tn (append_command [] (op # args)) s srv = (b, s2, srv2)"
    and "cc_unread c = []"
  shows "exchange F quote addr name (op # args) (calm_trip b) c
      = (Some (Inr (as_client F r)), c\<lparr>cc_sent := cc_sent c @ append_command [] (op # args), cc_unread := [], cc_usedAt := 0\<rparr>)
    \<and> s2 = s' \<and> srv2 = srv'"
proof -
  have e: "encode F r = Inr (rendered F r)" using assms(3) by (rule encode_dispatch)
  have d: "decode_reply F quote fin 0 (rendered F r) = Got (as_client F r) []" for fin
    using reply_decodes [OF assms(4) e, of quote fin "[]"] by simp
  show ?thesis
    using server_answers_command [OF assms(1-3), of F] assms(5,6) d as_client_no_push [of F r]
    by (simp add: exchange_def round_trip_def calm_trip_def Let_def)
qed

text \<open>
  C19. A client with a token against this server. Its \<open>HELLO 3\<close> is refused and the connection settles on
  RESP2; its \<open>AUTH\<close> then decides: the handshake succeeds exactly when the server accepts the token and
  the username, and the session is then authenticated; otherwise it fails with an authentication
  error, whatever kind of error the server answered. Either way the connection is between frames.
\<close>

theorem handshake_authenticates:
  fixes F :: "'f float_ops" and srv :: "'w server"
  assumes "o_token opts \<noteq> []"
    and "request_fits (srv_codecLimits srv) [''HELLO'', ''3'']"
    and "request_fits (srv_codecLimits srv) (''AUTH'' # auth_args (o_username opts) (o_token opts))"
    and "server_answer P F tn (append_command [] [''HELLO'', ''3'']) s srv = (b1, s1, srv1)"
    and "server_answer P F tn2 (append_command [] (''AUTH'' # auth_args (o_username opts) (o_token opts))) s1 srv1 = (b2, s2, srv2)"
  shows "\<exists>res c. handshake F quote opts (calm_trip b1) (calm_trip b2) (fresh_cconn now) = (Some res, c)
    \<and> cc_proto c = 2 \<and> \<not> cc_broken c \<and> cc_unread c = []
    \<and> (res = None \<longleftrightarrow> auth_verify (sha256 P) (o_username opts) (o_token opts) (srv_auth srv) = None)
    \<and> (res = None \<longrightarrow> authenticated s2)
    \<and> (\<forall>e. res = Some e \<longrightarrow> Category e = Some ErrAuth \<and> authenticated s2 = authenticated s)"
proof -
  have f: "fits F (err_no_proto :: 'f reply) 0" "fits F (err_wrong_pass :: 'f reply) 0" "fits F (SimpleString ''OK'' :: 'f reply) 0"
    "fits F (errorf ''Client sent AUTH, but no password is set'' :: 'f reply) 0"
    by (simp_all add: err_no_proto_def err_wrong_pass_def errorf_def error_text_def kindErr_def line_fits_def client_limits)
  let ?c0 = "fresh_cconn now"
  note x1 = exchange_answered [OF assms(2) _ _ f(1) assms(4), of False s "count_command srv" ?c0 quote "o_addr opts" opHello]
  obtain c1 where h: "exchange F quote (o_addr opts) opHello [''HELLO'', ''3''] (calm_trip b1) ?c0
      = (Some (Inr (as_client F (err_no_proto :: 'f reply))), c1)" "cc_unread c1 = []" "\<not> cc_broken c1"
    and s1: "s1 = s" "srv1 = count_command srv"
    using x1 by (simp add: dispatch_hello3 fresh_cconn_def)
  let ?c1 = "c1\<lparr>cc_proto := 2\<rparr>"
  have l: "srv_codecLimits (count_command srv) = srv_codecLimits srv" "srv_auth (count_command srv) = srv_auth srv"
    by (simp_all add: count_command_def)
  have second: "handshake F quote opts (calm_trip b1) (calm_trip b2) ?c0
      = (Some (if rType (as_client F r) = TypeError
           then Some \<lparr>Category = Some ErrAuth, Op = opAuth, Addr = o_addr opts, Kind = rKind (as_client F r),
             Message = rStr (as_client F r), Err = None\<rparr> else None),
         ?c1\<lparr>cc_sent := cc_sent ?c1 @ append_command [] (''AUTH'' # auth_args (o_username opts) (o_token opts)),
           cc_unread := [], cc_usedAt := 0\<rparr>) \<and> s2 = s'"
    if "fits F r 0" "dispatch P (tn_readings tn2) \<lparr>cmd_name = ''AUTH'', cmd_args = auth_args (o_username opts) (o_token opts)\<rparr>
        s (count_command srv) = ((r :: 'f reply, cl), s', srv')" for r cl s' srv'
    using exchange_answered [of "count_command srv" "''AUTH''" "auth_args (o_username opts) (o_token opts)" P tn2 s r cl s' srv'
        F b2 s2 srv2 ?c1 quote "o_addr opts" opAuth] that assms(1,3,5) h l s1
    by (simp add: handshake_def Let_def err_no_proto_def error_reply_def split: if_splits)
  note d = dispatch_auth [of P "tn_readings tn2" "o_username opts" "o_token opts" s "count_command srv", unfolded l]
  note cl = as_client.simps err_wrong_pass_def errorf_def error_reply_def str_reply_def
  show ?thesis
  proof (cases "auth_verify (sha256 P) (o_username opts) (o_token opts) (srv_auth srv)")
    case None
    from second [OF f(3) d [unfolded None option.case]] show ?thesis using h(3) None by (simp add: cl)
  next
    case (Some e)
    show ?thesis
    proof (cases e)
      case ErrAuthDisabled
      from second [OF f(4) d [unfolded Some ErrAuthDisabled option.case auth_error.case]]
      show ?thesis using h(3) Some by (simp add: cl)
    next
      case ErrWrongPass
      from second [OF f(2) d [unfolded Some ErrWrongPass option.case auth_error.case]]
      show ?thesis using h(3) Some by (simp add: cl)
    qed
  qed
qed

definition guarded_node :: "world server" where
  "guarded_node = demo_node\<lparr>srv_auth := new_authenticator id True ''secret''\<rparr>"

lemma handshake_authenticates_witness:
  "\<exists>b1 b2 s1 s2 srv1 srv2 c.
     server_answer demo_platform demo_floats demo_turn (append_command [] [''HELLO'', ''3'']) demo_session guarded_node = (b1, s1, srv1)
     \<and> server_answer demo_platform demo_floats demo_turn (append_command [] [''AUTH'', ''secret'']) s1 srv1 = (b2, s2, srv2)
     \<and> handshake demo_floats id (default_options\<lparr>o_token := ''secret''\<rparr>) (calm_trip b1) (calm_trip b2) (fresh_cconn 0) = (Some None, c)
     \<and> authenticated s2"
proof -
  let ?o = "default_options\<lparr>o_token := ''secret''\<rparr>"
  have o: "o_token ?o = ''secret''" "o_username ?o = []" by (simp_all add: default_options_def)
  have f: "request_fits (srv_codecLimits guarded_node) [''HELLO'', ''3'']"
    "request_fits (srv_codecLimits guarded_node) (''AUTH'' # auth_args (o_username ?o) (o_token ?o))"
    by (simp_all add: o request_fits_def guarded_node_def demo_node_def default_limits_def defaultMaxInlineLength_def
        defaultMaxMultiBulkLength_def maxValueSizeCeiling_def bulkMargin_def)
  obtain b1 s1 srv1 where a1: "server_answer demo_platform demo_floats demo_turn (append_command [] [''HELLO'', ''3''])
      demo_session guarded_node = (b1, s1, srv1)" by (metis surj_pair)
  obtain b2 s2 srv2 where a2: "server_answer demo_platform demo_floats demo_turn
      (append_command [] (''AUTH'' # auth_args (o_username ?o) (o_token ?o))) s1 srv1 = (b2, s2, srv2)" by (metis surj_pair)
  have v: "auth_verify (sha256 demo_platform) (o_username ?o) (o_token ?o) (srv_auth guarded_node) = None"
    unfolding o by (simp add: auth_verify_ok guarded_node_def new_authenticator_def auth_set_def auth_required_def demo_platform_def)
  have "o_token ?o \<noteq> []" by (simp add: o)
  from handshake_authenticates [OF this f a1 a2, of id 0] v a1 a2 show ?thesis unfolding o by auto
qed

end
