(* ===== verification/Config.thy ===== *)
theory Config
  imports Go_Lib
begin

text \<open>
  \<open>internal/config\<close>: the configuration and its defaults (\<open>config.go\<close>), its secrets (\<open>secret.go\<close>), and
  what makes it acceptable (\<open>validation.go\<close>). The sizes are \<open>uint64\<close>, durations nanoseconds. What the
  code asks of \<open>net.ParseIP\<close> (whether a text is an address, and a loopback one), of Unicode's case tables
  and of \<open>%.1f\<close> are parameters, as are the number of processors and a fresh UUID.
\<close>

section \<open>The configuration\<close>

record config_env =
  ce_upper :: "bytes \<Rightarrow> bytes"
  ce_lower :: "bytes \<Rightarrow> bytes"
  ce_ip :: "bytes \<Rightarrow> bool option"
  ce_folds :: "bytes \<Rightarrow> bytes \<Rightarrow> bool"
  ce_quotient :: "u64 \<Rightarrow> u64 \<Rightarrow> bytes"

record node_config =
  nc_ID :: bytes
  nc_Name :: bytes
  nc_DataDir :: bytes

record server_config =
  sc_BindAddr :: bytes
  sc_ClientPort :: int
  sc_MaxConnections :: int
  sc_ClientIdleTimeout :: int
  sc_MaxRequestSize :: bytes
  sc_MaxPipelineCommands :: int
  sc_MaxOutputBuffer :: bytes

record admin_config =
  ac_BindAddr :: bytes
  ac_Port :: int
  ac_Token :: bytes

record storage_config =
  st_ShardCount :: int
  st_MaxMemory :: bytes
  st_MaxValueSize :: bytes

record ttl_settings =
  tt_CheckInterval :: int
  tt_LazyExpiration :: bool
  tt_ActiveExpiration :: bool
  tt_BatchSize :: int

record eviction_config =
  ev_Policy :: bytes
  ev_SampleSize :: int

record logging_config =
  lg_Level :: bytes
  lg_Format :: bytes

record tls_config =
  tl_Enabled :: bool
  tl_CertFile :: bytes
  tl_KeyFile :: bytes

record auth_config =
  au_Enabled :: bool
  au_Token :: bytes

record config =
  cf_Node :: node_config
  cf_Server :: server_config
  cf_Admin :: admin_config
  cf_Storage :: storage_config
  cf_TTL :: ttl_settings
  cf_Eviction :: eviction_config
  cf_Logging :: logging_config
  cf_TLS :: tls_config
  cf_Auth :: auth_config

definition defaultMaxValueSize :: bytes where "defaultMaxValueSize = ''1MB''"

definition config_defaults :: config where
  "config_defaults =
     \<lparr>cf_Node = \<lparr>nc_ID = [], nc_Name = [], nc_DataDir = ''/var/lib/atlascache''\<rparr>,
      cf_Server = \<lparr>sc_BindAddr = ''0.0.0.0'', sc_ClientPort = 6379, sc_MaxConnections = 10000,
        sc_ClientIdleTimeout = 30 * 1000000000, sc_MaxRequestSize = ''0'', sc_MaxPipelineCommands = 1024,
        sc_MaxOutputBuffer = ''64MB''\<rparr>,
      cf_Admin = \<lparr>ac_BindAddr = ''127.0.0.1'', ac_Port = 8080, ac_Token = []\<rparr>,
      cf_Storage = \<lparr>st_ShardCount = 0, st_MaxMemory = ''0'', st_MaxValueSize = defaultMaxValueSize\<rparr>,
      cf_TTL = \<lparr>tt_CheckInterval = 100 * 1000000, tt_LazyExpiration = True, tt_ActiveExpiration = True,
        tt_BatchSize = 10000\<rparr>,
      cf_Eviction = \<lparr>ev_Policy = ''lru'', ev_SampleSize = 5\<rparr>,
      cf_Logging = \<lparr>lg_Level = ''info'', lg_Format = ''json''\<rparr>,
      cf_TLS = \<lparr>tl_Enabled = False, tl_CertFile = [], tl_KeyFile = []\<rparr>,
      cf_Auth = \<lparr>au_Enabled = False, au_Token = []\<rparr>\<rparr>"

section \<open>Secrets\<close>

definition RedactedValue :: bytes where "RedactedValue = ''<redacted>''"

definition secret_string :: "bytes \<Rightarrow> bytes" where
  "secret_string s = (if s = [] then [] else RedactedValue)"

definition secret_is_set :: "bytes \<Rightarrow> bool" where
  "secret_is_set s \<longleftrightarrow> s \<noteq> []"

definition admin_redacted :: "admin_config \<Rightarrow> admin_config" where
  "admin_redacted c = c\<lparr>ac_Token := secret_string (ac_Token c)\<rparr>"

definition auth_redacted :: "auth_config \<Rightarrow> auth_config" where
  "auth_redacted c = c\<lparr>au_Token := secret_string (au_Token c)\<rparr>"

section \<open>Sizes\<close>

definition is_space :: "char \<Rightarrow> bool" where
  "is_space c \<longleftrightarrow> (of_char c :: nat) \<in> {9, 10, 12, 13, 32}"

fun size_unit :: "bytes \<Rightarrow> u64 option" where
  "size_unit u =
     (if u = [] \<or> u = ''B'' then Some 1
      else if u = ''KB'' then Some 1024
      else if u = ''MB'' then Some (1024 * 1024)
      else if u = ''GB'' then Some (1024 * 1024 * 1024)
      else if u = ''TB'' then Some (1024 * 1024 * 1024 * 1024)
      else None)"

declare size_unit.simps [simp del]

text \<open>\<open>sizeRegex\<close>: digits, white space, a unit that may be missing.\<close>

definition match_size :: "bytes \<Rightarrow> (bytes \<times> bytes) option" where
  "match_size s =
     (let digits = takeWhile is_digit s; u = dropWhile is_space (dropWhile is_digit s)
      in if digits = [] \<or> size_unit u = None then None else Some (digits, u))"

definition size_format_error :: bytes where
  "size_format_error =
     ''invalid size format, expected format like '' @ [CHR 0x27] @ ''1GB'' @ [CHR 0x27] @ '', '' @ [CHR 0x27] @ ''512MB'' @ [CHR 0x27]
     @ '', or '' @ [CHR 0x27] @ ''0'' @ [CHR 0x27]"

definition parse_size :: "config_env \<Rightarrow> bytes \<Rightarrow> bytes + u64" where
  "parse_size E s0 =
     (let s = trim_space (to_upper (ce_upper E) s0)
      in if s = [] \<or> s = ''0'' then Inr 0
         else case match_size s of
                None \<Rightarrow> Inl size_format_error
              | Some (digits, u) \<Rightarrow>
                  (case parse_uint digits of
                     None \<Rightarrow> Inl (''invalid number: strconv.ParseUint: parsing '' @ [CHR 0x22] @ digits @ [CHR 0x22] @ '': value out of range'')
                   | Some v \<Rightarrow> Inr (of_nat v * the (size_unit u))))"

fun size_scale :: "u64 \<Rightarrow> nat \<Rightarrow> u64 \<Rightarrow> nat \<Rightarrow> u64 \<times> nat" where
  "size_scale n 0 div0 exp = (div0, exp)"
| "size_scale n (Suc fuel) div0 exp =
     (if n \<ge> 1024 then size_scale (n div 1024) fuel (div0 * 1024) (exp + 1) else (div0, exp))"

text \<open>The loop of \<open>FormatSize\<close> shortens \<open>n\<close> by ten bits a round, so seven rounds are more than it makes.\<close>

definition format_size :: "config_env \<Rightarrow> u64 \<Rightarrow> bytes" where
  "format_size E b =
     (if b < 1024 then format_nat (unat b) @ ''B''
      else case size_scale (b div 1024) 7 1024 0 of
             (d, exp) \<Rightarrow> ce_quotient E b d @ [''KMGTPE'' ! exp] @ ''B'')"

section \<open>Addresses\<close>

definition is_alnum :: "char \<Rightarrow> bool" where
  "is_alnum c \<longleftrightarrow> is_digit c \<or> (let n = (of_char c :: nat) in 65 \<le> n \<and> n \<le> 90 \<or> 97 \<le> n \<and> n \<le> 122)"

text \<open>\<open>hostnameRegex\<close>: labels between dots, which begin and end with a letter or a digit.\<close>

definition host_label :: "bytes \<Rightarrow> bool" where
  "host_label l \<longleftrightarrow> l \<noteq> [] \<and> is_alnum (hd l) \<and> is_alnum (last l) \<and> list_all (\<lambda>c. is_alnum c \<or> c = CHR ''-'') l"

fun host_labels :: "bytes \<Rightarrow> bytes \<Rightarrow> bytes list" where
  "host_labels cur [] = [cur]"
| "host_labels cur (c # cs) = (if c = CHR ''.'' then cur # host_labels [] cs else host_labels (cur @ [c]) cs)"

definition is_hostname :: "bytes \<Rightarrow> bool" where
  "is_hostname s \<longleftrightarrow> list_all host_label (host_labels [] s)"

definition equal_fold :: "config_env \<Rightarrow> bytes \<Rightarrow> bytes \<Rightarrow> bool" where
  "equal_fold E s t \<longleftrightarrow>
     (if is_ascii s \<and> is_ascii t then map lower_char s = map lower_char t else ce_folds E s t)"

definition is_loopback :: "config_env \<Rightarrow> admin_config \<Rightarrow> bool" where
  "is_loopback E c \<longleftrightarrow>
     (case ce_ip E (ac_BindAddr c) of Some b \<Rightarrow> b | None \<Rightarrow> equal_fold E (ac_BindAddr c) ''localhost'')"

text \<open>\<open>net.JoinHostPort\<close> brackets a host that holds a colon.\<close>

definition join_host_port :: "bytes \<Rightarrow> int \<Rightarrow> bytes" where
  "join_host_port host port =
     (if CHR '':'' \<in> set host then ''['' @ host @ '']:'' @ format_int port else host @ '':'' @ format_int port)"

definition client_addr :: "config \<Rightarrow> bytes" where
  "client_addr c = join_host_port (sc_BindAddr (cf_Server c)) (sc_ClientPort (cf_Server c))"

definition admin_addr :: "config \<Rightarrow> bytes" where
  "admin_addr c = join_host_port (ac_BindAddr (cf_Admin c)) (ac_Port (cf_Admin c))"

section \<open>Derived settings\<close>

definition RequestBudgetMargin :: u64 where "RequestBudgetMargin = 1024 * 1024"

definition request_budget :: "config_env \<Rightarrow> config \<Rightarrow> bytes + u64" where
  "request_budget E c =
     (case parse_size E (sc_MaxRequestSize (cf_Server c)) of
        Inl e \<Rightarrow> Inl e
      | Inr explicit \<Rightarrow>
          if explicit > 0 then Inr explicit
          else case parse_size E (st_MaxValueSize (cf_Storage c)) of
                 Inl e \<Rightarrow> Inl e
               | Inr m \<Rightarrow> Inr (m + RequestBudgetMargin))"

definition get_shard_count :: "int \<Rightarrow> config \<Rightarrow> int" where
  "get_shard_count cpus c =
     (if st_ShardCount (cf_Storage c) > 0 then st_ShardCount (cf_Storage c)
      else let n = cpus * 4; n = (if n < 16 then 16 else n) in if n > 1024 then 1024 else n)"

definition get_node_id :: "bytes \<Rightarrow> config \<Rightarrow> bytes" where
  "get_node_id uuid c = (if nc_ID (cf_Node c) \<noteq> [] then nc_ID (cf_Node c) else uuid)"

end
