(* ===== verification/Config_Validate.thy ===== *)
theory Config_Validate
  imports Config
begin

text \<open>
  \<open>internal/config/validation.go\<close>: \<open>Validate\<close>, section by section. Each check answers the list of its
  errors; \<open>validate_config\<close> answers \<open>None\<close> for a configuration the server can honor.
\<close>

record validation_error =
  ve_Field :: bytes
  ve_Message :: bytes

definition ve_text :: "validation_error \<Rightarrow> bytes" where
  "ve_text e = ''invalid config: '' @ ve_Field e @ '' - '' @ ve_Message e"

fun join_text :: "bytes \<Rightarrow> bytes list \<Rightarrow> bytes" where
  "join_text sep [] = []"
| "join_text sep [s] = s"
| "join_text sep (s # ss) = s @ sep @ join_text sep ss"

definition multi_error_text :: "validation_error list \<Rightarrow> bytes" where
  "multi_error_text errs =
     (if length errs = 1 then ve_text (hd errs)
      else ''multiple config errors:'' @ [CHR 0x0A] @ ''  - '' @ join_text ([CHR 0x0A] @ ''  - '') (map ve_text errs))"

definition fieldAdminPort :: bytes where "fieldAdminPort = ''admin.port''"
definition fieldAdminBindAddr :: bytes where "fieldAdminBindAddr = ''admin.bind_addr''"
definition fieldAdminToken :: bytes where "fieldAdminToken = ''admin.token''"
definition fieldAuthToken :: bytes where "fieldAuthToken = ''auth.token''"
definition fieldTTLActive :: bytes where "fieldTTLActive = ''ttl.active_expiration''"
definition fieldTTLLazy :: bytes where "fieldTTLLazy = ''ttl.lazy_expiration''"
definition fieldMaxConnections :: bytes where "fieldMaxConnections = ''server.max_connections''"
definition fieldClientIdleTimeout :: bytes where "fieldClientIdleTimeout = ''server.client_idle_timeout''"
definition fieldMaxPipelineCommands :: bytes where "fieldMaxPipelineCommands = ''server.max_pipeline_commands''"
definition fieldMaxOutputBuffer :: bytes where "fieldMaxOutputBuffer = ''server.max_output_buffer''"
definition fieldMaxRequestSize :: bytes where "fieldMaxRequestSize = ''server.max_request_size''"
definition fieldMaxValueSize :: bytes where "fieldMaxValueSize = ''storage.max_value_size''"
definition tooLarge :: bytes where "tooLarge = ''must be <= 1000000''"

text \<open>One check: an error when its condition holds.\<close>

definition refuse_if :: "bool \<Rightarrow> bytes \<Rightarrow> bytes \<Rightarrow> validation_error list" where
  "refuse_if b field msg = (if b then [\<lparr>ve_Field = field, ve_Message = msg\<rparr>] else [])"

definition size_error :: "bytes \<Rightarrow> bytes \<Rightarrow> validation_error" where
  "size_error field e = \<lparr>ve_Field = field, ve_Message = ''invalid size format: '' @ e\<rparr>"

section \<open>The server's limits\<close>

definition minOutputBuffer :: u64 where "minOutputBuffer = 64 * 1024"
definition protocolFraming :: u64 where "protocolFraming = 64 * 1024"

definition validate_request_size :: "config_env \<Rightarrow> server_config \<Rightarrow> storage_config \<Rightarrow> validation_error list" where
  "validate_request_size E cfg storage =
     (case parse_size E (sc_MaxRequestSize cfg) of
        Inl e \<Rightarrow> [size_error fieldMaxRequestSize e]
      | Inr requestSize \<Rightarrow>
          if requestSize = 0 then []
          else case parse_size E (st_MaxValueSize storage) of
                 Inl _ \<Rightarrow> []
               | Inr m \<Rightarrow>
                   refuse_if (requestSize < m + protocolFraming) fieldMaxRequestSize
                     (''must be at least '' @ format_size E (m + protocolFraming) @ '' -- '' @ fieldMaxValueSize @ '' plus ''
                      @ format_size E protocolFraming @ '' of protocol framing -- or the largest value '' @ fieldMaxValueSize
                      @ '' allows can never be written; raise '' @ fieldMaxRequestSize @ '' or lower '' @ fieldMaxValueSize))"

definition validate_conn_limits :: "config_env \<Rightarrow> server_config \<Rightarrow> storage_config \<Rightarrow> validation_error list" where
  "validate_conn_limits E cfg storage =
     refuse_if (sc_MaxConnections cfg < 1) fieldMaxConnections
       ''must be >= 1; a server that accepts no connections serves nobody''
     @ refuse_if (sc_MaxConnections cfg > 1000000) fieldMaxConnections tooLarge
     @ refuse_if (sc_ClientIdleTimeout cfg < 0) fieldClientIdleTimeout ''must be >= 0 (0 disables the timeout)''
     @ refuse_if (sc_ClientIdleTimeout cfg > 0 \<and> sc_ClientIdleTimeout cfg < 1000000000) fieldClientIdleTimeout
         ''must be >= 1s when set; anything shorter disconnects clients between commands''
     @ refuse_if (sc_MaxPipelineCommands cfg < 1) fieldMaxPipelineCommands
         ''must be >= 1; a batch of zero commands never flushes a reply''
     @ refuse_if (sc_MaxPipelineCommands cfg > 1000000) fieldMaxPipelineCommands tooLarge
     @ (case parse_size E (sc_MaxOutputBuffer cfg) of
          Inl e \<Rightarrow> [size_error fieldMaxOutputBuffer e]
        | Inr b \<Rightarrow> refuse_if (b > 0 \<and> b < minOutputBuffer) fieldMaxOutputBuffer
                    ''must be >= 64KB when set, or 0 to leave output uncapped'')
     @ validate_request_size E cfg storage"

section \<open>Addresses and ports\<close>

definition validate_bind_addr :: "config_env \<Rightarrow> bytes \<Rightarrow> bytes \<Rightarrow> validation_error list" where
  "validate_bind_addr E field addr =
     (if trim_space addr = []
      then [\<lparr>ve_Field = field, ve_Message = ''must not be empty (use '' @ [CHR 0x22] @ ''0.0.0.0'' @ [CHR 0x22] @ '' for all interfaces)''\<rparr>]
      else if ce_ip E addr \<noteq> None \<or> is_hostname addr then []
      else [\<lparr>ve_Field = field, ve_Message = ''must be a valid IP address or hostname''\<rparr>])"

definition validate_port :: "bytes \<Rightarrow> int \<Rightarrow> validation_error list" where
  "validate_port field port = refuse_if (port < 1 \<or> port > 65535) field ''must be between 1 and 65535''"

definition validate_server :: "config_env \<Rightarrow> server_config \<Rightarrow> storage_config \<Rightarrow> validation_error list" where
  "validate_server E cfg storage =
     validate_bind_addr E ''server.bind_addr'' (sc_BindAddr cfg)
     @ validate_port ''server.client_port'' (sc_ClientPort cfg)
     @ validate_conn_limits E cfg storage"

definition validate_admin_exposure :: "config_env \<Rightarrow> admin_config \<Rightarrow> validation_error list" where
  "validate_admin_exposure E cfg =
     (if is_loopback E cfg \<or> secret_is_set (ac_Token cfg) then []
      else [\<lparr>ve_Field = fieldAdminBindAddr,
             ve_Message = ''is '' @ ac_BindAddr cfg @ '', which is reachable from other hosts, while '' @ fieldAdminToken
               @ '' is not set: the admin API would serve statistics and the effective configuration ''
               @ ''to anyone who can reach that address, with no credential (ADR-0023). Set '' @ fieldAdminToken
               @ '' to require one, or set '' @ fieldAdminBindAddr
               @ '' to 127.0.0.1 so the API is reachable only from this host.''\<rparr>])"

definition validate_admin_token_separation :: "admin_config \<Rightarrow> auth_config \<Rightarrow> validation_error list" where
  "validate_admin_token_separation cfg auth =
     (if \<not> secret_is_set (ac_Token cfg) \<or> ac_Token cfg \<noteq> au_Token auth then []
      else [\<lparr>ve_Field = fieldAdminToken,
             ve_Message = ''must not be the same value as '' @ fieldAuthToken @ '': the admin API is more powerful ''
               @ ''than the data port, and sharing the secret gives every data client administrative access ''
               @ ''and makes either token impossible to rotate on its own (ADR-0023). Give '' @ fieldAdminToken
               @ '' a value of its own.''\<rparr>])"

definition validate_admin :: "config_env \<Rightarrow> admin_config \<Rightarrow> server_config \<Rightarrow> auth_config \<Rightarrow> validation_error list" where
  "validate_admin E cfg srv auth =
     (let bindErr = validate_bind_addr E fieldAdminBindAddr (ac_BindAddr cfg)
      in bindErr
         @ validate_port fieldAdminPort (ac_Port cfg)
         @ refuse_if (ac_Port cfg > 0 \<and> ac_Port cfg = sc_ClientPort srv) fieldAdminPort ''must differ from server.client_port''
         @ (if bindErr = [] then validate_admin_exposure E cfg else [])
         @ validate_admin_token_separation cfg auth)"

section \<open>Storage, expiry, eviction\<close>

definition validate_storage :: "config_env \<Rightarrow> storage_config \<Rightarrow> validation_error list" where
  "validate_storage E cfg =
     refuse_if (st_ShardCount cfg < 0) ''storage.shard_count'' ''must be >= 0 (0 = auto-detect)''
     @ refuse_if (st_ShardCount cfg > 4096) ''storage.shard_count'' ''must be <= 4096''
     @ (case parse_size E (st_MaxMemory cfg) of Inl e \<Rightarrow> [size_error ''storage.max_memory'' e] | Inr _ \<Rightarrow> [])
     @ (case parse_size E (st_MaxValueSize cfg) of
          Inl e \<Rightarrow> [size_error ''storage.max_value_size'' e]
        | Inr m \<Rightarrow> refuse_if (m > 16 * 1024 * 1024) ''storage.max_value_size'' ''must be <= 16MB'')"

definition validate_ttl :: "ttl_settings \<Rightarrow> validation_error list" where
  "validate_ttl cfg =
     refuse_if (tt_CheckInterval cfg < 0) ''ttl.check_interval'' ''must be >= 0''
     @ refuse_if (tt_CheckInterval cfg > 0 \<and> tt_CheckInterval cfg < 10000000) ''ttl.check_interval''
         ''must be >= 10ms for practical use''
     @ refuse_if (tt_BatchSize cfg < 1) ''ttl.batch_size'' ''must be >= 1''
     @ refuse_if (tt_BatchSize cfg > 1000000) ''ttl.batch_size'' ''must be <= 1000000''
     @ refuse_if (\<not> tt_ActiveExpiration cfg \<and> \<not> tt_LazyExpiration cfg) fieldTTLActive
         (''must not be false while '' @ fieldTTLLazy @ '' is also false: ''
          @ ''with both disabled nothing reclaims an expired key and memory grows without bound; leave ''
          @ fieldTTLActive @ '' or '' @ fieldTTLLazy @ '' enabled'')"

definition validate_tls :: "tls_config \<Rightarrow> validation_error list" where
  "validate_tls cfg =
     (if \<not> tl_Enabled cfg then []
      else refuse_if (trim_space (tl_CertFile cfg) = []) ''tls.cert_file'' ''must be set when tls.enabled is true''
           @ refuse_if (trim_space (tl_KeyFile cfg) = []) ''tls.key_file'' ''must be set when tls.enabled is true'')"

definition validate_auth :: "auth_config \<Rightarrow> validation_error list" where
  "validate_auth cfg =
     refuse_if (au_Enabled cfg \<and> au_Token cfg = []) fieldAuthToken ''must be set when auth.enabled is true''"

definition validate_eviction :: "config_env \<Rightarrow> eviction_config \<Rightarrow> validation_error list" where
  "validate_eviction E cfg =
     refuse_if (to_lower (ce_lower E) (ev_Policy cfg) \<notin> {''lru'', ''lfu'', ''fifo'', ''none''}) ''eviction.policy''
       ''must be one of: lru, lfu, fifo, none''
     @ refuse_if (ev_SampleSize cfg < 1) ''eviction.sample_size'' ''must be >= 1''
     @ refuse_if (ev_SampleSize cfg > 100) ''eviction.sample_size'' ''must be <= 100''"

definition validate_logging :: "config_env \<Rightarrow> logging_config \<Rightarrow> validation_error list" where
  "validate_logging E cfg =
     refuse_if (to_lower (ce_lower E) (lg_Level cfg)
         \<notin> {''debug'', ''info'', ''warn'', ''warning'', ''error'', ''fatal'', ''panic'', ''disabled'', ''off''}) ''logging.level''
       ''must be one of: debug, info, warn, error, fatal, panic, disabled''
     @ refuse_if (to_lower (ce_lower E) (lg_Format cfg) \<notin> {''json'', ''console''}) ''logging.format''
         ''must be one of: json, console''"

section \<open>The whole configuration\<close>

definition validate_config :: "config_env \<Rightarrow> config \<Rightarrow> validation_error list option" where
  "validate_config E cfg =
     (let errs =
        validate_server E (cf_Server cfg) (cf_Storage cfg)
        @ validate_admin E (cf_Admin cfg) (cf_Server cfg) (cf_Auth cfg)
        @ validate_storage E (cf_Storage cfg)
        @ validate_ttl (cf_TTL cfg)
        @ validate_eviction E (cf_Eviction cfg)
        @ validate_logging E (cf_Logging cfg)
        @ validate_tls (cf_TLS cfg)
        @ validate_auth (cf_Auth cfg)
      in if errs \<noteq> [] then Some errs else None)"

end
