(* ===== verification/Config_Spec.thy ===== *)
theory Config_Spec
  imports Config_Validate
begin

text \<open>
  What \<open>ParseSize\<close> reads, and what a configuration that passed \<open>Validate\<close> is known to satisfy.
\<close>

section \<open>White space and case\<close>

lemma refuse_if_Nil [simp]: "refuse_if b f m = [] \<longleftrightarrow> \<not> b"
  by (simp add: refuse_if_def)

lemma space_len_low:
  "(of_char c :: nat) < 128 \<Longrightarrow> space_len (c # cs) = (if (of_char c :: nat) \<in> {9, 10, 11, 12, 13, 32} then 1 else 0)"
  by (simp add: space_len_def Let_def)

lemma trim_space_plain:
  assumes "s \<noteq> []" "is_ascii s" "is_alnum (hd s)" "is_alnum (last s)"
  shows "trim_space s = s"
proof -
  have plain: "space_len (c # cs) = 0" if "is_alnum c" for c cs
    using space_len_low [of c cs] that by (auto simp: is_alnum_def is_digit_def Let_def)
  have ascii: "(of_char c :: nat) < 128" if "c \<in> set s" for c
    using assms(2) that by (auto simp: is_ascii_def list_all_iff)
  have low: "space_len t \<le> 1" if "set t \<subseteq> set s" for t
  proof (cases t)
    case (Cons c cs)
    then have "(of_char c :: nat) < 128" using that ascii by auto
    then show ?thesis using Cons space_len_low [of c cs] by simp
  qed (simp add: space_len_def)
  have "space_len s = 0" using plain [OF assms(3), of "tl s"] assms(1) by (cases s) auto
  then have l: "trim_left s = s" by (simp add: trim_left.simps)
  have "drop (length s - 1) s = [last s]" using assms(1) by (metis append_butlast_last_id append_eq_conv_conj length_butlast)
  then have "space_len (drop (length s - 1) s) = 0" using plain [OF assms(4), of "[]"] by simp
  moreover have "space_len (drop (length s - 2) s) \<le> 1" "space_len (drop (length s - 3) s) \<le> 1"
    by (intro low set_drop_subset)+
  ultimately have "space_suffix s = 0" by (auto simp: space_suffix_def)
  then show ?thesis using l by (simp add: trim_space_def trim_right.simps)
qed

lemma lower_alnum: "is_alnum (lower_char c) \<Longrightarrow> is_alnum c"
  by (auto simp: is_alnum_def lower_char_def is_digit_def Let_def split: if_splits)

lemma policy_name_plain:
  assumes "is_ascii p" and "to_lower uni p = q" and "q \<noteq> []" and "is_alnum (hd q)" "is_alnum (last q)"
  shows "to_lower uni (trim_space p) = q"
proof -
  have q: "q = map lower_char p" using assms(1,2) by (simp add: to_lower_def)
  then have "is_alnum (hd p)" "is_alnum (last p)"
    using assms(3-5) lower_alnum by (auto simp: hd_map last_map)
  then show ?thesis using trim_space_plain [of p] assms q by auto
qed

section \<open>Sizes\<close>

lemma size_unit_cases:
  "size_unit u = Some m \<Longrightarrow> u \<in> {[], ''B'', ''KB'', ''MB'', ''GB'', ''TB''}"
  by (auto simp: size_unit.simps split: if_splits)

lemma digit_alnum: "is_digit c \<Longrightarrow> is_alnum c \<and> (of_char c :: nat) < 128 \<and> upper_char c = c"
  by (auto simp: is_alnum_def is_digit_def upper_char_def Let_def)

lemma parse_size_reads:
  assumes "n < 2 ^ 64" and "size_unit u = Some m"
  shows "parse_size E (format_nat n @ u) = Inr (of_nat n * m)"
proof -
  let ?s = "format_nat n @ u"
  have u: "u \<in> {[], ''B'', ''KB'', ''MB'', ''GB'', ''TB''}" using assms(2) by (rule size_unit_cases)
  have d: "list_all is_digit (format_nat n)" using format_nat_digits [of n] by (auto simp: list_all_iff)
  have ne: "format_nat n \<noteq> []" using format_nat_Cons [of n] by auto
  have "\<forall>c \<in> set (format_nat n). (of_char c :: nat) < 128 \<and> upper_char c = c"
    using d digit_alnum by (auto simp: list_all_iff)
  moreover have "\<forall>c \<in> set u. (of_char c :: nat) < 128 \<and> upper_char c = c"
    using u by (auto simp: upper_char_def)
  ultimately have a: "is_ascii ?s" "map upper_char ?s = ?s"
    by (auto simp: is_ascii_def list_all_iff intro: map_idI)
  have "is_alnum (hd ?s)" using d ne digit_alnum by (simp add: hd_append list_all_iff)
  moreover have "u \<noteq> [] \<longrightarrow> is_alnum (last u)" using u by (auto simp: is_alnum_def)
  then have "is_alnum (last ?s)" using d ne digit_alnum by (auto simp: last_append list_all_iff)
  ultimately have t: "trim_space (to_upper (ce_upper E) ?s) = ?s"
    using trim_space_plain [of ?s] a ne by (simp add: to_upper_def)
  have "takeWhile is_digit ?s = format_nat n @ takeWhile is_digit u \<and> dropWhile is_digit ?s = dropWhile is_digit u"
    using d by (simp add: takeWhile_append dropWhile_append list_all_iff)
  moreover have "takeWhile is_digit u = [] \<and> dropWhile is_space (dropWhile is_digit u) = u"
    using u by (auto simp: is_digit_def is_space_def)
  ultimately have "match_size ?s = Some (format_nat n, u)" using ne assms(2) by (simp add: match_size_def Let_def)
  moreover have "n = 0" if "?s = ''0''"
  proof -
    have "format_nat n = ''0''" using that ne u by (cases "format_nat n") (auto simp: append_eq_Cons_conv)
    moreover have "digits_val 0 ''0'' = 0" by (simp add: digits_val_def digit_val_def)
    ultimately show ?thesis using digits_val_format [of n] by simp
  qed
  ultimately show ?thesis
    using t ne parse_uint_format [OF assms(1)] assms(2) by (auto simp: parse_size_def Let_def)
qed

section \<open>Accepted configurations\<close>

lemma validate_sections:
  assumes "validate_config E c = None"
  shows "validate_bind_addr E ''server.bind_addr'' (sc_BindAddr (cf_Server c)) = []"
    and "validate_conn_limits E (cf_Server c) (cf_Storage c) = []"
    and "validate_admin E (cf_Admin c) (cf_Server c) (cf_Auth c) = []"
    and "validate_storage E (cf_Storage c) = []" and "validate_ttl (cf_TTL c) = []"
    and "validate_eviction E (cf_Eviction c) = []" and "validate_logging E (cf_Logging c) = []"
    and "validate_tls (cf_TLS c) = []" and "validate_auth (cf_Auth c) = []"
  using assms by (auto simp: validate_config_def validate_server_def Let_def split: if_splits)

lemma unat_numeral_16M: "unat (16 * 1024 * 1024 :: u64) = 16777216"
  by simp

lemma accepted_sizes:
  assumes "validate_config E c = None"
  obtains maxMem maxVal out req where
    "parse_size E (st_MaxMemory (cf_Storage c)) = Inr maxMem"
    "parse_size E (st_MaxValueSize (cf_Storage c)) = Inr maxVal" "maxVal \<le> 16 * 1024 * 1024"
    "parse_size E (sc_MaxOutputBuffer (cf_Server c)) = Inr out" "out = 0 \<or> 64 * 1024 \<le> out"
    "parse_size E (sc_MaxRequestSize (cf_Server c)) = Inr req" "req = 0 \<or> maxVal + 64 * 1024 \<le> req"
proof -
  obtain maxMem maxVal where m: "parse_size E (st_MaxMemory (cf_Storage c)) = Inr maxMem"
    "parse_size E (st_MaxValueSize (cf_Storage c)) = Inr maxVal" "maxVal \<le> 16 * 1024 * 1024"
    using validate_sections(4) [OF assms] by (auto simp: validate_storage_def not_less split: sum.splits)
  obtain out where o: "parse_size E (sc_MaxOutputBuffer (cf_Server c)) = Inr out" "out = 0 \<or> 64 * 1024 \<le> out"
    using validate_sections(2) [OF assms]
    by (auto simp: validate_conn_limits_def minOutputBuffer_def not_less word_gt_0 split: sum.splits)
  obtain req where "parse_size E (sc_MaxRequestSize (cf_Server c)) = Inr req" "req = 0 \<or> maxVal + 64 * 1024 \<le> req"
    using validate_sections(2) [OF assms] m(2)
    by (auto simp: validate_conn_limits_def validate_request_size_def protocolFraming_def not_less split: sum.splits if_splits)
  then show thesis using m o by (intro that) auto
qed

lemma accepted_budget:
  assumes "validate_config E c = None" and "parse_size E (st_MaxValueSize (cf_Storage c)) = Inr maxVal"
  obtains b where "request_budget E c = Inr b" "unat maxVal + 65536 \<le> unat b"
proof -
  obtain maxVal' req where s: "parse_size E (st_MaxValueSize (cf_Storage c)) = Inr maxVal'" "maxVal' \<le> 16 * 1024 * 1024"
    "parse_size E (sc_MaxRequestSize (cf_Server c)) = Inr req" "req = 0 \<or> maxVal' + 64 * 1024 \<le> req"
    using accepted_sizes [OF assms(1)] by metis
  then have v: "maxVal' = maxVal" using assms(2) by simp
  have u: "unat maxVal \<le> 16777216" using s(2) v by (simp add: word_le_nat_alt)
  show thesis
  proof (cases "req = 0")
    case True
    then have "request_budget E c = Inr (maxVal + RequestBudgetMargin)"
      using s v by (simp add: request_budget_def)
    moreover have "unat (maxVal + RequestBudgetMargin) = unat maxVal + 1048576"
      using u by (simp add: RequestBudgetMargin_def unat_word_ariths)
    ultimately show thesis by (intro that) auto
  next
    case False
    then have "request_budget E c = Inr req" using s by (simp add: request_budget_def word_gt_0)
    moreover have "unat (maxVal + 64 * 1024) = unat maxVal + 65536" using u by (simp add: unat_word_ariths)
    then have "unat maxVal + 65536 \<le> unat req" using False s(4) v by (metis word_le_nat_alt)
    ultimately show thesis by (intro that)
  qed
qed

section \<open>The defaults\<close>

lemma digit_chars:
  "digit_char 0 = CHR ''0''" "digit_char (Suc 0) = CHR ''1''" "digit_char 2 = CHR ''2''" "digit_char 4 = CHR ''4''"
  "digit_char 6 = CHR ''6''" "digit_char 7 = CHR ''7''"
  by code_simp+

lemma plain_numbers:
  "format_nat 0 = ''0''" "format_nat (Suc 0) = ''1''" "format_nat 64 = ''64''" "format_nat 16777216 = ''16777216''"
  by (simp_all add: format_nat.simps digit_chars)

lemma two_power_64: "(18446744073709551616 :: u64) = 0"
  by transfer simp

lemma plain_sizes:
  "parse_size E ''0'' = Inr 0" "parse_size E ''1MB'' = Inr (1024 * 1024)" "parse_size E ''64MB'' = Inr (64 * 1024 * 1024)"
  "parse_size E ''16777216TB'' = Inr 0"
  using parse_size_reads [of 0 "[]" 1 E] parse_size_reads [of 1 "''MB''" "1024 * 1024" E]
    parse_size_reads [of 64 "''MB''" "1024 * 1024" E] parse_size_reads [of 16777216 "''TB''" "1024 * 1024 * 1024 * 1024" E]
  by (simp_all add: size_unit.simps plain_numbers two_power_64)

lemma plain_hosts: "is_hostname ''0.0.0.0''" "is_hostname ''127.0.0.1''" "trim_space ''0.0.0.0'' \<noteq> []" "trim_space ''127.0.0.1'' \<noteq> []"
  by (simp_all add: is_hostname_def host_label_def is_alnum_def is_digit_def trim_space_plain is_ascii_def)

lemma plain_words: "to_lower uni ''lru'' = ''lru''" "to_lower uni ''info'' = ''info''" "to_lower uni ''json'' = ''json''"
  by (simp_all add: to_lower_def is_ascii_def lower_char_def)

lemma defaults_accepted:
  assumes "ce_ip E ''127.0.0.1'' = Some True"
  shows "validate_config E config_defaults = None"
  using assms
  by (simp add: validate_config_def config_defaults_def validate_server_def validate_admin_def validate_bind_addr_def plain_hosts
      validate_port_def validate_conn_limits_def validate_request_size_def plain_sizes minOutputBuffer_def validate_admin_exposure_def
      is_loopback_def validate_admin_token_separation_def secret_is_set_def validate_storage_def defaultMaxValueSize_def
      validate_ttl_def validate_eviction_def validate_logging_def plain_words validate_tls_def validate_auth_def Let_def)

definition plain_env :: config_env where
  "plain_env = \<lparr>ce_upper = id, ce_lower = id, ce_ip = [''127.0.0.1'' \<mapsto> True, ''0.0.0.0'' \<mapsto> False], ce_folds = \<lambda>_ _. False,
     ce_quotient = \<lambda>_ _. []\<rparr>"

lemma plain_accepted: "validate_config plain_env config_defaults = None"
  by (rule defaults_accepted) (simp add: plain_env_def)

text \<open>The defaults with the admin API on every interface, behind a token.\<close>

definition exposed_config :: config where
  "exposed_config = config_defaults\<lparr>cf_Admin := \<lparr>ac_BindAddr = ''0.0.0.0'', ac_Port = 8080, ac_Token = ''admin''\<rparr>,
     cf_Auth := \<lparr>au_Enabled = True, au_Token = ''secret''\<rparr>\<rparr>"

lemma exposed_accepted: "validate_config plain_env exposed_config = None" "\<not> is_loopback plain_env (cf_Admin exposed_config)"
proof -
  show "validate_config plain_env exposed_config = None"
    using plain_accepted
    by (simp add: validate_config_def validate_admin_def validate_admin_token_separation_def validate_auth_def Let_def
        validate_admin_exposure_def validate_bind_addr_def plain_hosts exposed_config_def config_defaults_def secret_is_set_def split: if_splits)
  show "\<not> is_loopback plain_env (cf_Admin exposed_config)" by (simp add: is_loopback_def exposed_config_def plain_env_def)
qed

end
