(* ===== verification/Boot.thy ===== *)
theory Boot
  imports Config_Validate Keyspace Eviction Ttl_Manager
begin

text \<open>
  \<open>cmd/atlascache/main.go\<close> and \<open>security.go\<close>: how an accepted configuration becomes the running cache,
  and what a reload changes in it. The engine reads the eviction controller through a pointer, so a
  policy switched on the controller is seen by the engine's next write; what the controller reads
  besides (clock, map order, the order ties are left in) is the record \<open>picks\<close>, per round and victim.
  Certificates, listeners and signals are left out.
\<close>

section \<open>The connection limits\<close>

definition clamp_to_int :: "u64 \<Rightarrow> int" where
  "clamp_to_int sz = (if int (unat sz) > max_int64 then max_int64 else int (unat sz))"

definition conn_limits_of :: "config_env \<Rightarrow> config \<Rightarrow> bytes + conn_limits" where
  "conn_limits_of E c =
     (case request_budget E c of
        Inl e \<Rightarrow> Inl (''server.max_request_size: '' @ e)
      | Inr requestBudget \<Rightarrow>
          (case parse_size E (sc_MaxOutputBuffer (cf_Server c)) of
             Inl e \<Rightarrow> Inl (''server.max_output_buffer: '' @ e)
           | Inr outputBuffer \<Rightarrow>
               Inr \<lparr>MaxConnections = sc_MaxConnections (cf_Server c), IdleTimeout = sc_ClientIdleTimeout (cf_Server c),
                    MaxRequestBytes = clamp_to_int requestBudget,
                    MaxPipelineCommands = sc_MaxPipelineCommands (cf_Server c),
                    MaxOutputBytes = clamp_to_int outputBuffer\<rparr>))"

section \<open>The cache\<close>

record picks =
  pk_order :: range_ord
  pk_key_clock :: "bytes \<Rightarrow> int"
  pk_ties :: tie_order
  pk_clock :: int

definition controller_fn :: "(nat \<Rightarrow> nat \<Rightarrow> picks) \<Rightarrow> controller \<Rightarrow> evict_fn" where
  "controller_fn pk ctl =
     (\<lambda>a n s. select_victims (pk_order (pk a n)) (pk_key_clock (pk a n)) (pk_ties (pk a n)) (pk_clock (pk a n)) ctl (Some s))"

record core =
  co_engine :: engine
  co_eviction :: controller
  co_ttl :: manager
  co_active :: bool

datatype boot_error = BadSize bytes bytes | BadPolicy evict_error

text \<open>\<open>newCore\<close>, on a machine with \<open>cpus\<close> processors, at monotonic time \<open>mclk\<close> and wall time \<open>wall\<close>.\<close>

definition new_core ::
    "config_env \<Rightarrow> (nat \<Rightarrow> nat \<Rightarrow> picks) \<Rightarrow> int \<Rightarrow> int \<Rightarrow> int \<Rightarrow> config \<Rightarrow> boot_error + core" where
  "new_core E pk cpus mclk wall c =
     (case parse_size E (st_MaxMemory (cf_Storage c)) of
        Inl e \<Rightarrow> Inl (BadSize ''storage.max_memory'' e)
      | Inr maxMem \<Rightarrow>
          (case parse_size E (st_MaxValueSize (cf_Storage c)) of
             Inl e \<Rightarrow> Inl (BadSize ''storage.max_value_size'' e)
           | Inr maxVal \<Rightarrow>
               (case new_controller (ce_lower E)
                      \<lparr>cfg_Policy = ev_Policy (cf_Eviction c), cfg_SampleSize = ev_SampleSize (cf_Eviction c), cfg_LFUHalfLife = 0\<rparr> of
                  Inl e \<Rightarrow> Inl (BadPolicy e)
                | Inr ctl \<Rightarrow>
                    (let e = new_sharded_engine
                           \<lparr>ShardCount = get_shard_count cpus c, MaxMemory = maxMem, MaxValueSize = maxVal,
                            DisableLazyExpiration = \<not> tt_LazyExpiration (cf_TTL c), ScanIdleTimeout = 0,
                            MaxScanCursorsPerConn = 0, MaxScanSnapshotBytes = 0\<rparr>;
                         e = set_eviction_controller (Some (controller_fn pk ctl)) e;
                         m = new_manager mclk wall
                           \<lparr>Tick = tt_CheckInterval (cf_TTL c), Stripes = 0, MaxHintsPerTick = tt_BatchSize (cf_TTL c)\<rparr>
                     in Inr \<lparr>co_engine = set_expiry_scheduler True e, co_eviction = ctl, co_ttl = m,
                             co_active = tt_ActiveExpiration (cf_TTL c)\<rparr>))))"

text \<open>\<open>core.applyConfig\<close>: what a reload can change without a restart.\<close>

definition core_apply :: "config_env \<Rightarrow> (nat \<Rightarrow> nat \<Rightarrow> picks) \<Rightarrow> config \<Rightarrow> core \<Rightarrow> core" where
  "core_apply E pk c k =
     (let k = (case set_policy (ce_lower E) (ev_Policy (cf_Eviction c)) (co_eviction k) of
                 (Some _, _) \<Rightarrow> k
               | (None, ctl) \<Rightarrow>
                   k\<lparr>co_eviction := ctl, co_engine := set_eviction_controller (Some (controller_fn pk ctl)) (co_engine k)\<rparr>)
      in case parse_size E (st_MaxMemory (cf_Storage c)) of
           Inl _ \<Rightarrow> k
         | Inr m \<Rightarrow> k\<lparr>co_engine := (co_engine k)\<lparr>memory := set_max_memory m (memory (co_engine k))\<rparr>\<rparr>)"

section \<open>Authentication\<close>

text \<open>\<open>newSecurity\<close> and \<open>security.applyConfig\<close>, as far as the token goes.\<close>

definition security_auth :: "(bytes \<Rightarrow> bytes) \<Rightarrow> config \<Rightarrow> authenticator" where
  "security_auth sha c = new_authenticator sha (au_Enabled (cf_Auth c)) (au_Token (cf_Auth c))"

definition security_apply :: "(bytes \<Rightarrow> bytes) \<Rightarrow> config \<Rightarrow> authenticator \<Rightarrow> authenticator" where
  "security_apply sha c a = auth_set sha (au_Enabled (cf_Auth c)) (au_Token (cf_Auth c)) a"

section \<open>The server\<close>

text \<open>The part of \<open>run\<close> that puts the server together; \<open>env\<close> is the environment of the store calls.\<close>

definition boot_server ::
    "config_env \<Rightarrow> (bytes \<Rightarrow> bytes) \<Rightarrow> (bytes \<Rightarrow> u64) \<Rightarrow> (nat \<Rightarrow> op_env) \<Rightarrow> core \<Rightarrow> config \<Rightarrow> bytes + world server" where
  "boot_server E sha hash env k c =
     (case conn_limits_of E c of
        Inl e \<Rightarrow> Inl e
      | Inr l \<Rightarrow>
          new_server sha (client_addr c) (Some (keyspace hash)) \<lparr>w_engine = co_engine k, w_env = env\<rparr> (Some l)
            (Some (security_auth sha c)))"

text \<open>What the callback of a reload does to a running server and its cache.\<close>

definition apply_reload ::
    "config_env \<Rightarrow> (bytes \<Rightarrow> bytes) \<Rightarrow> (nat \<Rightarrow> nat \<Rightarrow> picks) \<Rightarrow> config \<Rightarrow> core \<Rightarrow> world server \<Rightarrow> core \<times> world server" where
  "apply_reload E sha pk c k srv =
     (let k = core_apply E pk c (k\<lparr>co_engine := w_engine (srv_world srv)\<rparr>)
      in (k, srv\<lparr>srv_world := (srv_world srv)\<lparr>w_engine := co_engine k\<rparr>, srv_auth := security_apply sha c (srv_auth srv)\<rparr>))"

end
