(* ===== verification/Boot_Spec.thy ===== *)
theory Boot_Spec
  imports Config_Spec Boot Client_Wire
begin

text \<open>
  What an accepted configuration guarantees of the running cache: it boots, is enforced as it is
  written, and the largest value it allows can be written; and where that fails.
\<close>

section \<open>Accepted limits\<close>

lemma clamp_bounds:
  "0 \<le> clamp_to_int b" "clamp_to_int b \<le> max_int64"
  "n \<le> unat b \<Longrightarrow> int n \<le> max_int64 \<Longrightarrow> int n \<le> clamp_to_int b"
  using of_nat_mono [of n "unat b", where 'a = int] by (simp_all add: clamp_to_int_def)

lemma accepted_limits:
  assumes "validate_config E c = None" and "parse_size E (st_MaxValueSize (cf_Storage c)) = Inr maxVal"
  obtains l where "conn_limits_of E c = Inr l" "usable_limits l"
    "MaxConnections l = sc_MaxConnections (cf_Server c)" "IdleTimeout l = sc_ClientIdleTimeout (cf_Server c)"
    "MaxPipelineCommands l = sc_MaxPipelineCommands (cf_Server c)"
    "int (unat maxVal) + 65536 \<le> MaxRequestBytes l" "MaxRequestBytes l \<le> max_int64"
proof -
  obtain b where b: "request_budget E c = Inr b" "unat maxVal + 65536 \<le> unat b" using accepted_budget [OF assms] .
  obtain out where o: "parse_size E (sc_MaxOutputBuffer (cf_Server c)) = Inr out" using accepted_sizes [OF assms(1)] by metis
  obtain v where "parse_size E (st_MaxValueSize (cf_Storage c)) = Inr v" "v \<le> 16 * 1024 * 1024"
    using accepted_sizes [OF assms(1)] by metis
  then have v: "unat maxVal \<le> 16777216" using assms(2) unat_numeral_16M by (simp add: word_le_nat_alt)
  let ?l = "\<lparr>MaxConnections = sc_MaxConnections (cf_Server c), IdleTimeout = sc_ClientIdleTimeout (cf_Server c),
    MaxRequestBytes = clamp_to_int b, MaxPipelineCommands = sc_MaxPipelineCommands (cf_Server c), MaxOutputBytes = clamp_to_int out\<rparr>"
  have "int (unat maxVal + 65536) \<le> 16842752" using v by linarith
  then have "int (unat maxVal + 65536) \<le> max_int64" by (rule order_trans) simp
  then have r: "int (unat maxVal) + 65536 \<le> clamp_to_int b" using clamp_bounds(3) [OF b(2)] by simp
  have c: "0 < sc_MaxConnections (cf_Server c)" "0 \<le> sc_ClientIdleTimeout (cf_Server c)" "0 < sc_MaxPipelineCommands (cf_Server c)"
    using validate_sections(2) [OF assms(1)] by (simp_all add: validate_conn_limits_def not_less)
  have "65536 \<le> clamp_to_int b" using r of_nat_0_le_iff [of "unat maxVal", where 'a = int] by linarith
  then have "usable_limits ?l"
    using c clamp_bounds(1) [of out] by (simp add: usable_limits_def limit_consts)
  moreover have "conn_limits_of E c = Inr ?l" using b(1) o by (simp add: conn_limits_of_def)
  ultimately show thesis using r clamp_bounds(2) [of b] by (intro that [of ?l]) simp_all
qed

section \<open>The cache it boots\<close>

lemma accepted_policy:
  assumes "validate_config E c = None" and "is_ascii (ev_Policy (cf_Eviction c))"
  obtains sc where
    "policy_for (ce_lower E) half (ev_Policy (cf_Eviction c))
       = Inr \<lparr>pol_name = to_lower (ce_lower E) (ev_Policy (cf_Eviction c)), pol_score = sc\<rparr>"
proof -
  let ?p = "ev_Policy (cf_Eviction c)" let ?q = "to_lower (ce_lower E) ?p"
  have q: "?q \<in> {''lru'', ''lfu'', ''fifo'', ''none''}"
    using validate_sections(6) [OF assms(1)] by (simp add: validate_eviction_def)
  then have "?q \<noteq> [] \<and> is_alnum (hd ?q) \<and> is_alnum (last ?q)"
    by (elim insertE) (simp_all add: is_alnum_def)
  then have "to_lower (ce_lower E) (trim_space ?p) = ?q" by (intro policy_name_plain [OF assms(2) refl]) auto
  then have "\<exists>sc. policy_for (ce_lower E) half ?p = Inr \<lparr>pol_name = ?q, pol_score = sc\<rparr>"
    using q by (auto simp: policy_for_def Let_def)
  then show thesis using that by blast
qed

lemma accepted_controller:
  assumes "validate_config E c = None" and "is_ascii (ev_Policy (cf_Eviction c))"
  obtains ctl where
    "new_controller (ce_lower E) \<lparr>cfg_Policy = ev_Policy (cf_Eviction c), cfg_SampleSize = ev_SampleSize (cf_Eviction c), cfg_LFUHalfLife = 0\<rparr> = Inr ctl"
    "controller_policy ctl = to_lower (ce_lower E) (ev_Policy (cf_Eviction c))"
    "sampleSize ctl = ev_SampleSize (cf_Eviction c)" "controller_ok ctl"
proof -
  have s: "1 \<le> ev_SampleSize (cf_Eviction c)" "ev_SampleSize (cf_Eviction c) \<le> 100"
    using validate_sections(6) [OF assms(1)] by (simp_all add: validate_eviction_def not_less)
  obtain sc where p: "policy_for (ce_lower E) DefaultLFUHalfLife (ev_Policy (cf_Eviction c))
       = Inr \<lparr>pol_name = to_lower (ce_lower E) (ev_Policy (cf_Eviction c)), pol_score = sc\<rparr>"
    by (rule accepted_policy [OF assms])
  let ?ctl = "\<lparr>sampleSize = ev_SampleSize (cf_Eviction c), halfLife = DefaultLFUHalfLife,
      active_policy = \<lparr>pol_name = to_lower (ce_lower E) (ev_Policy (cf_Eviction c)), pol_score = sc\<rparr>\<rparr>"
  have n: "new_controller (ce_lower E) \<lparr>cfg_Policy = ev_Policy (cf_Eviction c), cfg_SampleSize = ev_SampleSize (cf_Eviction c), cfg_LFUHalfLife = 0\<rparr> = Inr ?ctl"
    using p s by (simp add: new_controller_def set_policy_def MaxSampleSize_def Let_def)
  show thesis by (rule that [OF n]) (simp_all add: controller_policy_def new_controller_ok [OF n])
qed

lemma new_server_limits:
  "usable_limits l \<Longrightarrow>
   new_server sha addr (Some st) w (Some l) (Some a) = Inr \<lparr>srv_store = st, srv_world = w, srv_addr = addr, srv_auth = a, srv_limits = l,
     srv_codecLimits = normalize_limits (codec_limits l (kv_MaxValueSize st w)), srv_conns = zero_counters\<rparr>"
  by (simp add: new_server_def Let_def normalize_id)

lemma boot_server_eq:
  assumes "validate_config E c = None" and "conn_limits_of E c = Inr l" and "usable_limits l"
  shows "boot_server E sha hash env k c = Inr \<lparr>srv_store = keyspace hash,
      srv_world = \<lparr>w_engine = co_engine k, w_env = env\<rparr>, srv_addr = client_addr c, srv_auth = security_auth sha c,
      srv_limits = l, srv_codecLimits = normalize_limits (codec_limits l (ks_MaxValueSize \<lparr>w_engine = co_engine k, w_env = env\<rparr>)),
      srv_conns = zero_counters\<rparr>"
  using assms by (simp add: boot_server_def new_server_limits keyspace_def)

lemma security_required: "auth_required (security_auth sha c) = au_Enabled (cf_Auth c)"
  by (simp add: security_auth_def new_authenticator_def auth_set_def auth_required_def)

lemma accepted_core:
  assumes "validate_config E c = None" and "is_ascii (ev_Policy (cf_Eviction c))"
    and "parse_size E (st_MaxMemory (cf_Storage c)) = Inr maxMem" "parse_size E (st_MaxValueSize (cf_Storage c)) = Inr maxVal"
  obtains k where "new_core E pk cpus mclk wall c = Inr k"
    "controller_policy (co_eviction k) = to_lower (ce_lower E) (ev_Policy (cf_Eviction c))"
    "sampleSize (co_eviction k) = ev_SampleSize (cf_Eviction c)" "controller_ok (co_eviction k)"
    "co_active k = tt_ActiveExpiration (cf_TTL c)"
    "co_engine k = (new_sharded_engine
       \<lparr>ShardCount = get_shard_count cpus c, MaxMemory = maxMem, MaxValueSize = maxVal,
        DisableLazyExpiration = \<not> tt_LazyExpiration (cf_TTL c), ScanIdleTimeout = 0,
        MaxScanCursorsPerConn = 0, MaxScanSnapshotBytes = 0\<rparr>)
       \<lparr>eviction := Some (controller_fn pk (co_eviction k)), scheduler := Some []\<rparr>"
proof -
  obtain ctl where ctl: "new_controller (ce_lower E) \<lparr>cfg_Policy = ev_Policy (cf_Eviction c), cfg_SampleSize = ev_SampleSize (cf_Eviction c), cfg_LFUHalfLife = 0\<rparr> = Inr ctl"
    "controller_policy ctl = to_lower (ce_lower E) (ev_Policy (cf_Eviction c))"
    "sampleSize ctl = ev_SampleSize (cf_Eviction c)" "controller_ok ctl"
    by (rule accepted_controller [OF assms(1,2)])
  let ?e = "(new_sharded_engine
       \<lparr>ShardCount = get_shard_count cpus c, MaxMemory = maxMem, MaxValueSize = maxVal,
        DisableLazyExpiration = \<not> tt_LazyExpiration (cf_TTL c), ScanIdleTimeout = 0,
        MaxScanCursorsPerConn = 0, MaxScanSnapshotBytes = 0\<rparr>)
       \<lparr>eviction := Some (controller_fn pk ctl), scheduler := Some []\<rparr>"
  let ?k = "\<lparr>co_engine = ?e, co_eviction = ctl,
      co_ttl = new_manager mclk wall \<lparr>Tick = tt_CheckInterval (cf_TTL c), Stripes = 0, MaxHintsPerTick = tt_BatchSize (cf_TTL c)\<rparr>,
      co_active = tt_ActiveExpiration (cf_TTL c)\<rparr>"
  have n: "new_core E pk cpus mclk wall c = Inr ?k"
    by (simp add: new_core_def assms(3,4) ctl(1) Let_def set_eviction_controller_def set_expiry_scheduler_def)
  show thesis by (rule that [OF n]) (simp_all add: ctl(2-4))
qed

lemma booted:
  assumes "validate_config E c = None" and "is_ascii (ev_Policy (cf_Eviction c))"
  shows "\<exists>k srv maxMem maxVal.
    new_core E pk cpus mclk wall c = Inr k \<and> boot_server E sha hash env k c = Inr srv
    \<and> parse_size E (st_MaxMemory (cf_Storage c)) = Inr maxMem \<and> maxMemory (memory (w_engine (srv_world srv))) = maxMem
    \<and> parse_size E (st_MaxValueSize (cf_Storage c)) = Inr maxVal \<and> maxValueSize (w_engine (srv_world srv)) = maxVal
    \<and> maxVal \<le> 16 * 1024 * 1024
    \<and> controller_policy (co_eviction k) = to_lower (ce_lower E) (ev_Policy (cf_Eviction c))
    \<and> sampleSize (co_eviction k) = ev_SampleSize (cf_Eviction c)
    \<and> (co_active k \<or> list_all lazyExpiration (shards (w_engine (srv_world srv))))
    \<and> conn_limits_of E c = Inr (srv_limits srv) \<and> int (unat maxVal) + 65536 \<le> MaxRequestBytes (srv_limits srv)
    \<and> auth_required (srv_auth srv) = au_Enabled (cf_Auth c)"
proof -
  obtain maxMem maxVal where s: "parse_size E (st_MaxMemory (cf_Storage c)) = Inr maxMem"
    "parse_size E (st_MaxValueSize (cf_Storage c)) = Inr maxVal" "maxVal \<le> 16 * 1024 * 1024"
    using accepted_sizes [OF assms(1)] by metis
  obtain k where k: "new_core E pk cpus mclk wall c = Inr k"
    "controller_policy (co_eviction k) = to_lower (ce_lower E) (ev_Policy (cf_Eviction c))"
    "sampleSize (co_eviction k) = ev_SampleSize (cf_Eviction c)" "controller_ok (co_eviction k)"
    "co_active k = tt_ActiveExpiration (cf_TTL c)"
    "co_engine k = (new_sharded_engine
       \<lparr>ShardCount = get_shard_count cpus c, MaxMemory = maxMem, MaxValueSize = maxVal,
        DisableLazyExpiration = \<not> tt_LazyExpiration (cf_TTL c), ScanIdleTimeout = 0,
        MaxScanCursorsPerConn = 0, MaxScanSnapshotBytes = 0\<rparr>)
       \<lparr>eviction := Some (controller_fn pk (co_eviction k)), scheduler := Some []\<rparr>"
    by (rule accepted_core [OF assms s(1,2)])
  obtain l where l: "conn_limits_of E c = Inr l" "usable_limits l" "int (unat maxVal) + 65536 \<le> MaxRequestBytes l"
    using accepted_limits [OF assms(1) s(2)] by metis
  have "tt_ActiveExpiration (cf_TTL c) \<or> tt_LazyExpiration (cf_TTL c)"
    using validate_sections(5) [OF assms(1)] by (auto simp: validate_ttl_def)
  then have "co_active k \<or> list_all lazyExpiration (shards (co_engine k))"
    by (auto simp: k(5,6) new_engine_sel list_all_iff set_lazy_expiration_def)
  then show ?thesis
    using boot_server_eq [OF assms(1) l(1,2), of sha hash env k] k(1-3) s l
    by (simp add: k(6) new_engine_sel new_memory_tracker_def security_required)
       (simp add: new_sharded_engine_def Let_def)
qed


lemma plain_defaults:
  "is_ascii (ev_Policy (cf_Eviction config_defaults))" "to_lower uni (ev_Policy (cf_Eviction config_defaults)) = ''lru''"
  "\<not> au_Enabled (cf_Auth config_defaults)"
  by (simp_all add: config_defaults_def is_ascii_def plain_words)


section \<open>The largest value\<close>

lemma append_command_set_length:
  assumes "length key \<le> 16777216" and "length v \<le> 16777216"
  shows "length (append_command [] [''SET'', key, v]) \<le> length key + length v + 110"
proof -
  have "length (format_int (int (length key))) \<le> 20" "length (format_int (int (length v))) \<le> 20"
    using assms by (intro format_int_length; simp)+
  moreover have "length (format_int 3) \<le> 20" "length (format_int (int (length ''SET''))) \<le> 20" by (intro format_int_length; simp)+
  ultimately show ?thesis by (simp add: append_command_def append_arg_def)
qed

lemma codec_holds:
  assumes "usable_limits l" and "0 \<le> m" "m \<le> maxValueSizeCeiling" and "length key \<le> 65000" "int (length v) \<le> m"
  shows "request_fits (normalize_limits (codec_limits l m)) [''SET'', key, v]"
proof -
  have b: "65536 \<le> MaxRequestBytes l" using assms(1) by (simp add: usable_limits_def limit_consts)
  then have "MaxRequestBytes l sdiv 7 = MaxRequestBytes l div 7" by (simp add: sdiv_nonneg)
  moreover have "3 \<le> MaxRequestBytes l div 7" using b by simp
  ultimately have c: "codec_limits l m = \<lparr>MaxInlineLength = 65536, MaxMultiBulkLength = min 131072 (MaxRequestBytes l div 7),
      MaxBulkLength = (if 0 < m \<and> m < maxValueSizeCeiling then m else maxValueSizeCeiling) + 65536\<rparr>" "3 \<le> MaxRequestBytes l div 7"
    by (simp_all add: codec_limits_def Let_def limits_for_value_size_def default_limits_def limit_consts)
  then show ?thesis
    using assms(2-5) by (auto simp: min_def request_fits_def normalize_limits_def Let_def limit_consts)
qed

lemma small_size: "unat (m :: u64) \<le> 16777216 \<Longrightarrow> (max_int64 < int (unat m)) = False"
proof -
  assume "unat m \<le> 16777216"
  then have "int (unat m) \<le> 16777216" by linarith
  then have "int (unat m) \<le> max_int64" by (rule order_trans) simp
  then show ?thesis by (simp only: not_less [symmetric])
qed

lemma shard_count_bound: "validate_config E c = None \<Longrightarrow> get_shard_count cpus c \<le> 2 ^ 32"
  using validate_sections(4) [of E c] by (simp add: validate_storage_def get_shard_count_def Let_def not_less)

text \<open>
  C4. The largest value a configuration allows can be written: on a server booted from an accepted
  configuration without a memory limit, the bytes of a \<open>SET\<close> of any value up to \<open>max_value_size\<close>,
  under a key of up to 65000 bytes, stay inside the request budget, get through the decoder's own
  limits, and are answered \<open>OK\<close>.
\<close>

theorem largest_value_writable:
  fixes F :: "'f float_ops"
  assumes "validate_config E c = None" and "is_ascii (ev_Policy (cf_Eviction c))"
    and "parse_size E (st_MaxMemory (cf_Storage c)) = Inr 0" and "parse_size E (st_MaxValueSize (cf_Storage c)) = Inr m"
    and "new_core E pk cpus mclk wall c = Inr k" and "boot_server E sha hash env k c = Inr srv"
    and "\<not> session_auth_required s srv" and "length key \<le> 65000" and "length v \<le> unat m"
  shows "int (length (append_command [] [''SET'', key, v])) \<le> MaxRequestBytes (srv_limits srv)
    \<and> fst (server_answer P F tn (append_command [] [''SET'', key, v]) s srv) = ''+OK'' @ CRLF"
proof -
  obtain k' where k: "new_core E pk cpus mclk wall c = Inr k'"
    "co_engine k' = (new_sharded_engine
       \<lparr>ShardCount = get_shard_count cpus c, MaxMemory = 0, MaxValueSize = m,
        DisableLazyExpiration = \<not> tt_LazyExpiration (cf_TTL c), ScanIdleTimeout = 0,
        MaxScanCursorsPerConn = 0, MaxScanSnapshotBytes = 0\<rparr>)
       \<lparr>eviction := Some (controller_fn pk (co_eviction k')), scheduler := Some []\<rparr>"
    by (rule accepted_core [OF assms(1-4)])
  then have kk: "k' = k" using assms(5) by simp
  obtain l where l: "conn_limits_of E c = Inr l" "usable_limits l" "int (unat m) + 65536 \<le> MaxRequestBytes l"
    using accepted_limits [OF assms(1,4)] by metis
  obtain m' where m': "parse_size E (st_MaxValueSize (cf_Storage c)) = Inr m'" "m' \<le> 16 * 1024 * 1024"
    using accepted_sizes [OF assms(1)] by metis
  then have um: "unat m \<le> 16777216" using assms(4) unat_numeral_16M by (simp add: word_le_nat_alt)
  note b = assms(6) [unfolded boot_server_eq [OF assms(1) l(1,2)]]
  let ?e = "w_engine (srv_world srv)"
  have e: "?e = co_engine k" "srv_store srv = keyspace hash" "srv_limits srv = l"
    "srv_codecLimits srv = normalize_limits (codec_limits l (ks_MaxValueSize (srv_world srv)))"
    using b by auto
  have "maxValueSize ?e = m" using k(2) kk by (simp add: e(1)) (simp add: new_sharded_engine_def Let_def)
  then have mv: "ks_MaxValueSize (srv_world srv) = int (unat m)" using small_size [OF um] by (simp only: ks_MaxValueSize_def Let_def if_False)
  have o: "open_engine hash ?e"
    using new_engine_inv [of "\<lparr>ShardCount = get_shard_count cpus c, MaxMemory = 0, MaxValueSize = m,
        DisableLazyExpiration = \<not> tt_LazyExpiration (cf_TTL c), ScanIdleTimeout = 0,
        MaxScanCursorsPerConn = 0, MaxScanSnapshotBytes = 0\<rparr>" False hash] shard_count_bound [OF assms(1), of cpus] k(2) kk
    by (simp add: open_engine_def e(1) new_engine_sel new_memory_tracker_def)
  have "int (length v) \<le> int (unat m)" "int (unat m) \<le> 16 * 1024 * 1024" using um assms(9) by linarith+
  then have fits: "request_fits (srv_codecLimits srv) [''SET'', key, v]"
    unfolding e(4) mv using assms(8) by (intro codec_holds [OF l(2)]) (auto simp only: maxValueSizeCeiling_def of_nat_0_le_iff)
  have "length v < 2 ^ 64" using assms(9) um by (rule_tac le_less_trans [of _ 16777216]) simp_all
  then have "unat (of_nat (length v) :: u64) = length v" by (simp add: unsigned_of_nat take_bit_nat_eq_self)
  then have "of_nat (length v) \<le> maxValueSize ?e"
    using assms(9) \<open>maxValueSize ?e = m\<close> by (simp add: word_le_nat_alt)
  then have "fst (engine_set hash t now key v 0 ?e) = None" for t now by (intro engine_set_ok [OF o]) simp_all
  then have "fst (on_store (\<lambda>st. kv_Set st key v 0) (count_command srv)) = None"
    by (simp add: on_store_def count_command_def e(2) keyspace_def ks_Set_def with_env_sel split_beta)
  then obtain srv1 where "on_store (\<lambda>st. kv_Set st key v 0) (count_command srv) = (None, srv1)"
    by (metis prod.collapse)
  then have d: "dispatch P (tn_readings tn) \<lparr>cmd_name = ''SET'', cmd_args = [key, v]\<rparr> s srv = ((SimpleString ''OK'' :: 'f reply, False), s, srv1)"
    using dispatch_set [OF assms(7), of key v None srv1 P "tn_readings tn", where 'h = 'f] by simp
  have "length (append_command [] [''SET'', key, v]) \<le> length key + length v + 110"
    using assms(8,9) um by (intro append_command_set_length) linarith+
  then have "int (length (append_command [] [''SET'', key, v])) \<le> MaxRequestBytes (srv_limits srv)"
    using assms(8,9) l(3) unfolding e(3) by linarith
  moreover have "server_answer P F tn (append_command [] [''SET'', key, v]) s srv = (rendered F (SimpleString ''OK''), s, srv1)"
    using d by (intro server_answers_command [OF fits, where cl = False]) simp_all
  ultimately show ?thesis by (simp add: rendered_def encode_def append_scalar_def append_single_line_eq append_crlf_def fold_line_def)
qed

lemma largest_value_writable_witness:
  "\<exists>k srv. new_core plain_env (\<lambda>_ _. \<lparr>pk_order = id, pk_key_clock = \<lambda>_. 0, pk_ties = id, pk_clock = 0\<rparr>) 4 0 0 config_defaults = Inr k
     \<and> boot_server plain_env id (\<lambda>_. 0) (\<lambda>_. undefined) k config_defaults = Inr srv
     \<and> fst (server_answer demo_platform demo_floats demo_turn
         (append_command [] [''SET'', ''k'', ''v'']) demo_session srv) = ''+OK'' @ CRLF"
proof -
  obtain k srv where b: "new_core plain_env (\<lambda>_ _. \<lparr>pk_order = id, pk_key_clock = \<lambda>_. 0, pk_ties = id, pk_clock = 0\<rparr>) 4 0 0 config_defaults = Inr k"
    "boot_server plain_env id (\<lambda>_. 0) (\<lambda>_. undefined) k config_defaults = Inr srv" "\<not> auth_required (srv_auth srv)"
    using booted [OF plain_accepted plain_defaults(1)] plain_defaults(3) by metis
  have s: "\<not> session_auth_required demo_session srv" using b(3) by (simp add: session_auth_required_def)
  have "parse_size plain_env (st_MaxMemory (cf_Storage config_defaults)) = Inr 0"
    "parse_size plain_env (st_MaxValueSize (cf_Storage config_defaults)) = Inr (1024 * 1024)"
    by (simp_all add: config_defaults_def defaultMaxValueSize_def plain_sizes)
  from largest_value_writable [OF plain_accepted plain_defaults(1) this b(1,2) s,
      of "''k''" "''v''" demo_platform demo_floats demo_turn] b(1,2)
  show ?thesis by simp
qed

section \<open>Sizes that wrap\<close>

text \<open>
  \<open>ParseSize\<close> multiplies the number by its unit without a check, so a size of \<open>2 ^ 64\<close> bytes is
  read as 0, and 0 passes every bound. Writing \<open>16777216TB\<close> for \<open>max_memory\<close> in an accepted
  configuration is accepted and lifts the memory limit; writing it for \<open>max_value_size\<close> is accepted,
  past the 16 MB it may not exceed, and the engine then refuses every value but the empty one.
\<close>

lemma wrapped_size_accepted:
  assumes "validate_config E c = None"
    and "c' = c\<lparr>cf_Storage := (cf_Storage c)\<lparr>st_MaxMemory := ''16777216TB''\<rparr>\<rparr>"
    and "c'' = c\<lparr>cf_Storage := (cf_Storage c)\<lparr>st_MaxValueSize := ''16777216TB''\<rparr>\<rparr>"
  shows "validate_config E c' = None
    \<and> (\<forall>k. new_core E pk cpus mclk wall c' = Inr k \<longrightarrow> maxMemory (memory (co_engine k)) = 0)
    \<and> validate_config E c'' = None
    \<and> (\<forall>k t now key v ttl. new_core E pk cpus mclk wall c'' = Inr k \<and> v \<noteq> [] \<and> length v < 2 ^ 64
        \<longrightarrow> fst (engine_set hash t now key v ttl (co_engine k)) = Some ErrValueTooLarge)"
proof -
  obtain req where r: "parse_size E (sc_MaxRequestSize (cf_Server c)) = Inr req" "req = 0 \<or> \<not> req < 64 * 1024"
  proof -
    obtain maxVal req where "parse_size E (sc_MaxRequestSize (cf_Server c)) = Inr req" "maxVal \<le> 16 * 1024 * 1024"
        "req = 0 \<or> maxVal + 64 * 1024 \<le> req"
      using accepted_sizes [OF assms(1)] by metis
    moreover have "64 * 1024 \<le> maxVal + 64 * 1024"
      using calculation(2) by (simp add: word_le_nat_alt unat_word_ariths)
    ultimately show thesis by (intro that) (auto simp: not_less)
  qed
  have v: "validate_server E (cf_Server c) (cf_Storage c) = []" "validate_storage E (cf_Storage c) = []"
    using assms(1) by (auto simp: validate_config_def Let_def split: if_splits)
  have c1: "validate_config E c' = None"
    using assms(1,2) v
    by (simp add: validate_config_def validate_server_def validate_conn_limits_def validate_request_size_def validate_storage_def
        plain_sizes Let_def split: sum.splits if_splits)
  have c2: "validate_config E c'' = None"
    using assms(1,3) v r
    by (simp add: validate_config_def validate_server_def validate_conn_limits_def validate_request_size_def validate_storage_def
        plain_sizes protocolFraming_def Let_def split: sum.splits if_splits)
  have m1: "maxMemory (memory (co_engine k)) = 0" if "new_core E pk cpus mclk wall c' = Inr k" for k
    using that by (auto simp: new_core_def assms(2) plain_sizes Let_def set_eviction_controller_def set_expiry_scheduler_def
        new_engine_sel new_memory_tracker_def split: sum.splits)
  have m2: "fst (engine_set hash t now key v ttl (co_engine k)) = Some ErrValueTooLarge"
    if "new_core E pk cpus mclk wall c'' = Inr k" "v \<noteq> []" "length v < 2 ^ 64" for k t now key v ttl
  proof -
    have e: "maxValueSize (co_engine k) = 0" "\<not> closed (co_engine k)"
      using that(1) by (auto simp: new_core_def assms(3) plain_sizes Let_def set_eviction_controller_def set_expiry_scheduler_def
          new_sharded_engine_def split: sum.splits)
    have "unat (of_nat (length v) :: u64) = length v" using that(3) by (simp add: unsigned_of_nat take_bit_nat_eq_self)
    then have "(of_nat (length v) :: u64) \<noteq> 0" using that(2) by (metis length_0_conv unat_0)
    then show ?thesis using e by (simp add: engine_set_def validate_write_def word_gt_0)
  qed
  show ?thesis using c1 c2 m1 m2 by blast
qed

lemma wrapped_size_accepted_witness:
  "validate_config plain_env (config_defaults\<lparr>cf_Storage := (cf_Storage config_defaults)\<lparr>st_MaxValueSize := ''16777216TB''\<rparr>\<rparr>) = None"
  using wrapped_size_accepted [OF plain_accepted refl refl] by metis

section \<open>A reload\<close>



end
