(* ===== verification/Config_Redact.thy ===== *)
theory Config_Redact
  imports Config_Validate "HOL-Library.AList"
begin

text \<open>
  \<open>internal/config/redact.go\<close>: the configuration as the admin API reports it. A Go value as reflection
  sees it is an \<open>rvalue\<close>; the rendered document is a \<open>doc\<close>, its objects association lists with one
  entry per name. The text of a duration (\<open>time.Duration.String\<close>) is an argument.
\<close>

section \<open>Values and documents\<close>

record struct_field =
  sf_name :: bytes
  sf_exported :: bool
  sf_tag :: "bytes option"

datatype map_key = TextKey bytes | StringerKey bytes | OtherKey

datatype rvalue =
  RSecret bytes
| RText bytes
| RInt int
| RBool bool
| RDuration int
| RNil
| RRef rvalue
| RStruct "(struct_field \<times> rvalue) list"
| RSlice bool "rvalue list"
| RArray "rvalue list"
| RMap bool "(map_key \<times> rvalue) list"

datatype doc =
  DNull
| DText bytes
| DInt int
| DBool bool
| DList "doc list"
| DObj "(bytes \<times> doc) list"

text \<open>\<open>out[name] = v\<close>, pair after pair.\<close>

definition obj_of :: "(bytes \<times> doc) list \<Rightarrow> doc" where
  "obj_of kvs = DObj (foldl (\<lambda>m kv. AList.update (fst kv) (snd kv) m) [] kvs)"

section \<open>What is a secret\<close>

definition secretPaths :: "bytes list" where "secretPaths = [fieldAuthToken, fieldAdminToken]"

definition is_secret_path :: "bytes \<Rightarrow> bool" where
  "is_secret_path path \<longleftrightarrow> path \<in> set secretPaths"

fun has_secret_type :: "rvalue \<Rightarrow> bool" where
  "has_secret_type (RSecret _) = True"
| "has_secret_type _ = False"

definition is_secret :: "rvalue \<Rightarrow> bytes \<Rightarrow> bool" where
  "is_secret v path \<longleftrightarrow> has_secret_type v \<or> path \<noteq> [] \<and> is_secret_path path"

text \<open>\<open>reflect.Value.IsZero\<close>.\<close>

fun is_zero :: "rvalue \<Rightarrow> bool" where
  "is_zero (RSecret s) = (s = [])"
| "is_zero (RText s) = (s = [])"
| "is_zero (RInt i) = (i = 0)"
| "is_zero (RBool b) = (\<not> b)"
| "is_zero (RDuration d) = (d = 0)"
| "is_zero RNil = True"
| "is_zero (RRef v) = False"
| "is_zero (RStruct fs) = list_all (\<lambda>(f, v). is_zero v) fs"
| "is_zero (RSlice isnil vs) = isnil"
| "is_zero (RArray vs) = list_all is_zero vs"
| "is_zero (RMap isnil kvs) = isnil"

definition redact :: "rvalue \<Rightarrow> doc" where
  "redact v = (if is_zero v then DText [] else DText RedactedValue)"

section \<open>Names\<close>

definition cut_comma :: "bytes \<Rightarrow> bytes" where
  "cut_comma s = takeWhile (\<lambda>c. c \<noteq> CHR '','') s"

definition field_name :: "(bytes \<Rightarrow> bytes) \<Rightarrow> struct_field \<Rightarrow> bytes" where
  "field_name uni f =
     (case sf_tag f of
        None \<Rightarrow> to_lower uni (sf_name f)
      | Some tag \<Rightarrow>
          (let name = cut_comma tag
           in if name = ''-'' then [] else if name = [] then to_lower uni (sf_name f) else name))"

fun key_text :: "map_key \<Rightarrow> bytes" where
  "key_text (TextKey s) = s"
| "key_text (StringerKey s) = s"
| "key_text OtherKey = []"

definition join_path :: "bytes \<Rightarrow> bytes \<Rightarrow> bytes" where
  "join_path path name = (if path = [] then name else path @ ''.'' @ name)"

section \<open>Rendering\<close>

fun render_value :: "config_env \<Rightarrow> (int \<Rightarrow> bytes) \<Rightarrow> bytes \<Rightarrow> rvalue \<Rightarrow> doc" where
  "render_value E dur path (RSecret s) = redact (RSecret s)"
| "render_value E dur path (RText s) = (if is_secret (RText s) path then redact (RText s) else DText s)"
| "render_value E dur path (RInt i) = (if is_secret (RInt i) path then redact (RInt i) else DInt i)"
| "render_value E dur path (RBool b) = (if is_secret (RBool b) path then redact (RBool b) else DBool b)"
| "render_value E dur path (RDuration d) = (if is_secret (RDuration d) path then redact (RDuration d) else DText (dur d))"
| "render_value E dur path RNil = (if is_secret RNil path then redact RNil else DNull)"
| "render_value E dur path (RRef v) = (if is_secret (RRef v) path then redact (RRef v) else render_value E dur path v)"
| "render_value E dur path (RStruct fs) =
     (if is_secret (RStruct fs) path then redact (RStruct fs)
      else obj_of (concat (map (\<lambda>(f, v).
             if \<not> sf_exported f \<or> field_name (ce_lower E) f = [] then []
             else [(field_name (ce_lower E) f, render_value E dur (join_path path (field_name (ce_lower E) f)) v)]) fs)))"
| "render_value E dur path (RSlice isnil vs) =
     (if is_secret (RSlice isnil vs) path then redact (RSlice isnil vs) else DList (map (render_value E dur path) vs))"
| "render_value E dur path (RArray vs) =
     (if is_secret (RArray vs) path then redact (RArray vs) else DList (map (render_value E dur path) vs))"
| "render_value E dur path (RMap isnil kvs) =
     (if is_secret (RMap isnil kvs) path then redact (RMap isnil kvs)
      else obj_of (map (\<lambda>(k, v). (key_text k, render_value E dur (join_path path (key_text k)) v)) kvs))"

section \<open>The configuration\<close>

definition tagged :: "bytes \<Rightarrow> bytes \<Rightarrow> rvalue \<Rightarrow> struct_field \<times> rvalue" where
  "tagged name tag v = (\<lparr>sf_name = name, sf_exported = True, sf_tag = Some tag\<rparr>, v)"

text \<open>What reflection makes of a \<open>Config\<close>: the fields of \<open>config.go\<close> with their types and tags.\<close>

definition config_value :: "config \<Rightarrow> rvalue" where
  "config_value c = RStruct
     [tagged ''Node'' ''node'' (RStruct
        [tagged ''ID'' ''id'' (RText (nc_ID (cf_Node c))), tagged ''Name'' ''name'' (RText (nc_Name (cf_Node c))),
         tagged ''DataDir'' ''data_dir'' (RText (nc_DataDir (cf_Node c)))]),
      tagged ''Server'' ''server'' (RStruct
        [tagged ''BindAddr'' ''bind_addr'' (RText (sc_BindAddr (cf_Server c))),
         tagged ''ClientPort'' ''client_port'' (RInt (sc_ClientPort (cf_Server c))),
         tagged ''MaxConnections'' ''max_connections'' (RInt (sc_MaxConnections (cf_Server c))),
         tagged ''ClientIdleTimeout'' ''client_idle_timeout'' (RDuration (sc_ClientIdleTimeout (cf_Server c))),
         tagged ''MaxRequestSize'' ''max_request_size'' (RText (sc_MaxRequestSize (cf_Server c))),
         tagged ''MaxPipelineCommands'' ''max_pipeline_commands'' (RInt (sc_MaxPipelineCommands (cf_Server c))),
         tagged ''MaxOutputBuffer'' ''max_output_buffer'' (RText (sc_MaxOutputBuffer (cf_Server c)))]),
      tagged ''Admin'' ''admin'' (RStruct
        [tagged ''BindAddr'' ''bind_addr'' (RText (ac_BindAddr (cf_Admin c))),
         tagged ''Port'' ''port'' (RInt (ac_Port (cf_Admin c))), tagged ''Token'' ''token'' (RSecret (ac_Token (cf_Admin c)))]),
      tagged ''Storage'' ''storage'' (RStruct
        [tagged ''ShardCount'' ''shard_count'' (RInt (st_ShardCount (cf_Storage c))),
         tagged ''MaxMemory'' ''max_memory'' (RText (st_MaxMemory (cf_Storage c))),
         tagged ''MaxValueSize'' ''max_value_size'' (RText (st_MaxValueSize (cf_Storage c)))]),
      tagged ''TTL'' ''ttl'' (RStruct
        [tagged ''CheckInterval'' ''check_interval'' (RDuration (tt_CheckInterval (cf_TTL c))),
         tagged ''LazyExpiration'' ''lazy_expiration'' (RBool (tt_LazyExpiration (cf_TTL c))),
         tagged ''ActiveExpiration'' ''active_expiration'' (RBool (tt_ActiveExpiration (cf_TTL c))),
         tagged ''BatchSize'' ''batch_size'' (RInt (tt_BatchSize (cf_TTL c)))]),
      tagged ''Eviction'' ''eviction'' (RStruct
        [tagged ''Policy'' ''policy'' (RText (ev_Policy (cf_Eviction c))),
         tagged ''SampleSize'' ''sample_size'' (RInt (ev_SampleSize (cf_Eviction c)))]),
      tagged ''Logging'' ''logging'' (RStruct
        [tagged ''Level'' ''level'' (RText (lg_Level (cf_Logging c))), tagged ''Format'' ''format'' (RText (lg_Format (cf_Logging c)))]),
      tagged ''TLS'' ''tls'' (RStruct
        [tagged ''Enabled'' ''enabled'' (RBool (tl_Enabled (cf_TLS c))), tagged ''CertFile'' ''cert_file'' (RText (tl_CertFile (cf_TLS c))),
         tagged ''KeyFile'' ''key_file'' (RText (tl_KeyFile (cf_TLS c)))]),
      tagged ''Auth'' ''auth'' (RStruct
        [tagged ''Enabled'' ''enabled'' (RBool (au_Enabled (cf_Auth c))), tagged ''Token'' ''token'' (RSecret (au_Token (cf_Auth c)))])]"

definition effective :: "config_env \<Rightarrow> (int \<Rightarrow> bytes) \<Rightarrow> config option \<Rightarrow> doc" where
  "effective E dur c =
     (case c of
        None \<Rightarrow> DObj []
      | Some c \<Rightarrow> (case render_value E dur [] (config_value c) of DObj m \<Rightarrow> DObj m | _ \<Rightarrow> DObj []))"

section \<open>Secrets do not show\<close>

text \<open>Two values a reader may not tell apart: the same but for secrets, of which only whether they are
  set counts. Secrecy comes with the type or with the path.\<close>

inductive alike :: "config_env \<Rightarrow> bytes \<Rightarrow> rvalue \<Rightarrow> rvalue \<Rightarrow> bool" for E where
  al_type: "is_zero (RSecret s) = is_zero (RSecret t) \<Longrightarrow> alike E path (RSecret s) (RSecret t)"
| al_path: "path \<noteq> [] \<Longrightarrow> is_secret_path path \<Longrightarrow> is_zero v = is_zero w \<Longrightarrow> alike E path v w"
| al_same: "alike E path v v"
| al_ref: "\<not> is_secret_path path \<or> path = [] \<Longrightarrow> alike E path v w \<Longrightarrow> alike E path (RRef v) (RRef w)"
| al_struct: "\<not> is_secret_path path \<or> path = [] \<Longrightarrow>
    list_all2 (\<lambda>x y. fst x = fst y \<and> alike E (join_path path (field_name (ce_lower E) (fst x))) (snd x) (snd y)) fs gs \<Longrightarrow>
    alike E path (RStruct fs) (RStruct gs)"
| al_slice: "\<not> is_secret_path path \<or> path = [] \<Longrightarrow> list_all2 (alike E path) vs ws \<Longrightarrow> alike E path (RSlice a vs) (RSlice b ws)"
| al_array: "\<not> is_secret_path path \<or> path = [] \<Longrightarrow> list_all2 (alike E path) vs ws \<Longrightarrow> alike E path (RArray vs) (RArray ws)"
| al_map: "\<not> is_secret_path path \<or> path = [] \<Longrightarrow>
    list_all2 (\<lambda>x y. fst x = fst y \<and> alike E (join_path path (key_text (fst x))) (snd x) (snd y)) ks ls \<Longrightarrow>
    alike E path (RMap a ks) (RMap b ls)"

lemma render_secret_path:
  "path \<noteq> [] \<Longrightarrow> is_secret_path path \<Longrightarrow> render_value E dur path v = redact v"
  by (cases v) (simp_all add: is_secret_def)

lemma render_alike: "alike E path v w \<Longrightarrow> render_value E dur path v = render_value E dur path w"
proof (induction rule: alike.induct)
  case (al_struct path fs gs)
  have "map (\<lambda>(f, v). if \<not> sf_exported f \<or> field_name (ce_lower E) f = [] then []
           else [(field_name (ce_lower E) f, render_value E dur (join_path path (field_name (ce_lower E) f)) v)]) fs
      = map (\<lambda>(f, v). if \<not> sf_exported f \<or> field_name (ce_lower E) f = [] then []
           else [(field_name (ce_lower E) f, render_value E dur (join_path path (field_name (ce_lower E) f)) v)]) gs"
    using al_struct(2) by (induction rule: list_all2_induct) auto
  then show ?case using al_struct(1) by (auto simp: is_secret_def)
next
  case (al_slice path vs ws a b)
  have "map (render_value E dur path) vs = map (render_value E dur path) ws"
    using al_slice(2) by (induction rule: list_all2_induct) auto
  then show ?case using al_slice(1) by (auto simp: is_secret_def)
next
  case (al_array path vs ws)
  have "map (render_value E dur path) vs = map (render_value E dur path) ws"
    using al_array(2) by (induction rule: list_all2_induct) auto
  then show ?case using al_array(1) by (auto simp: is_secret_def)
next
  case (al_map path ks ls a b)
  have "map (\<lambda>(k, v). (key_text k, render_value E dur (join_path path (key_text k)) v)) ks
      = map (\<lambda>(k, v). (key_text k, render_value E dur (join_path path (key_text k)) v)) ls"
    using al_map(2) by (induction rule: list_all2_induct) auto
  then show ?case using al_map(1) by (auto simp: is_secret_def)
qed (auto simp: redact_def render_secret_path is_secret_def)

section \<open>What the document says\<close>

declare render_value.simps(8) [simp del]

lemma field_name_tagged:
  "fst (tagged n tag v) = \<lparr>sf_name = n, sf_exported = True, sf_tag = Some tag\<rparr>" "snd (tagged n tag v) = v"
  by (simp_all add: tagged_def)

definition plain_tag :: "bytes \<Rightarrow> bool" where
  "plain_tag s \<longleftrightarrow> s \<noteq> [] \<and> s \<noteq> ''-'' \<and> CHR '','' \<notin> set s"

lemma field_name_plain:
  assumes "plain_tag s"
  shows "field_name uni \<lparr>sf_name = n, sf_exported = True, sf_tag = Some s\<rparr> = s"
proof -
  have "cut_comma s = s" using assms by (auto simp: cut_comma_def takeWhile_eq_all_conv plain_tag_def)
  then show ?thesis using assms by (simp add: plain_tag_def field_name_def Let_def)
qed

text \<open>A struct of tagged fields renders field by field.\<close>

definition tagged_fields :: "(bytes \<times> bytes \<times> rvalue) list \<Rightarrow> (struct_field \<times> rvalue) list" where
  "tagged_fields fs = map (\<lambda>(n, tag, v). tagged n tag v) fs"

lemma update_fresh: "k \<notin> fst ` set m \<Longrightarrow> AList.update k v m = m @ [(k, v)]"
  by (induction m) auto

lemma obj_of_distinct:
  "distinct (map fst kvs) \<Longrightarrow> obj_of kvs = DObj kvs"
proof -
  have "distinct (map fst (m @ kvs)) \<Longrightarrow> foldl (\<lambda>m kv. AList.update (fst kv) (snd kv) m) m kvs = m @ kvs" for m
  proof (induction kvs arbitrary: m)
    case (Cons kv kvs)
    then have "AList.update (fst kv) (snd kv) m = m @ [kv]" by (simp add: update_fresh)
    then show ?case using Cons by simp
  qed simp
  from this [of "[]"] show "distinct (map fst kvs) \<Longrightarrow> obj_of kvs = DObj kvs" by (simp add: obj_of_def)
qed

lemma render_tagged:
  assumes "\<forall>x \<in> set fs. plain_tag (fst (snd x))" and "distinct (map (fst \<circ> snd) fs)" and "path = [] \<or> \<not> is_secret_path path"
  shows "render_value E dur path (RStruct (tagged_fields fs))
    = DObj (map (\<lambda>(n, tag, v). (tag, render_value E dur (join_path path tag) v)) fs)"
proof -
  have c: "concat (map (\<lambda>(f, v).
             if \<not> sf_exported f \<or> field_name (ce_lower E) f = [] then []
             else [(field_name (ce_lower E) f, render_value E dur (join_path path (field_name (ce_lower E) f)) v)]) (tagged_fields fs))
      = map (\<lambda>(n, tag, v). (tag, render_value E dur (join_path path tag) v)) fs"
    using assms(1) by (induction fs) (auto simp: tagged_fields_def tagged_def field_name_plain plain_tag_def)
  have m: "map fst (map (\<lambda>(n, tag, v). (tag, render_value E dur (join_path path tag) v)) fs) = map (fst \<circ> snd) fs"
    by (induction fs) auto
  have "distinct (map fst (map (\<lambda>(n, tag, v). (tag, render_value E dur (join_path path tag) v)) fs))"
    unfolding m by (rule assms(2))
  moreover have "\<not> is_secret (RStruct (tagged_fields fs)) path" using assms(3) by (auto simp: is_secret_def)
  ultimately show ?thesis by (simp only: render_value.simps c obj_of_distinct if_False)
qed

lemma config_value_tagged:
  "config_value c = RStruct (tagged_fields
     [(''Node'', ''node'', RStruct (tagged_fields
        [(''ID'', ''id'', RText (nc_ID (cf_Node c))), (''Name'', ''name'', RText (nc_Name (cf_Node c))), (''DataDir'', ''data_dir'', RText (nc_DataDir (cf_Node c)))])),
      (''Server'', ''server'', RStruct (tagged_fields
        [(''BindAddr'', ''bind_addr'', RText (sc_BindAddr (cf_Server c))), (''ClientPort'', ''client_port'', RInt (sc_ClientPort (cf_Server c))), (''MaxConnections'', ''max_connections'', RInt (sc_MaxConnections (cf_Server c))), (''ClientIdleTimeout'', ''client_idle_timeout'', RDuration (sc_ClientIdleTimeout (cf_Server c))), (''MaxRequestSize'', ''max_request_size'', RText (sc_MaxRequestSize (cf_Server c))), (''MaxPipelineCommands'', ''max_pipeline_commands'', RInt (sc_MaxPipelineCommands (cf_Server c))), (''MaxOutputBuffer'', ''max_output_buffer'', RText (sc_MaxOutputBuffer (cf_Server c)))])),
      (''Admin'', ''admin'', RStruct (tagged_fields
        [(''BindAddr'', ''bind_addr'', RText (ac_BindAddr (cf_Admin c))), (''Port'', ''port'', RInt (ac_Port (cf_Admin c))), (''Token'', ''token'', RSecret (ac_Token (cf_Admin c)))])),
      (''Storage'', ''storage'', RStruct (tagged_fields
        [(''ShardCount'', ''shard_count'', RInt (st_ShardCount (cf_Storage c))), (''MaxMemory'', ''max_memory'', RText (st_MaxMemory (cf_Storage c))), (''MaxValueSize'', ''max_value_size'', RText (st_MaxValueSize (cf_Storage c)))])),
      (''TTL'', ''ttl'', RStruct (tagged_fields
        [(''CheckInterval'', ''check_interval'', RDuration (tt_CheckInterval (cf_TTL c))), (''LazyExpiration'', ''lazy_expiration'', RBool (tt_LazyExpiration (cf_TTL c))), (''ActiveExpiration'', ''active_expiration'', RBool (tt_ActiveExpiration (cf_TTL c))), (''BatchSize'', ''batch_size'', RInt (tt_BatchSize (cf_TTL c)))])),
      (''Eviction'', ''eviction'', RStruct (tagged_fields
        [(''Policy'', ''policy'', RText (ev_Policy (cf_Eviction c))), (''SampleSize'', ''sample_size'', RInt (ev_SampleSize (cf_Eviction c)))])),
      (''Logging'', ''logging'', RStruct (tagged_fields
        [(''Level'', ''level'', RText (lg_Level (cf_Logging c))), (''Format'', ''format'', RText (lg_Format (cf_Logging c)))])),
      (''TLS'', ''tls'', RStruct (tagged_fields
        [(''Enabled'', ''enabled'', RBool (tl_Enabled (cf_TLS c))), (''CertFile'', ''cert_file'', RText (tl_CertFile (cf_TLS c))), (''KeyFile'', ''key_file'', RText (tl_KeyFile (cf_TLS c)))])),
      (''Auth'', ''auth'', RStruct (tagged_fields
        [(''Enabled'', ''enabled'', RBool (au_Enabled (cf_Auth c))), (''Token'', ''token'', RSecret (au_Token (cf_Auth c)))]))])"
  by (simp only: config_value_def tagged_fields_def list.map prod.case)

lemma effective_document:
  "effective E dur (Some c) = DObj
     [(''node'', DObj
        [(''id'', DText (nc_ID (cf_Node c))), (''name'', DText (nc_Name (cf_Node c))), (''data_dir'', DText (nc_DataDir (cf_Node c)))]),
      (''server'', DObj
        [(''bind_addr'', DText (sc_BindAddr (cf_Server c))), (''client_port'', DInt (sc_ClientPort (cf_Server c))), (''max_connections'', DInt (sc_MaxConnections (cf_Server c))), (''client_idle_timeout'', DText (dur (sc_ClientIdleTimeout (cf_Server c)))), (''max_request_size'', DText (sc_MaxRequestSize (cf_Server c))), (''max_pipeline_commands'', DInt (sc_MaxPipelineCommands (cf_Server c))), (''max_output_buffer'', DText (sc_MaxOutputBuffer (cf_Server c)))]),
      (''admin'', DObj
        [(''bind_addr'', DText (ac_BindAddr (cf_Admin c))), (''port'', DInt (ac_Port (cf_Admin c))), (''token'', DText (secret_string (ac_Token (cf_Admin c))))]),
      (''storage'', DObj
        [(''shard_count'', DInt (st_ShardCount (cf_Storage c))), (''max_memory'', DText (st_MaxMemory (cf_Storage c))), (''max_value_size'', DText (st_MaxValueSize (cf_Storage c)))]),
      (''ttl'', DObj
        [(''check_interval'', DText (dur (tt_CheckInterval (cf_TTL c)))), (''lazy_expiration'', DBool (tt_LazyExpiration (cf_TTL c))), (''active_expiration'', DBool (tt_ActiveExpiration (cf_TTL c))), (''batch_size'', DInt (tt_BatchSize (cf_TTL c)))]),
      (''eviction'', DObj
        [(''policy'', DText (ev_Policy (cf_Eviction c))), (''sample_size'', DInt (ev_SampleSize (cf_Eviction c)))]),
      (''logging'', DObj
        [(''level'', DText (lg_Level (cf_Logging c))), (''format'', DText (lg_Format (cf_Logging c)))]),
      (''tls'', DObj
        [(''enabled'', DBool (tl_Enabled (cf_TLS c))), (''cert_file'', DText (tl_CertFile (cf_TLS c))), (''key_file'', DText (tl_KeyFile (cf_TLS c)))]),
      (''auth'', DObj
        [(''enabled'', DBool (au_Enabled (cf_Auth c))), (''token'', DText (secret_string (au_Token (cf_Auth c))))])]"
  by (simp add: effective_def config_value_tagged render_tagged plain_tag_def is_secret_path_def secretPaths_def fieldAuthToken_def
      fieldAdminToken_def join_path_def is_secret_def redact_def secret_string_def)

text \<open>The configurations a reader of the document cannot tell apart.\<close>

definition same_but_secrets :: "config \<Rightarrow> config \<Rightarrow> bool" where
  "same_but_secrets c d \<longleftrightarrow>
     d\<lparr>cf_Admin := (cf_Admin d)\<lparr>ac_Token := ac_Token (cf_Admin c)\<rparr>, cf_Auth := (cf_Auth d)\<lparr>au_Token := au_Token (cf_Auth c)\<rparr>\<rparr> = c
     \<and> secret_is_set (ac_Token (cf_Admin c)) = secret_is_set (ac_Token (cf_Admin d))
     \<and> secret_is_set (au_Token (cf_Auth c)) = secret_is_set (au_Token (cf_Auth d))"

lemma section_eq:
  "(nc1 :: node_config) = nc2 \<longleftrightarrow> nc_ID nc1 = nc_ID nc2 \<and> nc_Name nc1 = nc_Name nc2 \<and> nc_DataDir nc1 = nc_DataDir nc2"
  "(sc1 :: server_config) = sc2 \<longleftrightarrow> sc_BindAddr sc1 = sc_BindAddr sc2 \<and> sc_ClientPort sc1 = sc_ClientPort sc2 \<and> sc_MaxConnections sc1 = sc_MaxConnections sc2 \<and> sc_ClientIdleTimeout sc1 = sc_ClientIdleTimeout sc2 \<and> sc_MaxRequestSize sc1 = sc_MaxRequestSize sc2 \<and> sc_MaxPipelineCommands sc1 = sc_MaxPipelineCommands sc2 \<and> sc_MaxOutputBuffer sc1 = sc_MaxOutputBuffer sc2"
  "(st1 :: storage_config) = st2 \<longleftrightarrow> st_ShardCount st1 = st_ShardCount st2 \<and> st_MaxMemory st1 = st_MaxMemory st2 \<and> st_MaxValueSize st1 = st_MaxValueSize st2"
  "(tt1 :: ttl_settings) = tt2 \<longleftrightarrow> tt_CheckInterval tt1 = tt_CheckInterval tt2 \<and> tt_LazyExpiration tt1 = tt_LazyExpiration tt2 \<and> tt_ActiveExpiration tt1 = tt_ActiveExpiration tt2 \<and> tt_BatchSize tt1 = tt_BatchSize tt2"
  "(ev1 :: eviction_config) = ev2 \<longleftrightarrow> ev_Policy ev1 = ev_Policy ev2 \<and> ev_SampleSize ev1 = ev_SampleSize ev2"
  "(lg1 :: logging_config) = lg2 \<longleftrightarrow> lg_Level lg1 = lg_Level lg2 \<and> lg_Format lg1 = lg_Format lg2"
  "(tl1 :: tls_config) = tl2 \<longleftrightarrow> tl_Enabled tl1 = tl_Enabled tl2 \<and> tl_CertFile tl1 = tl_CertFile tl2 \<and> tl_KeyFile tl1 = tl_KeyFile tl2"
  by (auto intro!: node_config.equality server_config.equality storage_config.equality ttl_settings.equality
      eviction_config.equality logging_config.equality tls_config.equality)

lemma secret_string_eq: "secret_string s = secret_string t \<longleftrightarrow> secret_is_set s = secret_is_set t"
  by (auto simp: secret_string_def secret_is_set_def RedactedValue_def)

lemma same_but_secrets_eq:
  "same_but_secrets c d \<longleftrightarrow> cf_Node c = cf_Node d \<and> cf_Server c = cf_Server d
      \<and> ac_BindAddr (cf_Admin c) = ac_BindAddr (cf_Admin d) \<and> ac_Port (cf_Admin c) = ac_Port (cf_Admin d)
      \<and> secret_is_set (ac_Token (cf_Admin c)) = secret_is_set (ac_Token (cf_Admin d))
      \<and> cf_Storage c = cf_Storage d \<and> cf_TTL c = cf_TTL d \<and> cf_Eviction c = cf_Eviction d \<and> cf_Logging c = cf_Logging d
      \<and> cf_TLS c = cf_TLS d \<and> au_Enabled (cf_Auth c) = au_Enabled (cf_Auth d)
      \<and> secret_is_set (au_Token (cf_Auth c)) = secret_is_set (au_Token (cf_Auth d))"
  by (cases c; cases d; cases "cf_Admin c"; cases "cf_Admin d"; cases "cf_Auth c"; cases "cf_Auth d")
     (auto simp: same_but_secrets_def)

lemma effective_alike: "same_but_secrets c d \<Longrightarrow> effective E dur (Some c) = effective E dur (Some d)"
  by (simp add: same_but_secrets_eq effective_document secret_string_eq)

text \<open>
  C32. The document \<open>/config\<close> serves discloses the tokens to nobody and everything else to whoever reads
  it: two configurations render to the same document exactly when they agree on every setting but the
  two tokens, and on whether each token is set.
\<close>

theorem effective_hides_exactly_secrets:
  assumes "inj dur"
  shows "effective E dur (Some c) = effective E dur (Some d) \<longleftrightarrow> same_but_secrets c d"
  by (auto simp: same_but_secrets_eq effective_document secret_string_eq inj_eq [OF assms] section_eq)

lemma format_int_inj: "inj format_int"
proof (rule injI)
  fix i j assume eq: "format_int i = format_int j"
  have neg: "format_nat n \<noteq> CHR ''-'' # cs" for n cs
  proof -
    obtain c ds where "format_nat n = c # ds" "is_digit c" using format_nat_Cons [of n] by blast
    then show ?thesis by (auto simp: is_digit_def)
  qed
  have inj: "m = n" if "format_nat m = format_nat n" for m n using that digits_val_format by metis
  show "i = j"
  proof (cases "i < 0"; cases "j < 0")
    assume "i < 0" "j < 0"
    then have "nat (- i) = nat (- j)" using eq inj by (simp add: format_int_def)
    then show ?thesis using \<open>i < 0\<close> \<open>j < 0\<close> by simp
  next
    assume "\<not> i < 0" "\<not> j < 0"
    then have "nat i = nat j" using eq inj by (simp add: format_int_def)
    then show ?thesis using \<open>\<not> i < 0\<close> \<open>\<not> j < 0\<close> by simp
  qed (use eq neg neg [symmetric] in \<open>auto simp: format_int_def\<close>)
qed

lemma effective_hides_exactly_secrets_witness:
  "effective \<lparr>ce_upper = id, ce_lower = id, ce_ip = Map.empty, ce_folds = \<lambda>_ _. False, ce_quotient = \<lambda>_ _. []\<rparr> format_int (Some config_defaults)
     \<noteq> effective \<lparr>ce_upper = id, ce_lower = id, ce_ip = Map.empty, ce_folds = \<lambda>_ _. False, ce_quotient = \<lambda>_ _. []\<rparr> format_int (Some (config_defaults\<lparr>cf_Auth := \<lparr>au_Enabled = False, au_Token = ''t''\<rparr>\<rparr>))"
proof -
  have "inj format_int" by (rule format_int_inj)
  then show ?thesis
    by (simp add: effective_hides_exactly_secrets) (simp add: same_but_secrets_def config_defaults_def secret_is_set_def)
qed

end
