(* ===== verification/Admin.thy ===== *)
theory Admin
  imports Config_Redact Session
begin

text \<open>
  \<open>internal/admin\<close> with \<open>cmd/atlascache/adminapi.go\<close>: the administrative HTTP API. A data source is what
  its calls answer during the request at hand, and may panic there; a JSON body is the document it
  renders. Of \<open>net/http\<close> the model has the router (exact paths, one method, its redirect of a path it
  would clean) and the abandoned response (\<open>ErrAbortHandler\<close>); times as text are an argument, sockets,
  timeouts and logging are left out.
\<close>

section \<open>Sources\<close>

datatype 'a outcome = Returned 'a | Panicked | Aborted

record conn_stats =
  cs_ConnectionsReceived :: u64
  cs_CommandsProcessed :: u64
  cs_Connected :: int
  cs_Rejected :: u64
  cs_IdleClosed :: u64
  cs_OutputClosed :: u64
  cs_StalledClosed :: u64
  cs_RequestClosed :: u64
  cs_HandlerPanics :: u64
  cs_UptimeSeconds :: u64

definition conn_stats_of :: "u64 \<Rightarrow> 'w server \<Rightarrow> conn_stats" where
  "conn_stats_of uptime srv =
     \<lparr>cs_ConnectionsReceived = connectionsReceived (srv_conns srv), cs_CommandsProcessed = commandsProcessed (srv_conns srv),
      cs_Connected = connected (srv_conns srv), cs_Rejected = rejected (srv_conns srv), cs_IdleClosed = idleClosed (srv_conns srv),
      cs_OutputClosed = outputClosed (srv_conns srv), cs_StalledClosed = stalledClosed (srv_conns srv),
      cs_RequestClosed = requestClosed (srv_conns srv), cs_HandlerPanics = panics (srv_conns srv), cs_UptimeSeconds = uptime\<rparr>"

record admin_figures =
  af_Stats :: server_stats
  af_ConnStats :: conn_stats
  af_MaxConnections :: int

text \<open>\<open>adminStats\<close>: the figures of a running server.\<close>

definition admin_stats :: "u64 \<Rightarrow> 'w server \<Rightarrow> admin_figures \<times> 'w server" where
  "admin_stats uptime srv =
     (case on_store kv_Stats srv of
        (st, srv') \<Rightarrow> (\<lparr>af_Stats = st, af_ConnStats = conn_stats_of uptime srv', af_MaxConnections = MaxConnections (srv_limits srv')\<rparr>, srv'))"

section \<open>The server\<close>

datatype phase = PhaseStarting | PhaseReady | PhaseStopping

record admin =
  ad_token :: bytes
  ad_state :: phase
  ad_stats :: "admin_figures outcome option"
  ad_config :: "doc outcome option"

definition new_admin :: "bytes \<Rightarrow> doc outcome option \<Rightarrow> admin" where
  "new_admin token cfg = \<lparr>ad_token = token, ad_state = PhaseStarting, ad_stats = None, ad_config = cfg\<rparr>"

definition set_stats :: "admin_figures outcome \<Rightarrow> admin \<Rightarrow> admin" where
  "set_stats src a = a\<lparr>ad_stats := Some src\<rparr>"

definition set_ready :: "bool \<Rightarrow> admin \<Rightarrow> admin" where
  "set_ready ready a =
     (if ready then a\<lparr>ad_state := PhaseReady\<rparr>
      else if ad_state a = PhaseReady then a\<lparr>ad_state := PhaseStopping\<rparr> else a)"

record request =
  rq_method :: bytes
  rq_path :: bytes
  rq_tokenHeader :: bytes
  rq_authorization :: bytes

datatype body = Json doc | Plain

record response =
  rs_status :: nat
  rs_challenge :: bool
  rs_body :: body

definition write_json :: "nat \<Rightarrow> doc \<Rightarrow> response" where
  "write_json status payload = \<lparr>rs_status = status, rs_challenge = False, rs_body = Json payload\<rparr>"

definition error_response :: "bytes \<Rightarrow> doc" where
  "error_response msg = DObj [(''error'', DText msg)]"

section \<open>Health\<close>

definition health_response :: "bytes \<Rightarrow> doc" where
  "health_response st = DObj [(''status'', DText st)]"

definition not_ready_status :: "admin \<Rightarrow> bytes" where
  "not_ready_status a = (if ad_state a = PhaseStopping then ''stopping'' else ''starting'')"

definition handle_health :: "admin \<Rightarrow> response" where
  "handle_health a =
     (if ad_state a = PhaseReady then write_json 200 (health_response ''ok'')
      else write_json 503 (health_response (not_ready_status a)))"

definition handle_live :: "admin \<Rightarrow> response" where
  "handle_live a = write_json 200 (health_response ''alive'')"

definition handle_ready :: "admin \<Rightarrow> response" where
  "handle_ready a =
     (if ad_state a = PhaseReady then write_json 200 (health_response ''ready'')
      else write_json 503 (health_response (not_ready_status a)))"

section \<open>Statistics and configuration\<close>

abbreviation figure :: "bytes \<Rightarrow> u64 \<Rightarrow> bytes \<times> doc" where
  "figure name v \<equiv> (name, DInt (uint v))"

definition stats_response :: "admin_figures \<Rightarrow> doc" where
  "stats_response f =
     (let stats = af_Stats f; conns = af_ConnStats f
      in DObj
        [figure ''keys'' (sv_Keys stats), figure ''keys_with_ttl'' (sv_KeysWithTTL stats),
         figure ''memory_used'' (sv_MemoryUsed stats), figure ''memory_max'' (sv_MemoryMax stats),
         figure ''gets'' (sv_Gets stats), figure ''sets'' (sv_Sets stats), figure ''deletes'' (sv_Deletes stats),
         figure ''hits'' (sv_Hits stats), figure ''misses'' (sv_Misses stats),
         figure ''evictions'' (sv_Evictions stats), figure ''expirations'' (sv_Expirations stats),
         figure ''oom_rejected'' (sv_OOMRejected stats),
         figure ''scan_cursors'' (sv_ScanCursors stats), figure ''scan_snapshot_bytes'' (sv_ScanSnapshotBytes stats),
         (''max_connections'', DInt (af_MaxConnections f)),
         figure ''connections_received'' (cs_ConnectionsReceived conns), figure ''commands_processed'' (cs_CommandsProcessed conns),
         (''connected_clients'', DInt (cs_Connected conns)), figure ''rejected_connections'' (cs_Rejected conns),
         figure ''idle_closed'' (cs_IdleClosed conns), figure ''output_limit_closed'' (cs_OutputClosed conns),
         figure ''stalled_closed'' (cs_StalledClosed conns), figure ''request_limit_closed'' (cs_RequestClosed conns),
         figure ''handler_panics'' (cs_HandlerPanics conns), figure ''uptime_seconds'' (cs_UptimeSeconds conns)])"

definition process_response :: "(int \<Rightarrow> bytes) \<Rightarrow> process_stats \<Rightarrow> int \<Rightarrow> doc" where
  "process_response time p sampled =
     DObj [figure ''heap_alloc'' (HeapAlloc p), figure ''heap_sys'' (HeapSys p), figure ''heap_inuse'' (HeapInuse p),
       figure ''heap_objects'' (HeapObjects p), figure ''stack_inuse'' (StackInuse p), figure ''sys'' (Sys p),
       (''num_gc'', DInt (uint (NumGC p))), (''goroutines'', DInt (Goroutines p)), (''sampled_at'', DText (time sampled))]"

definition memory_response :: "(int \<Rightarrow> bytes) \<Rightarrow> server_stats \<Rightarrow> doc" where
  "memory_response time stats =
     DObj
       ([figure ''memory_used'' (sv_MemoryUsed stats), figure ''memory_max'' (sv_MemoryMax stats),
         figure ''scan_cursors'' (sv_ScanCursors stats), figure ''scan_snapshot_bytes'' (sv_ScanSnapshotBytes stats)]
        @ (case SampledAt (sv_Process stats) of
             None \<Rightarrow> []
           | Some t \<Rightarrow> [(''process'', process_response time (sv_Process stats) t)]))"

definition stats_unavailable :: response where
  "stats_unavailable = write_json 503 (error_response ''statistics are not available on this node'')"

fun map_outcome :: "('a \<Rightarrow> 'b) \<Rightarrow> 'a outcome \<Rightarrow> 'b outcome" where
  "map_outcome f (Returned x) = Returned (f x)"
| "map_outcome f Panicked = Panicked"
| "map_outcome f Aborted = Aborted"

definition handle_stats :: "admin \<Rightarrow> response outcome" where
  "handle_stats a =
     (case ad_stats a of None \<Rightarrow> Returned stats_unavailable | Some src \<Rightarrow> map_outcome (\<lambda>f. write_json 200 (stats_response f)) src)"

definition handle_stats_memory :: "(int \<Rightarrow> bytes) \<Rightarrow> admin \<Rightarrow> response outcome" where
  "handle_stats_memory time a =
     (case ad_stats a of
        None \<Rightarrow> Returned stats_unavailable
      | Some src \<Rightarrow> map_outcome (\<lambda>f. write_json 200 (memory_response time (af_Stats f))) src)"

definition handle_config :: "admin \<Rightarrow> response outcome" where
  "handle_config a =
     (case ad_config a of
        None \<Rightarrow> Returned (write_json 503 (error_response ''the effective configuration is not available on this node''))
      | Some src \<Rightarrow> map_outcome (write_json 200) src)"

section \<open>The token\<close>

definition bearerPrefix :: bytes where "bearerPrefix = ''Bearer ''"
definition tokenHeader :: bytes where "tokenHeader = ''X-Admin-Token''"

text \<open>No letter of the prefix folds to one outside ASCII, so folding it is lower-casing it.\<close>

definition presented :: "request \<Rightarrow> bytes" where
  "presented r =
     (if rq_tokenHeader r \<noteq> [] then rq_tokenHeader r
      else let au = rq_authorization r; n = length bearerPrefix
           in if length au > n \<and> map lower_char (take n au) = map lower_char bearerPrefix then drop n au else [])"

definition authorized :: "admin \<Rightarrow> request \<Rightarrow> bool" where
  "authorized a r \<longleftrightarrow> presented r = ad_token a"

definition token_required :: response where
  "token_required =
     \<lparr>rs_status = 401, rs_challenge = True,
      rs_body = Json (error_response (''admin token required: send it as `Authorization: Bearer <admin.token>` or `''
        @ tokenHeader @ '': <admin.token>`''))\<rparr>"

definition protected :: "(admin \<Rightarrow> response outcome) \<Rightarrow> admin \<Rightarrow> request \<Rightarrow> response outcome" where
  "protected h a r =
     (if ad_token a = [] then h a
      else if \<not> authorized a r then Returned token_required
      else h a)"

section \<open>The router and its middleware\<close>

definition admin_routes :: "(int \<Rightarrow> bytes) \<Rightarrow> (bytes \<times> (admin \<Rightarrow> request \<Rightarrow> response outcome)) list" where
  "admin_routes time =
     [(''/health'', \<lambda>a r. Returned (handle_health a)),
      (''/health/live'', \<lambda>a r. Returned (handle_live a)),
      (''/health/ready'', \<lambda>a r. Returned (handle_ready a)),
      (''/stats'', protected handle_stats),
      (''/stats/memory'', protected (handle_stats_memory time)),
      (''/config'', protected handle_config)]"

definition plain_response :: "nat \<Rightarrow> response outcome" where
  "plain_response status = Returned \<lparr>rs_status = status, rs_challenge = False, rs_body = Plain\<rparr>"

definition serve_mux :: "(bytes \<Rightarrow> bytes) \<Rightarrow> (int \<Rightarrow> bytes) \<Rightarrow> admin \<Rightarrow> request \<Rightarrow> response outcome" where
  "serve_mux clean time a r =
     (if rq_method r \<noteq> ''CONNECT'' \<and> clean (rq_path r) \<noteq> rq_path r then plain_response 301
      else case map_of (admin_routes time) (rq_path r) of
             None \<Rightarrow> plain_response 404
           | Some h \<Rightarrow> if rq_method r \<in> {''GET'', ''HEAD''} then h a r else plain_response 405)"

fun recover_panics :: "response outcome \<Rightarrow> response outcome" where
  "recover_panics Panicked = Returned (write_json 500 (error_response ''internal error''))"
| "recover_panics x = x"

definition admin_handle :: "(bytes \<Rightarrow> bytes) \<Rightarrow> (int \<Rightarrow> bytes) \<Rightarrow> admin \<Rightarrow> request \<Rightarrow> response outcome" where
  "admin_handle clean time a r = recover_panics (serve_mux clean time a r)"

text \<open>\<open>effectiveConfig\<close>: the source of \<open>/config\<close>, rendered when it is asked.\<close>

definition effective_config :: "config_env \<Rightarrow> (int \<Rightarrow> bytes) \<Rightarrow> config option \<Rightarrow> doc outcome" where
  "effective_config E dur current = Returned (effective E dur current)"

text \<open>The admin server of \<open>run\<close>, in whatever phase and whatever its figures.\<close>

definition admin_of :: "config_env \<Rightarrow> (int \<Rightarrow> bytes) \<Rightarrow> config \<Rightarrow> phase \<Rightarrow> admin_figures outcome option \<Rightarrow> admin" where
  "admin_of E dur c st figs =
     (new_admin (ac_Token (cf_Admin c)) (Some (effective_config E dur (Some c))))\<lparr>ad_state := st, ad_stats := figs\<rparr>"

end
