(* ===== verification/Admin_Spec.thy ===== *)
theory Admin_Spec
  imports Admin Config_Spec Commands_Spec
begin

text \<open>
  What the administrative API gives away: nothing but liveness without its token, no secret to anyone,
  and to those who may ask the figures the \<open>STATS\<close> command gives.
\<close>

section \<open>Without the token\<close>

lemma admin_health_alike:
  "ad_state a = ad_state b \<Longrightarrow> handle_health a = handle_health b \<and> handle_live a = handle_live b \<and> handle_ready a = handle_ready b"
  by (simp add: handle_health_def handle_live_def handle_ready_def not_ready_status_def)

lemma route_cases:
  "map_of (admin_routes time) path = Some h \<Longrightarrow>
     (h = (\<lambda>a r. Returned (handle_health a)) \<or> h = (\<lambda>a r. Returned (handle_live a)) \<or> h = (\<lambda>a r. Returned (handle_ready a)))
     \<or> path \<in> {''/stats'', ''/stats/memory'', ''/config''} \<and>
       (h = protected handle_stats \<or> h = protected (handle_stats_memory time) \<or> h = protected handle_config)"
  by (auto simp: admin_routes_def split: if_splits)

lemma mux_alike:
  assumes "ad_state a = ad_state b"
    and "\<And>h. h \<in> {handle_stats, handle_stats_memory time, handle_config} \<Longrightarrow> protected h a r = protected h b r"
  shows "admin_handle clean time a r = admin_handle clean time b r"
proof -
  have "h a r = h b r" if "map_of (admin_routes time) (rq_path r) = Some h" for h
    using route_cases [OF that] admin_health_alike [OF assms(1)] assms(2) by auto
  then have "serve_mux clean time a r = serve_mux clean time b r" by (auto simp: serve_mux_def split: option.split)
  then show ?thesis by (simp add: admin_handle_def)
qed

lemma unauthorized_alike:
  assumes "ad_token a \<noteq> []" "\<not> authorized a r" "ad_token b \<noteq> []" "\<not> authorized b r" "ad_state a = ad_state b"
  shows "admin_handle clean time a r = admin_handle clean time b r"
  using assms by (intro mux_alike) (simp_all add: protected_def)

lemma admin_of_sel [simp]:
  "ad_token (admin_of E dur c st figs) = ac_Token (cf_Admin c)" "ad_state (admin_of E dur c st figs) = st"
  "ad_stats (admin_of E dur c st figs) = figs" "ad_config (admin_of E dur c st figs) = Some (effective_config E dur (Some c))"
  by (simp_all add: admin_of_def new_admin_def)



text \<open>
  No answer of the admin API depends on a secret: two nodes in the same phase with the same figures
  and configurations that differ in their tokens only answer every request alike, as long as the
  request's credential is right for both or for neither.
\<close>

lemma admin_discloses_no_secret:
  assumes "same_but_secrets c d"
    and "authorized (admin_of E dur c st figs) r \<longleftrightarrow> authorized (admin_of E dur d st figs) r"
  shows "admin_handle clean time (admin_of E dur c st figs) r = admin_handle clean time (admin_of E dur d st figs) r"
proof (rule mux_alike)
  have t: "ac_Token (cf_Admin c) = [] \<longleftrightarrow> ac_Token (cf_Admin d) = []"
    using assms(1) by (auto simp: same_but_secrets_def secret_is_set_def)
  have e: "effective E dur (Some c) = effective E dur (Some d)"
    by (rule effective_alike [OF assms(1)])
  fix h assume "h \<in> {handle_stats, handle_stats_memory time, handle_config}"
  then have "h (admin_of E dur c st figs) = h (admin_of E dur d st figs)"
    by (auto simp: handle_stats_def handle_stats_memory_def handle_config_def effective_config_def e)
  then show "protected h (admin_of E dur c st figs) r = protected h (admin_of E dur d st figs) r"
    using assms(2) t by (simp add: protected_def)
qed simp

lemma admin_discloses_no_secret_witness:
  "admin_handle id (\<lambda>_. []) (admin_of plain_env format_int exposed_config PhaseReady None)
     \<lparr>rq_method = ''GET'', rq_path = ''/config'', rq_tokenHeader = ''admin'', rq_authorization = []\<rparr>
   = admin_handle id (\<lambda>_. []) (admin_of plain_env format_int (exposed_config\<lparr>cf_Auth := \<lparr>au_Enabled = True, au_Token = ''other''\<rparr>\<rparr>) PhaseReady None)
     \<lparr>rq_method = ''GET'', rq_path = ''/config'', rq_tokenHeader = ''admin'', rq_authorization = []\<rparr>"
  by (rule admin_discloses_no_secret)
     (simp_all add: same_but_secrets_def exposed_config_def secret_is_set_def authorized_def presented_def)

section \<open>Statistics\<close>

text \<open>What a client reads of a figure: the \<open>int64\<close> a \<open>STATS\<close> reply carries.\<close>

definition figure_reply :: "bytes \<times> doc \<Rightarrow> 'f reply \<times> 'f reply" where
  "figure_reply f = (BulkString (fst f), case snd f of DInt i \<Rightarrow> Integer (sint (of_int i :: u64)) | _ \<Rightarrow> NilReply)"

text \<open>
  C33. \<open>/stats\<close> and \<open>STATS\<close> agree: both give the same figures under the same names, those of the same
  store, counters and limits, each as the number itself in JSON and as that number in an \<open>int64\<close> in the
  reply.
\<close>

theorem admin_stats_agree:
  fixes srv :: "'w server"
  assumes "\<not> session_auth_required s srv" and "min_int64 \<le> connected (srv_conns srv)" "connected (srv_conns srv) \<le> max_int64"
    and "dispatch P t \<lparr>cmd_name = ''STATS'', cmd_args = []\<rparr> s srv = ((r :: 'f reply, cl), s', srv')"
    and "admin_stats (r_uptime_seconds t) (count_command srv) = (f, srv'')"
  shows "srv'' = srv' \<and> (\<exists>figs kvs. stats_response f = DObj figs \<and> r = MapReply kvs \<and> distinct (map fst figs)
    \<and> mset kvs = mset (map figure_reply figs))"
proof -
  obtain st srv1 where o: "on_store kv_Stats (count_command srv) = (st, srv1)" by (metis surj_pair)
  have c: "connected (srv_conns srv1) = connected (srv_conns srv)"
    using o by (auto simp: on_store_def count_command_def split: prod.splits)
  have i: "sint (of_int (connected (srv_conns srv)) :: u64) = connected (srv_conns srv)"
    using assms(2,3) by (simp add: signed_of_int signed_take_bit_int_eq_self)
  have f: "f = \<lparr>af_Stats = st, af_ConnStats = conn_stats_of (r_uptime_seconds t) srv1, af_MaxConnections = MaxConnections (srv_limits srv1)\<rparr>"
    "srv'' = srv1"
    using assms(5) o by (auto simp: admin_stats_def)
  let ?h = "stats_handler P t \<lparr>cmd_name = ''STATS'', cmd_args = []\<rparr> s (count_command srv) :: 'f reply \<times> session \<times> 'w server"
  have "dispatch P t \<lparr>cmd_name = ''STATS'', cmd_args = []\<rparr> s srv = ((fst ?h, False), snd ?h)"
    using assms(1) by (simp add: dispatch_def Let_def commands_def cmdAuth_def accepts_def unbounded_def split_beta)
  then have d: "r = fst ?h" "srv' = srv1"
    using assms(4) o by (auto simp: stats_handler_def)
  let ?figs = "case stats_response f of DObj figs \<Rightarrow> figs"
  have "mset (case r of MapReply kvs \<Rightarrow> kvs) = mset (map figure_reply ?figs)"
    by (simp add: d stats_handler_def o f stats_response_def figure_reply_def counter_def conn_stats_of_def Let_def i c add_mset_commute)
  moreover have "stats_response f = DObj ?figs" "distinct (map fst ?figs)" by (simp_all add: stats_response_def Let_def)
  moreover have "r = MapReply (case r of MapReply kvs \<Rightarrow> kvs)" by (simp add: d stats_handler_def o)
  ultimately show ?thesis using d(2) f(2) by metis
qed

lemma admin_stats_agree_witness:
  "\<exists>r :: unit reply. \<exists>cl s' srv' f srv'' figs.
     dispatch demo_platform \<lparr>r_now = 0, r_uptime_seconds = 0, r_uptime_days = 0\<rparr> \<lparr>cmd_name = ''STATS'', cmd_args = []\<rparr>
       demo_session (demo_server\<lparr>srv_auth := None\<rparr>) = ((r, cl), s', srv')
     \<and> admin_stats 0 (count_command (demo_server\<lparr>srv_auth := None\<rparr>)) = (f, srv'')
     \<and> stats_response f = DObj figs \<and> distinct (map fst figs)"
proof -
  let ?srv = "demo_server\<lparr>srv_auth := None\<rparr>" and ?t = "\<lparr>r_now = 0, r_uptime_seconds = 0, r_uptime_days = 0\<rparr>"
  have a: "\<not> session_auth_required demo_session ?srv" by (simp add: session_auth_required_def auth_required_def)
  have c: "min_int64 \<le> connected (srv_conns ?srv)" "connected (srv_conns ?srv) \<le> max_int64"
    by (simp_all add: demo_server_def zero_counters_def)
  obtain r :: "unit reply" and cl s' srv' where d: "dispatch demo_platform ?t \<lparr>cmd_name = ''STATS'', cmd_args = []\<rparr> demo_session ?srv = ((r, cl), s', srv')"
    by (metis surj_pair)
  obtain f srv'' where f: "admin_stats (r_uptime_seconds ?t) (count_command ?srv) = (f, srv'')" by (metis surj_pair)
  from admin_stats_agree [OF a c d f] d f show ?thesis by auto
qed

section \<open>The probes\<close>

definition probe_request :: "bytes \<Rightarrow> request" where
  "probe_request path = \<lparr>rq_method = ''GET'', rq_path = path, rq_tokenHeader = [], rq_authorization = []\<rparr>"

text \<open>
  The probes tell the truth, need no token and read nothing but the phase: from the moment the server
  exists the liveness probe is answered 200; readiness and health are answered 200 exactly when the
  node was last marked ready, and after it has stopped being ready they say so and never again that it
  is starting.
\<close>

lemma probes_truthful:
  assumes "clean ''/health'' = ''/health''" "clean ''/health/live'' = ''/health/live''" "clean ''/health/ready'' = ''/health/ready''"
    and "a = fold set_ready marks (new_admin token cfg)"
  shows "admin_handle clean time a (probe_request ''/health/live'') = Returned (write_json 200 (health_response ''alive''))
    \<and> admin_handle clean time a (probe_request ''/health/ready'') = Returned
        (if marks \<noteq> [] \<and> last marks then write_json 200 (health_response ''ready'')
         else write_json 503 (health_response (if True \<in> set marks then ''stopping'' else ''starting'')))
    \<and> admin_handle clean time a (probe_request ''/health'') = Returned
        (if marks \<noteq> [] \<and> last marks then write_json 200 (health_response ''ok'')
         else write_json 503 (health_response (if True \<in> set marks then ''stopping'' else ''starting'')))"
proof -
  have "ad_state (fold set_ready marks (new_admin token cfg))
      = (if marks \<noteq> [] \<and> last marks then PhaseReady else if True \<in> set marks then PhaseStopping else PhaseStarting)"
    by (induction marks rule: rev_induct) (auto simp: new_admin_def set_ready_def dest: last_in_set)
  then show ?thesis
    using assms by (simp add: admin_handle_def serve_mux_def admin_routes_def probe_request_def handle_live_def handle_ready_def
        handle_health_def not_ready_status_def new_admin_def)
qed

lemma probes_truthful_witness:
  "admin_handle id (\<lambda>_. []) (fold set_ready [False, True, False] (new_admin [] None)) (probe_request ''/health/ready'')
     = Returned (write_json 503 (health_response ''stopping''))"
  using probes_truthful [of id "fold set_ready [False, True, False] (new_admin [] None)" "[False, True, False]" "[]" None "\<lambda>_. []"] by simp

end
