(* ===== verification/Config_Defaults.thy ===== *)
theory Config_Defaults
  imports Config_Redact
begin

text \<open>
  \<open>setDefaults\<close> of \<open>internal/config/loader.go\<close>: the defaults registered with viper, key by key. Viper only
  looks for a key in the environment, or gives it to the structure it fills, when it has heard of the
  key; a setting missing here could not be set by its environment variable.
\<close>

definition set_defaults :: "config \<Rightarrow> (bytes \<times> rvalue) list" where
  "set_defaults d =
     [(''node.id'', RText (nc_ID (cf_Node d))),
      (''node.name'', RText (nc_Name (cf_Node d))),
      (''node.data_dir'', RText (nc_DataDir (cf_Node d))),
      (''server.bind_addr'', RText (sc_BindAddr (cf_Server d))),
      (''server.client_port'', RInt (sc_ClientPort (cf_Server d))),
      (''server.max_connections'', RInt (sc_MaxConnections (cf_Server d))),
      (''server.client_idle_timeout'', RDuration (sc_ClientIdleTimeout (cf_Server d))),
      (''server.max_request_size'', RText (sc_MaxRequestSize (cf_Server d))),
      (''server.max_pipeline_commands'', RInt (sc_MaxPipelineCommands (cf_Server d))),
      (''server.max_output_buffer'', RText (sc_MaxOutputBuffer (cf_Server d))),
      (''admin.bind_addr'', RText (ac_BindAddr (cf_Admin d))),
      (''admin.port'', RInt (ac_Port (cf_Admin d))),
      (''admin.token'', RText (ac_Token (cf_Admin d))),
      (''storage.shard_count'', RInt (st_ShardCount (cf_Storage d))),
      (''storage.max_memory'', RText (st_MaxMemory (cf_Storage d))),
      (''storage.max_value_size'', RText (st_MaxValueSize (cf_Storage d))),
      (''ttl.check_interval'', RDuration (tt_CheckInterval (cf_TTL d))),
      (''ttl.lazy_expiration'', RBool (tt_LazyExpiration (cf_TTL d))),
      (''ttl.active_expiration'', RBool (tt_ActiveExpiration (cf_TTL d))),
      (''ttl.batch_size'', RInt (tt_BatchSize (cf_TTL d))),
      (''eviction.policy'', RText (ev_Policy (cf_Eviction d))),
      (''eviction.sample_size'', RInt (ev_SampleSize (cf_Eviction d))),
      (''logging.level'', RText (lg_Level (cf_Logging d))),
      (''logging.format'', RText (lg_Format (cf_Logging d))),
      (''tls.enabled'', RBool (tl_Enabled (cf_TLS d))),
      (''tls.cert_file'', RText (tl_CertFile (cf_TLS d))),
      (''tls.key_file'', RText (tl_KeyFile (cf_TLS d))),
      (''auth.enabled'', RBool (au_Enabled (cf_Auth d))),
      (''auth.token'', RText (au_Token (cf_Auth d)))]"

text \<open>The settings of a structure under their full names, in the order it has them.\<close>

fun settings_under :: "(bytes \<Rightarrow> bytes) \<Rightarrow> bytes \<Rightarrow> rvalue \<Rightarrow> (bytes \<times> rvalue) list" where
  "settings_under uni path (RStruct fs) =
     concat (map (\<lambda>(f, v). settings_under uni (join_path path (field_name uni f)) v) fs)"
| "settings_under uni path (RSecret s) = [(path, RText s)]"
| "settings_under uni path v = [(path, v)]"

lemma cut_comma_plain: "CHR '','' \<notin> set s \<Longrightarrow> cut_comma s = s"
  unfolding cut_comma_def by (intro takeWhile_eq_all_conv [THEN iffD2]) metis

lemma field_name_tag:
  assumes "name \<noteq> []" "CHR '','' \<notin> set name" "name \<noteq> ''-''"
  shows "field_name uni \<lparr>sf_name = n, sf_exported = True, sf_tag = Some name\<rparr> = name"
  using assms(1,3) unfolding field_name_def Let_def struct_field.select_convs option.case cut_comma_plain [OF assms(2)]
  by (simp only: if_False)

text \<open>
  Every setting has its default registered, once, under the name the rest of the package knows it by
  and with the value of \<open>Defaults\<close>: the list of \<open>setDefaults\<close> is the configuration structure itself,
  field by field, so no setting is out of the environment's reach and none is defaulted twice.
\<close>

lemma every_setting_defaulted:
  "set_defaults d = settings_under uni [] (config_value d) \<and> distinct (map fst (set_defaults d))
   \<and> {path \<in> set (map fst (set_defaults d)). is_secret_path path} = {fieldAuthToken, fieldAdminToken}"
proof -
  have "set_defaults d = settings_under uni [] (config_value d)"
    by (simp add: set_defaults_def config_value_def tagged_def field_name_tag join_path_def)
  moreover have "distinct (map fst (set_defaults d))" by (simp add: set_defaults_def)
  moreover have "{path \<in> set (map fst (set_defaults d)). is_secret_path path} = {fieldAuthToken, fieldAdminToken}"
    by (auto simp: set_defaults_def is_secret_path_def secretPaths_def fieldAuthToken_def fieldAdminToken_def)
  ultimately show ?thesis by blast
qed

end
