(* ===== verification/Config_Watch.thy ===== *)
theory Config_Watch
  imports Config_Validate
begin

text \<open>
  \<open>internal/config/loader.go\<close> and \<open>hotreload.go\<close>: loading a configuration, and the watcher that reloads it
  when its file changes or on \<open>SIGHUP\<close> and reports changes of other files once they have settled. What
  viper answers to a load is an argument. Callbacks run on goroutines of their own: a reload starts one
  per callback and a step of the watcher runs any of them. Timers are read against a clock that steps
  forward; a timer may fire any time after its deadline.
\<close>

section \<open>Loading\<close>

record viper_answer =
  va_read :: "bytes option"
  va_missing :: bool
  va_unmarshal :: "bytes + config"

datatype load_error = LoadError bytes bytes | UnmarshalError bytes | Invalid "validation_error list" | NoSuchFile bytes bytes

definition build_config :: "config_env \<Rightarrow> viper_answer \<Rightarrow> load_error + config" where
  "build_config E v =
     (case va_unmarshal v of
        Inl e \<Rightarrow> Inl (UnmarshalError e)
      | Inr cfg \<Rightarrow> (case validate_config E cfg of Some errs \<Rightarrow> Inl (Invalid errs) | None \<Rightarrow> Inr cfg))"

definition load_from_file :: "config_env \<Rightarrow> bytes \<Rightarrow> viper_answer \<Rightarrow> load_error + config" where
  "load_from_file E path v =
     (case va_read v of
        Some e \<Rightarrow> if va_missing v then build_config E v else Inl (LoadError path e)
      | None \<Rightarrow> build_config E v)"

text \<open>\<open>Load\<close> on the default paths; \<open>va_missing\<close> is viper's own error for no file in any of them.\<close>

definition load_default :: "config_env \<Rightarrow> viper_answer \<Rightarrow> load_error + config" where
  "load_default E v =
     (case va_read v of
        Some e \<Rightarrow> if va_missing v then build_config E v else Inl (LoadError ''default paths'' e)
      | None \<Rightarrow> build_config E v)"

text \<open>\<open>loadConfig\<close> of the daemon: a file named on the command line has to exist (\<open>stat\<close> is \<open>os.Stat\<close>'s error).\<close>

definition load_config ::
    "config_env \<Rightarrow> bytes option \<Rightarrow> bytes \<Rightarrow> bytes \<Rightarrow> viper_answer \<Rightarrow> load_error + config \<times> bytes" where
  "load_config E stat used path v =
     (if path = [] then map_sum id (\<lambda>c. (c, if va_read v = None then used else [])) (load_default E v)
      else case stat of
             Some e \<Rightarrow> Inl (NoSuchFile path e)
           | None \<Rightarrow> map_sum id (\<lambda>c. (c, path)) (load_from_file E path v))"

section \<open>Paths\<close>

text \<open>\<open>filepath.Clean\<close>, \<open>Base\<close> and \<open>Dir\<close> of a Unix system.\<close>

fun split_path :: "bytes \<Rightarrow> bytes \<Rightarrow> bytes list" where
  "split_path cur [] = [cur]"
| "split_path cur (c # cs) = (if c = CHR ''/'' then cur # split_path [] cs else split_path (cur @ [c]) cs)"

fun clean_parts :: "bool \<Rightarrow> bytes list \<Rightarrow> bytes list \<Rightarrow> bytes list" where
  "clean_parts rooted acc [] = rev acc"
| "clean_parts rooted acc (p # ps) =
     (if p = [] \<or> p = ''.'' then clean_parts rooted acc ps
      else if p = ''..'' then
        (case acc of
           a # rest \<Rightarrow> if a \<noteq> ''..'' then clean_parts rooted rest ps else clean_parts rooted (p # acc) ps
         | [] \<Rightarrow> if rooted then clean_parts rooted acc ps else clean_parts rooted (p # acc) ps)
      else clean_parts rooted (p # acc) ps)"

definition path_clean :: "bytes \<Rightarrow> bytes" where
  "path_clean p =
     (if p = [] then ''.''
      else let rooted = (hd p = CHR ''/''); body = join_text ''/'' (clean_parts rooted [] (split_path [] p))
           in if rooted then CHR ''/'' # body else if body = [] then ''.'' else body)"

definition path_base :: "bytes \<Rightarrow> bytes" where
  "path_base p =
     (if p = [] then ''.''
      else let q = rev (dropWhile (\<lambda>c. c = CHR ''/'') (rev p))
           in if q = [] then ''/'' else rev (takeWhile (\<lambda>c. c \<noteq> CHR ''/'') (rev q)))"

definition path_dir :: "bytes \<Rightarrow> bytes" where
  "path_dir p = path_clean (rev (dropWhile (\<lambda>c. c \<noteq> CHR ''/'') (rev p)))"

section \<open>The watcher\<close>

definition fileSettleDelay :: int where "fileSettleDelay = 100 * 1000000"

text \<open>A timer that was never started is \<open>None\<close>; \<open>Some None\<close> is one that fired or was stopped.\<close>

record file_watch =
  fw_path :: bytes
  fw_name :: bytes
  fw_timer :: "int option option"

text \<open>\<open>w_pending\<close> are the callbacks started and not yet run, \<open>w_ran\<close> those that ran, in that order; \<open>w_seen\<close>
  keeps for the statements when each file's last event was scheduled, and \<open>w_fired\<close> which file callbacks
  ran and when.\<close>

record watcher =
  w_path :: bytes
  w_callbacks :: nat
  w_files :: "file_watch list"
  w_dirs :: "bytes list"
  w_current :: config
  w_stopped :: bool
  w_now :: int
  w_pending :: "(nat \<times> config) list"
  w_ran :: "(nat \<times> config) list"
  w_seen :: "nat \<Rightarrow> int option"
  w_fired :: "(nat \<times> int) list"

definition new_watcher :: "config_env \<Rightarrow> bytes \<Rightarrow> int \<Rightarrow> viper_answer \<Rightarrow> load_error + watcher" where
  "new_watcher E path now v =
     (case load_from_file E path v of
        Inl e \<Rightarrow> Inl e
      | Inr cfg \<Rightarrow> Inr \<lparr>w_path = path, w_callbacks = 0, w_files = [], w_dirs = [], w_current = cfg, w_stopped = False,
          w_now = now, w_pending = [], w_ran = [], w_seen = (\<lambda>_. None), w_fired = []\<rparr>)"

definition on_change :: "watcher \<Rightarrow> watcher" where
  "on_change w = w\<lparr>w_callbacks := w_callbacks w + 1\<rparr>"

text \<open>\<open>WatchFile\<close>; \<open>add\<close> is the error of the watch on the directory.\<close>

definition watch_file :: "bytes \<Rightarrow> bytes option \<Rightarrow> watcher \<Rightarrow> bytes option \<times> watcher" where
  "watch_file path add w =
     (if path = [] then (Some ''config: a file watch needs a path'', w)
      else let c = path_clean path
           in case add of
                Some e \<Rightarrow> (Some e, w)
              | None \<Rightarrow> (None, w\<lparr>w_dirs := w_dirs w @ [path_dir c],
                  w_files := w_files w @ [\<lparr>fw_path = c, fw_name = path_base c, fw_timer = None\<rparr>]\<rparr>))"

definition reload :: "config_env \<Rightarrow> viper_answer \<Rightarrow> watcher \<Rightarrow> watcher" where
  "reload E v w =
     (case load_from_file E (w_path w) v of
        Inl _ \<Rightarrow> w
      | Inr cfg \<Rightarrow> w\<lparr>w_current := cfg, w_pending := w_pending w @ map (\<lambda>i. (i, cfg)) [0..<w_callbacks w]\<rparr>)"

definition schedule_watch :: "nat \<Rightarrow> watcher \<Rightarrow> watcher" where
  "schedule_watch i w =
     w\<lparr>w_files := (w_files w)[i := (w_files w ! i)\<lparr>fw_timer := Some (Some (w_now w + fileSettleDelay))\<rparr>],
       w_seen := (w_seen w)(i := Some (w_now w))\<rparr>"

definition matching :: "bytes \<Rightarrow> watcher \<Rightarrow> nat list" where
  "matching changed w =
     filter (\<lambda>i. fw_path (w_files w ! i) = changed \<or> fw_name (w_files w ! i) = path_base changed) [0..<length (w_files w)]"

record fs_event =
  fe_name :: bytes
  fe_write :: bool
  fe_create :: bool
  fe_rename :: bool

definition handle_event :: "config_env \<Rightarrow> viper_answer \<Rightarrow> fs_event \<Rightarrow> watcher \<Rightarrow> watcher" where
  "handle_event E v ev w =
     (if \<not> fe_write ev \<and> \<not> fe_create ev \<and> \<not> fe_rename ev then w
      else let changed = path_clean (fe_name ev)
           in if changed = path_clean (w_path w) \<and> \<not> fe_rename ev then reload E v w
              else fold schedule_watch (matching changed w) w)"

definition reload_files :: "watcher \<Rightarrow> watcher" where
  "reload_files w = w\<lparr>w_fired := w_fired w @ map (\<lambda>i. (i, w_now w)) [0..<length (w_files w)]\<rparr>"

definition on_sighup :: "config_env \<Rightarrow> viper_answer \<Rightarrow> watcher \<Rightarrow> watcher" where
  "on_sighup E v w = reload_files (reload E v w)"

definition stop_watcher :: "watcher \<Rightarrow> watcher" where
  "stop_watcher w =
     (if w_stopped w then w
      else w\<lparr>w_stopped := True,
             w_files := map (\<lambda>f. case fw_timer f of None \<Rightarrow> f | Some _ \<Rightarrow> f\<lparr>fw_timer := Some None\<rparr>) (w_files w)\<rparr>)"

definition run_callback :: "nat \<Rightarrow> watcher \<Rightarrow> watcher" where
  "run_callback k w =
     w\<lparr>w_pending := take k (w_pending w) @ drop (Suc k) (w_pending w), w_ran := w_ran w @ [w_pending w ! k]\<rparr>"

definition fire_timer :: "nat \<Rightarrow> watcher \<Rightarrow> watcher" where
  "fire_timer i w =
     w\<lparr>w_files := (w_files w)[i := (w_files w ! i)\<lparr>fw_timer := Some None\<rparr>], w_fired := w_fired w @ [(i, w_now w)]\<rparr>"

inductive watch_step :: "config_env \<Rightarrow> watcher \<Rightarrow> watcher \<Rightarrow> bool" for E where
  ws_on_change: "watch_step E w (on_change w)"
| ws_watch_file: "watch_step E w (snd (watch_file path add w))"
| ws_event: "watch_step E w (handle_event E v ev w)"
| ws_sighup: "watch_step E w (on_sighup E v w)"
| ws_callback: "k < length (w_pending w) \<Longrightarrow> watch_step E w (run_callback k w)"
| ws_timer: "i < length (w_files w) \<Longrightarrow> fw_timer (w_files w ! i) = Some (Some d) \<Longrightarrow> d \<le> w_now w \<Longrightarrow> watch_step E w (fire_timer i w)"
| ws_time: "w_now w \<le> now \<Longrightarrow> watch_step E w (w\<lparr>w_now := now\<rparr>)"
| ws_stop: "watch_step E w (stop_watcher w)"

inductive watch_reach :: "config_env \<Rightarrow> watcher \<Rightarrow> bool" for E where
  wr_new: "new_watcher E path now v = Inr w \<Longrightarrow> watch_reach E w"
| wr_step: "watch_reach E w \<Longrightarrow> watch_step E w w' \<Longrightarrow> watch_reach E w'"

end
