(* ===== verification/Certificates.thy ===== *)
theory Certificates
  imports Config_Watch
begin

text \<open>
  \<open>internal/server/tls.go\<close> with the certificate half of \<open>cmd/atlascache/security.go\<close>: the keeper of the
  certificate the listener serves. Reading a file, \<open>tls.X509KeyPair\<close> and the parsing of a leaf are the
  record \<open>cert_env\<close>; a certificate is of any type, with the end of its validity.
\<close>

record 'c cert_env =
  ce_pair :: "bytes \<Rightarrow> bytes \<Rightarrow> bytes + 'c"
  ce_hasLeaf :: "'c \<Rightarrow> bool"
  ce_parse :: "'c \<Rightarrow> bytes + 'c"
  ce_notAfter :: "'c \<Rightarrow> int"

text \<open>What the file system holds when a pair is read.\<close>

type_synonym files = "bytes \<Rightarrow> bytes + bytes"

definition certificateExpiryWarning :: int where "certificateExpiryWarning = 7 * 24 * 3600 * 1000000000"

record 'c keeper =
  ck_certFile :: bytes
  ck_keyFile :: bytes
  ck_current :: "'c option"
  ck_reloads :: u64
  ck_failures :: u64

definition read_pair :: "'c cert_env \<Rightarrow> files \<Rightarrow> 'c keeper \<Rightarrow> bytes + 'c" where
  "read_pair X fs k =
     (case fs (ck_certFile k) of
        Inl e \<Rightarrow> Inl (''tls.cert_file '' @ ck_certFile k @ '': '' @ e)
      | Inr certPEM \<Rightarrow>
          (case fs (ck_keyFile k) of
             Inl e \<Rightarrow> Inl (''tls.key_file '' @ ck_keyFile k @ '': '' @ e)
           | Inr keyPEM \<Rightarrow>
               (case ce_pair X certPEM keyPEM of
                  Inl e \<Rightarrow> Inl (''tls: '' @ ck_certFile k @ '' and '' @ ck_keyFile k @ '' are not a usable certificate and key pair: '' @ e)
                | Inr cert \<Rightarrow>
                    if ce_hasLeaf X cert then Inr cert
                    else (case ce_parse X cert of
                            Inl e \<Rightarrow> Inl (''tls.cert_file '' @ ck_certFile k @ '': '' @ e)
                          | Inr cert' \<Rightarrow> Inr cert'))))"

definition new_keeper :: "'c cert_env \<Rightarrow> files \<Rightarrow> bytes \<Rightarrow> bytes \<Rightarrow> bytes + 'c keeper" where
  "new_keeper X fs certFile keyFile =
     (if certFile = [] \<or> keyFile = []
      then Inl ''tls: both tls.cert_file and tls.key_file are required when tls.enabled is true''
      else let k = \<lparr>ck_certFile = certFile, ck_keyFile = keyFile, ck_current = None, ck_reloads = 0, ck_failures = 0\<rparr>
           in case read_pair X fs k of Inl e \<Rightarrow> Inl e | Inr cert \<Rightarrow> Inr (k\<lparr>ck_current := Some cert\<rparr>))"

definition keeper_reload :: "'c cert_env \<Rightarrow> files \<Rightarrow> 'c keeper \<Rightarrow> bytes option \<times> 'c keeper" where
  "keeper_reload X fs k =
     (case read_pair X fs k of
        Inl e \<Rightarrow> (Some e, k\<lparr>ck_failures := ck_failures k + 1\<rparr>)
      | Inr cert \<Rightarrow> (None, k\<lparr>ck_current := Some cert, ck_reloads := ck_reloads k + 1\<rparr>))"

definition get_certificate :: "'c keeper \<Rightarrow> bytes + 'c" where
  "get_certificate k = (case ck_current k of None \<Rightarrow> Inl ''tls: no certificate is loaded'' | Some c \<Rightarrow> Inr c)"

definition keeper_stats :: "'c keeper \<Rightarrow> u64 \<times> u64" where
  "keeper_stats k = (ck_reloads k, ck_failures k)"

definition keeper_files :: "'c keeper \<Rightarrow> bytes \<times> bytes" where
  "keeper_files k = (ck_certFile k, ck_keyFile k)"

datatype warning = NoWarning | Expired | ExpiresSoon

text \<open>The warning of \<open>report\<close> at wall time \<open>now\<close>, about a certificate with its leaf; the time left
  saturates as \<open>time.Until\<close> does.\<close>

definition expiry_warning :: "'c cert_env \<Rightarrow> int \<Rightarrow> 'c \<Rightarrow> warning" where
  "expiry_warning X now cert =
     (let remaining = max min_int64 (min max_int64 (ce_notAfter X cert - now))
      in if remaining \<le> 0 then Expired
         else if remaining \<le> certificateExpiryWarning then ExpiresSoon else NoWarning)"

section \<open>Wiring\<close>

text \<open>The certificate half of \<open>newSecurity\<close>.\<close>

definition new_security :: "'c cert_env \<Rightarrow> files \<Rightarrow> config \<Rightarrow> bytes + 'c keeper option" where
  "new_security X fs c =
     (if \<not> tl_Enabled (cf_TLS c) then Inr None
      else map_sum id Some (new_keeper X fs (tl_CertFile (cf_TLS c)) (tl_KeyFile (cf_TLS c))))"

text \<open>\<open>watchCertificates\<close> registers the keeper's two files; a watch that cannot be had is logged.\<close>

definition watch_certificates :: "'c keeper option \<Rightarrow> (bytes \<Rightarrow> bytes option) \<Rightarrow> watcher \<Rightarrow> watcher" where
  "watch_certificates k add w =
     (case k of
        None \<Rightarrow> w
      | Some k \<Rightarrow> fold (\<lambda>path w. snd (watch_file path (add path) w)) [fst (keeper_files k), snd (keeper_files k)] w)"

section \<open>Rotation\<close>

fun run_reloads :: "'c cert_env \<Rightarrow> files list \<Rightarrow> 'c keeper \<Rightarrow> 'c keeper" where
  "run_reloads X [] k = k"
| "run_reloads X (fs # fss) k = run_reloads X fss (snd (keeper_reload X fs k))"

text \<open>The certificates found usable, in the order they were read.\<close>

definition usable_pairs :: "'c cert_env \<Rightarrow> files list \<Rightarrow> 'c keeper \<Rightarrow> 'c list" where
  "usable_pairs X fss k = concat (map (\<lambda>fs. case read_pair X fs k of Inl _ \<Rightarrow> [] | Inr c \<Rightarrow> [c]) fss)"

lemma read_pair_files:
  "ck_certFile k = ck_certFile k' \<Longrightarrow> ck_keyFile k = ck_keyFile k' \<Longrightarrow> read_pair X fs k = read_pair X fs k'"
  by (simp add: read_pair_def split: sum.split)

lemma run_reloads_state:
  "ck_certFile (run_reloads X fss k) = ck_certFile k \<and> ck_keyFile (run_reloads X fss k) = ck_keyFile k
   \<and> ck_current (run_reloads X fss k) = (if usable_pairs X fss k = [] then ck_current k else Some (last (usable_pairs X fss k)))
   \<and> ck_reloads (run_reloads X fss k) = ck_reloads k + of_nat (length (usable_pairs X fss k))
   \<and> ck_failures (run_reloads X fss k) = ck_failures k + of_nat (length fss - length (usable_pairs X fss k))
   \<and> length (usable_pairs X fss k) \<le> length fss"
proof (induction fss arbitrary: k)
  case (Cons fs fss)
  let ?k = "snd (keeper_reload X fs k)"
  have f: "ck_certFile ?k = ck_certFile k" "ck_keyFile ?k = ck_keyFile k" by (simp_all add: keeper_reload_def split: sum.split)
  have u: "usable_pairs X fss ?k = usable_pairs X fss k"
    using read_pair_files [OF f] by (simp add: usable_pairs_def)
  show ?case
  proof (cases "read_pair X fs k")
    case (Inl e)
    then have "usable_pairs X (fs # fss) k = usable_pairs X fss k" "ck_current ?k = ck_current k" "ck_reloads ?k = ck_reloads k"
      "ck_failures ?k = ck_failures k + 1"
      by (simp_all add: usable_pairs_def keeper_reload_def)
    then show ?thesis using Cons.IH [of ?k] f u by (simp add: Suc_diff_le)
  next
    case (Inr c)
    then have "usable_pairs X (fs # fss) k = c # usable_pairs X fss k" "ck_current ?k = Some c" "ck_reloads ?k = ck_reloads k + 1"
      "ck_failures ?k = ck_failures k"
      by (simp_all add: usable_pairs_def keeper_reload_def)
    then show ?thesis using Cons.IH [of ?k] f u by simp
  qed
qed (simp add: usable_pairs_def)



end
