(* ===== verification/Watch_Spec.thy ===== *)
theory Watch_Spec
  imports Config_Watch Config_Spec
begin

text \<open>What the watcher promises of the configurations it hands out and of the files it reports, and an
  order of callbacks it does not rule out.\<close>

section \<open>Only accepted configurations\<close>

lemma load_accepted: "load_from_file E path v = Inr c \<Longrightarrow> validate_config E c = None"
  by (auto simp: load_from_file_def build_config_def split: option.splits if_splits sum.splits)

definition accepted_only :: "config_env \<Rightarrow> watcher \<Rightarrow> bool" where
  "accepted_only E w \<longleftrightarrow> validate_config E (w_current w) = None
     \<and> (\<forall>p \<in> set (w_pending w). validate_config E (snd p) = None) \<and> (\<forall>p \<in> set (w_ran w). validate_config E (snd p) = None)"

lemma reload_accepted: "accepted_only E w \<Longrightarrow> accepted_only E (reload E v w)"
  by (auto simp: accepted_only_def reload_def load_accepted split: sum.split)

lemma schedule_watch_sel [simp]:
  "w_current (schedule_watch i w) = w_current w" "w_pending (schedule_watch i w) = w_pending w" "w_ran (schedule_watch i w) = w_ran w"
  "w_now (schedule_watch i w) = w_now w" "length (w_files (schedule_watch i w)) = length (w_files w)"
  "w_fired (schedule_watch i w) = w_fired w"
  by (simp_all add: schedule_watch_def)

lemma schedules_watch_sel [simp]:
  "w_current (fold schedule_watch is w) = w_current w" "w_pending (fold schedule_watch is w) = w_pending w"
  "w_ran (fold schedule_watch is w) = w_ran w" "w_now (fold schedule_watch is w) = w_now w"
  "length (w_files (fold schedule_watch is w)) = length (w_files w)" "w_fired (fold schedule_watch is w) = w_fired w"
  by (induction "is" arbitrary: w) simp_all

lemma schedules_accepted: "accepted_only E (fold schedule_watch is w) = accepted_only E w"
  by (simp add: accepted_only_def)

lemma watch_step_accepted: "watch_step E w w' \<Longrightarrow> accepted_only E w \<Longrightarrow> accepted_only E w'"
proof (induction rule: watch_step.induct)
  case (ws_event w v ev)
  then show ?case using reload_accepted [OF ws_event]
    by (auto simp: handle_event_def Let_def schedules_accepted)
next
  case (ws_sighup w v)
  then show ?case using reload_accepted [OF ws_sighup, of v] by (simp add: on_sighup_def reload_files_def accepted_only_def)
next
  case (ws_callback k w)
  then show ?case by (auto simp: accepted_only_def run_callback_def dest: in_set_takeD in_set_dropD)
qed (auto simp: accepted_only_def on_change_def watch_file_def fire_timer_def stop_watcher_def Let_def split: option.split)

lemma watch_reach_accepted: "watch_reach E w \<Longrightarrow> accepted_only E w"
proof (induction rule: watch_reach.induct)
  case (wr_new path now v w)
  then show ?case by (auto simp: new_watcher_def accepted_only_def load_accepted split: sum.splits)
qed (rule watch_step_accepted)

section \<open>Files settle first\<close>

definition timers_settle :: "watcher \<Rightarrow> bool" where
  "timers_settle w \<longleftrightarrow> (\<forall>i < length (w_files w). \<forall>d. fw_timer (w_files w ! i) = Some (Some d) \<longrightarrow> w_seen w i = Some (d - fileSettleDelay))"

lemma timers_settle_fields [simp]:
  "timers_settle (w\<lparr>w_current := c\<rparr>) = timers_settle w" "timers_settle (w\<lparr>w_pending := p\<rparr>) = timers_settle w"
  "timers_settle (w\<lparr>w_ran := r\<rparr>) = timers_settle w" "timers_settle (w\<lparr>w_now := n\<rparr>) = timers_settle w"
  "timers_settle (w\<lparr>w_fired := f\<rparr>) = timers_settle w" "timers_settle (w\<lparr>w_callbacks := b\<rparr>) = timers_settle w"
  by (simp_all add: timers_settle_def)

lemma schedule_settles: "timers_settle w \<Longrightarrow> timers_settle (schedule_watch i w)"
  by (auto simp: timers_settle_def schedule_watch_def nth_list_update)

lemma schedules_settle: "timers_settle w \<Longrightarrow> timers_settle (fold schedule_watch is w)"
  by (induction "is" arbitrary: w) (simp_all add: schedule_settles)

lemma reload_settles: "timers_settle (reload E v w) = timers_settle w"
  by (simp add: reload_def split: sum.split)

lemma watch_step_settles: "watch_step E w w' \<Longrightarrow> timers_settle w \<Longrightarrow> timers_settle w'"
proof (induction rule: watch_step.induct)
  case (ws_event w v ev)
  then show ?case by (simp add: handle_event_def Let_def reload_settles schedules_settle)
next
  case (ws_watch_file w path add)
  then show ?case
    by (auto simp: watch_file_def Let_def timers_settle_def nth_append less_Suc_eq split: option.split)
next
  case (ws_timer i w d)
  then show ?case by (auto simp: fire_timer_def timers_settle_def nth_list_update)
next
  case (ws_stop w)
  then show ?case by (auto simp: stop_watcher_def timers_settle_def split: option.splits)
qed (simp_all add: on_change_def on_sighup_def reload_files_def run_callback_def reload_settles)

lemma watch_reach_settles: "watch_reach E w \<Longrightarrow> timers_settle w"
proof (induction rule: watch_reach.induct)
  case (wr_new path now v w)
  then show ?case by (auto simp: new_watcher_def timers_settle_def split: sum.splits)
qed (rule watch_step_settles)


lemma settled_watcher:
  "\<exists>w. watch_reach plain_env w \<and> w_files w = [\<lparr>fw_path = ''/etc/cert.pem'', fw_name = ''cert.pem'', fw_timer = Some (Some fileSettleDelay)\<rparr>]
     \<and> w_now w = fileSettleDelay"
proof -
  let ?v = "\<lparr>va_read = None, va_missing = False, va_unmarshal = Inr config_defaults\<rparr>"
  obtain w0 where w0: "new_watcher plain_env ''conf'' 0 ?v = Inr w0" "w_files w0 = []" "w_now w0 = 0" "w_path w0 = ''conf''"
    by (simp add: new_watcher_def load_from_file_def build_config_def plain_accepted)
  let ?w1 = "snd (watch_file ''/etc/cert.pem'' None w0)"
  have p: "path_clean ''/etc/cert.pem'' = ''/etc/cert.pem''" "path_base ''/etc/cert.pem'' = ''cert.pem''" "path_clean ''conf'' = ''conf''"
    by code_simp+
  have w1: "w_files ?w1 = [\<lparr>fw_path = ''/etc/cert.pem'', fw_name = ''cert.pem'', fw_timer = None\<rparr>]" "w_now ?w1 = 0" "w_path ?w1 = ''conf''"
    by (simp_all add: watch_file_def p w0 Let_def)
  let ?ev = "\<lparr>fe_name = ''/etc/cert.pem'', fe_write = True, fe_create = False, fe_rename = False\<rparr>"
  let ?w2 = "handle_event plain_env ?v ?ev ?w1"
  have "matching ''/etc/cert.pem'' ?w1 = [0]" by (simp add: matching_def w1 p)
  then have "?w2 = schedule_watch 0 ?w1" by (simp add: handle_event_def p w1)
  then have w2: "w_files ?w2 = [\<lparr>fw_path = ''/etc/cert.pem'', fw_name = ''cert.pem'', fw_timer = Some (Some fileSettleDelay)\<rparr>]" "w_now ?w2 = 0"
    by (simp_all add: schedule_watch_def w1)
  have "watch_reach plain_env w0" using w0(1) by (rule wr_new)
  then have "watch_reach plain_env ?w1" using ws_watch_file by (rule wr_step)
  then have "watch_reach plain_env ?w2" using ws_event by (rule wr_step)
  moreover have "watch_step plain_env ?w2 (?w2\<lparr>w_now := fileSettleDelay\<rparr>)"
    using w2(2) by (intro ws_time) (simp add: fileSettleDelay_def)
  ultimately have "watch_reach plain_env (?w2\<lparr>w_now := fileSettleDelay\<rparr>)" by (rule wr_step)
  moreover have "w_files (?w2\<lparr>w_now := fileSettleDelay\<rparr>) = w_files ?w2" "w_now (?w2\<lparr>w_now := fileSettleDelay\<rparr>) = fileSettleDelay"
    by simp_all
  ultimately show ?thesis using w2(1) by (metis (no_types))
qed


section \<open>The order of callbacks\<close>

text \<open>
  The callbacks of two reloads run on goroutines of their own and in any order: a configuration can
  be applied last although a newer one has been loaded, reported by \<open>Config\<close> and applied before it, with
  no callback left to put it right.
\<close>

lemma stale_config_can_win:
  "\<exists>w. watch_reach plain_env w \<and> w_pending w = [] \<and> \<not> w_stopped w
     \<and> w_current w = exposed_config \<and> w_ran w = [(0, exposed_config), (0, config_defaults)]"
proof -
  let ?v = "\<lambda>c. \<lparr>va_read = None, va_missing = False, va_unmarshal = Inr c\<rparr>"
  let ?w0 = "\<lparr>w_path = ''conf'', w_callbacks = 0, w_files = [], w_dirs = [], w_current = config_defaults, w_stopped = False,
    w_now = 0, w_pending = [], w_ran = [], w_seen = (\<lambda>_. None), w_fired = []\<rparr>"
  have l: "load_from_file plain_env p (?v config_defaults) = Inr config_defaults" "load_from_file plain_env p (?v exposed_config) = Inr exposed_config" for p
    by (simp_all add: load_from_file_def build_config_def plain_accepted exposed_accepted)
  let ?w1 = "?w0\<lparr>w_callbacks := 1\<rparr>" and ?w2 = "?w0\<lparr>w_callbacks := 1, w_pending := [(0, config_defaults)]\<rparr>"
  let ?w3 = "?w0\<lparr>w_callbacks := 1, w_current := exposed_config, w_pending := [(0, config_defaults), (0, exposed_config)]\<rparr>"
  let ?w4 = "?w3\<lparr>w_pending := [(0, config_defaults)], w_ran := [(0, exposed_config)]\<rparr>"
  let ?w5 = "?w3\<lparr>w_pending := [], w_ran := [(0, exposed_config), (0, config_defaults)]\<rparr>"
  have one: "[0..<1] = [0 :: nat]" by simp
  have "new_watcher plain_env ''conf'' 0 (?v config_defaults) = Inr ?w0" by (simp add: new_watcher_def l)
  then have "watch_reach plain_env ?w0" by (rule wr_new)
  moreover have "on_change ?w0 = ?w1" by (simp add: on_change_def)
  ultimately have "watch_reach plain_env ?w1" by (metis wr_step ws_on_change)
  moreover have "on_sighup plain_env (?v config_defaults) ?w1 = ?w2" by (simp add: on_sighup_def reload_files_def reload_def l one)
  ultimately have "watch_reach plain_env ?w2" by (metis wr_step ws_sighup)
  moreover have "on_sighup plain_env (?v exposed_config) ?w2 = ?w3" by (simp add: on_sighup_def reload_files_def reload_def l one)
  ultimately have r3: "watch_reach plain_env ?w3" by (metis wr_step ws_sighup)
  have "run_callback 1 ?w3 = ?w4" "run_callback 0 ?w4 = ?w5" by (simp_all add: run_callback_def)
  then have s: "watch_step plain_env ?w3 ?w4" "watch_step plain_env ?w4 ?w5"
    using ws_callback [of 1 ?w3 plain_env] ws_callback [of 0 ?w4 plain_env] by simp_all
  have "watch_reach plain_env ?w5" using r3 s by (blast intro: wr_step)
  then show ?thesis by (rule_tac x = ?w5 in exI) simp
qed

end
