(* ===== verification/Daemon.thy ===== *)
theory Daemon
  imports Boot_Spec Certificates Watch_Spec
begin

text \<open>
  \<open>run\<close> of \<open>cmd/atlascache/main.go\<close>: the life of the process, from its configuration to its exit code, as
  the list of what it does to the rest of the system. What the outside world does (the file it loads,
  the ports it binds, why it ends, whether the drain is clean) is the record \<open>outside\<close>; the functions
  deferred on the way run last in first. Logging and the version flag are left out.
\<close>

datatype action =
  AdminBound | AdminServing | AdminDown
| EngineBuilt | EngineClosed
| SamplerStarted | SamplerStopped
| ClientBound | StatsWired | ClientServing | ClientDrained
| WheelStarted | WheelStopped
| WatcherStarted | WatcherStopped
| Ready bool

datatype ending = Signalled | ServeReturned "bytes option"

record 'c outside =
  o_stat :: "bytes option"
  o_used :: bytes
  o_viper :: viper_answer
  o_certs :: "'c cert_env"
  o_certFiles :: files
  o_adminBind :: "bytes option"
  o_clientBind :: "bytes option"
  o_watch :: viper_answer
  o_watchStarts :: bool
  o_wheelStarts :: bool
  o_ending :: ending
  o_drained :: bool
  o_wheelStopped :: bool
  o_adminStopped :: bool

text \<open>\<open>core.start\<close>: the wheel runs unless the configuration or a manager that will not start is against it.\<close>

definition core_start :: "bool \<Rightarrow> core \<Rightarrow> action list" where
  "core_start starts k = (if co_active k \<and> starts then [WheelStarted] else [])"

text \<open>\<open>watchConfig\<close> answers a watcher only when there is a file, it loads again, and the watch starts.\<close>

definition watch_config :: "config_env \<Rightarrow> bytes \<Rightarrow> viper_answer \<Rightarrow> bool \<Rightarrow> bool" where
  "watch_config E path v starts \<longleftrightarrow>
     path \<noteq> [] \<and> (case new_watcher E path 0 v of Inl _ \<Rightarrow> False | Inr _ \<Rightarrow> starts)"

text \<open>\<open>shutdown\<close>: the clients drain first and the admin listener closes last.\<close>

definition shutdown_actions :: "action list" where
  "shutdown_actions = [ClientDrained, WheelStopped, AdminDown]"

definition shutdown_ok :: "'c outside \<Rightarrow> bool" where
  "shutdown_ok out \<longleftrightarrow> o_drained out \<and> o_wheelStopped out \<and> o_adminStopped out"

definition exit_code :: "'c outside \<Rightarrow> int" where
  "exit_code out =
     (let code = (case o_ending out of Signalled \<Rightarrow> 0 | ServeReturned None \<Rightarrow> 0 | ServeReturned (Some _) \<Rightarrow> 1)
      in if \<not> shutdown_ok out then 1 else code)"

text \<open>From the moment the engine is up: every return closes it and, before that, stops the sampler.\<close>

definition run_core :: "config_env \<Rightarrow> 'c outside \<Rightarrow> bytes \<Rightarrow> config \<Rightarrow> core \<Rightarrow> int \<times> action list" where
  "run_core E out configFile c k =
     (case conn_limits_of E c of
        Inl _ \<Rightarrow> (1, [SamplerStarted, AdminDown, SamplerStopped, EngineClosed])
      | Inr _ \<Rightarrow>
          (case o_clientBind out of
             Some _ \<Rightarrow> (1, [SamplerStarted, AdminDown, SamplerStopped, EngineClosed])
           | None \<Rightarrow>
               (let watching = watch_config E configFile (o_watch out) (o_watchStarts out)
                in (exit_code out,
                    [SamplerStarted, ClientBound, StatsWired] @ core_start (o_wheelStarts out) k
                    @ (if watching then [WatcherStarted] else [])
                    @ [ClientServing, Ready True, Ready False] @ shutdown_actions
                    @ (if watching then [WatcherStopped] else [])
                    @ [SamplerStopped, EngineClosed]))))"

definition run_daemon ::
    "config_env \<Rightarrow> (nat \<Rightarrow> nat \<Rightarrow> picks) \<Rightarrow> int \<Rightarrow> int \<Rightarrow> int \<Rightarrow> 'c outside \<Rightarrow> bytes \<Rightarrow> int \<times> action list" where
  "run_daemon E pk cpus mclk wall out configPath =
     (case load_config E (o_stat out) (o_used out) configPath (o_viper out) of
        Inl _ \<Rightarrow> (1, [])
      | Inr (c, configFile) \<Rightarrow>
          (case new_security (o_certs out) (o_certFiles out) c of
             Inl _ \<Rightarrow> (1, [])
           | Inr _ \<Rightarrow>
               (case o_adminBind out of
                  Some _ \<Rightarrow> (1, [])
                | None \<Rightarrow>
                    (case new_core E pk cpus mclk wall c of
                       Inl _ \<Rightarrow> (1, [AdminBound, AdminServing, AdminDown])
                     | Inr k \<Rightarrow>
                         (case run_core E out configFile c k of
                            (code, acts) \<Rightarrow> (code, [AdminBound, AdminServing, EngineBuilt] @ acts))))))"

section \<open>An orderly life\<close>

text \<open>\<open>b\<close> never happens before \<open>a\<close>, and follows it if it happened.\<close>

definition closed_by :: "action list \<Rightarrow> action \<Rightarrow> action \<Rightarrow> bool" where
  "closed_by acts a b \<longleftrightarrow> (b \<in> set acts \<longleftrightarrow> a \<in> set acts) \<and> (a \<in> set acts \<longrightarrow> b \<in> set (tl (dropWhile (\<lambda>x. x \<noteq> a) acts)))"

lemma load_config_accepted:
  "load_config E stat used path v = Inr (c, f) \<Longrightarrow> validate_config E c = None"
  by (auto simp: load_config_def load_from_file_def load_default_def build_config_def
      split: if_splits option.splits sum.splits)

lemma accepted_limits_some: "validate_config E c = None \<Longrightarrow> \<exists>l. conn_limits_of E c = Inr l"
  by (metis accepted_limits accepted_sizes)

text \<open>
  C36. Whatever the outside world does, the process leaves nothing behind: it exits with 0 or 1, every
  listener, engine, sampler, watcher it brought up is taken down after, and so it is with being ready;
  clients are served before the node calls itself ready, it stops doing so before the drain, the drain
  comes before the wheel stops, then the admin listener closes, and only then the engine. A loaded
  configuration with an ASCII policy name gets as far as the client's port, and 0 is the code of a
  process that became ready, ended on a signal or on a server that returned no error, and drained.
\<close>

theorem daemon_orderly:
  assumes "run_daemon E pk cpus mclk wall out path = (code, acts)"
  shows "code \<in> {0, 1}
    \<and> closed_by acts AdminServing AdminDown \<and> closed_by acts EngineBuilt EngineClosed
    \<and> closed_by acts SamplerStarted SamplerStopped \<and> closed_by acts WatcherStarted WatcherStopped
    \<and> closed_by acts (Ready True) (Ready False) \<and> closed_by acts ClientServing ClientDrained
    \<and> (Ready True \<in> set acts \<longrightarrow>
        filter (\<lambda>a. a \<in> {ClientServing, Ready True, Ready False, ClientDrained, WheelStopped, AdminDown, EngineClosed}) acts
          = [ClientServing, Ready True, Ready False, ClientDrained, WheelStopped, AdminDown, EngineClosed])
    \<and> (\<forall>c f. load_config E (o_stat out) (o_used out) path (o_viper out) = Inr (c, f) \<and> is_ascii (ev_Policy (cf_Eviction c))
          \<and> AdminServing \<in> set acts \<and> o_clientBind out = None \<longrightarrow> Ready True \<in> set acts)
    \<and> (code = 0 \<longleftrightarrow> Ready True \<in> set acts \<and> shutdown_ok out \<and> o_ending out \<in> {Signalled, ServeReturned None})"
proof (cases "load_config E (o_stat out) (o_used out) path (o_viper out)")
  case (Inl e)
  then show ?thesis using assms by (auto simp: run_daemon_def closed_by_def)
next
  case (Inr cf)
  obtain c f where cf: "cf = (c, f)" by (metis surj_pair)
  have a: "validate_config E c = None" using Inr cf load_config_accepted by blast
  obtain l where l: "conn_limits_of E c = Inr l" using accepted_limits_some [OF a] by blast
  note r = assms [unfolded run_daemon_def Inr cf, simplified]
  consider (early) "(code, acts) = (1, [])"
    | (core) e where "new_core E pk cpus mclk wall c = Inl e" "(code, acts) = (1, [AdminBound, AdminServing, AdminDown])"
    | (up) k where "new_core E pk cpus mclk wall c = Inr k"
        "(code, acts) = (fst (run_core E out f c k), [AdminBound, AdminServing, EngineBuilt] @ snd (run_core E out f c k))"
    using r by (auto split: sum.splits option.splits prod.splits)
  then show ?thesis
  proof cases
    case early
    then show ?thesis using Inr by (auto simp: closed_by_def)
  next
    case core
    have "\<not> is_ascii (ev_Policy (cf_Eviction c))"
      using booted [OF a, of pk cpus mclk wall] core(1) by fastforce
    then show ?thesis using core(2) Inr cf by (auto simp: closed_by_def)
  next
    case up
    show ?thesis
    proof (cases "o_clientBind out")
      case None
      let ?b = "watch_config E f (o_watch out) (o_watchStarts out)"
      have acts: "code = exit_code out" "acts = [AdminBound, AdminServing, EngineBuilt, SamplerStarted, ClientBound, StatsWired]
          @ core_start (o_wheelStarts out) k @ (if ?b then [WatcherStarted] else []) @ [ClientServing, Ready True, Ready False]
          @ [ClientDrained, WheelStopped, AdminDown] @ (if ?b then [WatcherStopped] else []) @ [SamplerStopped, EngineClosed]"
        using up(2) None by (simp_all add: run_core_def l Let_def shutdown_actions_def)
      have code: "code \<in> {0, 1}" "code = 0 \<longleftrightarrow> shutdown_ok out \<and> o_ending out \<in> {Signalled, ServeReturned None}"
        by (auto simp: acts(1) exit_code_def Let_def split: ending.splits option.splits)
      have w: "core_start (o_wheelStarts out) k = [] \<or> core_start (o_wheelStarts out) k = [WheelStarted]" by (simp add: core_start_def)
      show ?thesis
        using code w unfolding acts(2) by (auto simp: closed_by_def)
    next
      case (Some e)
      then show ?thesis using up(2) by (auto simp: run_core_def l closed_by_def)
    qed
  qed
qed

text \<open>A day on which nothing fails.\<close>

definition calm_day :: "unit outside" where
  "calm_day =
     \<lparr>o_stat = None, o_used = [], o_viper = \<lparr>va_read = None, va_missing = False, va_unmarshal = Inr config_defaults\<rparr>,
      o_certs = \<lparr>ce_pair = \<lambda>_ _. Inr (), ce_hasLeaf = \<lambda>_. True, ce_parse = Inr, ce_notAfter = \<lambda>_. 0\<rparr>,
      o_certFiles = \<lambda>_. Inl ''no such file'', o_adminBind = None, o_clientBind = None,
      o_watch = \<lparr>va_read = None, va_missing = False, va_unmarshal = Inr config_defaults\<rparr>, o_watchStarts = True,
      o_wheelStarts = True, o_ending = Signalled, o_drained = True, o_wheelStopped = True, o_adminStopped = True\<rparr>"

lemma daemon_orderly_witness:
  "\<exists>acts. run_daemon plain_env (\<lambda>_ _. \<lparr>pk_order = id, pk_key_clock = \<lambda>_. 0, pk_ties = id, pk_clock = 0\<rparr>) 4 0 0 calm_day ''conf'' = (0, acts)
     \<and> Ready True \<in> set acts"
proof -
  obtain code acts where r: "run_daemon plain_env (\<lambda>_ _. \<lparr>pk_order = id, pk_key_clock = \<lambda>_. 0, pk_ties = id, pk_clock = 0\<rparr>) 4 0 0
      calm_day ''conf'' = (code, acts)" by (metis surj_pair)
  have l: "load_config plain_env (o_stat calm_day) (o_used calm_day) ''conf'' (o_viper calm_day) = Inr (config_defaults, ''conf'')"
    by (simp add: load_config_def load_from_file_def build_config_def calm_day_def plain_accepted)
  have "new_security (o_certs calm_day) (o_certFiles calm_day) config_defaults = Inr None"
    by (simp add: new_security_def config_defaults_def)
  moreover have "o_adminBind calm_day = None" by (simp add: calm_day_def)
  ultimately have "AdminServing \<in> set acts"
    using r by (auto simp: run_daemon_def l split: sum.splits prod.splits)
  then have "Ready True \<in> set acts"
    using daemon_orderly [OF r] l plain_defaults(1) by (simp add: calm_day_def)
  then have "code = 0" using daemon_orderly [OF r] by (simp add: calm_day_def shutdown_ok_def)
  then show ?thesis using r \<open>Ready True \<in> set acts\<close> by auto
qed

end
