(* ===== verification/Go_Flags.thy ===== *)
theory Go_Flags
  imports Prelude "HOL-Library.AList"
begin

text \<open>
  What \<open>cmd/atlasctl\<close> uses of the standard library's \<open>flag\<close>: a flag set with its values, and \<open>Parse\<close>, which
  takes flags off the front of a line until a word that is not one. Reading a duration, an integer
  and quoting are arguments.
\<close>

record flag_env =
  fx_duration :: "bytes \<Rightarrow> int option"
  fx_int :: "bytes \<Rightarrow> bytes + int"
  fx_quote :: "bytes \<Rightarrow> bytes"

datatype flag_value = FlagString bytes | FlagBool bool | FlagDuration int | FlagInt int

type_synonym flag_set = "(bytes \<times> flag_value) list"

datatype flag_error = FlagHelp | FlagFail bytes

text \<open>\<open>strconv.ParseBool\<close>.\<close>

definition parse_bool :: "bytes \<Rightarrow> bool option" where
  "parse_bool s =
     (if s \<in> {''1'', ''t'', ''T'', ''true'', ''TRUE'', ''True''} then Some True
      else if s \<in> {''0'', ''f'', ''F'', ''false'', ''FALSE'', ''False''} then Some False else None)"

fun set_flag :: "flag_env \<Rightarrow> flag_value \<Rightarrow> bytes \<Rightarrow> bytes + flag_value" where
  "set_flag X (FlagString _) s = Inr (FlagString s)"
| "set_flag X (FlagBool _) s = (case parse_bool s of None \<Rightarrow> Inl ''parse error'' | Some b \<Rightarrow> Inr (FlagBool b))"
| "set_flag X (FlagDuration _) s = (case fx_duration X s of None \<Rightarrow> Inl ''parse error'' | Some d \<Rightarrow> Inr (FlagDuration d))"
| "set_flag X (FlagInt _) s = map_sum id FlagInt (fx_int X s)"

fun is_bool_value :: "flag_value \<Rightarrow> bool" where
  "is_bool_value (FlagBool _) = True"
| "is_bool_value _ = False"

text \<open>\<open>strings.Cut\<close> at the equals sign.\<close>

definition cut_equals :: "bytes \<Rightarrow> bytes \<times> bytes \<times> bool" where
  "cut_equals s =
     (let name = takeWhile (\<lambda>c. c \<noteq> CHR ''='') s in (name, drop (Suc (length name)) s, CHR ''='' \<in> set s))"

definition flag_like :: "bytes \<Rightarrow> bool" where
  "flag_like s \<longleftrightarrow> 2 \<le> length s \<and> hd s = CHR ''-''"

text \<open>The words after a flag \<open>name\<close>, with the value that came with it if one did.\<close>

definition apply_flag :: "flag_env \<Rightarrow> flag_set \<Rightarrow> bytes \<Rightarrow> bytes option \<Rightarrow> bytes list \<Rightarrow> flag_error + flag_set \<times> bytes list" where
  "apply_flag X fs name inline rest =
     (case map_of fs name of
        None \<Rightarrow> Inl (if name = ''help'' \<or> name = ''h'' then FlagHelp else FlagFail (''flag provided but not defined: -'' @ name))
      | Some fl \<Rightarrow>
          if is_bool_value fl then
            (let s = (case inline of None \<Rightarrow> ''true'' | Some s \<Rightarrow> s)
             in case set_flag X fl s of
                  Inl e \<Rightarrow> Inl (FlagFail (''invalid boolean value '' @ fx_quote X s @ '' for -'' @ name @ '': '' @ e))
                | Inr v \<Rightarrow> Inr (AList.update name v fs, rest))
          else
            (case (case inline of Some s \<Rightarrow> Some (s, rest) | None \<Rightarrow> (case rest of [] \<Rightarrow> None | s # rest' \<Rightarrow> Some (s, rest'))) of
               None \<Rightarrow> Inl (FlagFail (''flag needs an argument: -'' @ name))
             | Some (s, rest') \<Rightarrow>
                 (case set_flag X fl s of
                    Inl e \<Rightarrow> Inl (FlagFail (''invalid value '' @ fx_quote X s @ '' for flag -'' @ name @ '': '' @ e))
                  | Inr v \<Rightarrow> Inr (AList.update name v fs, rest'))))"

text \<open>\<open>parseOne\<close> on a line that is not empty.\<close>

datatype parsed = Bad flag_error | Stop "bytes list" | Seen flag_set "bytes list"

definition parse_one :: "flag_env \<Rightarrow> flag_set \<Rightarrow> bytes \<Rightarrow> bytes list \<Rightarrow> parsed" where
  "parse_one X fs s rest =
     (if \<not> flag_like s then Stop (s # rest)
      else if s = ''--'' then Stop rest
      else let name = drop (if s ! 1 = CHR ''-'' then 2 else 1) s
           in if name = [] \<or> hd name = CHR ''-'' \<or> hd name = CHR ''='' then Bad (FlagFail (''bad flag syntax: '' @ s))
              else case cut_equals name of
                     (n, v, has) \<Rightarrow>
                       (case apply_flag X fs n (if has then Some v else None) rest of
                          Inl e \<Rightarrow> Bad e
                        | Inr (fs', rest') \<Rightarrow> Seen fs' rest'))"

lemma apply_flag_shrinks: "apply_flag X fs n inline rest = Inr (fs', rest') \<Longrightarrow> length rest' \<le> length rest"
  by (auto simp: apply_flag_def Let_def split: option.splits if_splits sum.splits list.splits)

lemma parse_one_shrinks: "parse_one X fs s rest = Seen fs' rest' \<Longrightarrow> length rest' \<le> length rest"
  by (auto simp: parse_one_def Let_def split: if_split_asm prod.split_asm sum.split_asm dest: apply_flag_shrinks)

function parse_flags :: "flag_env \<Rightarrow> flag_set \<Rightarrow> bytes list \<Rightarrow> flag_error + flag_set \<times> bytes list" where
  "parse_flags X fs [] = Inr (fs, [])"
| "parse_flags X fs (s # rest) =
     (case parse_one X fs s rest of
        Bad e \<Rightarrow> Inl e
      | Stop operands \<Rightarrow> Inr (fs, operands)
      | Seen fs' rest' \<Rightarrow> parse_flags X fs' rest')"
  by pat_completeness auto
termination
  by (relation "measure (\<lambda>(X, fs, args). length args)") (auto dest: parse_one_shrinks simp: less_Suc_eq_le)

end
