(* ===== verification/Ctl_Args.thy ===== *)
theory Ctl_Args
  imports Go_Flags
begin

text \<open>
  The command line of \<open>cmd/atlasctl\<close> (\<open>cli.go\<close>): which word is the command, which words are flags and
  which are operands, wherever they stand on the line.
\<close>

section \<open>The global flags\<close>

definition defaultAddr :: bytes where "defaultAddr = ''127.0.0.1:6379''"
definition defaultTimeout :: int where "defaultTimeout = 5 * 1000000000"
definition envAuth :: bytes where "envAuth = ''ATLASCACHE_AUTH''"
definition nameHelp :: bytes where "nameHelp = ''help''"
definition nameVersion :: bytes where "nameVersion = ''version''"
definition flagJSON :: bytes where "flagJSON = ''--json''"

definition global_flags :: flag_set where
  "global_flags =
     [(''addr'', FlagString defaultAddr), (''auth'', FlagString []), (''tls'', FlagBool False), (''tls-ca'', FlagString []),
      (''json'', FlagBool False), (''timeout'', FlagDuration defaultTimeout)]"

record globals =
  g_addr :: bytes
  g_auth :: bytes
  g_useTLS :: bool
  g_tlsCA :: bytes
  g_asJSON :: bool
  g_timeout :: int

text \<open>The variables the flags are bound to, read back from the flag set.\<close>

fun flag_text :: "flag_value option \<Rightarrow> bytes" where
  "flag_text (Some (FlagString s)) = s"
| "flag_text _ = []"

fun flag_bool :: "flag_value option \<Rightarrow> bool" where
  "flag_bool (Some (FlagBool b)) = b"
| "flag_bool _ = False"

fun flag_int :: "flag_value option \<Rightarrow> int" where
  "flag_int (Some (FlagDuration d)) = d"
| "flag_int (Some (FlagInt n)) = n"
| "flag_int _ = 0"

definition globals_of :: "flag_set \<Rightarrow> globals" where
  "globals_of fs =
     \<lparr>g_addr = flag_text (map_of fs ''addr''), g_auth = flag_text (map_of fs ''auth''), g_useTLS = flag_bool (map_of fs ''tls''),
      g_tlsCA = flag_text (map_of fs ''tls-ca''), g_asJSON = flag_bool (map_of fs ''json''), g_timeout = flag_int (map_of fs ''timeout'')\<rparr>"

section \<open>Finding the command\<close>

definition cut_flag_name :: "bytes \<Rightarrow> bytes \<times> bool" where
  "cut_flag_name arg = (case cut_equals (dropWhile (\<lambda>c. c = CHR ''-'') arg) of (name, _, has) \<Rightarrow> (name, has))"

fun split_command_loop :: "bytes list \<Rightarrow> bytes list \<Rightarrow> bytes list \<times> bytes \<times> bytes list" where
  "split_command_loop before [] = (before, [], [])"
| "split_command_loop before (arg # rest) =
     (if arg = ''--'' then (case rest of [] \<Rightarrow> (before, [], []) | name # rest' \<Rightarrow> (before, name, rest'))
      else if flag_like arg then
        (case cut_flag_name arg of
           (name, has) \<Rightarrow>
             (case map_of global_flags name of
                None \<Rightarrow> split_command_loop (before @ [arg]) rest
              | Some v \<Rightarrow>
                  if \<not> has \<and> \<not> is_bool_value v then
                    (case rest of [] \<Rightarrow> split_command_loop (before @ [arg]) rest | x # rest' \<Rightarrow> split_command_loop (before @ [arg, x]) rest')
                  else split_command_loop (before @ [arg]) rest))
      else (before, arg, rest))"

definition split_command :: "bytes list \<Rightarrow> bytes list \<times> bytes \<times> bytes list" where
  "split_command args = split_command_loop [] args"

definition contains :: "bytes list \<Rightarrow> bytes list \<Rightarrow> bool" where
  "contains args wanted \<longleftrightarrow> (\<exists>arg \<in> set args. arg \<in> set wanted)"

fun wants_json :: "bytes list \<Rightarrow> bool" where
  "wants_json [] = False"
| "wants_json (arg # rest) =
     (if arg = ''--'' then False
      else if arg \<in> {flagJSON, ''-json'', flagJSON @ ''=true'', ''-json=true''} then True
      else wants_json rest)"

section \<open>Flags before operands\<close>

fun permute_loop :: "flag_set \<Rightarrow> bytes list \<Rightarrow> bytes list \<Rightarrow> bytes list \<Rightarrow> bytes list" where
  "permute_loop fs flags operands [] = flags @ operands"
| "permute_loop fs flags operands (arg # rest) =
     (if arg = ''--'' then flags @ operands @ rest
      else if \<not> flag_like arg then permute_loop fs flags (operands @ [arg]) rest
      else
        (case cut_flag_name arg of
           (name, has) \<Rightarrow>
             (case map_of fs name of
                None \<Rightarrow> permute_loop fs (flags @ [arg]) operands rest
              | Some v \<Rightarrow>
                  if has \<or> is_bool_value v then permute_loop fs (flags @ [arg]) operands rest
                  else
                    (case rest of
                       [] \<Rightarrow> permute_loop fs (flags @ [arg]) operands rest
                     | x # rest' \<Rightarrow> permute_loop fs (flags @ [arg, x]) operands rest'))))"

definition permute :: "flag_set \<Rightarrow> bytes list \<Rightarrow> bytes list" where
  "permute fs args = permute_loop fs [] [] args"

section \<open>A line word by word\<close>

text \<open>What a word, or two, of a line can be: an operand, a flag without its value, with it after an equals
  sign, or with it in the next word. A flag has one dash or two.\<close>

datatype item = Operand bytes | Bare bytes bytes | Inline bytes bytes bytes | Pair bytes bytes bytes

fun item_words :: "item \<Rightarrow> bytes list" where
  "item_words (Operand w) = [w]"
| "item_words (Bare d f) = [d @ f]"
| "item_words (Inline d f v) = [d @ f @ ''='' @ v]"
| "item_words (Pair d f v) = [d @ f, v]"

fun item_operands :: "item \<Rightarrow> bytes list" where
  "item_operands (Operand w) = [w]"
| "item_operands _ = []"

definition flag_name :: "bytes \<Rightarrow> bytes \<Rightarrow> bool" where
  "flag_name d f \<longleftrightarrow> d \<in> {''-'', ''--''} \<and> f \<noteq> [] \<and> hd f \<noteq> CHR ''-'' \<and> CHR ''='' \<notin> set f"

definition takes :: "flag_env \<Rightarrow> flag_set \<Rightarrow> bytes \<Rightarrow> bytes \<Rightarrow> bool" where
  "takes X fs f v \<longleftrightarrow> (case map_of fs f of None \<Rightarrow> False | Some fl \<Rightarrow> (case set_flag X fl v of Inl _ \<Rightarrow> False | Inr _ \<Rightarrow> True))"

fun item_ok :: "flag_env \<Rightarrow> flag_set \<Rightarrow> item \<Rightarrow> bool" where
  "item_ok X fs (Operand w) = (\<not> flag_like w)"
| "item_ok X fs (Bare d f) = (flag_name d f \<and> (\<exists>b. map_of fs f = Some (FlagBool b)))"
| "item_ok X fs (Inline d f v) = (flag_name d f \<and> takes X fs f v)"
| "item_ok X fs (Pair d f v) = (flag_name d f \<and> takes X fs f v \<and> \<not> is_bool_value (the (map_of fs f)))"

definition put_flag :: "flag_env \<Rightarrow> bytes \<Rightarrow> bytes \<Rightarrow> flag_set \<Rightarrow> flag_set" where
  "put_flag X f v fs = AList.update f (projr (set_flag X (the (map_of fs f)) v)) fs"

fun item_set :: "flag_env \<Rightarrow> item \<Rightarrow> flag_set \<Rightarrow> flag_set" where
  "item_set X (Operand w) fs = fs"
| "item_set X (Bare d f) fs = put_flag X f ''true'' fs"
| "item_set X (Inline d f v) fs = put_flag X f v fs"
| "item_set X (Pair d f v) fs = put_flag X f v fs"

end
