(* ===== verification/Ctl_Output.thy ===== *)
theory Ctl_Output
  imports Client_Errors Go_Lib
begin

text \<open>
  What \<open>cmd/atlasctl\<close> prints and exits with (\<open>output.go\<close>, \<open>errors.go\<close>): text or one JSON object on stdout, a
  line on stderr, an exit code. The JSON object is the \<open>envelope\<close> given to the encoder; \<open>strconv.Quote\<close>
  is an argument. A write to stdout that fails is taken to have written nothing.
\<close>

section \<open>Bytes as text\<close>

definition byte_val :: "char \<Rightarrow> nat" where "byte_val c = of_char c"

abbreviation cont_byte :: "char \<Rightarrow> bool" where "cont_byte c \<equiv> 128 \<le> byte_val c \<and> byte_val c < 192"

text \<open>\<open>utf8.Valid\<close>.\<close>

fun utf8_valid :: "bytes \<Rightarrow> bool" where
  "utf8_valid [] = True"
| "utf8_valid (a # s) =
     (if byte_val a < 128 then utf8_valid s
      else if byte_val a < 194 then False
      else if byte_val a < 224 then
        (case s of b # s' \<Rightarrow> if cont_byte b then utf8_valid s' else False | _ \<Rightarrow> False)
      else if byte_val a < 240 then
        (case s of
           b # c # s' \<Rightarrow>
             if (if byte_val a = 224 then 160 else 128) \<le> byte_val b \<and> byte_val b < (if byte_val a = 237 then 160 else 192) \<and> cont_byte c
             then utf8_valid s' else False
         | _ \<Rightarrow> False)
      else if byte_val a < 245 then
        (case s of
           b # c # d # s' \<Rightarrow>
             if (if byte_val a = 240 then 144 else 128) \<le> byte_val b \<and> byte_val b < (if byte_val a = 244 then 144 else 192) \<and> cont_byte c \<and> cont_byte d
             then utf8_valid s' else False
         | _ \<Rightarrow> False)
      else False)"

text \<open>The runes below 128 of valid text are its bytes below 128.\<close>

definition needs_escaping :: "bytes \<Rightarrow> bool" where
  "needs_escaping b \<longleftrightarrow>
     \<not> utf8_valid b \<or> list_ex (\<lambda>r. byte_val r \<notin> {10, 9, 13} \<and> (byte_val r < 32 \<or> byte_val r = 127)) b"

definition b64_char :: "nat \<Rightarrow> char" where
  "b64_char n =
     (if n < 26 then char_of (65 + n) else if n < 52 then char_of (71 + n) else if n < 62 then char_of (n - 4)
      else if n = 62 then CHR ''+'' else CHR ''/'')"

text \<open>\<open>base64.StdEncoding.EncodeToString\<close>.\<close>

fun base64 :: "bytes \<Rightarrow> bytes" where
  "base64 [] = []"
| "base64 [a] = [b64_char (byte_val a div 4), b64_char (byte_val a mod 4 * 16), CHR ''='', CHR ''='']"
| "base64 [a, b] =
     [b64_char (byte_val a div 4), b64_char (byte_val a mod 4 * 16 + byte_val b div 16), b64_char (byte_val b mod 16 * 4), CHR ''='']"
| "base64 (a # b # c # s) =
     [b64_char (byte_val a div 4), b64_char (byte_val a mod 4 * 16 + byte_val b div 16), b64_char (byte_val b mod 16 * 4 + byte_val c div 64),
      b64_char (byte_val c mod 64)] @ base64 s"

definition encodingUTF8 :: bytes where "encodingUTF8 = ''utf8''"
definition encodingBase64 :: bytes where "encodingBase64 = ''base64''"

definition encode_value :: "bytes \<Rightarrow> bytes \<times> bytes" where
  "encode_value b = (if utf8_valid b then (b, encodingUTF8) else (base64 b, encodingBase64))"

definition encode_keys :: "bytes list \<Rightarrow> bytes list \<times> bytes" where
  "encode_keys keys =
     (let encoding = (if list_ex (\<lambda>k. \<not> utf8_valid k) keys then encodingBase64 else encodingUTF8)
      in if encoding = encodingUTF8 then (keys, encodingUTF8) else (map base64 keys, encodingBase64))"

section \<open>Errors\<close>

definition exitOK :: int where "exitOK = 0"
definition exitFailure :: int where "exitFailure = 1"
definition exitUsage :: int where "exitUsage = 2"
definition exitConnection :: int where "exitConnection = 3"

definition kindUsage :: bytes where "kindUsage = ''usage''"
definition kindConnection :: bytes where "kindConnection = ''connection''"
definition kindTimeout :: bytes where "kindTimeout = ''timeout''"
definition kindAuth :: bytes where "kindAuth = ''auth''"
definition kindServer :: bytes where "kindServer = ''server''"
definition kindProtocol :: bytes where "kindProtocol = ''protocol''"
definition kindNotFound :: bytes where "kindNotFound = ''not_found''"
definition kindClosed :: bytes where "kindClosed = ''closed''"
definition kindCanceled :: bytes where "kindCanceled = ''canceled''"
definition kindError :: bytes where "kindError = ''error''"

datatype ctl_error = CliError int bytes bytes | SdkError client_error

definition usage_error :: "bytes \<Rightarrow> ctl_error" where
  "usage_error msg = CliError exitUsage kindUsage msg"

definition not_found_error :: "(bytes \<Rightarrow> bytes) \<Rightarrow> bytes \<Rightarrow> ctl_error" where
  "not_found_error quote key = CliError exitFailure kindNotFound (''key '' @ quote key @ '' not found'')"

fun ctl_error_text :: "ctl_error \<Rightarrow> bytes" where
  "ctl_error_text (CliError _ _ msg) = msg"
| "ctl_error_text (SdkError e) = error_string e"

fun classify :: "ctl_error \<Rightarrow> int \<times> bytes" where
  "classify (CliError c kind _) = (c, kind)"
| "classify (SdkError e) =
     (if is_category e ErrNetwork then (exitConnection, kindConnection)
      else if is_category e ErrTimeout then (exitConnection, kindTimeout)
      else if is_category e ErrAuth then (exitFailure, kindAuth)
      else if is_category e ErrProtocol then (exitFailure, kindProtocol)
      else if is_category e ErrServer then (exitFailure, kindServer)
      else if is_category e ErrClosed then (exitFailure, kindClosed)
      else if Inr ContextDeadlineExceeded \<in> set (unwrap e) then (exitConnection, kindTimeout)
      else if Inr ContextCanceled \<in> set (unwrap e) then (exitFailure, kindCanceled)
      else (exitFailure, kindError))"

section \<open>Results\<close>

text \<open>The data of a command, one constructor per structure; a latency is in microseconds and a TTL in
  nanoseconds, which the encoder prints in milliseconds and seconds.\<close>

datatype ctl_data =
  PingData int
| GetData bytes bool "bytes option" bytes
| SetData bytes "int option" int
| DelData "bytes list" int
| ExistsData "bytes list" int
| KeysData bytes "bytes list" int bytes
| ScanData bytes "bytes list" int bytes bool bytes
| StatsData "(bytes \<times> int) list"
| InfoData "bytes list" "(bytes \<times> bytes) list" bytes
| HelpData "bytes list"
| CommandHelpData bytes bytes
| VersionData bytes bytes bytes

datatype ctl_text = TextWrite bytes | TextLine bytes | TextValue bytes

record ctl_result =
  cr_data :: "ctl_data option"
  cr_text :: "ctl_text option"

definition no_result :: ctl_result where "no_result = \<lparr>cr_data = None, cr_text = None\<rparr>"

definition newline :: bytes where "newline = [CHR 0x0A]"

fun render_text :: "bool \<Rightarrow> (bytes \<Rightarrow> bytes) \<Rightarrow> ctl_text \<Rightarrow> bytes" where
  "render_text tty quote (TextWrite s) = s"
| "render_text tty quote (TextLine s) = s @ newline"
| "render_text tty quote (TextValue b) =
     (if \<not> tty then b else if needs_escaping b then quote b @ newline else b @ newline)"

record json_error =
  je_Code :: int
  je_Kind :: bytes
  je_Message :: bytes

record envelope =
  en_OK :: bool
  en_Command :: bytes
  en_Data :: "ctl_data option"
  en_Error :: "json_error option"

datatype stdout = OutNone | OutText bytes | OutJson envelope

record ctl_outcome =
  oc_code :: int
  oc_stdout :: stdout
  oc_stderr :: "bytes list"

definition stderr_line :: "bytes \<Rightarrow> bytes" where
  "stderr_line msg = ''atlasctl: '' @ msg @ newline"

section \<open>Reporting\<close>

record invocation =
  in_command :: bytes
  in_asJSON :: bool
  in_res :: ctl_result
  in_err :: "ctl_error option"

definition ctl_write_json :: "bytes option \<Rightarrow> envelope \<Rightarrow> ctl_outcome" where
  "ctl_write_json fails e =
     (case fails of
        Some why \<Rightarrow> \<lparr>oc_code = exitFailure, oc_stdout = OutNone, oc_stderr = [stderr_line (''writing JSON: '' @ why)]\<rparr>
      | None \<Rightarrow>
          \<lparr>oc_code = (case en_Error e of Some je \<Rightarrow> je_Code je | None \<Rightarrow> exitOK), oc_stdout = OutJson e, oc_stderr = []\<rparr>)"

definition report_success :: "bool \<Rightarrow> (bytes \<Rightarrow> bytes) \<Rightarrow> bytes option \<Rightarrow> invocation \<Rightarrow> ctl_outcome" where
  "report_success tty quote fails iv =
     (if in_asJSON iv then
        ctl_write_json fails \<lparr>en_OK = True, en_Command = in_command iv, en_Data = cr_data (in_res iv), en_Error = None\<rparr>
      else case cr_text (in_res iv) of
             None \<Rightarrow> \<lparr>oc_code = exitOK, oc_stdout = OutNone, oc_stderr = []\<rparr>
           | Some t \<Rightarrow>
               (case fails of
                  Some why \<Rightarrow> \<lparr>oc_code = exitFailure, oc_stdout = OutNone, oc_stderr = [stderr_line (''writing the result: '' @ why)]\<rparr>
                | None \<Rightarrow> \<lparr>oc_code = exitOK, oc_stdout = OutText (render_text tty quote t), oc_stderr = []\<rparr>))"

definition report_error :: "bytes option \<Rightarrow> invocation \<Rightarrow> ctl_error \<Rightarrow> ctl_outcome" where
  "report_error fails iv err =
     (case classify err of
        (c, kind) \<Rightarrow>
          if in_asJSON iv then
            ctl_write_json fails \<lparr>en_OK = False, en_Command = in_command iv, en_Data = cr_data (in_res iv),
              en_Error = Some \<lparr>je_Code = c, je_Kind = kind, je_Message = ctl_error_text err\<rparr>\<rparr>
          else \<lparr>oc_code = c, oc_stdout = OutNone, oc_stderr = [stderr_line (ctl_error_text err)]\<rparr>)"

definition join_lines :: "bytes list \<Rightarrow> bytes" where
  "join_lines ls = (case ls of [] \<Rightarrow> [] | l # rest \<Rightarrow> foldl (\<lambda>acc x. acc @ newline @ x) l rest)"

definition indented_lines :: "bytes list \<Rightarrow> bytes" where
  "indented_lines ls = (if ls = [] then [] else join_lines ls @ newline)"

section \<open>Reading JSON values back\<close>

definition b64_value :: "char \<Rightarrow> nat option" where
  "b64_value c =
     (let v = byte_val c
      in if 65 \<le> v \<and> v \<le> 90 then Some (v - 65) else if 97 \<le> v \<and> v \<le> 122 then Some (v - 71)
         else if 48 \<le> v \<and> v \<le> 57 then Some (v + 4) else if v = 43 then Some 62 else if v = 47 then Some 63 else None)"

fun unbase64 :: "bytes \<Rightarrow> bytes option" where
  "unbase64 [] = Some []"
| "unbase64 (p # q # r # s # rest) =
     (case (b64_value p, b64_value q) of
        (Some x, Some y) \<Rightarrow>
          if r = CHR ''='' then Some [char_of (x * 4 + y div 16)]
          else (case b64_value r of
             None \<Rightarrow> None
           | Some z \<Rightarrow>
               if s = CHR ''='' then Some [char_of (x * 4 + y div 16), char_of (y mod 16 * 16 + z div 4)]
               else (case (b64_value s, unbase64 rest) of
                  (Some w, Some more_bytes) \<Rightarrow>
                    Some ([char_of (x * 4 + y div 16), char_of (y mod 16 * 16 + z div 4), char_of (z mod 4 * 64 + w)] @ more_bytes)
                | _ \<Rightarrow> None))
      | _ \<Rightarrow> None)"
| "unbase64 _ = None"

text \<open>What a reader of the JSON makes of a string and its encoding.\<close>

definition read_encoded :: "bytes \<Rightarrow> bytes \<Rightarrow> bytes option" where
  "read_encoded encoding s = (if encoding = encodingBase64 then unbase64 s else Some s)"

lemma code_less [simp]: "byte_val c < 256" by (simp add: byte_val_def)

lemma b64_value_char: "n < 64 \<Longrightarrow> b64_value (b64_char n) = Some n"
  by (auto simp: b64_value_def b64_char_def byte_val_def Let_def)

lemma b64_char_not_pad: "n < 64 \<Longrightarrow> b64_char n \<noteq> CHR ''=''"
  using b64_value_char [of n] by (auto simp: b64_value_def byte_val_def)

lemma char_of_code: "char_of (byte_val c) = c" by (simp add: byte_val_def)

lemma split_byte: "y < m \<Longrightarrow> (p * m + y) div m = p" "y < m \<Longrightarrow> (p * m + y) mod m = (y :: nat)"
  by simp_all

lemma sextets:
  assumes "a < 256" "b < 256" "c < (256 :: nat)"
  shows "a div 4 < 64" "a mod 4 * 16 < 64" "a mod 4 * 16 + b div 16 < 64" "b mod 16 * 4 < 64" "b mod 16 * 4 + c div 64 < 64"
    "c mod 64 < 64"
    "a div 4 * 4 + (a mod 4 * 16 + b div 16) div 16 = a" "a div 4 * 4 + (a mod 4 * 16) div 16 = a"
    "(a mod 4 * 16 + b div 16) mod 16 * 16 + (b mod 16 * 4 + c div 64) div 4 = b"
    "(a mod 4 * 16 + b div 16) mod 16 * 16 + (b mod 16 * 4) div 4 = b"
    "(b mod 16 * 4 + c div 64) mod 4 * 64 + c mod 64 = c"
proof -
  have b: "b div 16 < 16" and c: "c div 64 < 4" using assms by (simp_all add: less_mult_imp_div_less)
  show "a div 4 < 64" using assms by (simp add: less_mult_imp_div_less)
  have "a mod 4 \<le> 3" "b mod 16 \<le> 15" using mod_less_divisor [of 4 a] mod_less_divisor [of 16 b] by linarith+
  then show "a mod 4 * 16 < 64" "a mod 4 * 16 + b div 16 < 64" "b mod 16 * 4 < 64" "b mod 16 * 4 + c div 64 < 64"
    using b c by linarith+
  show "c mod 64 < 64" by simp
  show "a div 4 * 4 + (a mod 4 * 16 + b div 16) div 16 = a" "a div 4 * 4 + (a mod 4 * 16) div 16 = a"
    unfolding split_byte [OF b] by simp_all
  show "(a mod 4 * 16 + b div 16) mod 16 * 16 + (b mod 16 * 4 + c div 64) div 4 = b"
    "(a mod 4 * 16 + b div 16) mod 16 * 16 + (b mod 16 * 4) div 4 = b"
    unfolding split_byte [OF b] split_byte [OF c] by simp_all
  show "(b mod 16 * 4 + c div 64) mod 4 * 64 + c mod 64 = c"
    unfolding split_byte [OF c] by simp
qed

lemma unbase64_base64: "unbase64 (base64 s) = Some s"
proof (induction s rule: base64.induct)
  case (2 a)
  then show ?case using sextets [of "byte_val a" 0 0] by (simp add: b64_value_char char_of_code)
next
  case (3 a b)
  then show ?case using sextets [of "byte_val a" "byte_val b" 0]
    by (simp add: b64_value_char b64_char_not_pad char_of_code)
next
  case (4 a b c s)
  then show ?case using sextets [of "byte_val a" "byte_val b" "byte_val c"]
    by (simp add: b64_value_char b64_char_not_pad char_of_code)
qed simp

text \<open>
  C40. A value or a list of keys of any bytes survives the JSON: read back in the encoding it is labelled
  with, it is what it was, a JSON string holds valid text whichever it is, and only what is not valid
  text is encoded.
\<close>

theorem json_bytes_roundtrip:
  "read_encoded (snd (encode_value b)) (fst (encode_value b)) = Some b
   \<and> those (map (read_encoded (snd (encode_keys keys))) (fst (encode_keys keys))) = Some keys
   \<and> utf8_valid (fst (encode_value b)) \<and> list_all utf8_valid (fst (encode_keys keys))
   \<and> (snd (encode_value b) = encodingUTF8 \<longleftrightarrow> utf8_valid b)"
proof -
  have ascii: "utf8_valid (base64 s)" for s
  proof -
    have c: "byte_val (b64_char n) < 128" if "n < 64" for n
      using that by (auto simp: b64_char_def byte_val_def)
    show ?thesis
    proof (induction s rule: base64.induct)
      case (2 a)
      then show ?case using sextets [of "byte_val a" 0 0] c by (simp add: byte_val_def)
    next
      case (3 a b)
      then show ?case using sextets [of "byte_val a" "byte_val b" 0] c by (simp add: byte_val_def)
    next
      case (4 a b d s)
      then show ?case using sextets [of "byte_val a" "byte_val b" "byte_val d"] c by (simp add: byte_val_def)
    qed simp
  qed
  have read_plain: "read_encoded ''utf8'' = Some"
    by (rule ext) (simp add: read_encoded_def encodingBase64_def)
  have all: "those (map (\<lambda>k. Some (f k)) ks) = Some (map f ks)" for f :: "bytes \<Rightarrow> bytes" and ks by (induction ks) simp_all
  have "those (map (read_encoded (snd (encode_keys keys))) (fst (encode_keys keys))) = Some keys"
    using all [of "\<lambda>k. k" keys]
    by (auto simp: encode_keys_def Let_def read_encoded_def encodingUTF8_def encodingBase64_def unbase64_base64 comp_def read_plain)
  moreover have "list_all utf8_valid (fst (encode_keys keys))"
    by (auto simp: encode_keys_def Let_def encodingUTF8_def encodingBase64_def ascii list_all_iff list_ex_iff)
  ultimately show ?thesis
    by (auto simp: encode_value_def read_encoded_def encodingUTF8_def encodingBase64_def unbase64_base64 ascii)
qed

end
