(* ===== verification/Ctl.thy ===== *)
theory Ctl
  imports Ctl_Args Ctl_Output Client_Calls
begin

text \<open>
  The commands of \<open>cmd/atlasctl\<close> (\<open>commands.go\<close>) and the run of one command line (\<open>cli.go\<close>, \<open>tls.go\<close>). The
  SDK is the record \<open>sdk\<close> of its calls, each a step of whatever state its server is in. What the process
  touches otherwise (stdin, the terminal test, the token of the environment, the CA file, the clock
  around a ping) is the record \<open>ctl_env\<close>. A scan that the server never ends does not return.
\<close>

section \<open>What the program touches\<close>

record ctl_env =
  ct_stdin :: "bytes + bytes"
  ct_tty :: bool
  ct_token :: bytes
  ct_writeFails :: "bytes option"
  ct_readFile :: "bytes \<Rightarrow> bytes + bytes"
  ct_pem :: "bytes \<Rightarrow> bool"
  ct_flags :: flag_env
  ct_duration :: "int \<Rightarrow> bytes"
  ct_elapsed :: int
  ct_version :: bytes
  ct_commit :: bytes
  ct_date :: bytes

abbreviation ct_quote :: "ctl_env \<Rightarrow> bytes \<Rightarrow> bytes" where "ct_quote V \<equiv> fx_quote (ct_flags V)"

record 'c sdk =
  sdk_Ping :: "'c \<Rightarrow> (client_error + unit) \<times> 'c"
  sdk_Get :: "bytes \<Rightarrow> 'c \<Rightarrow> (client_error + bytes option) \<times> 'c"
  sdk_Set :: "bytes \<Rightarrow> bytes \<Rightarrow> int \<Rightarrow> 'c \<Rightarrow> (client_error + unit) \<times> 'c"
  sdk_Del :: "bytes list \<Rightarrow> 'c \<Rightarrow> (client_error + int) \<times> 'c"
  sdk_Exists :: "bytes list \<Rightarrow> 'c \<Rightarrow> (client_error + int) \<times> 'c"
  sdk_Keys :: "bytes \<Rightarrow> 'c \<Rightarrow> (client_error + bytes list) \<times> 'c"
  sdk_Scan :: "bytes \<Rightarrow> bytes \<Rightarrow> int \<Rightarrow> 'c \<Rightarrow> (client_error + bytes \<times> bytes list) \<times> 'c"
  sdk_Stats :: "'c \<Rightarrow> (client_error + (bytes \<times> int) list) \<times> 'c"
  sdk_Info :: "bytes list \<Rightarrow> 'c \<Rightarrow> (client_error + bytes) \<times> 'c"

type_synonym 'c ran = "(ctl_result \<times> ctl_error option) \<times> 'c"

definition failed :: "ctl_error \<Rightarrow> ctl_result \<times> ctl_error option" where "failed e = (no_result, Some e)"
definition produced :: "ctl_data \<Rightarrow> ctl_text \<Rightarrow> ctl_result \<times> ctl_error option" where
  "produced d t = (\<lparr>cr_data = Some d, cr_text = Some t\<rparr>, None)"

abbreviation count_text :: "bytes list \<Rightarrow> bytes" where "count_text args \<equiv> format_int (int (length args))"

section \<open>The commands\<close>

definition run_ping :: "ctl_env \<Rightarrow> 'c sdk \<Rightarrow> flag_set \<Rightarrow> bytes list \<Rightarrow> 'c \<Rightarrow> 'c ran" where
  "run_ping V S fs args c =
     (if args \<noteq> [] then (failed (usage_error (''ping takes no arguments, got '' @ count_text args)), c)
      else case sdk_Ping S c of
             (Inl e, c') \<Rightarrow> (failed (SdkError e), c')
           | (Inr _, c') \<Rightarrow> (produced (PingData (ct_elapsed V sdiv 1000)) (TextLine ''PONG''), c'))"

definition run_get :: "ctl_env \<Rightarrow> 'c sdk \<Rightarrow> flag_set \<Rightarrow> bytes list \<Rightarrow> 'c \<Rightarrow> 'c ran" where
  "run_get V S fs args c =
     (case args of
        [key] \<Rightarrow>
          (case sdk_Get S key c of
             (Inl e, c') \<Rightarrow> (failed (SdkError e), c')
           | (Inr None, c') \<Rightarrow>
               ((\<lparr>cr_data = Some (GetData key False None []), cr_text = None\<rparr>, Some (not_found_error (ct_quote V) key)), c')
           | (Inr (Some v), c') \<Rightarrow>
               (produced (GetData key True (Some (fst (encode_value v))) (snd (encode_value v))) (TextValue v), c'))
      | _ \<Rightarrow> (failed (usage_error (''get takes one key, got '' @ count_text args)), c))"

definition set_operands :: "ctl_env \<Rightarrow> bytes list \<Rightarrow> bool \<Rightarrow> ctl_error + bytes \<times> bytes" where
  "set_operands V args from_stdin =
     (if from_stdin then
        (case args of
           [key] \<Rightarrow>
             (case ct_stdin V of
                Inl e \<Rightarrow> Inl (usage_error (''reading the value from stdin: '' @ e))
              | Inr v \<Rightarrow> Inr (key, v))
         | _ \<Rightarrow> Inl (usage_error (''set --stdin takes one key and no value, got '' @ count_text args @ '' arguments'')))
      else
        (case args of
           [key, v] \<Rightarrow> Inr (key, v)
         | _ \<Rightarrow> Inl (usage_error (''set takes a key and a value, got '' @ count_text args
             @ '' arguments; use --stdin to read the value from a pipe''))))"

definition run_set :: "ctl_env \<Rightarrow> 'c sdk \<Rightarrow> flag_set \<Rightarrow> bytes list \<Rightarrow> 'c \<Rightarrow> 'c ran" where
  "run_set V S fs args c =
     (let ttl = flag_int (map_of fs ''ttl'')
      in case set_operands V args (flag_bool (map_of fs ''stdin'')) of
           Inl e \<Rightarrow> (failed e, c)
         | Inr (key, v) \<Rightarrow>
             if ttl < 0 then (failed (usage_error (''--ttl must not be negative, got '' @ ct_duration V ttl)), c)
             else case sdk_Set S key v ttl c of
                    (Inl e, c') \<Rightarrow> (failed (SdkError e), c')
                  | (Inr _, c') \<Rightarrow>
                      (produced (SetData key (if ttl > 0 then Some ttl else None) (int (length v))) (TextLine ''OK''), c'))"

definition counting :: "bytes \<Rightarrow> (bytes list \<Rightarrow> 'c \<Rightarrow> (client_error + int) \<times> 'c) \<Rightarrow> (bytes list \<Rightarrow> int \<Rightarrow> ctl_data) \<Rightarrow>
    bytes list \<Rightarrow> 'c \<Rightarrow> 'c ran" where
  "counting name call payload args c =
     (if args = [] then (failed (usage_error (name @ '' takes at least one key'')), c)
      else case call args c of
             (Inl e, c') \<Rightarrow> (failed (SdkError e), c')
           | (Inr n, c') \<Rightarrow> (produced (payload args n) (TextLine (format_int n)), c'))"

definition run_del :: "ctl_env \<Rightarrow> 'c sdk \<Rightarrow> flag_set \<Rightarrow> bytes list \<Rightarrow> 'c \<Rightarrow> 'c ran" where
  "run_del V S fs args c = counting ''del'' (sdk_Del S) DelData args c"

definition run_exists :: "ctl_env \<Rightarrow> 'c sdk \<Rightarrow> flag_set \<Rightarrow> bytes list \<Rightarrow> 'c \<Rightarrow> 'c ran" where
  "run_exists V S fs args c = counting ''exists'' (sdk_Exists S) ExistsData args c"

definition run_keys :: "ctl_env \<Rightarrow> 'c sdk \<Rightarrow> flag_set \<Rightarrow> bytes list \<Rightarrow> 'c \<Rightarrow> 'c ran" where
  "run_keys V S fs args c =
     (case args of
        [pattern] \<Rightarrow>
          (case sdk_Keys S pattern c of
             (Inl e, c') \<Rightarrow> (failed (SdkError e), c')
           | (Inr keys, c') \<Rightarrow>
               (produced (KeysData pattern (fst (encode_keys keys)) (int (length keys)) (snd (encode_keys keys)))
                  (TextWrite (indented_lines keys)), c'))
      | _ \<Rightarrow> (failed (usage_error (''keys takes one pattern, got '' @ count_text args)), c))"

partial_function (option) scan_pages ::
    "'c sdk \<Rightarrow> bytes \<Rightarrow> int \<Rightarrow> bytes \<Rightarrow> bytes list \<Rightarrow> 'c \<Rightarrow> ((client_error + bytes \<times> bytes list) \<times> 'c) option" where
  "scan_pages S pattern n cursor keys c =
     (case sdk_Scan S cursor pattern n c of
        (Inl e, c') \<Rightarrow> Some (Inl e, c')
      | (Inr page, c') \<Rightarrow>
          if scan_done page then Some (Inr (fst page, keys @ snd page), c')
          else scan_pages S pattern n (fst page) (keys @ snd page) c')"

definition run_scan :: "ctl_env \<Rightarrow> 'c sdk \<Rightarrow> flag_set \<Rightarrow> bytes list \<Rightarrow> 'c \<Rightarrow> 'c ran option" where
  "run_scan V S fs args c =
     (let pattern = flag_text (map_of fs ''match''); n = flag_int (map_of fs ''count'')
      in if args \<noteq> [] then Some (failed (usage_error (''scan takes no arguments; did you mean --match '' @ hd args @ ''?'')), c)
         else if n < 0 then Some (failed (usage_error (''--count must not be negative, got '' @ format_int n)), c)
         else map_option (\<lambda>(res, c').
                (case res of
                   Inl e \<Rightarrow> (failed (SdkError e), c')
                 | Inr (cursor, keys) \<Rightarrow>
                     (produced (ScanData pattern (fst (encode_keys keys)) (int (length keys)) cursor True (snd (encode_keys keys)))
                        (TextWrite (indented_lines keys)), c')))
              (scan_pages S pattern n ScanStart [] c))"

text \<open>\<open>sort.Strings\<close>.\<close>

fun bytes_less :: "bytes \<Rightarrow> bytes \<Rightarrow> bool" where
  "bytes_less _ [] = False"
| "bytes_less [] (_ # _) = True"
| "bytes_less (a # s) (b # t) = (if a = b then bytes_less s t else byte_val a < byte_val b)"

fun insert_name :: "bytes \<Rightarrow> bytes list \<Rightarrow> bytes list" where
  "insert_name x [] = [x]"
| "insert_name x (y # ys) = (if bytes_less y x then y # insert_name x ys else x # y # ys)"

definition sort_names :: "bytes list \<Rightarrow> bytes list" where "sort_names xs = foldr insert_name xs []"

definition stat_value :: "(bytes \<times> int) list \<Rightarrow> bytes \<Rightarrow> int" where
  "stat_value stats name = (case map_of stats name of None \<Rightarrow> 0 | Some v \<Rightarrow> v)"

definition run_stats :: "ctl_env \<Rightarrow> 'c sdk \<Rightarrow> flag_set \<Rightarrow> bytes list \<Rightarrow> 'c \<Rightarrow> 'c ran" where
  "run_stats V S fs args c =
     (if args \<noteq> [] then (failed (usage_error (''stats takes no arguments, got '' @ count_text args)), c)
      else case sdk_Stats S c of
             (Inl e, c') \<Rightarrow> (failed (SdkError e), c')
           | (Inr stats, c') \<Rightarrow>
               (produced (StatsData stats)
                  (TextWrite (indented_lines (map (\<lambda>name. name @ '': '' @ format_int (stat_value stats name))
                     (sort_names (map fst stats))))), c'))"

section \<open>INFO\<close>

fun split_newlines :: "bytes \<Rightarrow> bytes \<Rightarrow> bytes list" where
  "split_newlines cur [] = [cur]"
| "split_newlines cur (c # cs) = (if c = CHR 0x0A then cur # split_newlines [] cs else split_newlines (cur @ [c]) cs)"

definition info_line :: "bytes \<Rightarrow> (bytes \<times> bytes) list \<Rightarrow> (bytes \<times> bytes) list" where
  "info_line line found =
     (let line = trim_space line
      in if line = [] \<or> hd line = CHR ''#'' then found
         else if CHR '':'' \<notin> set line then found
         else let name = takeWhile (\<lambda>c. c \<noteq> CHR '':'') line
              in AList.update (trim_space name) (trim_space (drop (Suc (length name)) line)) found)"

definition ctl_parse_info :: "bytes \<Rightarrow> (bytes \<times> bytes) list" where
  "ctl_parse_info s = fold info_line (split_newlines [] s) []"

definition with_trailing_newline :: "bytes \<Rightarrow> bytes" where
  "with_trailing_newline s = (if s = [] \<or> last s = CHR 0x0A then s else s @ newline)"

definition run_info :: "ctl_env \<Rightarrow> 'c sdk \<Rightarrow> flag_set \<Rightarrow> bytes list \<Rightarrow> 'c \<Rightarrow> 'c ran" where
  "run_info V S fs args c =
     (case sdk_Info S args c of
        (Inl e, c') \<Rightarrow> (failed (SdkError e), c')
      | (Inr s, c') \<Rightarrow> (produced (InfoData args (ctl_parse_info s) s) (TextWrite (with_trailing_newline s)), c'))"

end
