(* ===== verification/Ctl_Run.thy ===== *)
theory Ctl_Run
  imports Ctl
begin

text \<open>
  One run of \<open>cmd/atlasctl\<close>: the table of its commands with their help, the client a command line asks
  for, and \<open>execute\<close> and \<open>run\<close> (\<open>cli.go\<close>, \<open>commands.go\<close>, \<open>tls.go\<close>).
\<close>

section \<open>The commands\<close>

record 'c ctl_command =
  cm_name :: bytes
  cm_synopsis :: bytes
  cm_summary :: bytes
  cm_details :: bytes
  cm_flags :: flag_set
  cm_usages :: "(bytes \<times> bytes) list"
  cm_run :: "ctl_env \<Rightarrow> 'c sdk \<Rightarrow> flag_set \<Rightarrow> bytes list \<Rightarrow> 'c \<Rightarrow> 'c ran option"

abbreviation ends :: "(ctl_env \<Rightarrow> 'c sdk \<Rightarrow> flag_set \<Rightarrow> bytes list \<Rightarrow> 'c \<Rightarrow> 'c ran) \<Rightarrow> ctl_env \<Rightarrow> 'c sdk \<Rightarrow> flag_set \<Rightarrow> bytes list \<Rightarrow> 'c \<Rightarrow> 'c ran option"
  where "ends f \<equiv> \<lambda>V S fs args c. Some (f V S fs args c)"

definition ping_command :: "'c ctl_command" where
  "ping_command =
     \<lparr>cm_name = ''ping'', cm_synopsis = ''ping'', cm_summary = ''Check that the server answers.'',
      cm_details = join_lines
        [''Exits 3 when the server cannot be reached, which is what makes'',
         ''`atlasctl ping || restart-something` a usable line in a script.''],
      cm_flags = [], cm_usages = [], cm_run = ends run_ping\<rparr>"

definition get_command :: "'c ctl_command" where
  "get_command =
     \<lparr>cm_name = ''get'', cm_synopsis = ''get <key>'', cm_summary = ''Print the value held at a key.'',
      cm_details = join_lines
        [''The value is written to stdout as the bytes the server holds, with no'',
         ''trailing newline and no escaping, whenever stdout is not a terminal'' @ [CHR '' '', CHR 0xE2, CHR 0x80, CHR 0x94] @ '' so'',
         ''`atlasctl get k > file` round-trips a value of arbitrary bytes.'', [],
         ''A key that is not there prints nothing and exits 1. A key holding an empty'',
         ''value prints nothing and exits 0. The exit code is the only place that'',
         ''distinction can live, because the output cannot carry it.''],
      cm_flags = [], cm_usages = [], cm_run = ends run_get\<rparr>"

definition set_command :: "'c ctl_command" where
  "set_command =
     \<lparr>cm_name = ''set'', cm_synopsis = ''set <key> <value> [--ttl 60s] | set <key> --stdin [--ttl 60s]'',
      cm_summary = ''Store a value, optionally with an expiry.'',
      cm_details = join_lines
        [''--stdin reads the value from standard input instead of the command line.'',
         ''It is the only way to store a value containing a null byte, which an'',
         ''argument list cannot carry'' @ [CHR '' '', CHR 0xE2, CHR 0x80, CHR 0x94] @ '' and it keeps a value out of `ps` and the'',
         ''shell history, which matters for the same reason --auth does.'', [],
         ''Write `--` before a value that begins with a dash.''],
      cm_flags = [(''ttl'', FlagDuration 0), (''stdin'', FlagBool False)],
      cm_usages = [(''ttl'', ''expire the key after this `duration`; 0 means no expiry''), (''stdin'', ''read the value from standard input'')],
      cm_run = ends run_set\<rparr>"

definition del_command :: "'c ctl_command" where
  "del_command =
     \<lparr>cm_name = ''del'', cm_synopsis = ''del <key>...'', cm_summary = ''Remove keys, and report how many were removed.'',
      cm_details = join_lines
        [''Removing a key that is not there is not a failure: the exit code is 0 and'',
         ''the count is what says how many keys the command actually found.''],
      cm_flags = [], cm_usages = [], cm_run = ends run_del\<rparr>"

definition exists_command :: "'c ctl_command" where
  "exists_command =
     \<lparr>cm_name = ''exists'', cm_synopsis = ''exists <key>...'', cm_summary = ''Count how many of the given keys are present.'',
      cm_details = join_lines
        [''A key named twice counts twice, which is what the server does and what a'',
         ''client written against Redis expects.'', [],
         ''A count of zero exits 0: the command answered the question it was asked.'',
         ''Branch on the number, or use `get` when absence should be a failure.''],
      cm_flags = [], cm_usages = [], cm_run = ends run_exists\<rparr>"

definition keys_command :: "'c ctl_command" where
  "keys_command =
     \<lparr>cm_name = ''keys'', cm_synopsis = ''keys <pattern>'', cm_summary = ''List every key matching a glob.'',
      cm_details = join_lines
        [''KEYS walks the whole keyspace and holds a connection for the length of the'',
         ''walk. Use `scan` against anything you would mind blocking.''],
      cm_flags = [], cm_usages = [], cm_run = ends run_keys\<rparr>"

definition scan_command :: "'c ctl_command" where
  "scan_command =
     \<lparr>cm_name = ''scan'', cm_synopsis = ''scan [--match <glob>] [--count <n>]'',
      cm_summary = ''Walk the keyspace a page at a time and print every key.'',
      cm_details = join_lines
        [''The iteration runs to completion here rather than exposing a cursor: a'',
         ''cursor belongs to the connection that issued it (ADR-0017), and the next'',
         ''invocation of a CLI is a different process on a different connection, so a'',
         ''cursor handed back to the shell could not be used.'', [],
         ''--count bounds the work one page does, not how many keys come back.''],
      cm_flags = [(''match'', FlagString []), (''count'', FlagInt 0)],
      cm_usages = [(''match'', ''only keys matching this `glob`''), (''count'', ''how much work one page may do; 0 leaves it to the server'')],
      cm_run = run_scan\<rparr>"

definition stats_command :: "'c ctl_command" where
  "stats_command =
     \<lparr>cm_name = ''stats'', cm_synopsis = ''stats'', cm_summary = ''Print the server'' @ [CHR 0x27] @ ''s counters.'',
      cm_details = ''Counters a later server adds appear here without an update to this client.'',
      cm_flags = [], cm_usages = [], cm_run = ends run_stats\<rparr>"

definition info_command :: "'c ctl_command" where
  "info_command =
     \<lparr>cm_name = ''info'', cm_synopsis = ''info [section...]'', cm_summary = ''Print the server'' @ [CHR 0x27] @ ''s INFO report.'',
      cm_details = join_lines
        [''The text is the server'' @ [CHR 0x27] @ ''s own, in Redis'' @ [CHR 0x27] @ ''s format, so anything that already'',
         ''parses INFO keeps working. --json adds the same fields parsed into an'',
         ''object, with the raw text alongside.''],
      cm_flags = [], cm_usages = [], cm_run = ends run_info\<rparr>"

definition ctl_commands :: "'c ctl_command list" where
  "ctl_commands =
     [ping_command, get_command, set_command, del_command, exists_command, keys_command, scan_command, stats_command, info_command]"

definition lookup_command :: "bytes \<Rightarrow> 'c ctl_command option" where
  "lookup_command name = find (\<lambda>cmd. cm_name cmd = name) ctl_commands"

section \<open>Help\<close>

definition global_usages :: "(bytes \<times> bytes) list" where
  "global_usages =
     [(''addr'', ''server address, as host:port''),
      (''auth'', ''authentication `token`; prefer '' @ envAuth @ '', which a process listing does not show''),
      (''tls'', ''connect with TLS''),
      (''tls-ca'', ''PEM file of certificate authorities to verify the server against (implies --tls)''),
      (''json'', ''print one JSON object instead of text''),
      (''timeout'', ''time limit for the whole command; 0 means none'')]"

text \<open>\<open>flag.UnquoteUsage\<close>: the name between back quotes, or the name of the flag's type.\<close>

fun kind_name :: "flag_value \<Rightarrow> bytes" where
  "kind_name (FlagString _) = ''string''"
| "kind_name (FlagBool _) = []"
| "kind_name (FlagDuration _) = ''duration''"
| "kind_name (FlagInt _) = ''int''"

definition unquote_usage :: "flag_value \<Rightarrow> bytes \<Rightarrow> bytes \<times> bytes" where
  "unquote_usage v usage =
     (let pre = takeWhile (\<lambda>c. c \<noteq> CHR ''`'') usage; rest = drop (Suc (length pre)) usage; name = takeWhile (\<lambda>c. c \<noteq> CHR ''`'') rest
      in if length pre < length usage \<and> length name < length rest then (name, pre @ name @ drop (Suc (length name)) rest)
         else (kind_name v, usage))"

fun def_value :: "ctl_env \<Rightarrow> flag_value \<Rightarrow> bytes" where
  "def_value V (FlagString s) = s"
| "def_value V (FlagBool b) = (if b then ''true'' else ''false'')"
| "def_value V (FlagDuration d) = ct_duration V d"
| "def_value V (FlagInt n) = format_int n"

definition pad :: "nat \<Rightarrow> bytes \<Rightarrow> bytes" where "pad n s = s @ replicate (n - length s) (CHR '' '')"

definition flag_help_line :: "ctl_env \<Rightarrow> flag_set \<Rightarrow> (bytes \<times> bytes) list \<Rightarrow> bytes \<Rightarrow> bytes" where
  "flag_help_line V fs usages f =
     (case (map_of fs f, map_of usages f) of
        (Some v, Some u) \<Rightarrow>
          (case unquote_usage v u of
             (name, usage) \<Rightarrow>
               (let line = ''  --'' @ f @ (if name \<noteq> [] then '' '' @ name else []); d = def_value V v
                in pad 24 line @ ''  '' @ usage
                   @ (if d \<noteq> [] \<and> d \<noteq> ''false'' \<and> d \<noteq> ''0s'' then '' (default '' @ d @ '')'' else []) @ newline))
      | _ \<Rightarrow> [])"

definition flag_help :: "ctl_env \<Rightarrow> flag_set \<Rightarrow> (bytes \<times> bytes) list \<Rightarrow> bytes" where
  "flag_help V fs usages = concat (map (flag_help_line V fs usages) (sort_names (map fst fs)))"

definition global_flag_help :: "ctl_env \<Rightarrow> bytes" where
  "global_flag_help V = flag_help V global_flags global_usages"

definition help_text :: "ctl_env \<Rightarrow> 'c ctl_command \<Rightarrow> bytes" where
  "help_text V cmd =
     ''Usage:'' @ newline @ ''  atlasctl '' @ cm_synopsis cmd @ newline @ newline @ cm_summary cmd @ newline
     @ (if cm_details cmd \<noteq> [] then newline @ cm_details cmd @ newline else [])
     @ (let own = flag_help V (cm_flags cmd) (cm_usages cmd) in if own \<noteq> [] then newline @ ''Flags:'' @ newline @ own else [])
     @ newline @ ''Global flags:'' @ newline @ global_flag_help V"

definition usage_text :: "ctl_env \<Rightarrow> bytes" where
  "usage_text V =
     (let cmds = ctl_commands :: unit ctl_command list; width = fold (\<lambda>cmd w. max w (length (cm_name cmd))) cmds 0
      in ''atlasctl is the AtlasCache command-line client.'' @ newline @ newline
         @ ''Usage:'' @ newline @ ''  atlasctl [flags] <command> [arguments]'' @ newline @ newline @ ''Commands:'' @ newline
         @ concat (map (\<lambda>cmd. ''  '' @ pad width (cm_name cmd) @ ''  '' @ cm_summary cmd @ newline) cmds)
         @ newline @ ''Global flags:'' @ newline @ global_flag_help V
         @ newline @ ''Environment:'' @ newline @ ''  '' @ envAuth
         @ ''  the authentication token; preferred over --auth, which `ps` shows to every user'' @ newline
         @ newline @ ''Exit codes:'' @ newline
         @ ''  0  success'' @ newline
         @ ''  1  the command failed: a missing key, a server error, a refused token'' @ newline
         @ ''  2  usage: an unknown flag, a missing argument'' @ newline
         @ ''  3  the server could not be reached, or did not answer in time'' @ newline
         @ newline @ ''Run `atlasctl help <command>` for one command.'' @ newline)"

definition command_names :: "bytes list" where
  "command_names = sort_names (map cm_name (ctl_commands :: unit ctl_command list))"

definition command_help_result :: "ctl_env \<Rightarrow> 'c ctl_command \<Rightarrow> ctl_result" where
  "command_help_result V cmd =
     \<lparr>cr_data = Some (CommandHelpData (cm_name cmd) (cm_synopsis cmd)), cr_text = Some (TextWrite (help_text V cmd))\<rparr>"

text \<open>The result, and what is said on stderr.\<close>

definition help_result :: "ctl_env \<Rightarrow> bytes list \<Rightarrow> ctl_result \<times> bytes list" where
  "help_result V args =
     (let usage = \<lparr>cr_data = Some (HelpData command_names), cr_text = Some (TextWrite (usage_text V))\<rparr>
      in case args of
           [] \<Rightarrow> (usage, [])
         | a # _ \<Rightarrow>
             (case lookup_command a :: unit ctl_command option of
                Some cmd \<Rightarrow> (command_help_result V cmd, [])
              | None \<Rightarrow> (usage, [stderr_line (''unknown command '' @ ct_quote V a)])))"

definition version_result :: "ctl_env \<Rightarrow> ctl_result" where
  "version_result V =
     \<lparr>cr_data = Some (VersionData (ct_version V) (ct_commit V) (ct_date V)),
      cr_text = Some (TextWrite (''atlasctl '' @ ct_version V @ newline @ ''commit: '' @ ct_commit V @ newline
        @ ''built:  '' @ ct_date V @ newline))\<rparr>"

section \<open>The client\<close>

definition resolve_token :: "ctl_env \<Rightarrow> globals \<Rightarrow> bytes \<times> bytes list" where
  "resolve_token V g =
     (if g_auth g \<noteq> [] then
        (g_auth g, [stderr_line (''warning: --auth is visible to other users in `ps` output; prefer the '' @ envAuth @ '' environment variable'')])
      else (ct_token V, []))"

text \<open>\<open>tlsConfig\<close>: whether there is one.\<close>

definition ctl_tls_config :: "ctl_env \<Rightarrow> globals \<Rightarrow> ctl_error + bool" where
  "ctl_tls_config V g =
     (if \<not> g_useTLS g \<and> g_tlsCA g = [] then Inr False
      else if g_tlsCA g = [] then Inr True
      else case ct_readFile V (g_tlsCA g) of
             Inl e \<Rightarrow> Inl (usage_error (''reading --tls-ca: '' @ e))
           | Inr pem \<Rightarrow>
               if \<not> ct_pem V pem then Inl (usage_error (''--tls-ca '' @ g_tlsCA g @ '' holds no PEM certificate'')) else Inr True)"

definition ctl_new_client :: "ctl_env \<Rightarrow> globals \<Rightarrow> bytes \<Rightarrow> ctl_error + client" where
  "ctl_new_client V g token =
     (if g_timeout g < 0 then Inl (usage_error (''--timeout must not be negative, got '' @ ct_duration V (g_timeout g)))
      else case ctl_tls_config V g of
             Inl e \<Rightarrow> Inl e
           | Inr tls \<Rightarrow>
               (case new_client (map Some
                   ([with_addr (g_addr g), with_pool_size 1, with_dial_timeout (g_timeout g), with_read_timeout (g_timeout g),
                     with_write_timeout (g_timeout g), with_reconnect_window 0]
                    @ (if token \<noteq> [] then [with_auth token] else []) @ (if tls then [with_tls True] else []))) of
                  Inl e \<Rightarrow> Inl (usage_error (error_string e))
                | Inr cl \<Rightarrow> Inr cl))"

text \<open>The time limit of the whole command.\<close>

definition ctl_deadline :: "globals \<Rightarrow> int option" where
  "ctl_deadline g = (if g_timeout g \<le> 0 then None else Some (g_timeout g))"

section \<open>One run\<close>

text \<open>Once the command is known: \<open>S\<close> makes the SDK of a client and a time limit.\<close>

definition execute_command ::
    "ctl_env \<Rightarrow> (client \<Rightarrow> int option \<Rightarrow> 'c sdk) \<Rightarrow> 'c ctl_command \<Rightarrow> bool \<Rightarrow> bytes list \<Rightarrow> 'c \<Rightarrow> ((invocation \<times> bytes list) \<times> 'c) option" where
  "execute_command V S cmd json words c =
     (let fs = global_flags @ cm_flags cmd
      in case parse_flags (ct_flags V) fs (permute fs words) of
           Inl FlagHelp \<Rightarrow>
             Some ((\<lparr>in_command = cm_name cmd, in_asJSON = False, in_res = command_help_result V cmd, in_err = None\<rparr>, []), c)
         | Inl (FlagFail e) \<Rightarrow>
             Some ((\<lparr>in_command = cm_name cmd, in_asJSON = json, in_res = no_result,
               in_err = Some (usage_error (e @ ''; run `atlasctl help '' @ cm_name cmd @ ''`''))\<rparr>, []), c)
         | Inr (fs', operands) \<Rightarrow>
             (let g = globals_of fs'; (token, said) = resolve_token V g
              in case ctl_new_client V g token of
                   Inl e \<Rightarrow> Some ((\<lparr>in_command = cm_name cmd, in_asJSON = g_asJSON g, in_res = no_result, in_err = Some e\<rparr>, said), c)
                 | Inr cl \<Rightarrow>
                     map_option (\<lambda>((res, err), c'). ((\<lparr>in_command = cm_name cmd, in_asJSON = g_asJSON g, in_res = res, in_err = err\<rparr>, said), c'))
                       (cm_run cmd V (S cl (ctl_deadline g)) fs' operands c)))"

definition execute ::
    "ctl_env \<Rightarrow> (client \<Rightarrow> int option \<Rightarrow> 'c sdk) \<Rightarrow> bytes list \<Rightarrow> 'c \<Rightarrow> ((invocation \<times> bytes list) \<times> 'c) option" where
  "execute V S args c =
     (let json = wants_json args; (before, name, rest) = split_command args
      in if name = nameHelp \<or> contains before [''--'' @ nameHelp, ''-'' @ nameHelp, ''-h''] then
           (let (res, said) = help_result V rest
            in Some ((\<lparr>in_command = nameHelp, in_asJSON = False, in_res = res, in_err = None\<rparr>, said), c))
         else if name = nameVersion \<or> contains before [''--'' @ nameVersion, ''-'' @ nameVersion, ''-v''] then
           Some ((\<lparr>in_command = nameVersion, in_asJSON = json, in_res = version_result V, in_err = None\<rparr>, []), c)
         else if name = [] then
           Some ((\<lparr>in_command = [], in_asJSON = json, in_res = no_result,
             in_err = Some (usage_error ''no command given; run `atlasctl help` for the list'')\<rparr>, []), c)
         else case lookup_command name of
                None \<Rightarrow>
                  Some ((\<lparr>in_command = name, in_asJSON = json, in_res = no_result,
                    in_err = Some (usage_error (''unknown command '' @ ct_quote V name @ ''; run `atlasctl help` for the list''))\<rparr>, []), c)
              | Some cmd \<Rightarrow> execute_command V S cmd json (before @ rest) c)"

definition report :: "ctl_env \<Rightarrow> invocation \<times> bytes list \<Rightarrow> ctl_outcome" where
  "report V r =
     (case r of
        (i, said) \<Rightarrow>
          (let oc = (case in_err i of
                 Some e \<Rightarrow> report_error (ct_writeFails V) i e
               | None \<Rightarrow> report_success (ct_tty V) (ct_quote V) (ct_writeFails V) i)
           in oc\<lparr>oc_stderr := said @ oc_stderr oc\<rparr>))"

text \<open>\<open>run\<close>: \<open>None\<close> is a run that never returns.\<close>

definition ctl_run :: "ctl_env \<Rightarrow> (client \<Rightarrow> int option \<Rightarrow> 'c sdk) \<Rightarrow> bytes list \<Rightarrow> 'c \<Rightarrow> (ctl_outcome \<times> 'c) option" where
  "ctl_run V S args c = map_option (\<lambda>(r, c'). (report V r, c')) (execute V S args c)"

end
