(* ===== verification/Ctl_Args_Spec.thy ===== *)
theory Ctl_Args_Spec
  imports Ctl_Args
begin

text \<open>Flags go anywhere on the line, and the one place an operand may not stand.\<close>

section \<open>One word\<close>

lemma cut_equals_plain: "CHR ''='' \<notin> set f \<Longrightarrow> cut_equals f = (f, [], False)"
proof -
  assume e: "CHR ''='' \<notin> set f"
  then have t: "takeWhile (\<lambda>c. c \<noteq> CHR ''='') f = f" by (intro takeWhile_eq_all_conv [THEN iffD2]) metis
  show ?thesis using e unfolding cut_equals_def t Let_def by simp
qed

lemma cut_equals_value: "CHR ''='' \<notin> set f \<Longrightarrow> cut_equals (f @ CHR ''='' # v) = (f, v, True)"
proof -
  assume "CHR ''='' \<notin> set f"
  then have "takeWhile (\<lambda>c. c \<noteq> CHR ''='') (f @ CHR ''='' # v) = f"
    by (subst takeWhile_append2) auto
  then show ?thesis by (simp add: cut_equals_def)
qed

lemma strip_dashes: "flag_name d f \<Longrightarrow> dropWhile (\<lambda>c. c = CHR ''-'') (d @ f @ x) = f @ x"
  by (cases f) (auto simp: flag_name_def)

lemma flag_words:
  assumes "flag_name d f"
  shows "flag_like (d @ f @ x)" "d @ f @ x \<noteq> ''--''"
    "drop (if (d @ f @ x) ! 1 = CHR ''-'' then 2 else 1) (d @ f @ x) = f @ x"
    "cut_flag_name (d @ f) = (f, False)" "cut_flag_name (d @ f @ CHR ''='' # v) = (f, True)"
proof -
  obtain c cs where f: "f = c # cs" "c \<noteq> CHR ''-''" using assms by (cases f) (auto simp: flag_name_def)
  have d: "d = ''-'' \<or> d = ''--''" using assms by (simp add: flag_name_def)
  show "flag_like (d @ f @ x)" "d @ f @ x \<noteq> ''--''"
    using d f by (auto simp: flag_like_def)
  show "drop (if (d @ f @ x) ! 1 = CHR ''-'' then 2 else 1) (d @ f @ x) = f @ x"
    using d f by (elim disjE) simp_all
  have e: "CHR ''='' \<notin> set f" using assms by (simp add: flag_name_def)
  show "cut_flag_name (d @ f) = (f, False)"
    using strip_dashes [OF assms, of "[]"] by (simp add: cut_flag_name_def cut_equals_plain [OF e])
  show "cut_flag_name (d @ f @ CHR ''='' # v) = (f, True)"
    using strip_dashes [OF assms, of "CHR ''='' # v"] by (simp add: cut_flag_name_def cut_equals_value [OF e])
qed

lemma parse_one_flag:
  assumes "flag_name d f"
  shows "parse_one X fs (d @ f) rest = (case apply_flag X fs f None rest of Inl e \<Rightarrow> Bad e | Inr (fs', r) \<Rightarrow> Seen fs' r)"
    "parse_one X fs (d @ f @ CHR ''='' # v) rest = (case apply_flag X fs f (Some v) rest of Inl e \<Rightarrow> Bad e | Inr (fs', r) \<Rightarrow> Seen fs' r)"
proof -
  have e: "CHR ''='' \<notin> set f" "f \<noteq> []" "hd f \<noteq> CHR ''-''" using assms by (simp_all add: flag_name_def)
  then have h: "hd f \<noteq> CHR ''=''" by (metis hd_in_set)
  note w = flag_words [OF assms]
  show "parse_one X fs (d @ f) rest = (case apply_flag X fs f None rest of Inl e \<Rightarrow> Bad e | Inr (fs', r) \<Rightarrow> Seen fs' r)"
    unfolding parse_one_def Let_def
    using w(1-3) [of "[]"] e h by (simp only: append_Nil2 if_True if_False simp_thms cut_equals_plain [OF e(1)] prod.case)
  show "parse_one X fs (d @ f @ CHR ''='' # v) rest = (case apply_flag X fs f (Some v) rest of Inl e \<Rightarrow> Bad e | Inr (fs', r) \<Rightarrow> Seen fs' r)"
    unfolding parse_one_def Let_def
    using w(1-3) [of "CHR ''='' # v"] e h
    by (simp only: if_True if_False simp_thms cut_equals_value [OF e(1)] prod.case hd_append2 append_is_Nil_conv)
qed

section \<open>The kinds of the flags\<close>

fun flag_kind :: "flag_value \<Rightarrow> nat" where
  "flag_kind (FlagString _) = 0"
| "flag_kind (FlagBool _) = 1"
| "flag_kind (FlagDuration _) = 2"
| "flag_kind (FlagInt _) = 3"

definition same_kinds :: "flag_set \<Rightarrow> flag_set \<Rightarrow> bool" where
  "same_kinds fs gs \<longleftrightarrow> (\<forall>f. map_option flag_kind (map_of fs f) = map_option flag_kind (map_of gs f))"

lemma set_flag_kind: "flag_kind v = flag_kind w \<Longrightarrow> set_flag X v s = set_flag X w s"
  by (cases v; cases w) auto

lemma bool_kind: "is_bool_value v \<longleftrightarrow> flag_kind v = 1" "(\<exists>b. v = FlagBool b) \<longleftrightarrow> flag_kind v = 1"
  by (cases v; simp)+

lemma set_flag_keeps: "set_flag X v s = Inr w \<Longrightarrow> flag_kind w = flag_kind v"
  by (cases v; cases "fx_int X s") (auto split: option.splits)

lemma takes_kinds:
  assumes "same_kinds fs gs" shows "takes X fs f v = takes X gs f v"
proof -
  have k: "map_option flag_kind (map_of fs f) = map_option flag_kind (map_of gs f)" using assms by (simp add: same_kinds_def)
  show ?thesis
  proof (cases "map_of fs f")
    case None
    then show ?thesis using k by (simp add: takes_def)
  next
    case (Some a)
    then obtain b where b: "map_of gs f = Some b" "flag_kind a = flag_kind b" using k by (cases "map_of gs f") auto
    show ?thesis unfolding takes_def Some b(1) option.case set_flag_kind [OF b(2)] by (rule refl)
  qed
qed

lemma bools_kinds:
  assumes "same_kinds fs gs"
  shows "(\<exists>b. map_of fs f = Some (FlagBool b)) \<longleftrightarrow> (\<exists>b. map_of gs f = Some (FlagBool b))"
proof -
  have k: "(\<exists>b. map_of hs f = Some (FlagBool b)) \<longleftrightarrow> map_option flag_kind (map_of hs f) = Some 1" for hs
    by (cases "map_of hs f") (simp_all add: bool_kind(2))
  show ?thesis unfolding k using assms by (simp add: same_kinds_def)
qed

lemma takes_bool:
  "takes X fs f v \<Longrightarrow> is_bool_value (the (map_of fs f)) \<longleftrightarrow> (\<exists>b. map_of fs f = Some (FlagBool b))"
  by (auto simp: takes_def bool_kind split: option.splits)

lemma item_ok_kinds:
  assumes "same_kinds fs gs" shows "item_ok X fs it = item_ok X gs it"
proof (cases it)
  case (Pair d f v)
  have "takes X fs f v = takes X gs f v" using assms by (rule takes_kinds)
  then show ?thesis using Pair takes_bool bools_kinds [OF assms, of f] by auto
qed (simp_all add: takes_kinds [OF assms] bools_kinds [OF assms])

lemma put_flag_kinds:
  assumes "takes X fs f v" shows "same_kinds fs (put_flag X f v fs)"
proof -
  obtain fl w where "map_of fs f = Some fl" "set_flag X fl v = Inr w"
    using assms by (auto simp: takes_def split: option.splits sum.splits)
  then show ?thesis by (simp add: same_kinds_def put_flag_def update_conv' set_flag_keeps)
qed

lemma bare_takes: "map_of fs f = Some (FlagBool b) \<Longrightarrow> takes X fs f ''true''"
  by (simp add: takes_def parse_bool_def)

lemma item_set_kinds: "item_ok X fs it \<Longrightarrow> same_kinds fs (item_set X it fs)"
  by (cases it) (auto intro: put_flag_kinds bare_takes simp: same_kinds_def [of fs fs])

lemma item_ok_after: "item_ok X fs it \<Longrightarrow> item_ok X (item_set X it fs) it' = item_ok X fs it'"
  using item_ok_kinds [OF item_set_kinds] by blast

section \<open>A line of items\<close>

lemma apply_flag_takes:
  assumes "takes X fs f v"
  shows "apply_flag X fs f (Some v) rest = Inr (put_flag X f v fs, rest)"
    "\<not> is_bool_value (the (map_of fs f)) \<Longrightarrow> apply_flag X fs f None (v # rest) = Inr (put_flag X f v fs, rest)"
proof -
  obtain fl w where w: "map_of fs f = Some fl" "set_flag X fl v = Inr w"
    using assms by (auto simp: takes_def split: option.splits sum.splits)
  show "apply_flag X fs f (Some v) rest = Inr (put_flag X f v fs, rest)"
    by (simp add: apply_flag_def put_flag_def w)
  show "\<not> is_bool_value (the (map_of fs f)) \<Longrightarrow> apply_flag X fs f None (v # rest) = Inr (put_flag X f v fs, rest)"
    by (simp add: apply_flag_def put_flag_def w)
qed

lemma parse_item:
  assumes "item_ok X fs it" "item_operands it = []"
  shows "parse_flags X fs (item_words it @ rest) = parse_flags X (item_set X it fs) rest"
proof (cases it)
  case (Bare d f)
  then obtain b where b: "map_of fs f = Some (FlagBool b)" "flag_name d f" using assms by auto
  have "apply_flag X fs f None rest = Inr (put_flag X f ''true'' fs, rest)"
    by (simp add: apply_flag_def b put_flag_def parse_bool_def)
  then show ?thesis using parse_one_flag(1) [OF b(2), of X fs rest] Bare by simp
next
  case (Inline d f v)
  then have "flag_name d f" "takes X fs f v" using assms by auto
  then show ?thesis using parse_one_flag(2) [of d f X fs v rest] Inline by (simp add: apply_flag_takes)
next
  case (Pair d f v)
  then have "flag_name d f" "takes X fs f v" "\<not> is_bool_value (the (map_of fs f))" using assms by auto
  then show ?thesis using parse_one_flag(1) [of d f X fs "v # rest"] Pair by (simp add: apply_flag_takes)
qed (use assms in simp)

lemma parse_items:
  "\<forall>it \<in> set items. item_ok X fs it \<and> item_operands it = [] \<Longrightarrow>
   parse_flags X fs (concat (map item_words items) @ rest) = parse_flags X (fold (item_set X) items fs) rest"
proof (induction items arbitrary: fs)
  case (Cons it items)
  have "\<forall>it' \<in> set items. item_ok X (item_set X it fs) it' \<and> item_operands it' = []"
    using Cons.prems item_ok_after [of X fs it] by simp
  then show ?case using Cons parse_item [of X fs it "concat (map item_words items) @ rest"] by simp
qed simp

definition is_flag :: "item \<Rightarrow> bool" where "is_flag it \<longleftrightarrow> item_operands it = []"

lemma permute_item:
  assumes "item_ok X fs it"
  shows "permute_loop fs flags operands (item_words it @ rest)
    = permute_loop fs (if is_flag it then flags @ item_words it else flags) (operands @ item_operands it) rest"
proof (cases it)
  case (Operand w)
  then show ?thesis using assms by (auto simp: is_flag_def flag_like_def)
next
  case (Bare d f)
  then obtain b where b: "map_of fs f = Some (FlagBool b)" "flag_name d f" using assms by auto
  then show ?thesis using flag_words(1,2) [OF b(2), of "[]"] flag_words(4) [OF b(2)] Bare by (simp add: is_flag_def)
next
  case (Inline d f v)
  then have n: "flag_name d f" and "takes X fs f v" using assms by auto
  then obtain fl where "map_of fs f = Some fl" by (auto simp: takes_def split: option.splits)
  then show ?thesis using flag_words(1,2) [OF n, of "CHR ''='' # v"] flag_words(5) [OF n, of v] Inline by (simp add: is_flag_def)
next
  case (Pair d f v)
  then have n: "flag_name d f" "\<not> is_bool_value (the (map_of fs f))" and "takes X fs f v" using assms by auto
  then obtain fl where "map_of fs f = Some fl" by (auto simp: takes_def split: option.splits)
  then show ?thesis using flag_words(1,2) [OF n(1), of "[]"] flag_words(4) [OF n(1)] n(2) Pair by (simp add: is_flag_def)
qed

lemma permute_items:
  "\<forall>it \<in> set items. item_ok X fs it \<Longrightarrow>
   permute_loop fs flags operands (concat (map item_words items) @ rest)
   = permute_loop fs (flags @ concat (map item_words (filter is_flag items))) (operands @ concat (map item_operands items)) rest"
proof (induction items arbitrary: flags operands)
  case (Cons it items)
  then show ?case
    using permute_item [of X fs it flags operands "concat (map item_words items) @ rest"] by simp
qed simp

lemma fold_flags: "fold (item_set X) (filter is_flag items) fs = fold (item_set X) items fs"
proof (induction items arbitrary: fs)
  case (Cons it items)
  then show ?case by (cases it) (simp_all add: is_flag_def)
qed simp

lemma parse_flags_shrinks: "parse_flags X fs args = Inr (fs', rest) \<Longrightarrow> length rest \<le> length args"
proof (induction X fs args rule: parse_flags.induct)
  case (2 X fs s rest')
  then show ?case
    by (cases "parse_one X fs s rest'")
       (auto simp: parse_one_def Let_def split: if_splits prod.splits sum.splits dest: parse_one_shrinks apply_flag_shrinks)
qed simp

lemma parse_operands: "ws = [] \<or> \<not> flag_like (hd ws) \<Longrightarrow> parse_flags X fs ws = Inr (fs, ws)"
  by (cases ws) (auto simp: parse_one_def)

lemma parse_flag_like_loses:
  assumes "ws \<noteq> []" "flag_like (hd ws)"
  shows "parse_flags X fs ws \<noteq> Inr (fs', ws)"
proof
  assume r: "parse_flags X fs ws = Inr (fs', ws)"
  obtain s rest where ws: "ws = s # rest" using assms(1) by (cases ws) auto
  show False
  proof (cases "parse_one X fs s rest")
    case (Stop operands)
    then have "operands = s # rest" using r ws by simp
    then show False using Stop assms(2) ws
      by (auto simp: parse_one_def Let_def split: if_split_asm prod.split_asm sum.split_asm)
  next
    case (Seen g rest')
    then show False using r ws parse_one_shrinks [OF Seen] parse_flags_shrinks [of X g rest' fs' "s # rest"] by simp
  qed (use r ws in simp)
qed

lemma split_items:
  "\<forall>it \<in> set items. item_ok X global_flags it \<and> is_flag it \<Longrightarrow>
   split_command_loop before (concat (map item_words items) @ rest) = split_command_loop (before @ concat (map item_words items)) rest"
proof (induction items arbitrary: before)
  case (Cons it items)
  have "split_command_loop before (item_words it @ ws) = split_command_loop (before @ item_words it) ws" for ws
  proof (cases it)
    case (Bare d f)
    then obtain b where b: "map_of global_flags f = Some (FlagBool b)" "flag_name d f" using Cons.prems by auto
    then show ?thesis using flag_words(1,2) [OF b(2), of "[]"] flag_words(4) [OF b(2)] Bare by simp
  next
    case (Inline d f v)
    then have n: "flag_name d f" and "takes X global_flags f v" using Cons.prems by auto
    then obtain fl where "map_of global_flags f = Some fl" by (auto simp: takes_def split: option.splits)
    then show ?thesis using flag_words(1,2) [OF n, of "CHR ''='' # v"] flag_words(5) [OF n, of v] Inline by simp
  next
    case (Pair d f v)
    then have n: "flag_name d f" "\<not> is_bool_value (the (map_of global_flags f))" and "takes X global_flags f v" using Cons.prems by auto
    then obtain fl where "map_of global_flags f = Some fl" by (auto simp: takes_def split: option.splits)
    then show ?thesis using flag_words(1,2) [OF n(1), of "[]"] flag_words(4) [OF n(1)] n(2) Pair by simp
  qed (use Cons.prems in \<open>simp add: is_flag_def\<close>)
  then show ?case using Cons by simp
qed simp

lemma item_ok_more: "item_ok X fs it \<Longrightarrow> item_ok X (fs @ own) it"
  by (cases it) (auto simp: takes_def split: option.splits)

text \<open>
  C38. Flags go anywhere: global flags before the command, any of its flags after it, in one word or two,
  with one dash or two, before, between and after the operands. The line is split at the command's name,
  every flag gets its value, the last one if it is given twice, and what is left over are the operands
  in their order, those after a bare double dash included: that is so exactly when the first operand
  does not itself look like a flag. A first operand that does, written behind the double dash as it
  has to be, is not taken as one.
\<close>

theorem flags_anywhere:
  assumes "\<forall>it \<in> set before. item_ok X global_flags it \<and> is_flag it" "\<not> flag_like name"
    and "\<forall>it \<in> set items. item_ok X (global_flags @ own) it" and "dashes = [] \<and> tail = [] \<or> dashes = [''--'']"
    and "split_command (concat (map item_words before) @ name # concat (map item_words items) @ dashes @ tail) = (bs, n, rest)"
    and "operands = concat (map item_operands items) @ tail"
  shows "n = name \<and> (parse_flags X (global_flags @ own) (permute (global_flags @ own) (bs @ rest))
        = Inr (fold (item_set X) (before @ items) (global_flags @ own), operands)
      \<longleftrightarrow> operands = [] \<or> \<not> flag_like (hd operands))"
proof -
  let ?fs = "global_flags @ own" and ?its = "before @ items"
  have "name \<noteq> ''--''" using assms(2) by (auto simp: flag_like_def)
  then have s: "bs = concat (map item_words before)" "n = name" "rest = concat (map item_words items) @ dashes @ tail"
    using assms(5) split_items [OF assms(1), of "[]"] assms(2) by (simp_all add: split_command_def)
  have ok: "\<forall>it \<in> set ?its. item_ok X ?fs it" using assms(1,3) by (auto intro: item_ok_more)
  have b: "concat (map item_operands before) = []" using assms(1) by (auto simp: is_flag_def)
  let ?flags = "filter is_flag ?its"
  have "permute ?fs (bs @ rest) = permute_loop ?fs (concat (map item_words ?flags)) (concat (map item_operands items)) (dashes @ tail)"
    using permute_items [OF ok, of "[]" "[]" "dashes @ tail"] b by (simp add: permute_def s)
  then have p: "permute ?fs (bs @ rest) = concat (map item_words ?flags) @ operands"
    using assms(4,6) by auto
  have "\<forall>it \<in> set ?flags. item_ok X ?fs it \<and> item_operands it = []" using ok by (auto simp: is_flag_def)
  then have r: "parse_flags X ?fs (permute ?fs (bs @ rest)) = parse_flags X (fold (item_set X) ?its ?fs) operands"
    unfolding p by (simp only: parse_items fold_flags)
  show ?thesis
    unfolding r using s(2) parse_operands [of operands] parse_flag_like_loses [of operands] by blast
qed

lemma flags_anywhere_witness:
  "let X = \<lparr>fx_duration = \<lambda>_. None, fx_int = \<lambda>_. Inl [], fx_quote = id\<rparr>;
       line = [''--addr'', ''h:1'', ''get'', ''-json'', ''k'', ''--auth=t'']
   in split_command line = ([''--addr'', ''h:1''], ''get'', [''-json'', ''k'', ''--auth=t''])
     \<and> map_sum id snd (parse_flags X global_flags (permute global_flags ([''--addr'', ''h:1''] @ [''-json'', ''k'', ''--auth=t'']))) = Inr [''k'']"
proof -
  let ?X = "\<lparr>fx_duration = \<lambda>_. None, fx_int = \<lambda>_. Inl [], fx_quote = id\<rparr>"
  let ?b = "[Pair ''--'' ''addr'' ''h:1'']" and ?i = "[Bare ''-'' ''json'', Operand ''k'', Inline ''--'' ''auth'' ''t'']"
  have s: "split_command [''--addr'', ''h:1'', ''get'', ''-json'', ''k'', ''--auth=t'']
      = ([''--addr'', ''h:1''], ''get'', [''-json'', ''k'', ''--auth=t''])" by code_simp
  have "\<forall>it \<in> set ?b. item_ok ?X global_flags it \<and> is_flag it" "\<forall>it \<in> set ?i. item_ok ?X (global_flags @ []) it"
    by (auto simp: is_flag_def global_flags_def flag_name_def takes_def flag_like_def)
  note ok = this
  have g: "\<not> flag_like ''get''" by (simp add: flag_like_def)
  have d: "[] = [] \<and> [] = [] \<or> [] = [''--'']" by simp
  have "split_command (concat (map item_words ?b) @ ''get'' # concat (map item_words ?i) @ [] @ [])
      = ([''--addr'', ''h:1''], ''get'', [''-json'', ''k'', ''--auth=t''])" using s by simp
  note f = flags_anywhere [OF ok(1) g ok(2) d this]
  have w: "[''k''] = concat (map item_operands ?i) @ []" by simp
  have k: "[''k''] = [] \<or> \<not> flag_like (hd [''k''])" by (simp add: flag_like_def)
  have r: "parse_flags ?X global_flags (permute global_flags ([''--addr'', ''h:1''] @ [''-json'', ''k'', ''--auth=t'']))
      = Inr (fold (item_set ?X) (?b @ ?i) (global_flags @ []), [''k''])"
    using iffD2 [OF conjunct2 [OF f [OF w]] k] unfolding append_Nil2 .
  show ?thesis unfolding Let_def r map_sum.simps prod.sel using s by (intro conjI refl)
qed

text \<open>So a key that begins with a dash cannot be given to a command that takes it first.\<close>

lemma dashed_operand_refused:
  "parse_flags X global_flags (permute global_flags (case split_command [''get'', ''--'', ''-k''] of (before, name, rest) \<Rightarrow> before @ rest))
     = Inl (FlagFail ''flag provided but not defined: -k'')"
proof -
  have "split_command [''get'', ''--'', ''-k''] = ([], ''get'', [''--'', ''-k''])" by code_simp
  moreover have "permute global_flags [''--'', ''-k''] = [''-k'']" by code_simp
  moreover have "parse_one X global_flags ''-k'' [] = Bad (FlagFail ''flag provided but not defined: -k'')"
    by (simp add: parse_one_def flag_like_def cut_equals_def Let_def apply_flag_def global_flags_def)
  ultimately show ?thesis by simp
qed

end
