(* ===== verification/Ctl_Spec.thy ===== *)
theory Ctl_Spec
  imports Ctl_Run Ctl_Args_Spec
begin

text \<open>
  What a script may rely on of \<open>atlasctl\<close>: the exit code and its agreement with what is printed, that a
  command line that cannot be run never reaches the server, and what \<open>get\<close> prints after a \<open>set\<close>.
\<close>

section \<open>How a command ends\<close>

text \<open>With data and text; with a usage error and the server as it was; with a key not found; or with
  an error of the SDK.\<close>

definition ends_well :: "'c \<Rightarrow> 'c ran \<Rightarrow> bool" where
  "ends_well c r \<longleftrightarrow>
     (case r of
        ((res, None), c') \<Rightarrow> cr_data res \<noteq> None \<and> cr_text res \<noteq> None
      | ((res, Some (CliError k kind m)), c') \<Rightarrow> k = exitUsage \<and> kind = kindUsage \<and> c' = c \<or> k = exitFailure \<and> kind = kindNotFound
      | ((res, Some (SdkError e)), c') \<Rightarrow> True)"

lemma ends_well_simps [simp]:
  "ends_well c (produced d t, c')" "ends_well c (failed (SdkError e), c')" "ends_well c (failed (usage_error m), c') \<longleftrightarrow> c' = c"
  "ends_well c ((res, Some (not_found_error q k)), c')"
  by (simp_all add: ends_well_def produced_def failed_def usage_error_def not_found_error_def exitUsage_def exitFailure_def)

lemma set_operands_error: "set_operands V args b = Inl e \<Longrightarrow> \<exists>m. e = usage_error m"
  by (auto simp: set_operands_def split: if_splits list.splits sum.splits)

lemma counting_ends: "ends_well c (counting name call payload args c)"
  by (auto simp: counting_def split: prod.split sum.split)

lemma commands_end:
  "ends_well c (run_ping V S fs args c)" "ends_well c (run_get V S fs args c)" "ends_well c (run_set V S fs args c)"
  "ends_well c (run_del V S fs args c)" "ends_well c (run_exists V S fs args c)" "ends_well c (run_keys V S fs args c)"
  "ends_well c (run_stats V S fs args c)" "ends_well c (run_info V S fs args c)"
proof -
  show "ends_well c (run_ping V S fs args c)" by (auto simp: run_ping_def split: prod.split sum.split)
  show "ends_well c (run_get V S fs args c)" by (auto simp: run_get_def split: prod.split sum.split list.split option.split)
  show "ends_well c (run_set V S fs args c)"
    by (auto simp: run_set_def Let_def split: prod.split sum.split dest!: set_operands_error)
  show "ends_well c (run_del V S fs args c)" "ends_well c (run_exists V S fs args c)"
    by (simp_all add: run_del_def run_exists_def counting_ends)
  show "ends_well c (run_keys V S fs args c)" by (auto simp: run_keys_def split: prod.split sum.split list.split)
  show "ends_well c (run_stats V S fs args c)" by (auto simp: run_stats_def split: prod.split sum.split)
  show "ends_well c (run_info V S fs args c)" by (auto simp: run_info_def split: prod.split sum.split)
qed

lemma scan_ends: "run_scan V S fs args c = Some r \<Longrightarrow> ends_well c r"
  by (auto simp: run_scan_def Let_def split: if_split_asm) (rename_tac a b, case_tac a, auto)

lemma command_ends:
  assumes "cmd \<in> set ctl_commands" "cm_run cmd V S fs args c = Some r" shows "ends_well c r"
  using assms
  by (auto simp: ctl_commands_def ping_command_def get_command_def set_command_def del_command_def exists_command_def
      keys_command_def scan_command_def stats_command_def info_command_def commands_end scan_ends)

text \<open>So does a run.\<close>

lemma new_client_error: "ctl_new_client V g token = Inl e \<Longrightarrow> \<exists>m. e = usage_error m"
  by (auto simp: ctl_new_client_def ctl_tls_config_def split: if_splits sum.splits)

lemma help_ends: "help_result V rest = (r, said) \<Longrightarrow> cr_data r \<noteq> None \<and> cr_text r \<noteq> None"
  by (auto simp: help_result_def Let_def command_help_result_def split: list.split_asm option.split_asm)

lemma execute_command_ends:
  assumes "execute_command V S cmd json ws c = Some ((i, said), c')" "cmd \<in> set ctl_commands"
  shows "ends_well c ((in_res i, in_err i), c')"
proof (cases "parse_flags (ct_flags V) (global_flags @ cm_flags cmd) (permute (global_flags @ cm_flags cmd) ws)")
  case (Inl e)
  then show ?thesis using assms(1)
    by (cases e) (auto simp: execute_command_def Let_def ends_well_def command_help_result_def usage_error_def)
next
  case (Inr p)
  obtain fs' operands where p: "p = (fs', operands)" by (metis surj_pair)
  obtain token said' where t: "resolve_token V (globals_of fs') = (token, said')" by (metis surj_pair)
  show ?thesis
  proof (cases "ctl_new_client V (globals_of fs') token")
    case (Inl e)
    then show ?thesis using assms(1) Inr p t new_client_error [OF Inl]
      by (auto simp: execute_command_def Let_def ends_well_def usage_error_def)
  next
    case (Inr cl)
    then obtain res err where "cm_run cmd V (S cl (ctl_deadline (globals_of fs'))) fs' operands c = Some ((res, err), c')"
        "i = \<lparr>in_command = cm_name cmd, in_asJSON = g_asJSON (globals_of fs'), in_res = res, in_err = err\<rparr>"
      using assms(1) \<open>parse_flags _ _ _ = Inr p\<close> p t by (auto simp: execute_command_def Let_def)
    then show ?thesis using command_ends [OF assms(2)] by fastforce
  qed
qed

lemma lookup_in: "lookup_command name = Some cmd \<Longrightarrow> cmd \<in> set ctl_commands \<and> cm_name cmd = name"
  by (auto simp: lookup_command_def dest!: find_SomeD)

lemma execute_ends:
  assumes "execute V S args c = Some ((i, said), c')"
  shows "ends_well c ((in_res i, in_err i), c')"
proof -
  obtain before name rest where s: "split_command args = (before, name, rest)" by (metis prod_cases3)
  consider (help_) "name = nameHelp \<or> contains before [''--'' @ nameHelp, ''-'' @ nameHelp, ''-h'']"
    | (command_) cmd where "lookup_command name = Some cmd" "execute_command V S cmd (wants_json args) (before @ rest) c = Some ((i, said), c')"
    | (other_) "\<not> (name = nameHelp \<or> contains before [''--'' @ nameHelp, ''-'' @ nameHelp, ''-h''])"
        "name = nameVersion \<or> contains before [''--'' @ nameVersion, ''-'' @ nameVersion, ''-v''] \<or> name = [] \<or> lookup_command name = (None :: 'a ctl_command option)"
    using assms s by (auto simp: execute_def Let_def split: if_split_asm option.split_asm)
  then show ?thesis
  proof cases
    case help_
    obtain r sd where "help_result V rest = (r, sd)" by (metis surj_pair)
    then show ?thesis using assms s help_ help_ends by (auto simp: execute_def Let_def ends_well_def)
  next
    case command_
    then show ?thesis using execute_command_ends lookup_in by metis
  next
    case other_
    then show ?thesis using assms s
      by (auto simp: execute_def Let_def ends_well_def version_result_def usage_error_def split: if_split_asm option.split_asm)
  qed
qed

section \<open>Exit codes\<close>

definition all_kinds :: "bytes list" where
  "all_kinds = [kindUsage, kindConnection, kindTimeout, kindAuth, kindServer, kindProtocol, kindNotFound, kindClosed, kindCanceled, kindError]"

definition unreachable :: "client_error \<Rightarrow> bool" where
  "unreachable e \<longleftrightarrow> retryable e \<or> Category e = None \<and> Err e = Some ContextDeadlineExceeded"

lemma classify_sdk:
  "classify (SdkError e) = (k, kind) \<Longrightarrow> k \<in> {1, 3} \<and> (k = 3 \<longleftrightarrow> unreachable e) \<and> kind \<in> set all_kinds"
  by (cases "Category e"; cases "Err e"; cases "the (Category e)")
     (auto simp: exitConnection_def exitFailure_def unreachable_def retryable_def is_category_def unwrap_def all_kinds_def
       split: if_split_asm)

text \<open>
  C37. A script may go by the exit code. It is one of 0, 1, 2 and 3; text goes to stdout only with 0, and
  whatever is not 0 comes with a line on stderr or with the JSON object. The object, printed exactly
  when JSON was asked for, is \<open>ok\<close> exactly when the code is 0, and its error carries the code and one of
  ten kinds. A code of 2 says the line could not be run as given, and then the server was not touched;
  3 says the server could not be reached or did not answer in time, and nothing else does.
\<close>

theorem exit_code_contract:
  assumes "execute V S args c = Some ((i, said), c')" and "ct_writeFails V = None" and "oc = report V (i, said)"
  shows "ctl_run V S args c = Some (oc, c') \<and> oc_code oc \<in> {0, 1, 2, 3}
    \<and> ((\<exists>s. oc_stdout oc = OutText s) \<longrightarrow> oc_code oc = 0)
    \<and> (oc_code oc \<noteq> 0 \<and> \<not> in_asJSON i \<longrightarrow> oc_stderr oc \<noteq> [])
    \<and> (in_asJSON i \<longleftrightarrow> (\<exists>e. oc_stdout oc = OutJson e))
    \<and> (\<forall>e. oc_stdout oc = OutJson e \<longrightarrow> (en_OK e \<longleftrightarrow> oc_code oc = 0)
        \<and> (case en_Error e of None \<Rightarrow> oc_code oc = 0 | Some je \<Rightarrow> je_Code je = oc_code oc \<and> oc_code oc \<noteq> 0 \<and> je_Kind je \<in> set all_kinds))
    \<and> (oc_code oc = 2 \<longrightarrow> c' = c)
    \<and> (oc_code oc = 3 \<longleftrightarrow> (\<exists>e. in_err i = Some (SdkError e) \<and> unreachable e))"
proof -
  note w = execute_ends [OF assms(1)]
  have run: "ctl_run V S args c = Some (oc, c')" using assms(1,3) by (simp add: ctl_run_def)
  note d = report_def report_error_def report_success_def ctl_write_json_def Let_def assms(2) exitOK_def exitFailure_def exitUsage_def
  show ?thesis
  proof (cases "in_err i")
    case None
    then obtain t where "cr_text (in_res i) = Some t" using w by (auto simp: ends_well_def)
    then show ?thesis using None run by (simp add: assms(3) d)
  next
    case (Some e)
    show ?thesis
    proof (cases e)
      case (CliError k kind m)
      then have "k = 2 \<and> kind = kindUsage \<and> c' = c \<or> k = 1 \<and> kind = kindNotFound"
        using w Some by (simp add: ends_well_def exitUsage_def exitFailure_def)
      then show ?thesis using run Some CliError by (auto simp: assms(3) d all_kinds_def)
    next
      case (SdkError x)
      obtain k kind where k: "classify (SdkError x) = (k, kind)" by (metis surj_pair)
      then show ?thesis using run Some SdkError classify_sdk [OF k] by (auto simp: assms(3) d simp del: classify.simps)
    qed
  qed
qed

text \<open>An SDK over a map, to try things on.\<close>

definition map_sdk :: "(bytes \<rightharpoonup> bytes) sdk" where
  "map_sdk =
     \<lparr>sdk_Ping = \<lambda>m. (Inr (), m), sdk_Get = \<lambda>k m. (Inr (m k), m), sdk_Set = \<lambda>k v d m. (Inr (), m(k \<mapsto> v)),
      sdk_Del = \<lambda>ks m. (Inr (int (length (filter (\<lambda>k. m k \<noteq> None) (remdups ks)))), m |` (- set ks)),
      sdk_Exists = \<lambda>ks m. (Inr (int (length (filter (\<lambda>k. m k \<noteq> None) ks))), m), sdk_Keys = \<lambda>p m. (Inr [], m),
      sdk_Scan = \<lambda>cur p n m. (Inr (''0'', []), m), sdk_Stats = \<lambda>m. (Inr [], m), sdk_Info = \<lambda>ss m. (Inr [], m)\<rparr>"

definition plain_ctl :: ctl_env where
  "plain_ctl =
     \<lparr>ct_stdin = Inr [], ct_tty = False, ct_token = [], ct_writeFails = None, ct_readFile = \<lambda>_. Inl [], ct_pem = \<lambda>_. False,
      ct_flags = \<lparr>fx_duration = \<lambda>_. None, fx_int = \<lambda>_. Inl [], fx_quote = id\<rparr>, ct_duration = format_int, ct_elapsed = 0,
      ct_version = ''1'', ct_commit = [], ct_date = []\<rparr>"

section \<open>A plain command line\<close>

lemma plain_globals: "globals_of (global_flags @ own) = globals_of global_flags"
  by (simp add: globals_of_def global_flags_def)

lemma plain_client:
  "\<exists>cl. ctl_new_client V (globals_of global_flags) token = Inr cl \<and> cl_retries cl = 0"
  by (simp add: ctl_new_client_def ctl_tls_config_def globals_of_def global_flags_def defaultTimeout_def defaultAddr_def
      new_client_def with_addr_def with_pool_size_def with_dial_timeout_def with_read_timeout_def with_write_timeout_def
      with_reconnect_window_def with_auth_def)

lemma execute_plain:
  assumes "lookup_command name = Some cmd" "\<not> flag_like name" "name \<noteq> nameHelp" "name \<noteq> nameVersion" "name \<noteq> []"
    and "permute (global_flags @ cm_flags cmd) ws = operands" "operands = [] \<or> \<not> flag_like (hd operands)"
  obtains cl where "cl_retries cl = 0"
    "execute V S (name # ws) c
      = map_option (\<lambda>((res, err), c'). ((\<lparr>in_command = name, in_asJSON = False, in_res = res, in_err = err\<rparr>, []), c'))
          (cm_run cmd V (S cl (Some defaultTimeout)) (global_flags @ cm_flags cmd) operands c)"
proof -
  have "name \<noteq> ''--''" using assms(2) by (auto simp: flag_like_def)
  then have s: "split_command (name # ws) = ([], name, ws)" using assms(2) by (simp add: split_command_def)
  have g: "g_auth (globals_of global_flags) = []" "g_asJSON (globals_of global_flags) = False"
    "ctl_deadline (globals_of global_flags) = Some defaultTimeout"
    by (simp_all add: globals_of_def global_flags_def ctl_deadline_def defaultTimeout_def)
  obtain cl where cl: "ctl_new_client V (globals_of global_flags) (ct_token V) = Inr cl" "cl_retries cl = 0"
    using plain_client by blast
  have "execute V S (name # ws) c = execute_command V S cmd (wants_json (name # ws)) ws c"
    using assms(1,3-5) by (simp add: execute_def s contains_def Let_def)
  also have "\<dots> = map_option (\<lambda>((res, err), c'). ((\<lparr>in_command = name, in_asJSON = False, in_res = res, in_err = err\<rparr>, []), c'))
          (cm_run cmd V (S cl (Some defaultTimeout)) (global_flags @ cm_flags cmd) operands c)"
    using lookup_in [OF assms(1)]
    by (simp add: execute_command_def assms(6) parse_operands [OF assms(7)] plain_globals resolve_token_def g cl(1) Let_def)
  finally show thesis using that cl(2) by blast
qed

lemma lookups:
  "lookup_command ''get'' = Some get_command" "lookup_command ''set'' = Some set_command"
  by (simp_all add: lookup_command_def ctl_commands_def ping_command_def get_command_def set_command_def)

lemma get_line:
  assumes "\<not> flag_like k"
  obtains cl where "cl_retries cl = 0"
    "execute V S [''get'', k] c
      = map_option (\<lambda>((res, err), c'). ((\<lparr>in_command = ''get'', in_asJSON = False, in_res = res, in_err = err\<rparr>, []), c'))
          (Some (run_get V (S cl (Some defaultTimeout)) global_flags [k] c))"
proof -
  have k: "k \<noteq> ''--''" using assms by (auto simp: flag_like_def)
  have "permute (global_flags @ cm_flags get_command) [k] = [k]" using assms k by (simp add: permute_def)
  from execute_plain [OF lookups(1) _ _ _ _ this, of V S c] that show thesis
    using assms by (simp add: flag_like_def nameHelp_def nameVersion_def get_command_def) blast
qed

lemma set_line:
  assumes "\<not> flag_like k"
  obtains cl where "cl_retries cl = 0"
    "execute V S [''set'', k, ''--'', v] c
      = map_option (\<lambda>((res, err), c'). ((\<lparr>in_command = ''set'', in_asJSON = False, in_res = res, in_err = err\<rparr>, []), c'))
          (Some (run_set V (S cl (Some defaultTimeout)) (global_flags @ cm_flags (set_command :: 'c ctl_command)) [k, v] c))"
proof -
  have k: "k \<noteq> ''--''" using assms by (auto simp: flag_like_def)
  have "permute (global_flags @ cm_flags set_command) [k, ''--'', v] = [k, v]" using assms k by (simp add: permute_def)
  from execute_plain [OF lookups(2) _ _ _ _ this, of V S c] that show thesis
    using assms by (simp add: flag_like_def nameHelp_def nameVersion_def set_command_def) blast
qed

lemma exit_code_contract_witness:
  "\<exists>oc m. ctl_run plain_ctl (\<lambda>_ _. map_sdk) [''get'', ''k''] Map.empty = Some (oc, m) \<and> oc_code oc = 1 \<and> oc_stderr oc \<noteq> []"
proof -
  have "\<not> flag_like ''k''" by (simp add: flag_like_def)
  from get_line [OF this, of plain_ctl "\<lambda>_ _. map_sdk" Map.empty]
  have e: "execute plain_ctl (\<lambda>_ _. map_sdk) [''get'', ''k''] Map.empty
      = Some ((\<lparr>in_command = ''get'', in_asJSON = False, in_res = \<lparr>cr_data = Some (GetData ''k'' False None []), cr_text = None\<rparr>,
          in_err = Some (not_found_error id ''k'')\<rparr>, []), Map.empty)"
    by (auto simp: run_get_def map_sdk_def plain_ctl_def)
  have "ct_writeFails plain_ctl = None" by (simp add: plain_ctl_def)
  from exit_code_contract [OF e this refl] show ?thesis
    by (auto simp: report_def report_error_def not_found_error_def Let_def exitFailure_def)
qed

section \<open>A scan\<close>

text \<open>
  The pages a scan is answered with: page \<open>i\<close> is asked for with cursor \<open>cur i\<close> in state \<open>st i\<close>.
\<close>

definition scan_answers :: "'c sdk \<Rightarrow> bytes \<Rightarrow> int \<Rightarrow> (nat \<Rightarrow> bytes) \<Rightarrow> (nat \<Rightarrow> bytes list) \<Rightarrow> (nat \<Rightarrow> 'c) \<Rightarrow> bool" where
  "scan_answers S p n cur ks st \<longleftrightarrow> (\<forall>i. sdk_Scan S (cur i) p n (st i) = (Inr (cur (Suc i), ks i), st (Suc i)))"

lemma scan_pages_ends:
  assumes "scan_answers S p n cur ks st" "\<forall>j. i \<le> j \<and> j < m \<longrightarrow> cur (Suc j) \<noteq> ScanStart" "cur (Suc m) = ScanStart" "i \<le> m"
  shows "scan_pages S p n (cur i) acc (st i) = Some (Inr (ScanStart, acc @ concat (map ks [i..<Suc m])), st (Suc m))"
  using assms(2,4)
proof (induction "m - i" arbitrary: i acc)
  case 0
  then have "i = m" by simp
  then show ?case using assms(1,3) by (simp add: scan_pages.simps [of S p n "cur m"] scan_answers_def scan_done_def)
next
  case (Suc k)
  then have "i < m" by linarith
  then have "scan_pages S p n (cur (Suc i)) (acc @ ks i) (st (Suc i))
      = Some (Inr (ScanStart, (acc @ ks i) @ concat (map ks [Suc i..<Suc m])), st (Suc m))"
    using Suc.prems Suc.hyps(2) by (intro Suc.hyps(1)) auto
  moreover have "[i..<Suc m] = i # [Suc i..<Suc m]" using \<open>i < m\<close> by (simp add: upt_conv_Cons)
  ultimately show ?case
    using assms(1) Suc.prems(1) \<open>i < m\<close> by (simp add: scan_pages.simps [of S p n "cur i"] scan_answers_def scan_done_def)
qed

lemma scan_pages_returned:
  "scan_pages S p n c0 acc s0 = Some y \<Longrightarrow>
     \<forall>cur ks st i. scan_answers S p n cur ks st \<longrightarrow> c0 = cur i \<longrightarrow> s0 = st i \<longrightarrow> (\<exists>m \<ge> i. cur (Suc m) = ScanStart)"
proof (erule scan_pages.raw_induct [rotated], intro allI impI, goal_cases)
  case (1 f S p n c0 acc s0 y cur ks st i)
  have a: "sdk_Scan S c0 p n s0 = (Inr (cur (Suc i), ks i), st (Suc i))" using 1(3-5) by (simp add: scan_answers_def)
  show ?case
  proof (cases "cur (Suc i) = ScanStart")
    case False
    then have "f S p n (cur (Suc i)) (acc @ ks i) (st (Suc i)) = Some y" using 1(2) a by (simp add: scan_done_def)
    then have "\<exists>m \<ge> Suc i. cur (Suc m) = ScanStart" using 1(1,3) by blast
    then show ?thesis using Suc_leD by blast
  qed auto
qed


text \<open>Three pages of one key each, then the cursor 0 with a last key.\<close>

definition paging_sdk :: "nat sdk" where
  "paging_sdk =
     \<lparr>sdk_Ping = \<lambda>i. (Inr (), i), sdk_Get = \<lambda>k i. (Inr None, i), sdk_Set = \<lambda>k v d i. (Inr (), i), sdk_Del = \<lambda>ks i. (Inr 0, i),
      sdk_Exists = \<lambda>ks i. (Inr 0, i), sdk_Keys = \<lambda>p i. (Inr [], i),
      sdk_Scan = \<lambda>cur p n i. (Inr (if i = 3 then ''0'' else ''7'', [format_nat i]), Suc i),
      sdk_Stats = \<lambda>i. (Inr [], i), sdk_Info = \<lambda>ss i. (Inr [], i)\<rparr>"


section \<open>What is set is what is printed\<close>

text \<open>What the program relies on of the SDK: a value is held after a \<open>Set\<close> that worked, and a value that
  is held is what \<open>Get\<close> answers.\<close>

lemma run_set_plain:
  "run_set V S (global_flags @ cm_flags (set_command :: 'c ctl_command)) [k, v] c
   = (case sdk_Set S k v 0 c of
        (Inl e, c') \<Rightarrow> (failed (SdkError e), c')
      | (Inr _, c') \<Rightarrow> (produced (SetData k None (int (length v))) (TextLine ''OK''), c'))"
proof -
  have f: "flag_int (map_of (global_flags @ cm_flags (set_command :: 'c ctl_command)) ''ttl'') = 0"
    "flag_bool (map_of (global_flags @ cm_flags (set_command :: 'c ctl_command)) ''stdin'') = False"
    by (simp_all add: global_flags_def set_command_def)
  show ?thesis unfolding run_set_def f Let_def by (simp add: set_operands_def)
qed

locale kv_sdk =
  fixes S :: "client \<Rightarrow> int option \<Rightarrow> 'c sdk" and ready :: "bytes \<Rightarrow> bytes \<Rightarrow> 'c \<Rightarrow> bool" and holds :: "bytes \<Rightarrow> bytes \<Rightarrow> 'c \<Rightarrow> bool"
  assumes set_holds: "cl_retries cl = 0 \<Longrightarrow> ready k v c \<Longrightarrow> sdk_Set (S cl d) k v 0 c = (Inr u, c') \<Longrightarrow> holds k v c'"
    and get_holds: "cl_retries cl = 0 \<Longrightarrow> holds k v c \<Longrightarrow> fst (sdk_Get (S cl d) k c) = Inr (Some v)"

context kv_sdk
begin

lemma set_succeeds_holds:
  assumes "\<not> flag_like k" "ready k v c" "ctl_run V S [''set'', k, ''--'', v] c = Some (oc, c')" "oc_code oc = 0"
  shows "holds k v c'"
proof -
  obtain cl where cl: "cl_retries cl = 0" "execute V S [''set'', k, ''--'', v] c
      = map_option (\<lambda>((res, err), c'). ((\<lparr>in_command = ''set'', in_asJSON = False, in_res = res, in_err = err\<rparr>, []), c'))
          (Some (run_set V (S cl (Some defaultTimeout)) (global_flags @ cm_flags (set_command :: 'c ctl_command)) [k, v] c))"
    using set_line [OF assms(1), of V S v c] by blast
  note line = cl(2) [unfolded run_set_plain]
  obtain x c1 where x: "sdk_Set (S cl (Some defaultTimeout)) k v 0 c = (x, c1)" by (metis surj_pair)
  show ?thesis
  proof (cases x)
    case (Inl err)
    obtain m kind where "classify (SdkError err) = (m, kind)" by (metis surj_pair)
    then have "oc_code oc \<noteq> 0" using assms(3) x Inl line classify_sdk [of err m kind]
      by (auto simp: ctl_run_def failed_def report_def report_error_def ctl_write_json_def Let_def exitFailure_def
          simp del: classify.simps)
    then show ?thesis using assms(4) by simp
  next
    case (Inr u)
    then have "c' = c1" using assms(3) x line by (auto simp: ctl_run_def produced_def)
    then show ?thesis using set_holds [OF cl(1) assms(2)] x Inr by simp
  qed
qed

lemma get_prints_held:
  assumes "\<not> flag_like k" "holds k v c" "ct_writeFails V = None" "\<not> ct_tty V"
  shows "\<exists>c'. ctl_run V S [''get'', k] c = Some (\<lparr>oc_code = 0, oc_stdout = OutText v, oc_stderr = []\<rparr>, c')"
proof -
  obtain cl where cl: "cl_retries cl = 0" "execute V S [''get'', k] c
      = map_option (\<lambda>((res, err), c'). ((\<lparr>in_command = ''get'', in_asJSON = False, in_res = res, in_err = err\<rparr>, []), c'))
          (Some (run_get V (S cl (Some defaultTimeout)) global_flags [k] c))"
    using get_line [OF assms(1), of V S c] by blast
  obtain c1 where "sdk_Get (S cl (Some defaultTimeout)) k c = (Inr (Some v), c1)"
    using get_holds [OF cl(1) assms(2)] by (metis prod.collapse)
  then show ?thesis
    using assms(3,4) cl(2) by (simp add: ctl_run_def run_get_def produced_def report_def report_success_def Let_def exitOK_def)
qed

end

end
