(* ===== verification/Ctl_Wire.thy ===== *)
theory Ctl_Wire
  imports Ctl_Spec Client_Wire
begin

text \<open>
  \<open>atlasctl\<close> against the server: the SDK whose calls go over the wire, and what one invocation prints
  after another, on another connection, has set it.
\<close>

section \<open>The SDK over the wire\<close>

definition after_call :: "'x platform \<Rightarrow> 'f float_ops \<Rightarrow> turn \<Rightarrow> bytes list \<Rightarrow> session \<times> 'w server \<Rightarrow> session \<times> 'w server" where
  "after_call P F tn command c = snd (server_answer P F tn (append_command [] command) (fst c) (snd c))"

definition wire_sdk ::
    "'x platform \<Rightarrow> 'f float_ops \<Rightarrow> (bytes \<Rightarrow> bytes) \<Rightarrow> ((bytes \<times> 'f creply) list \<Rightarrow> (bytes \<times> 'f creply) list) \<Rightarrow> turn \<Rightarrow>
     client \<Rightarrow> int option \<Rightarrow> (session \<times> 'w server) sdk" where
  "wire_sdk P F quote ord tn cl d =
     (let call = \<lambda>c. wire_call P F quote tn cl (fst c) (snd c); next_state = after_call P F tn
      in \<lparr>sdk_Ping = \<lambda>c. (client_ping (call c), next_state [''PING''] c),
          sdk_Get = \<lambda>k c. (client_get (call c) k, next_state [''GET'', k] c),
          sdk_Set = \<lambda>k v ttl c. (client_set (call c) k v ttl,
             case expiry_args ttl of Inl _ \<Rightarrow> c | Inr ex \<Rightarrow> next_state (''SET'' # [k, v] @ ex) c),
          sdk_Del = \<lambda>ks c. (client_del quote (call c) ks, if ks = [] then c else next_state (''DEL'' # ks) c),
          sdk_Exists = \<lambda>ks c. (client_exists quote (call c) ks, if ks = [] then c else next_state (''EXISTS'' # ks) c),
          sdk_Keys = \<lambda>p c. (client_keys (call c) p, next_state [''KEYS'', p] c),
          sdk_Scan = \<lambda>cur p n c. (client_scan (o_addr (cl_opts cl)) (call c) cur p n,
             next_state (''SCAN'' # [if cur = [] then ScanStart else cur] @ (if p \<noteq> [] then [''MATCH'', p] else [])
               @ (if n > 0 then [''COUNT'', format_int n] else [])) c),
          sdk_Stats = \<lambda>c. (client_stats quote ord (call c), next_state [''STATS''] c),
          sdk_Info = \<lambda>ss c. (client_info (call c) ss, next_state (''INFO'' # ss) c)\<rparr>)"

section \<open>It keeps the contract\<close>

definition wire_open :: "(bytes \<Rightarrow> u64) \<Rightarrow> session \<times> world server \<Rightarrow> bool" where
  "wire_open hash c \<longleftrightarrow> srv_store (snd c) = keyspace hash \<and> open_engine hash (w_engine (srv_world (snd c)))
     \<and> \<not> session_auth_required (fst c) (snd c)"

definition wire_ready :: "(bytes \<Rightarrow> u64) \<Rightarrow> bytes \<Rightarrow> bytes \<Rightarrow> session \<times> world server \<Rightarrow> bool" where
  "wire_ready hash k v c \<longleftrightarrow> wire_open hash c \<and> request_fits (srv_codecLimits (snd c)) [''SET'', k, v] \<and> bulk_fits v"

definition wire_holds :: "(bytes \<Rightarrow> u64) \<Rightarrow> bytes \<Rightarrow> bytes \<Rightarrow> session \<times> world server \<Rightarrow> bool" where
  "wire_holds hash k v c \<longleftrightarrow> wire_open hash c \<and> request_fits (srv_codecLimits (snd c)) [''GET'', k] \<and> bulk_fits v
     \<and> bound_to hash k (Some v) (w_engine (srv_world (snd c)))"

lemma set_stored_holds:
  fixes srv :: "world server"
  assumes "wire_ready hash k v (s, srv)"
    and "dispatch P t \<lparr>cmd_name = ''SET'', cmd_args = [k, v]\<rparr> s srv = ((SimpleString ''OK'' :: unit reply, False), s', srv')"
  shows "wire_holds hash k v (s', srv')"
proof -
  have st: "srv_store srv = keyspace hash" "open_engine hash (w_engine (srv_world srv))" "\<not> session_auth_required s srv"
    using assms(1) by (simp_all add: wire_ready_def wire_open_def)
  obtain r srv1 where r: "on_store (\<lambda>st. kv_Set st k v 0) (count_command srv) = (r, srv1)" by fastforce
  have e: "r = None" "srv' = srv1" "s' = s"
    using assms(2) dispatch_set [OF st(3) r, of P t, where 'h = unit] store_failure_not_ok [symmetric] by (auto split: option.splits)
  then have k: "kv_Set (keyspace hash) k v 0 (srv_world srv) = (None, srv_world srv')" "srv_store srv' = keyspace hash"
    using r st(1) by (auto simp: on_store_def count_command_def split: prod.splits)
  have "bound_to hash k (Some v) (w_engine (srv_world srv'))" "open_engine hash (w_engine (srv_world srv'))"
    using engine_store.set_binds [OF st(2) k(1)] engine_store.writes [OF st(2), of "srv_world srv'" k v 0 k "Some v"] k(1) by auto
  moreover have "same_server srv srv'" using dispatch_same [OF assms(2)] .
  ultimately show ?thesis
    using assms(1) k(2) e(3) st(3)
    by (auto simp: wire_holds_def wire_open_def wire_ready_def request_fits_def same_server_def session_auth_required_def)
qed

lemma get_held_answers:
  fixes F :: "'f float_ops"
  assumes "wire_holds hash k v (s, srv)" "cl_retries cl = 0"
  shows "client_get (wire_call P F quote tn cl s srv) k = Inr (Some v)"
proof -
  have st: "srv_store srv = keyspace hash" "open_engine hash (w_engine (srv_world srv))" "\<not> session_auth_required s srv"
    and b: "bound_to hash k (Some v) (w_engine (srv_world srv))" "request_fits (srv_codecLimits srv) [''GET'', k]" "bulk_fits v"
    using assms(1) by (simp_all add: wire_holds_def wire_open_def)
  obtain r srv3 where r: "on_store (\<lambda>st. kv_Get st k) (count_command srv) = (r, srv3)" by fastforce
  note g = dispatch_get [OF st(3) r, of P "tn_readings tn"]
  have "fst (fst (dispatch P (tn_readings tn) \<lparr>cmd_name = ''GET'', cmd_args = [k]\<rparr> s srv)) = (BulkString v :: unit reply)"
    using engine_store.get_after [OF st(1,2) b(1) st(3)] by simp
  then have "r = Some v" using g [where 'h = unit] by (simp split: option.splits)
  then have "dispatch P (tn_readings tn) \<lparr>cmd_name = ''GET'', cmd_args = [k]\<rparr> s srv = ((BulkString v :: 'f reply, False), s, srv3)"
    using g [where 'h = 'f] by simp
  then have "wire_call P F quote tn cl s srv idempotent ''GET'' [k] = Inr (as_client F (BulkString v))"
    using wire_call_answers [of srv "''GET''" "[k]" P tn s "BulkString v" False s srv3 F cl quote idempotent] b(2,3) assms(2)
    by (simp add: cmdDo_def str_reply_def)
  then show ?thesis by (simp add: client_get_def is_nil_def reply_bytes_def str_reply_def)
qed

interpretation wire: kv_sdk "wire_sdk P F quote ord tn" "wire_ready hash" "wire_holds hash" for P F quote ord tn hash
proof (unfold_locales, goal_cases)
  case (1 cl k v c d u c')
  obtain s srv where c: "c = (s, srv)" by (metis surj_pair)
  have x: "expiry_args 0 = Inr []" by (simp add: expiry_args_def)
  then have "client_set (wire_call P F quote tn cl s srv) k v 0 = Inr ()"
    "server_answer P F tn (append_command [] [''SET'', k, v]) s srv = (fst (server_answer P F tn (append_command [] [''SET'', k, v]) s srv), fst c', snd c')"
    using 1(3) by (auto simp: wire_sdk_def Let_def c after_call_def)
  then show ?case
    using set_stored_holds [of hash k v s srv P "tn_readings tn" "fst c'" "snd c'"] 1(1,2) c
      client_set_stored [of srv k v cl s P F quote tn _ "fst c'" "snd c'", where 'g = unit]
    by (simp add: wire_ready_def wire_open_def)
next
  case (2 cl k v c d)
  then show ?case using get_held_answers [of hash k v "fst c" "snd c" cl P F quote tn] by (simp add: wire_sdk_def Let_def)
qed

lemma holds_survives:
  assumes "wire_holds hash k v (s, srv)" "list_all (\<lambda>ev. \<not> event_writes k ev) evs"
    and "run_events P rd ks_reclaim evs (ss, srv) = (ss', srv2)" "\<not> session_auth_required s2 srv2"
  shows "wire_holds hash k v (s2, srv2)"
proof -
  have st: "srv_store srv = keyspace hash" "open_engine hash (w_engine (srv_world srv))"
    and b: "bound_to hash k (Some v) (w_engine (srv_world srv))" "request_fits (srv_codecLimits srv) [''GET'', k]" "bulk_fits v"
    using assms(1) by (simp_all add: wire_holds_def wire_open_def)
  have "engine_store.steady hash k (Some v) srv srv2"
    using engine_store.steady_run_events [OF assms(2), of hash "Some v" "(ss, srv)" P rd] assms(3) by simp
  moreover have "same_server srv srv2" using assms(3) by (rule run_events_same)
  ultimately show ?thesis
    using st b assms(4) by (simp add: wire_holds_def wire_open_def engine_store.steady_def same_server_def)
qed

section \<open>End to end\<close>



end
