(* ===== verification/Spec2Isabelle.thy ===== *)
theory Spec2Isabelle
  imports Engine_Spec Scan_Spec Ttl_Spec Wire_Spec Framing Info_Spec Keyspace_Spec Serve_Spec Transport_Spec
    Client_Pool_Spec Client_Wire Boot_Spec Admin_Spec
    Config_Defaults Daemon Ctl_Wire
begin

text \<open>
  AtlasCache is an in-memory key-value cache that speaks RESP2: a daemon (\<open>cmd/atlascache\<close>), a Go client
  (\<open>pkg/client\<close>) and a command line client built on it (\<open>cmd/atlasctl\<close>). This development models the
  program's own code from the configuration file to the exit code, translated from the source
  function by function, and proves what its parts promise each other.

  \<^bold>\<open>How the parts interact.\<close> \<open>run\<close> loads and validates a configuration, builds the engine, its eviction
  controller and its time wheel, the client server and the admin server, and takes them down again.
  A connection's goroutine decodes requests (\<open>internal/protocol\<close>), dispatches them
  (\<open>internal/server\<close>) on a \<open>Store\<close>, which the adapter \<open>keyspace.go\<close> makes of the sharded engine
  (\<open>internal/storage\<close>), and encodes the replies. The engine asks the controller (\<open>internal/eviction\<close>)
  for victims when a write does not fit, and hands deadlines to the wheel (\<open>internal/ttl\<close>), which calls
  it back when they are due. The Go client pools connections, encodes commands, retries them and
  decodes replies; \<open>atlasctl\<close> turns a command line into one call of it.

  \<^bold>\<open>Theories and what they model.\<close> Files are under \<open>src/\<close>; definitions carry the names of the code,
  with a prefix where a name is taken.

  \<^item> Shared: \<open>Prelude\<close> (machine integers, association lists), \<open>Go_Lib\<close> (\<open>strconv\<close>, \<open>strings\<close>), \<open>Go_Reader\<close>
    (\<open>bufio\<close>), \<open>Go_Flags\<close> (\<open>flag\<close>).
  \<^item> Storage, \<open>internal/storage\<close>: \<open>Entry\<close>, \<open>Memory\<close>, \<open>Glob\<close>, \<open>Shard\<close>, \<open>Scan\<close> and \<open>Engine\<close> model the files of these
    names. A map is an association list, a shard the record of its fields, an operation a function
    of the clock readings and range orders it sees.
  \<^item> Eviction and expiry: \<open>Eviction\<close> (\<open>eviction.go\<close>), \<open>Wheel\<close> (\<open>wheel.go\<close>), \<open>Ttl_Manager\<close> (\<open>manager.go\<close>, \<open>ttl.go\<close>).
  \<^item> Wire format: \<open>Resp\<close> (\<open>resp.go\<close>, decoding requests), \<open>Reply\<close> (\<open>reply.go\<close>, \<open>encode_resp2.go\<close>), \<open>Client_Resp\<close>
    (the client's own codec).
  \<^item> Server, \<open>internal/server\<close>: \<open>Conn_Limits\<close>, \<open>Auth\<close>, \<open>Session\<close> (the \<open>Store\<close> interface, server and session
    state), \<open>Info\<close>, \<open>Commands\<close> (every handler, the dispatch table, the gate), \<open>Framing\<close>, \<open>Serve\<close> (the loop of
    a connection, its output buffer and byte budget), \<open>Transport\<close> (accept loop, admission, drain and
    shutdown, as a step relation), \<open>Certificates\<close> (\<open>tls.go\<close>).
  \<^item> Configuration, \<open>internal/config\<close>: \<open>Config\<close>, \<open>Config_Validate\<close>, \<open>Config_Defaults\<close>, \<open>Config_Redact\<close>,
    \<open>Config_Watch\<close> (loading and hot reload, as a step relation).
  \<^item> Admin API, \<open>internal/admin\<close> and \<open>adminapi.go\<close>: \<open>Admin\<close>.
  \<^item> Daemon, \<open>cmd/atlascache\<close>: \<open>Keyspace\<close> (the engine as the store), \<open>Boot\<close> (from a configuration to a
    server, and what a reload changes), \<open>Daemon\<close> (the life of the process).
  \<^item> Go client, \<open>pkg/client\<close>: \<open>Client_Errors\<close>, \<open>Client_Values\<close>, \<open>Client_Calls\<close> (options, commands, retries),
    \<open>Client_Conn\<close> (one connection), \<open>Client_Pool\<close> (the pool, as a step relation).
  \<^item> \<open>atlasctl\<close>, \<open>cmd/atlasctl\<close>: \<open>Ctl_Args\<close> (\<open>cli.go\<close>, flags and operands), \<open>Ctl_Output\<close> (\<open>output.go\<close>,
    \<open>errors.go\<close>), \<open>Ctl\<close> (\<open>commands.go\<close>), \<open>Ctl_Run\<close> (help, the client asked for, one run).

  \<^bold>\<open>What the lemmas show.\<close>

  \<^item> \<open>Shard_Inv\<close>, \<open>Engine_Inv\<close>: bytes are accounted exactly and never exceed the limit, whatever the policy;
    \<open>Shard_Spec\<close>, \<open>Engine_Spec\<close>: shard and engine refine a map with expiry, and a write that can be made
    room for succeeds. \<open>Memory\<close> has the limit under interleaved compare-and-swap loops.
  \<^item> \<open>Scan_Inv\<close>, \<open>Scan_Spec\<close>: the cursor registry stays within its bounds, and a scan returns every key that
    stays live exactly once. \<open>Glob\<close>: the matcher decides a declarative semantics.
  \<^item> \<open>Wheel\<close> refines a bag of hints; \<open>Ttl_Spec\<close>: live keys are spared and expired ones reaped.
  \<^item> \<open>Wire_Spec\<close>, \<open>Resp_Prefix\<close>: both codecs round trip against each other, within the limits and from a
    frame's own bytes. \<open>Framing\<close>: the pipeline scan is one-sided.
  \<^item> \<open>Commands_Spec\<close>, \<open>Commands_Frame\<close>, \<open>Store_Contract\<close>, \<open>Keyspace_Spec\<close>: the authentication gate, refusals
    before the store, replies that encode, and what a key is bound to while connections interleave.
  \<^item> \<open>Serve_Spec\<close>: batching is invisible and bounded; \<open>Transport_Spec\<close>: the connection limit, and what a
    shutdown can miss.
  \<^item> \<open>Client_Pool_Spec\<close>, \<open>Client_Conn_Spec\<close>, \<open>Client_Spec\<close>: nobody reads another caller's reply, the ceiling
    holds, retries are disciplined, dialing ends. \<open>Client_Wire\<close>: set and get, and the handshake, end to end.
  \<^item> \<open>Config_Spec\<close>, \<open>Boot_Spec\<close>: an accepted configuration boots, is enforced as written and can hold its
    largest value. \<open>Watch_Spec\<close>, \<open>Certificates\<close>, \<open>Admin_Spec\<close>, \<open>Daemon\<close>: only accepted configurations are
    handed out, a rotation keeps serving, the admin API gives nothing away, and the process leaves
    nothing behind.
  \<^item> \<open>Ctl_Args_Spec\<close>, \<open>Ctl_Spec\<close>, \<open>Ctl_Wire\<close>: flags are found anywhere, the exit code can be gone by, a scan
    is printed whole, and what one invocation sets another prints.

  \<^bold>\<open>Interfaces.\<close> A locale states each contract one component relies on, and is interpreted on the code
  that provides it: \<open>expiring_map\<close> (shard and engine), \<open>eviction_policy\<close> (the LRU controller behind
  admission), \<open>ttl_keyspace\<close> (the engine under the wheel), \<open>binding_store\<close> (the engine behind the
  commands), \<open>kv_sdk\<close> (the client and the server behind \<open>atlasctl\<close>).

  \<^bold>\<open>Conventions and bounds.\<close> A \<open>uint64\<close> or \<open>uint32\<close> is a word; an \<open>int\<close>, \<open>int64\<close> or \<open>time.Duration\<close> is an \<open>int\<close>,
  wrapped by \<open>i64\<close> where the code may overflow; bytes are \<open>char\<close>. What the code cannot know is an
  argument: clock readings, the order of a Go map, the order \<open>sort.Slice\<close> leaves ties in, random
  bytes, xxhash, SHA-256, Unicode tables, float formatting, \<open>net.ParseIP\<close>, x509, viper's and the
  file system's answers. An error is a value of a sum or an option; a read that blocks and a call
  that never returns are values too (\<open>Blocks\<close>, \<open>None\<close>). Concurrency is an inductive step relation
  whose steps are the critical sections, with invariants over the reachable states. Recursion ends
  by a measure everywhere but in the scan of \<open>atlasctl\<close>, which is a partial function, and its
  theorem says exactly when it returns; no definition runs on fuel. Where a witness needs it, a
  theorem is applied at concrete states (\<open>demo_node\<close>, \<open>plain_env\<close>, \<open>plain_ctl\<close>).

  \<^bold>\<open>Not modelled.\<close> Sockets, TLS handshakes, file watching by the kernel and JSON and YAML text, which are
  the libraries'; logging (\<open>internal/logging\<close>) and request logs; reading \<open>/proc\<close> (\<open>procmem.go\<close>), whose last
  sample is an argument of \<open>Info\<close> and \<open>Admin\<close>; the goroutine, timer and channels around \<open>catch_up\<close>; the
  examples, the end-to-end tests and the repository's own tools.
\<close>

end
